(* ===== verification/Base.thy ===== *)
theory Base
  imports Main "HOL-Library.Word"
begin

text \<open>
  The prelude of the development: the bytes and integers of the C++ code, the results of
  calls that can fail, the maps that keep their first entry (\<open>std::unordered_map::emplace\<close>),
  and the interface \<open>first_wins\<close> that every registry of the server implements.
\<close>

section \<open>Collections of rules\<close>

named_theorems conv_simps \<open>conversions between the integer types of the code\<close>
named_theorems reg_simps \<open>what a registry answers after an insertion\<close>

section \<open>Bytes\<close>

type_synonym byte = "8 word"
type_synonym bytes = "byte list"

text \<open>\<open>std::string::c_str\<close> read as a C string: everything up to the first NUL byte.\<close>

definition c_str :: "bytes \<Rightarrow> bytes" where
  "c_str s = takeWhile (\<lambda>b. b \<noteq> 0) s"

lemma c_str_id_iff: "c_str s = s \<longleftrightarrow> 0 \<notin> set s"
  by (auto simp: c_str_def takeWhile_eq_all_conv)

lemma c_str_no_nul [simp]: "0 \<notin> set (c_str s)"
  by (auto simp: c_str_def dest: set_takeWhileD)

section \<open>Signed machine integers\<close>

text \<open>
  A value of \<open>int32_t\<close> or \<open>int64_t\<close> is an \<^typ>\<open>int\<close> within the bounds of its type.
  A conversion keeps the low bits (\<open>to_int32\<close>); signed arithmetic that leaves the bounds is
  undefined behaviour and is written as a failing branch where the code can reach it.
\<close>

definition in_int32 :: "int \<Rightarrow> bool" where
  "in_int32 i \<longleftrightarrow> - (2 ^ 31) \<le> i \<and> i < 2 ^ 31"

definition in_int64 :: "int \<Rightarrow> bool" where
  "in_int64 i \<longleftrightarrow> - (2 ^ 63) \<le> i \<and> i < 2 ^ 63"

definition to_int32 :: "int \<Rightarrow> int" where
  "to_int32 i = (i + 2 ^ 31) mod 2 ^ 32 - 2 ^ 31"

lemma to_int32_in [simp]: "in_int32 (to_int32 i)"
proof -
  have "0 \<le> (i + 2 ^ 31) mod 2 ^ 32" "(i + 2 ^ 31) mod 2 ^ 32 < (2 ^ 32 :: int)"
    by simp_all
  then show ?thesis by (simp add: to_int32_def in_int32_def)
qed

lemma to_int32_id [conv_simps]: "in_int32 i \<Longrightarrow> to_int32 i = i"
  by (simp add: to_int32_def in_int32_def)

lemma to_int32_to_int32 [simp]: "to_int32 (to_int32 i) = to_int32 i"
  by (simp add: to_int32_id)

lemma to_int32_mod: "to_int32 i mod 2 ^ 32 = i mod 2 ^ 32"
  unfolding to_int32_def using mod_diff_left_eq [of "i + 2 ^ 31" "2 ^ 32" "2 ^ 31"] by simp

lemma to_int32_cong: "a mod 2 ^ 32 = b mod 2 ^ 32 \<Longrightarrow> to_int32 a = to_int32 b"
  unfolding to_int32_def by (metis mod_add_left_eq)

lemma to_int32_add: "to_int32 (to_int32 a + b) = to_int32 (a + b)"
  by (rule to_int32_cong) (metis to_int32_mod mod_add_left_eq)

section \<open>Results\<close>

text \<open>
  What a call of the code can end in beside its value: undefined behaviour (with the operation
  that has it) or a C++ exception derived from \<open>std::exception\<close>.
\<close>

datatype err = UB string | Thrown string

type_synonym 'a res = "err + 'a"

fun bind_res :: "'a res \<Rightarrow> ('a \<Rightarrow> 'b res) \<Rightarrow> 'b res" where
  "bind_res (Inl e) f = Inl e"
| "bind_res (Inr x) f = f x"

lemma bind_res_Inr_iff: "bind_res m f = Inr y \<longleftrightarrow> (\<exists>x. m = Inr x \<and> f x = Inr y)"
  by (cases m) auto

lemma bind_res_Inl_iff: "bind_res m f = Inl e \<longleftrightarrow> m = Inl e \<or> (\<exists>x. m = Inr x \<and> f x = Inl e)"
  by (cases m) auto

lemma bind_res_assoc: "bind_res (bind_res m f) g = bind_res m (\<lambda>x. bind_res (f x) g)"
  by (cases m) auto

section \<open>Maps that keep the first entry\<close>

text \<open>\<open>emplace\<close> of the C++ maps: an entry that is there already stays.\<close>

definition emplace :: "'k \<Rightarrow> 'v \<Rightarrow> ('k \<rightharpoonup> 'v) \<Rightarrow> ('k \<rightharpoonup> 'v)" where
  "emplace k v m = (case m k of None \<Rightarrow> m(k \<mapsto> v) | Some _ \<Rightarrow> m)"

lemma emplace_apply [reg_simps]:
  "emplace k v m k' = (if k' = k \<and> m k = None then Some v else m k')"
  by (simp add: emplace_def split: option.splits)

lemma dom_emplace [simp]: "dom (emplace k v m) = insert k (dom m)"
  by (auto simp: emplace_def split: option.splits)

text \<open>
  The interface of a registry: \<open>put\<close> stores under a key, \<open>get\<close> looks it up, and the first
  entry under a key wins.
\<close>

locale first_wins =
  fixes put :: "'k \<Rightarrow> 'v \<Rightarrow> 's \<Rightarrow> 's"
    and get :: "'s \<Rightarrow> 'k \<Rightarrow> 'v option"
  assumes get_put: "get (put k v s) k' = (if k' = k \<and> get s k = None then Some v else get s k')"
begin

lemma get_put_same: "get (put k v s) k = Some (case get s k of None \<Rightarrow> v | Some u \<Rightarrow> u)"
  by (simp add: get_put split: option.splits)

lemma get_put_keeps: "get s k' = Some u \<Longrightarrow> get (put k v s) k' = Some u"
  by (auto simp: get_put)

lemma get_put_other: "k' \<noteq> k \<Longrightarrow> get (put k v s) k' = get s k'"
  by (simp add: get_put)

lemma get_fold_put:
  "get (fold (\<lambda>(k, v). put k v) kvs s) k = (case get s k of None \<Rightarrow> map_of kvs k | Some u \<Rightarrow> Some u)"
proof (induction kvs arbitrary: s)
  case Nil
  then show ?case by (simp split: option.splits)
next
  case (Cons kv kvs)
  then show ?case by (cases kv) (auto simp: get_put split: option.splits)
qed

end

end
