(* ===== verification/Outcome.thy ===== *)
theory Outcome
  imports Base
begin

text \<open>
  Reasoning about results: \<open>post A P m\<close> says that \<open>m\<close> gives a value with \<open>P\<close>, or fails with an error
  that \<open>A\<close> allows. It distributes over the composition of calls, so the simplifier turns a claim
  about an operation into claims about the states it ends in.
\<close>

definition post :: "(err \<Rightarrow> bool) \<Rightarrow> ('a \<Rightarrow> bool) \<Rightarrow> 'a res \<Rightarrow> bool" where
  "post A P m \<longleftrightarrow> (case m of Inl e \<Rightarrow> A e | Inr x \<Rightarrow> P x)"

lemma post_simps [simp]: "post A P (Inl e) = A e" "post A P (Inr x) = P x"
  by (simp_all add: post_def)

lemma post_bind [simp]: "post A Q (bind_res m f) = post A (\<lambda>x. post A Q (f x)) m"
  by (cases m) simp_all

lemma post_conseq: "post A P m \<Longrightarrow> (\<And>x. P x \<Longrightarrow> Q x) \<Longrightarrow> post A Q m"
  by (cases m) simp_all

lemma post_seq: "post A P m \<Longrightarrow> (\<And>x. P x \<Longrightarrow> post A Q (f x)) \<Longrightarrow> post A Q (bind_res m f)"
  by (auto intro: post_conseq)

lemma post_if [simp]: "post A P (if c then m else n) \<longleftrightarrow> (c \<longrightarrow> post A P m) \<and> (\<not> c \<longrightarrow> post A P n)"
  by simp

lemma post_Inr: "post A P m \<Longrightarrow> m = Inr x \<Longrightarrow> P x"
  by simp

lemma post_Inl: "post A P m \<Longrightarrow> m = Inl e \<Longrightarrow> A e"
  by simp

end
