(* ===== verification/Float32.thy ===== *)
theory Float32
  imports Base
begin

text \<open>
  The type \<open>float\<close> of the code (IEEE 754 binary32, round to nearest even). Every finite value
  is a whole multiple of the smallest subnormal \<open>2^-149\<close>, so \<open>Fin k\<close> stands for \<open>k * 2^-149\<close>
  and the arithmetic is exact integer arithmetic followed by one rounding to 24 significant
  bits. The sign of a zero is not kept: no operation of the code observes it.
\<close>

section \<open>Values and rounding\<close>

datatype flt = Fin int | Inf bool | NaN

fun nbits :: "nat \<Rightarrow> nat" where
  "nbits n = (if n = 0 then 0 else Suc (nbits (n div 2)))"

declare nbits.simps [simp del]

lemma nbits_0 [simp]: "nbits 0 = 0"
  by (simp add: nbits.simps)

lemma nbits_lower: "0 < n \<Longrightarrow> 2 ^ (nbits n - 1) \<le> n"
proof (induction n rule: nbits.induct)
  case (1 n)
  show ?case
  proof (cases "n div 2 = 0")
    case True
    with "1.prems" have "n = 1" by arith
    then show ?thesis by (simp add: nbits.simps)
  next
    case False
    with "1.IH" "1.prems" have ih: "2 ^ (nbits (n div 2) - 1) \<le> n div 2" by simp
    from False have "nbits (n div 2) = Suc (nbits (n div 2) - 1)"
      by (subst nbits.simps) (simp add: nbits.simps [of "n div 2"])
    then have "2 ^ nbits (n div 2) = 2 * 2 ^ (nbits (n div 2) - 1)"
      by (metis power_Suc)
    also have "\<dots> \<le> 2 * (n div 2)" using ih by simp
    also have "\<dots> \<le> n" by simp
    finally show ?thesis using "1.prems" by (simp add: nbits.simps [of n])
  qed
qed

text \<open>
  One rounding: a magnitude below \<open>2^24\<close> is exact; otherwise the low \<open>n\<close> bits are rounded away,
  halves to even, and a magnitude of \<open>2^277\<close> or more (\<open>2^128\<close> as a number) overflows.
\<close>

definition round_mag :: "nat \<Rightarrow> nat" where
  "round_mag m =
     (if m < 2 ^ 24 then m
      else let n = nbits m - 24; q = m div 2 ^ n; r = m mod 2 ^ n; h = 2 ^ (n - 1)
           in (if h < r \<or> (r = h \<and> odd q) then q + 1 else q) * 2 ^ n)"

definition round_flt :: "int \<Rightarrow> flt" where
  "round_flt k =
     (let m = round_mag (nat \<bar>k\<bar>)
      in if 2 ^ 277 \<le> m then Inf (k < 0) else Fin (sgn k * int m))"

lemma round_mag_pos: "0 < m \<Longrightarrow> 0 < round_mag m"
proof -
  assume m: "0 < m"
  show "0 < round_mag m"
  proof (cases "m < 2 ^ 24")
    case True
    with m show ?thesis by (simp add: round_mag_def)
  next
    case False
    let ?n = "nbits m - 24"
    have "(2::nat) ^ ?n \<le> 2 ^ (nbits m - 1)" by simp
    also have "\<dots> \<le> m" using m by (rule nbits_lower)
    finally have "0 < m div 2 ^ ?n" by (simp add: div_greater_zero_iff)
    with False show ?thesis by (simp add: round_mag_def Let_def)
  qed
qed

lemma round_flt_exact: "\<bar>k\<bar> < 2 ^ 24 \<Longrightarrow> round_flt k = Fin k"
proof -
  assume k: "\<bar>k\<bar> < 2 ^ 24"
  then have "nat \<bar>k\<bar> < 2 ^ 24" by (simp add: nat_less_iff)
  moreover from this have "nat \<bar>k\<bar> < 2 ^ 277" by (rule less_le_trans) simp
  ultimately show ?thesis
    by (simp add: round_flt_def round_mag_def Let_def mult_sgn_abs)
qed

lemma round_flt_0 [simp]: "round_flt 0 = Fin 0"
  by (rule round_flt_exact) simp

lemma round_flt_eq_0_iff: "round_flt k = Fin 0 \<longleftrightarrow> k = 0"
proof
  assume r: "round_flt k = Fin 0"
  show "k = 0"
  proof (rule ccontr)
    assume k: "k \<noteq> 0"
    then have "0 < round_mag (nat \<bar>k\<bar>)" by (intro round_mag_pos) simp
    with r k show False
      by (auto simp: round_flt_def Let_def sgn_if split: if_splits)
  qed
qed simp

lemma round_flt_not_NaN [simp]: "round_flt k \<noteq> NaN"
  by (simp add: round_flt_def Let_def)

section \<open>The operations the code uses\<close>

fun flt_neg :: "flt \<Rightarrow> flt" where
  "flt_neg (Fin a) = Fin (- a)"
| "flt_neg (Inf s) = Inf (\<not> s)"
| "flt_neg NaN = NaN"

fun flt_add :: "flt \<Rightarrow> flt \<Rightarrow> flt" where
  "flt_add (Fin a) (Fin b) = round_flt (a + b)"
| "flt_add NaN _ = NaN"
| "flt_add _ NaN = NaN"
| "flt_add (Inf s) (Inf t) = (if s = t then Inf s else NaN)"
| "flt_add (Inf s) _ = Inf s"
| "flt_add _ (Inf s) = Inf s"

definition flt_sub :: "flt \<Rightarrow> flt \<Rightarrow> flt" where
  "flt_sub a b = flt_add a (flt_neg b)"

fun flt_abs :: "flt \<Rightarrow> flt" where
  "flt_abs (Fin a) = Fin \<bar>a\<bar>"
| "flt_abs (Inf _) = Inf False"
| "flt_abs NaN = NaN"

fun flt_less :: "flt \<Rightarrow> flt \<Rightarrow> bool" where
  "flt_less (Fin a) (Fin b) \<longleftrightarrow> a < b"
| "flt_less NaN _ \<longleftrightarrow> False"
| "flt_less _ NaN \<longleftrightarrow> False"
| "flt_less (Inf s) (Inf t) \<longleftrightarrow> s \<and> \<not> t"
| "flt_less (Inf s) _ \<longleftrightarrow> s"
| "flt_less _ (Inf s) \<longleftrightarrow> \<not> s"

text \<open>The number of units in \<open>1.0\<close>.\<close>

definition one_units :: int where
  "one_units = 2 ^ 149"

lemma one_units_simps [simp]:
  "0 < one_units" "one_units \<noteq> 0" "\<bar>one_units\<bar> = one_units" "sgn one_units = 1"
  by (simp_all add: one_units_def)

definition flt_of_int :: "int \<Rightarrow> flt" where
  "flt_of_int i = round_flt (i * one_units)"

text \<open>
  \<open>int32_t(f)\<close> truncates towards zero; when the truncated value does not fit, the conversion
  is undefined behaviour (\<open>None\<close>).
\<close>

definition trunc_units :: "int \<Rightarrow> int" where
  "trunc_units k = sgn k * (\<bar>k\<bar> div one_units)"

fun flt_to_int32 :: "flt \<Rightarrow> int option" where
  "flt_to_int32 (Fin k) = (if in_int32 (trunc_units k) then Some (trunc_units k) else None)"
| "flt_to_int32 (Inf _) = None"
| "flt_to_int32 NaN = None"

text \<open>A whole number as a float, for the numbers the code writes down (\<open>0\<close>, \<open>30.0\<close>).\<close>

definition flt_whole :: "int \<Rightarrow> flt" where
  "flt_whole i = Fin (i * one_units)"

lemma trunc_units_whole [simp]: "trunc_units (i * one_units) = i"
  by (simp add: trunc_units_def abs_mult sgn_mult mult_sgn_abs)

lemma flt_to_int32_whole [conv_simps]: "in_int32 i \<Longrightarrow> flt_to_int32 (flt_whole i) = Some i"
  by (simp add: flt_whole_def)

lemma flt_to_int32_in: "flt_to_int32 f = Some i \<Longrightarrow> in_int32 i"
  by (cases f) (auto split: if_splits)

lemma flt_less_zero_abs_sub:
  "flt_less (Fin 0) (flt_abs (flt_sub (Fin a) (Fin b))) \<longleftrightarrow> a \<noteq> b"
proof (cases "round_flt (a - b)")
  case (Fin c)
  then have "c = 0 \<longleftrightarrow> a = b" using round_flt_eq_0_iff [of "a - b"] by auto
  with Fin show ?thesis by (auto simp: flt_sub_def)
next
  case (Inf s)
  then have "a \<noteq> b" by (metis diff_self flt.distinct(1) round_flt_0)
  with Inf show ?thesis by (simp add: flt_sub_def)
qed simp

section \<open>Whole numbers below \<open>2^24\<close> are exact\<close>

lemma nbits_shift: "0 < m \<Longrightarrow> nbits (m * 2 ^ k) = nbits m + k"
proof (induction k)
  case (Suc k)
  then show ?case by (subst nbits.simps) (simp add: mult.left_commute)
qed simp

lemma nbits_le: "m < 2 ^ n \<Longrightarrow> nbits m \<le> n"
proof (cases "m = 0")
  case False
  assume "m < 2 ^ n"
  with False nbits_lower [of m] have "(2::nat) ^ (nbits m - 1) < 2 ^ n" by linarith
  then have "nbits m - 1 < n" by (simp only: power_strict_increasing_iff one_less_numeral_iff semiring_norm)
  then show ?thesis by simp
qed simp

lemma round_mag_shift:
  assumes "m < 2 ^ 24" "24 \<le> k"
  shows "round_mag (m * 2 ^ k) = m * 2 ^ k"
proof (cases "m * 2 ^ k < 2 ^ 24")
  case False
  then have m: "0 < m" by (cases m) simp_all
  let ?n = "nbits m + k - 24"
  have n: "?n \<le> k" "nbits (m * 2 ^ k) - 24 = ?n"
    using nbits_le [OF assms(1)] nbits_shift [OF m] by simp_all
  then obtain d where k: "k = ?n + d" by (metis le_add_diff_inverse)
  have dvd: "2 ^ ?n dvd m * 2 ^ k" using n(1) by (simp add: le_imp_power_dvd)
  then have "m * 2 ^ k mod 2 ^ ?n = 0" "m * 2 ^ k div 2 ^ ?n * 2 ^ ?n = m * 2 ^ k" by auto
  with False n(2) show ?thesis by (simp add: round_mag_def Let_def)
qed (simp add: round_mag_def)

lemma round_flt_whole:
  assumes "\<bar>i\<bar> < 2 ^ 24"
  shows "round_flt (i * one_units) = flt_whole i"
proof -
  have e: "nat \<bar>i * one_units\<bar> = nat \<bar>i\<bar> * 2 ^ 149"
    by (simp add: abs_mult nat_mult_distrib one_units_def nat_power_eq)
  have m: "nat \<bar>i\<bar> < 2 ^ 24" using assms by (simp add: nat_less_iff)
  have r: "round_mag (nat \<bar>i\<bar> * 2 ^ 149) = nat \<bar>i\<bar> * 2 ^ 149"
    using m by (rule round_mag_shift) simp
  have "nat \<bar>i\<bar> * 2 ^ 149 < 2 ^ 24 * 2 ^ 149" using m by (rule mult_strict_right_mono) simp
  also have "(2::nat) ^ 24 * 2 ^ 149 = 2 ^ (24 + 149)" by (rule power_add [symmetric])
  also have "\<dots> \<le> (2::nat) ^ 277" by (rule power_increasing) simp_all
  finally have b: "\<not> 2 ^ 277 \<le> nat \<bar>i\<bar> * 2 ^ 149" by (simp only: not_le)
  have s: "sgn (i * one_units) * int (nat \<bar>i\<bar> * 2 ^ 149) = i * one_units"
    by (simp add: one_units_def sgn_mult mult_sgn_abs ac_simps) (metis mult.commute mult_sgn_abs)
  show ?thesis
    unfolding round_flt_def e r Let_def flt_whole_def using b s by (simp only: if_False)
qed

lemma flt_of_int_whole: "\<bar>i\<bar> < 2 ^ 24 \<Longrightarrow> flt_of_int i = flt_whole i"
  by (simp add: flt_of_int_def round_flt_whole)

lemma flt_add_whole: "\<bar>i + j\<bar> < 2 ^ 24 \<Longrightarrow> flt_add (flt_whole i) (flt_whole j) = flt_whole (i + j)"
  using round_flt_whole [of "i + j"] by (simp add: flt_whole_def distrib_right)

end
