(* ===== verification/Proto.thy ===== *)
theory Proto
  imports Base Float32
begin

text \<open>
  The data of the protocol buffers the server is built on (Asset/P_Asset.proto,
  Asset/P_Protocol.proto, P_Server.proto): enums as datatypes with their numbers, messages as
  records. An \<open>optional\<close> field is an option; the generated getter is a definition that gives the
  field's default when it is not set. The field \<open>type_t\<close> of a configuration or protocol message is left
  out: it is taken to hold the default of its class, which is what the code reads of it. The wire format is a parameter
  of the code's model (record \<open>codec\<close> of theory Proto_Messages), which theory Wire_Schema instantiates.
\<close>

section \<open>Enums of P_Asset.proto\<close>

datatype entity_type =
  ENTITY_TYPE_NULL | ENTITY_TYPE_PLAYER | ENTITY_TYPE_HOST | ENTITY_TYPE_NPC
| ENTITY_TYPE_BUILDING | ENTITY_TYPE_SEA | ENTITY_TYPE_AIR | ENTITY_TYPE_LAND
| ENTITY_TYPE_PARTICLE

datatype gender_type = GENDER_TYPE_MAN | GENDER_TYPE_WOMAN

datatype camp_type = CAMP_TYPE_NULL | CAMP_TYPE_HUMON

datatype prof_type =
  PROF_TYPE_NULL | PROF_TYPE_FARMER | PROF_TYPE_FARMER_HOSTER | PROF_TYPE_FARMER_AND_HOSTER
| PROF_TYPE_COWBOY | PROF_TYPE_BOUNTY_HUNTER

datatype action_state =
  ACTION_STATE_IDLE | ACTION_STATE_MOVE | ACTION_STATE_RUN | ACTION_STATE_RIDE | ACTION_STATE_FIGHT

fun action_state_number :: "action_state \<Rightarrow> int" where
  "action_state_number ACTION_STATE_IDLE = 1"
| "action_state_number ACTION_STATE_MOVE = 2"
| "action_state_number ACTION_STATE_RUN = 3"
| "action_state_number ACTION_STATE_RIDE = 4"
| "action_state_number ACTION_STATE_FIGHT = 5"

datatype inventory_type =
  INVENTORY_TYPE_BACKPACKAGE | INVENTORY_TYPE_EQUIPMENT | INVENTORY_TYPE_FASHION
| INVENTORY_TYPE_COUNT

fun inventory_type_number :: "inventory_type \<Rightarrow> nat" where
  "inventory_type_number INVENTORY_TYPE_BACKPACKAGE = 1"
| "inventory_type_number INVENTORY_TYPE_EQUIPMENT = 2"
| "inventory_type_number INVENTORY_TYPE_FASHION = 3"
| "inventory_type_number INVENTORY_TYPE_COUNT = 4"

text \<open>
  The descriptor of the enum: its values in the order of declaration, each with the option
  \<open>inventory_size\<close> (\<open>0\<close> where it is not set).
\<close>

definition inventory_type_descriptor :: "(inventory_type \<times> nat) list" where
  "inventory_type_descriptor =
     [(INVENTORY_TYPE_BACKPACKAGE, 64), (INVENTORY_TYPE_EQUIPMENT, 6),
      (INVENTORY_TYPE_FASHION, 16), (INVENTORY_TYPE_COUNT, 0)]"

datatype asset_type =
  ASSET_TYPE_BEGIN | ASSET_TYPE_PLANT | ASSET_TYPE_COMMON_LIMIT | ASSET_TYPE_COMMON_REWARD
| ASSET_TYPE_COOL_DOWN | ASSET_TYPE_HOSTER | ASSET_TYPE_SKILL | ASSET_TYPE_LEVEL_UP
| ASSET_TYPE_SCENE | ASSET_TYPE_PARTICLE | ASSET_TYPE_COUNT
| ITEM_TYPE_BEGIN | ITEM_TYPE_POTION | ITEM_TYPE_EQUIPMENT | ITEM_TYPE_GUN

fun asset_type_number :: "asset_type \<Rightarrow> int" where
  "asset_type_number ASSET_TYPE_BEGIN = 1"
| "asset_type_number ASSET_TYPE_PLANT = 2"
| "asset_type_number ASSET_TYPE_COMMON_LIMIT = 3"
| "asset_type_number ASSET_TYPE_COMMON_REWARD = 4"
| "asset_type_number ASSET_TYPE_COOL_DOWN = 5"
| "asset_type_number ASSET_TYPE_HOSTER = 6"
| "asset_type_number ASSET_TYPE_SKILL = 7"
| "asset_type_number ASSET_TYPE_LEVEL_UP = 8"
| "asset_type_number ASSET_TYPE_SCENE = 9"
| "asset_type_number ASSET_TYPE_PARTICLE = 10"
| "asset_type_number ASSET_TYPE_COUNT = 200"
| "asset_type_number ITEM_TYPE_BEGIN = 201"
| "asset_type_number ITEM_TYPE_POTION = 202"
| "asset_type_number ITEM_TYPE_EQUIPMENT = 203"
| "asset_type_number ITEM_TYPE_GUN = 204"

section \<open>Messages of P_Asset.proto\<close>

record vector3 =
  v3_x :: "flt option"
  v3_y :: "flt option"
  v3_z :: "flt option"

definition default_vector3 :: vector3 where
  "default_vector3 = \<lparr>v3_x = None, v3_y = None, v3_z = None\<rparr>"

definition opt_get :: "'a \<Rightarrow> 'a option \<Rightarrow> 'a" where
  "opt_get d f = (case f of None \<Rightarrow> d | Some v \<Rightarrow> v)"

lemma opt_get_simps [simp]: "opt_get d None = d" "opt_get d (Some v) = v"
  by (simp_all add: opt_get_def)

definition Vector3_x :: "vector3 \<Rightarrow> flt" where
  "Vector3_x v = opt_get (Fin 0) (v3_x v)"

definition Vector3_y :: "vector3 \<Rightarrow> flt" where
  "Vector3_y v = opt_get (Fin 0) (v3_y v)"

definition Vector3_z :: "vector3 \<Rightarrow> flt" where
  "Vector3_z v = opt_get (Fin 0) (v3_z v)"

record common_prop =
  cp_entity_id :: "int option"
  cp_entity_type :: "entity_type option"
  cp_name :: "bytes option"
  cp_radius :: "flt option"
  cp_height :: "flt option"
  cp_level :: "int option"
  cp_gender :: "gender_type option"
  cp_profession :: "prof_type option"
  cp_speed :: "int option"
  cp_hp :: "int option"
  cp_mp :: "int option"
  cp_orientation_x :: "int option"
  cp_orientation_y :: "int option"
  cp_scene_id :: "int option"
  cp_position :: "vector3 option"
  cp_visibility_range :: "flt option"
  cp_camp_type :: "camp_type option"
  cp_skills_count :: "int option"
  cp_skills :: "int list"
  cp_level_up_id :: "int option"
  cp_action_state_type :: "action_state option"

definition default_common_prop :: common_prop where
  "default_common_prop =
     \<lparr>cp_entity_id = None, cp_entity_type = None, cp_name = None, cp_radius = None,
      cp_height = None, cp_level = None, cp_gender = None, cp_profession = None,
      cp_speed = None, cp_hp = None, cp_mp = None, cp_orientation_x = None,
      cp_orientation_y = None, cp_scene_id = None, cp_position = None,
      cp_visibility_range = None, cp_camp_type = None, cp_skills_count = None,
      cp_skills = [], cp_level_up_id = None, cp_action_state_type = None\<rparr>"

definition CommonProp_entity_id :: "common_prop \<Rightarrow> int" where
  "CommonProp_entity_id p = opt_get 0 (cp_entity_id p)"

definition CommonProp_entity_type :: "common_prop \<Rightarrow> entity_type" where
  "CommonProp_entity_type p = opt_get ENTITY_TYPE_HOST (cp_entity_type p)"

definition CommonProp_level :: "common_prop \<Rightarrow> int" where
  "CommonProp_level p = opt_get 1 (cp_level p)"

definition CommonProp_gender :: "common_prop \<Rightarrow> gender_type" where
  "CommonProp_gender p = opt_get GENDER_TYPE_MAN (cp_gender p)"

definition CommonProp_speed :: "common_prop \<Rightarrow> int" where
  "CommonProp_speed p = opt_get 1 (cp_speed p)"

definition CommonProp_scene_id :: "common_prop \<Rightarrow> int" where
  "CommonProp_scene_id p = opt_get 0 (cp_scene_id p)"

definition CommonProp_position :: "common_prop \<Rightarrow> vector3" where
  "CommonProp_position p = opt_get default_vector3 (cp_position p)"

definition CommonProp_visibility_range :: "common_prop \<Rightarrow> flt" where
  "CommonProp_visibility_range p = opt_get (flt_whole 30) (cp_visibility_range p)"

definition CommonProp_action_state_type :: "common_prop \<Rightarrow> action_state" where
  "CommonProp_action_state_type p = opt_get ACTION_STATE_IDLE (cp_action_state_type p)"

datatype version_type = VERSION_TYPE_GLOBAL | VERSION_TYPE_MAINLAND | VERSION_TYPE_TAIWAN

record asset_common_prop =
  ac_global_id :: "int option"
  ac_version :: "version_type option"
  ac_name :: "bytes option"
  ac_show_name :: "bytes option"
  ac_desc :: "bytes option"

definition default_asset_common_prop :: asset_common_prop where
  "default_asset_common_prop =
     \<lparr>ac_global_id = None, ac_version = None, ac_name = None, ac_show_name = None, ac_desc = None\<rparr>"

definition AssetCommonProp_global_id :: "asset_common_prop \<Rightarrow> int" where
  "AssetCommonProp_global_id p = opt_get 0 (ac_global_id p)"

record hoster_asset =
  ho_common_prop :: "asset_common_prop option"
  ho_human_prop :: "common_prop option"
  ho_behaviac_tree_path :: "bytes option"
  ho_build_time :: "int option"
  ho_attack_speed :: "int option"
  ho_produce_entity_id :: "int option"
  ho_produce_entity_speed :: "int option"
  ho_produce_entity_count :: "int option"
  ho_actived :: "bool option"

definition default_hoster_asset :: hoster_asset where
  "default_hoster_asset =
     \<lparr>ho_common_prop = None, ho_human_prop = None, ho_behaviac_tree_path = None,
      ho_build_time = None, ho_attack_speed = None, ho_produce_entity_id = None,
      ho_produce_entity_speed = None, ho_produce_entity_count = None, ho_actived = None\<rparr>"

definition HosterAsset_human_prop :: "hoster_asset \<Rightarrow> common_prop" where
  "HosterAsset_human_prop h = opt_get default_common_prop (ho_human_prop h)"

definition HosterAsset_common_prop :: "hoster_asset \<Rightarrow> asset_common_prop" where
  "HosterAsset_common_prop h = opt_get default_asset_common_prop (ho_common_prop h)"

record scene_asset =
  sa_common_prop :: "asset_common_prop option"
  sa_length :: "int option"
  sa_width :: "int option"
  sa_terrain_path :: "bytes option"

definition default_scene_asset :: scene_asset where
  "default_scene_asset =
     \<lparr>sa_common_prop = None, sa_length = None, sa_width = None, sa_terrain_path = None\<rparr>"

definition SceneAsset_common_prop :: "scene_asset \<Rightarrow> asset_common_prop" where
  "SceneAsset_common_prop s = opt_get default_asset_common_prop (sa_common_prop s)"

record item_common_prop =
  ic_common_prop :: "asset_common_prop option"
  ic_quality :: "int option"
  ic_min_level_limit :: "int option"
  ic_max_level_limit :: "int option"
  ic_pile_max :: "int option"
  ic_count :: "int option"
  ic_batch_use :: "bool option"
  ic_auto_use :: "bool option"
  ic_cool_down_id :: "int option"
  ic_inventory :: "inventory_type option"
  ic_prof_mask :: "prof_type option"

definition default_item_common_prop :: item_common_prop where
  "default_item_common_prop =
     \<lparr>ic_common_prop = None, ic_quality = None, ic_min_level_limit = None,
      ic_max_level_limit = None, ic_pile_max = None, ic_count = None, ic_batch_use = None,
      ic_auto_use = None, ic_cool_down_id = None, ic_inventory = None, ic_prof_mask = None\<rparr>"

definition ItemCommonProp_inventory :: "item_common_prop \<Rightarrow> inventory_type" where
  "ItemCommonProp_inventory p = opt_get INVENTORY_TYPE_BACKPACKAGE (ic_inventory p)"

text \<open>\<open>Asset::Item_Item\<close>, the wrapper every stored item has.\<close>

record item_item =
  ii_type_t :: "asset_type option"
  ii_stuff :: "bytes option"
  ii_stuff_extra :: "bytes option"

definition default_item_item :: item_item where
  "default_item_item = \<lparr>ii_type_t = None, ii_stuff = None, ii_stuff_extra = None\<rparr>"

definition ItemItem_type_t :: "item_item \<Rightarrow> asset_type" where
  "ItemItem_type_t i = opt_get ITEM_TYPE_BEGIN (ii_type_t i)"

section \<open>The other configuration messages\<close>

datatype common_limit_type = COMMON_LIMIT_TYPE_PLANT

datatype cool_down_type =
  COOL_DOWN_TYPE_DAY | COOL_DOWN_TYPE_WEEK | COOL_DOWN_TYPE_MONTH | COOL_DOWN_TYPE_YEAR | COOL_DOWN_TYPE_NEVER

datatype harm_type = HARM_TYPE_HP | HARM_TYPE_MP | HARM_TYPE_SPEED

datatype consume_type = CONSUME_TYPE_EXPERIENCE | CONSUME_TYPE_DIOMAND | CONSUME_TYPE_TIME

datatype potion_type = POTION_TYPE_HEMO | POTION_TYPE_MAGIC | POTION_TYPE_PHYSICAL_STRENGTH

datatype equip_type = EQUIP_TYPE_HELMET

record harm =
  ha_harm_type :: "harm_type option"
  ha_harm_total :: "int option"
  ha_last_time :: "int option"
  ha_harm_per_second :: "int option"
  ha_harm_range :: "int option"
  ha_harm_target :: "entity_type option"

record skill_asset =
  ska_common_prop :: "asset_common_prop option"
  ska_level :: "int option"
  ska_behaviac_tree_path :: "bytes option"
  ska_cool_down_id :: "int option"
  ska_defense :: "int option"
  ska_harm :: "harm option"
  ska_summon_entity_id :: "int option"
  ska_death_harm_total :: "int option"

record consume =
  co_level_up :: "int option"
  co_consume_type :: "consume_type option"
  co_consume_value :: "int option"
  co_entity_id :: "int option"

record particle_asset =
  pa_common_prop :: "asset_common_prop option"
  pa_entity_type :: "entity_type option"
  pa_speed :: "int option"
  pa_orientation_x :: "int option"
  pa_orientation_y :: "int option"
  pa_position :: "vector3 option"

text \<open>
  A loaded configuration message: what \<open>pb::Message*\<close> points to in the asset tables. The
  constructor is the message's class (what \<open>dynamic_cast\<close> asks for), its arguments the fields after
  \<open>type_t\<close>.
\<close>

datatype asset_msg =
  AM_Plant "asset_common_prop option"
| AM_CommonLimit "asset_common_prop option" "common_limit_type option" "cool_down_type option"
| AM_CoolDown "asset_common_prop option" "int option"
| AM_Hoster hoster_asset
| AM_Skill skill_asset
| AM_LevelUpCurve "asset_common_prop option" "int option" "consume list"
| AM_Scene scene_asset
| AM_Particle particle_asset
| AM_ItemPotion "item_common_prop option" "potion_type option" "int option"
| AM_ItemEquipment "item_common_prop option" "equip_type option"

text \<open>The default of field \<open>type_t\<close> of the message's class.\<close>

fun asset_msg_type :: "asset_msg \<Rightarrow> asset_type" where
  "asset_msg_type (AM_Plant _) = ASSET_TYPE_PLANT"
| "asset_msg_type (AM_CommonLimit _ _ _) = ASSET_TYPE_COMMON_LIMIT"
| "asset_msg_type (AM_CoolDown _ _) = ASSET_TYPE_COOL_DOWN"
| "asset_msg_type (AM_Hoster _) = ASSET_TYPE_HOSTER"
| "asset_msg_type (AM_Skill _) = ASSET_TYPE_SKILL"
| "asset_msg_type (AM_LevelUpCurve _ _ _) = ASSET_TYPE_LEVEL_UP"
| "asset_msg_type (AM_Scene _) = ASSET_TYPE_SCENE"
| "asset_msg_type (AM_Particle _) = ASSET_TYPE_PARTICLE"
| "asset_msg_type (AM_ItemPotion _ _ _) = ITEM_TYPE_POTION"
| "asset_msg_type (AM_ItemEquipment _ _) = ITEM_TYPE_EQUIPMENT"

end
