(* ===== verification/Proto_Messages.thy ===== *)
theory Proto_Messages
  imports Proto
begin

text \<open>
  The messages of Asset/P_Protocol.proto (the client protocol and the stored player) and of
  P_Server.proto (the items of the message queue), and the codec of the protobuf library, which
  is a parameter: serialising and parsing are not code of this repository's own.
\<close>

section \<open>The stored player\<close>

record inventory =
  inv_inventory_type :: "inventory_type option"
  inv_items :: "item_item list"

text \<open>The sub-message \<open>Inventories\<close> is the list of its inventories.\<close>

record player_stuff =
  ps_entity_type :: "entity_type option"
  ps_common_prop :: "common_prop option"
  ps_local_zone :: "int option"
  ps_locate_zone :: "int option"
  ps_inventory :: "inventory list option"
  ps_sight_distance :: "flt option option"

definition default_player_stuff :: player_stuff where
  "default_player_stuff =
     \<lparr>ps_entity_type = None, ps_common_prop = None, ps_local_zone = None,
      ps_locate_zone = None, ps_inventory = None, ps_sight_distance = None\<rparr>"

definition PlayerStuff_common_prop :: "player_stuff \<Rightarrow> common_prop" where
  "PlayerStuff_common_prop s = opt_get default_common_prop (ps_common_prop s)"

definition PlayerStuff_inventories :: "player_stuff \<Rightarrow> inventory list" where
  "PlayerStuff_inventories s = opt_get [] (ps_inventory s)"

section \<open>The client protocol\<close>

datatype meta_type =
  META_TYPE_C2S_BEGIN | META_TYPE_C2S_LOGIN | META_TYPE_C2S_SELECT_SERVER
| META_TYPE_C2S_CREATE_PLAYER | META_TYPE_C2S_ENTER_GAME | META_TYPE_C2S_ENTER_SCENE
| META_TYPE_C2S_MOVE | META_TYPE_C2S_COUNT
| META_TYPE_S2C_BEGIN | META_TYPE_S2C_TICKET | META_TYPE_S2C_SERVER_LIST
| META_TYPE_S2C_PLAYERS | META_TYPE_S2C_PLAYER_INFO | META_TYPE_S2C_MUTABLE_PROPERTY
| META_TYPE_S2C_ALTER_ERROR | META_TYPE_S2C_SURROUNDINGS_CHANGED | META_TYPE_S2C_COUNT

fun meta_type_number :: "meta_type \<Rightarrow> int" where
  "meta_type_number META_TYPE_C2S_BEGIN = 1"
| "meta_type_number META_TYPE_C2S_LOGIN = 2"
| "meta_type_number META_TYPE_C2S_SELECT_SERVER = 3"
| "meta_type_number META_TYPE_C2S_CREATE_PLAYER = 4"
| "meta_type_number META_TYPE_C2S_ENTER_GAME = 5"
| "meta_type_number META_TYPE_C2S_ENTER_SCENE = 6"
| "meta_type_number META_TYPE_C2S_MOVE = 7"
| "meta_type_number META_TYPE_C2S_COUNT = 500"
| "meta_type_number META_TYPE_S2C_BEGIN = 501"
| "meta_type_number META_TYPE_S2C_TICKET = 502"
| "meta_type_number META_TYPE_S2C_SERVER_LIST = 503"
| "meta_type_number META_TYPE_S2C_PLAYERS = 504"
| "meta_type_number META_TYPE_S2C_PLAYER_INFO = 505"
| "meta_type_number META_TYPE_S2C_MUTABLE_PROPERTY = 506"
| "meta_type_number META_TYPE_S2C_ALTER_ERROR = 507"
| "meta_type_number META_TYPE_S2C_SURROUNDINGS_CHANGED = 508"
| "meta_type_number META_TYPE_S2C_COUNT = 1000"

lemma meta_type_number_inj: "meta_type_number a = meta_type_number b \<Longrightarrow> a = b"
  by (cases a; cases b; simp)

text \<open>The types are ordered by their numbers: client messages come before server messages.\<close>

instantiation meta_type :: linorder
begin

definition less_eq_meta_type :: "meta_type \<Rightarrow> meta_type \<Rightarrow> bool" where
  "less_eq_meta_type a b \<longleftrightarrow> meta_type_number a \<le> meta_type_number b"

definition less_meta_type :: "meta_type \<Rightarrow> meta_type \<Rightarrow> bool" where
  "less_meta_type a b \<longleftrightarrow> meta_type_number a < meta_type_number b"

instance
  by intro_classes (auto simp: less_eq_meta_type_def less_meta_type_def intro: meta_type_number_inj)

end

record meta =
  me_type_t :: "meta_type option"
  me_stuff :: "bytes option"

definition Meta_type_t :: "meta \<Rightarrow> meta_type" where
  "Meta_type_t m = opt_get META_TYPE_C2S_BEGIN (me_type_t m)"

definition Meta_stuff :: "meta \<Rightarrow> bytes" where
  "Meta_stuff m = opt_get [] (me_stuff m)"

datatype action_type = ACTION_TYPE_ENTER | ACTION_TYPE_LEAVE | ACTION_TYPE_MOVE

text \<open>
  A protocol message object; the constructor is its class. Field \<open>type_t\<close> is kept for \<open>EnterGame\<close> only,
  where the server sets it: everywhere else it reads the default from the descriptor (\<open>proto_type_t\<close>).
\<close>

datatype proto_msg =
  PM_CreatePlayer
| PM_Login "(bytes \<times> bytes) option"
| PM_EnterGame "meta_type option" "int option"
| PM_EnterScene "int option"
| PM_Move "vector3 option"
| PM_PlayerList "player_stuff list"
| PM_PlayerInfo "player_stuff option"
| PM_MutableProperty "int option" "int option" "int option" "vector3 option"
| PM_AlterError "int option" "int option" "int option"
| PM_SurroundingsChanged "action_type option" "int option" "bytes option"
| PM_Account "bytes option" "bytes option"
| PM_LoginResponse "int option"

text \<open>
  The default value of the field named \<open>type_t\<close>; \<open>None\<close> for a message that has no such field.
\<close>

fun proto_type_t :: "proto_msg \<Rightarrow> meta_type option" where
  "proto_type_t PM_CreatePlayer = Some META_TYPE_C2S_CREATE_PLAYER"
| "proto_type_t (PM_Login _) = Some META_TYPE_C2S_LOGIN"
| "proto_type_t (PM_EnterGame _ _) = Some META_TYPE_C2S_ENTER_GAME"
| "proto_type_t (PM_EnterScene _) = Some META_TYPE_C2S_ENTER_SCENE"
| "proto_type_t (PM_Move _) = Some META_TYPE_C2S_MOVE"
| "proto_type_t (PM_PlayerList _) = Some META_TYPE_S2C_PLAYERS"
| "proto_type_t (PM_PlayerInfo _) = Some META_TYPE_S2C_PLAYER_INFO"
| "proto_type_t (PM_MutableProperty _ _ _ _) = Some META_TYPE_S2C_MUTABLE_PROPERTY"
| "proto_type_t (PM_AlterError _ _ _) = Some META_TYPE_S2C_ALTER_ERROR"
| "proto_type_t (PM_SurroundingsChanged _ _ _) = Some META_TYPE_S2C_SURROUNDINGS_CHANGED"
| "proto_type_t (PM_Account _ _) = None"
| "proto_type_t (PM_LoginResponse _) = None"

section \<open>The items of the message queue\<close>

text \<open>\<open>Asset::MsgItem\<close>; field \<open>type\<close> is an \<open>int32\<close> that holds a \<open>MSG_TYPE\<close>.\<close>

record msg_item =
  mi_message_id :: "int option"
  mi_type :: "int option"
  mi_priority :: "int option"
  mi_sender :: "int option"
  mi_receiver :: "int option"
  mi_time :: "int option"
  mi_delay :: "int option"
  mi_content :: "bytes option"

definition default_msg_item :: msg_item where
  "default_msg_item =
     \<lparr>mi_message_id = None, mi_type = None, mi_priority = None, mi_sender = None,
      mi_receiver = None, mi_time = None, mi_delay = None, mi_content = None\<rparr>"

definition MSG_TYPE_AOI_ENTER :: int where "MSG_TYPE_AOI_ENTER = 2"
definition MSG_TYPE_AOI_LEAVE :: int where "MSG_TYPE_AOI_LEAVE = 3"
definition MSG_TYPE_AOI_MOVE :: int where "MSG_TYPE_AOI_MOVE = 4"

lemmas msg_type_defs = MSG_TYPE_AOI_ENTER_def MSG_TYPE_AOI_LEAVE_def MSG_TYPE_AOI_MOVE_def

definition MsgItem_type :: "msg_item \<Rightarrow> int" where
  "MsgItem_type m = opt_get 0 (mi_type m)"

definition MsgItem_priority :: "msg_item \<Rightarrow> int" where
  "MsgItem_priority m = opt_get 10 (mi_priority m)"

definition MsgItem_sender :: "msg_item \<Rightarrow> int" where
  "MsgItem_sender m = opt_get 0 (mi_sender m)"

definition MsgItem_receiver :: "msg_item \<Rightarrow> int" where
  "MsgItem_receiver m = opt_get 0 (mi_receiver m)"

definition MsgItem_time :: "msg_item \<Rightarrow> int" where
  "MsgItem_time m = opt_get 0 (mi_time m)"

definition MsgItem_delay :: "msg_item \<Rightarrow> int" where
  "MsgItem_delay m = opt_get 0 (mi_delay m)"

definition MsgItem_content :: "msg_item \<Rightarrow> bytes" where
  "MsgItem_content m = opt_get [] (mi_content m)"

lemmas msg_item_getters =
  MsgItem_type_def MsgItem_priority_def MsgItem_sender_def MsgItem_receiver_def
  MsgItem_time_def MsgItem_delay_def MsgItem_content_def

section \<open>The codec of the protobuf library\<close>

text \<open>
  \<open>SerializeAsString\<close> and \<open>ParseFromString\<close> of each class. \<open>parse_player\<close> also gives what the object
  holds when its parse failed, because the code uses it then. \<open>parse_proto d s\<close> parses \<open>s\<close> into an
  object of the class of \<open>d\<close>. What a proof uses of the library is a hypothesis of its theorem.
\<close>

record codec =
  ser_common :: "common_prop \<Rightarrow> bytes"
  parse_common :: "bytes \<Rightarrow> common_prop option"
  ser_player :: "player_stuff \<Rightarrow> bytes"
  parse_player :: "bytes \<Rightarrow> bool \<times> player_stuff"
  ser_proto :: "proto_msg \<Rightarrow> bytes"
  parse_proto :: "proto_msg \<Rightarrow> bytes \<Rightarrow> proto_msg option"
  ser_meta :: "meta \<Rightarrow> bytes"
  parse_meta :: "bytes \<Rightarrow> meta option"
  ser_asset :: "asset_msg \<Rightarrow> bytes"

end
