(* ===== verification/Priority_Queue.thy ===== *)
theory Priority_Queue
  imports Proto_Messages "HOL-Library.Multiset"
begin

text \<open>
  PriorityQueue.h: the queue of the message dispatcher. \<open>std::priority_queue\<close> is modelled by the
  list of its elements in the order in which they come to the top; the standard leaves the order
  of equal priorities open, here it is the order of insertion, and the laws of the interface
  \<open>prio_queue\<close> do not depend on it. Every operation runs under the queue's mutex, so each is one
  step.
\<close>

section \<open>The interface\<close>

locale prio_queue =
  fixes key :: "'a \<Rightarrow> 'k :: linorder"
    and push :: "'a \<Rightarrow> 'q \<Rightarrow> 'q"
    and pop :: "'q \<Rightarrow> 'q"
    and top :: "'q \<Rightarrow> 'a option"
    and items :: "'q \<Rightarrow> 'a multiset"
    and invar :: "'q \<Rightarrow> bool"
  assumes items_push: "items (push x q) = add_mset x (items q)"
    and invar_push: "invar q \<Longrightarrow> invar (push x q)"
    and top_None: "top q = None \<longleftrightarrow> items q = {#}"
    and top_in: "top q = Some x \<Longrightarrow> x \<in># items q"
    and top_least: "invar q \<Longrightarrow> top q = Some x \<Longrightarrow> y \<in># items q \<Longrightarrow> key x \<le> key y"
    and items_pop: "top q = Some x \<Longrightarrow> items (pop q) = items q - {#x#}"
    and invar_pop: "invar q \<Longrightarrow> invar (pop q)"
begin

lemma pop_split: "top q = Some x \<Longrightarrow> items q = add_mset x (items (pop q))"
  by (simp add: items_pop top_in)

lemma size_pop: "top q = Some x \<Longrightarrow> size (items q) = Suc (size (items (pop q)))"
  by (simp add: pop_split)

lemma top_pop_mono:
  assumes "invar q" "top q = Some x" "top (pop q) = Some y"
  shows "key x \<le> key y"
proof -
  have "y \<in># items q" using pop_split [OF assms(2)] top_in [OF assms(3)] by simp
  with assms(1,2) show ?thesis by (rule top_least)
qed

lemma two_left: "top q = Some x \<Longrightarrow> 2 \<le> size (items q) \<Longrightarrow> \<exists>y. top (pop q) = Some y"
  using size_pop [of q x] top_None [of "pop q"] by (cases "top (pop q)") auto

lemma top_push_less:
  assumes "invar q" "\<And>y. y \<in># items q \<Longrightarrow> key x < key y"
  shows "top (push x q) = Some x"
proof -
  have "top (push x q) \<noteq> None" by (simp add: top_None items_push)
  then obtain z where z: "top (push x q) = Some z" by blast
  with assms(1) have "key z \<le> key x" by (auto intro: top_least invar_push simp: items_push)
  moreover have "z = x \<or> z \<in># items q" using top_in [OF z] by (simp add: items_push)
  ultimately show ?thesis using z assms(2) by force
qed

end

section \<open>The standard queue\<close>

fun pq_push :: "('a \<Rightarrow> 'k :: linorder) \<Rightarrow> 'a \<Rightarrow> 'a list \<Rightarrow> 'a list" where
  "pq_push key x [] = [x]"
| "pq_push key x (y # ys) = (if key x < key y then x # y # ys else y # pq_push key x ys)"

definition pq_pop :: "'a list \<Rightarrow> 'a list" where
  "pq_pop q = tl q"

definition pq_top :: "'a list \<Rightarrow> 'a option" where
  "pq_top q = (case q of [] \<Rightarrow> None | x # _ \<Rightarrow> Some x)"

definition pq_ordered :: "('a \<Rightarrow> 'k :: linorder) \<Rightarrow> 'a list \<Rightarrow> bool" where
  "pq_ordered key q \<longleftrightarrow> sorted (map key q)"

lemma mset_pq_push [simp]: "mset (pq_push key x q) = add_mset x (mset q)"
  by (induction q) auto

lemma set_pq_push [simp]: "set (pq_push key x q) = insert x (set q)"
  by (metis mset_pq_push set_mset_add_mset_insert set_mset_mset)

lemma pq_ordered_push: "pq_ordered key q \<Longrightarrow> pq_ordered key (pq_push key x q)"
  by (induction q) (auto simp: pq_ordered_def)

interpretation pqi: prio_queue key "pq_push key" pq_pop pq_top mset "pq_ordered key"
  for key :: "'a \<Rightarrow> 'k :: linorder"
proof unfold_locales
  fix x y :: 'a and q
  show "mset (pq_push key x q) = add_mset x (mset q)" by simp
  show "pq_ordered key q \<Longrightarrow> pq_ordered key (pq_push key x q)" by (rule pq_ordered_push)
  show "pq_top q = None \<longleftrightarrow> mset q = {#}" by (auto simp: pq_top_def split: list.splits)
  show "pq_top q = Some x \<Longrightarrow> x \<in># mset q" by (auto simp: pq_top_def split: list.splits)
  show "pq_ordered key q \<Longrightarrow> pq_top q = Some x \<Longrightarrow> y \<in># mset q \<Longrightarrow> key x \<le> key y"
    by (auto simp: pq_top_def pq_ordered_def split: list.splits)
  show "pq_top q = Some x \<Longrightarrow> mset (pq_pop q) = mset q - {#x#}"
    by (auto simp: pq_top_def pq_pop_def split: list.splits)
  show "pq_ordered key q \<Longrightarrow> pq_ordered key (pq_pop q)"
    by (cases q) (auto simp: pq_pop_def pq_ordered_def)
qed

section \<open>The class PriorityQueue\<close>

definition PriorityQueue_Emplace :: "('a \<Rightarrow> 'k :: linorder) \<Rightarrow> 'a \<Rightarrow> 'a list \<Rightarrow> 'a list" where
  "PriorityQueue_Emplace key item q = pq_push key item q"

definition PriorityQueue_Peek :: "'a list \<Rightarrow> 'a res" where
  "PriorityQueue_Peek q =
     (case pq_top q of None \<Rightarrow> Inl (UB ''top of an empty queue'') | Some x \<Rightarrow> Inr x)"

definition PriorityQueue_Pop :: "'a list \<Rightarrow> 'a list res" where
  "PriorityQueue_Pop q =
     (case pq_top q of None \<Rightarrow> Inl (UB ''pop of an empty queue'') | Some _ \<Rightarrow> Inr (pq_pop q))"

text \<open>
  \<open>GetNext\<close> takes a reference to the top, pops, and returns the reference. \<open>top()\<close> refers to the
  first slot of the underlying vector; \<open>pop()\<close> moves the next element into that slot, or, when
  there was only one, destroys it. So the caller reads the element that is on top now.
\<close>

definition PriorityQueue_GetNext :: "'a list \<Rightarrow> ('a \<times> 'a list) res" where
  "PriorityQueue_GetNext q =
     bind_res (PriorityQueue_Peek q) (\<lambda>_.
       bind_res (PriorityQueue_Pop q) (\<lambda>q'.
         case pq_top q' of
           None \<Rightarrow> Inl (UB ''reference to a destroyed element'')
         | Some front \<Rightarrow> Inr (front, q')))"

definition PriorityQueue_Empty :: "'a list \<Rightarrow> bool" where
  "PriorityQueue_Empty q \<longleftrightarrow> q = []"

definition PriorityQueue_Size :: "'a list \<Rightarrow> nat" where
  "PriorityQueue_Size q = length q"

lemma GetNext_simps [simp]:
  "PriorityQueue_GetNext [] = Inl (UB ''top of an empty queue'')"
  "PriorityQueue_GetNext [x] = Inl (UB ''reference to a destroyed element'')"
  "PriorityQueue_GetNext (x # y # q) = Inr (y, y # q)"
  by (simp_all add: PriorityQueue_GetNext_def PriorityQueue_Peek_def PriorityQueue_Pop_def
      pq_top_def pq_pop_def)

section \<open>Properties\<close>

text \<open>
  \<open>Emplace\<close> then \<open>Peek\<close> is a priority queue: nothing is lost or invented, and what \<open>Peek\<close>
  shows is an element of least priority number.
\<close>

theorem PriorityQueue_Emplace_Peek:
  assumes "pq_ordered key q"
  shows "mset (PriorityQueue_Emplace key x q) = add_mset x (mset q) \<and>
    pq_ordered key (PriorityQueue_Emplace key x q) \<and>
    (\<exists>t \<in> insert x (set q). PriorityQueue_Peek (PriorityQueue_Emplace key x q) = Inr t \<and>
       (\<forall>y \<in> insert x (set q). key t \<le> key y))"
proof -
  let ?q = "pq_push key x q"
  have "pq_top ?q \<noteq> None" by (simp add: pqi.top_None)
  then obtain t where t: "pq_top ?q = Some t" by blast
  have "\<forall>y \<in> insert x (set q). key t \<le> key y"
    using pqi.top_least [OF pqi.invar_push [OF assms] t] by simp
  moreover have "t \<in> insert x (set q)" using pqi.top_in [OF t] by simp
  ultimately show ?thesis
    using t assms by (auto simp: PriorityQueue_Emplace_def PriorityQueue_Peek_def pqi.invar_push)
qed

theorem PriorityQueue_Emplace_Peek_witness:
  "PriorityQueue_Peek (PriorityQueue_Emplace (\<lambda>n :: int. n) 3 [5, 9]) = Inr 3 \<and>
   mset (PriorityQueue_Emplace (\<lambda>n :: int. n) 3 [5, 9]) = {#3, 5, 9#}"
  using PriorityQueue_Emplace_Peek [of "\<lambda>n :: int. n" "[5, 9]" 3]
  by (auto simp: pq_ordered_def)

text \<open>
  \<open>GetNext\<close> does not return the element it removes: on two or more elements it removes the
  top one and returns its successor, which stays in the queue; on one element it returns a
  reference to an element that no longer exists.
\<close>

theorem PriorityQueue_GetNext_successor:
  assumes "pq_ordered key q" and "pq_top q = Some x"
  shows "(size (mset q) = 1 \<and>
      PriorityQueue_GetNext q = Inl (UB ''reference to a destroyed element'')) \<or>
    (\<exists>y q'. PriorityQueue_GetNext q = Inr (y, q') \<and> mset q = add_mset x (mset q') \<and>
       y \<in> set q' \<and> key x \<le> key y \<and> pq_ordered key q')"
proof (cases "pq_top (pq_pop q)")
  case None
  then have "mset (pq_pop q) = {#}" by (simp add: pqi.top_None)
  then have "size (mset q) = 1" using pqi.size_pop [OF assms(2)] by simp
  with None assms(2) show ?thesis
    by (simp add: PriorityQueue_GetNext_def PriorityQueue_Peek_def PriorityQueue_Pop_def)
next
  case (Some y)
  have "mset q = add_mset x (mset (pq_pop q))" using assms(2) by (rule pqi.pop_split)
  moreover have "y \<in> set (pq_pop q)" using pqi.top_in [OF Some] by simp
  moreover have "key x \<le> key y" using assms Some by (rule pqi.top_pop_mono)
  ultimately show ?thesis
    using Some assms pqi.invar_pop [OF assms(1)]
    by (auto simp: PriorityQueue_GetNext_def PriorityQueue_Peek_def PriorityQueue_Pop_def)
qed

theorem PriorityQueue_GetNext_successor_witness:
  "PriorityQueue_GetNext [1, 4, 7 :: int] = Inr (4, [4, 7])"
  using PriorityQueue_GetNext_successor [of "\<lambda>n :: int. n" "[1, 4, 7]" 1]
  by (auto simp: pq_ordered_def pq_top_def)

end
