(* ===== verification/Scene_Grid.thy ===== *)
theory Scene_Grid
  imports Proto
begin

text \<open>
  Scene.h and Scene.cpp: a scene keeps, for each axis, a hash map from the whole-number
  coordinate to the set of the entities that stand there, and answers which entities are near a
  point by intersecting the two axes. The order in which a hash set is iterated is left open by
  the standard: it is a parameter of the query (\<open>ex\<close>, \<open>ez\<close>).
\<close>

section \<open>One axis\<close>

type_synonym buckets = "int \<Rightarrow> int set option"

definition bucket_at :: "buckets \<Rightarrow> int \<Rightarrow> int set" where
  "bucket_at m c = (case m c of None \<Rightarrow> {} | Some S \<Rightarrow> S)"

text \<open>\<open>operator[]\<close> creates the bucket it does not find.\<close>

definition bucket_touch :: "int \<Rightarrow> buckets \<Rightarrow> buckets" where
  "bucket_touch c m = m(c \<mapsto> bucket_at m c)"

definition bucket_insert :: "int \<Rightarrow> int \<Rightarrow> buckets \<Rightarrow> buckets" where
  "bucket_insert c i m = m(c \<mapsto> insert i (bucket_at m c))"

definition bucket_erase :: "int \<Rightarrow> int \<Rightarrow> buckets \<Rightarrow> buckets" where
  "bucket_erase c i m = m(c \<mapsto> bucket_at m c - {i})"

text \<open>The interface of an axis, and what moving an entity along it does.\<close>

locale axis_index =
  fixes ins :: "'c \<Rightarrow> 'i \<Rightarrow> 'm \<Rightarrow> 'm"
    and del :: "'c \<Rightarrow> 'i \<Rightarrow> 'm \<Rightarrow> 'm"
    and at :: "'m \<Rightarrow> 'c \<Rightarrow> 'i set"
  assumes at_ins: "at (ins c i m) c' = (if c' = c then insert i (at m c) else at m c')"
    and at_del: "at (del c i m) c' = (if c' = c then at m c - {i} else at m c')"
begin

lemma cells_ins: "{c. i \<in> at (ins c' i m) c} = insert c' {c. i \<in> at m c}"
  by (auto simp: at_ins)

lemma cells_del: "{c. i \<in> at (del c' i m) c} = {c. i \<in> at m c} - {c'}"
  by (auto simp: at_del)

lemma cells_move:
  "{c. i \<in> at (ins c2 i (del c1 i m)) c} = insert c2 ({c. i \<in> at m c} - {c1})"
  by (auto simp: at_ins at_del)

lemma cells_frame:
  "j \<noteq> i \<Longrightarrow> {c. j \<in> at (ins c' i m) c} = {c. j \<in> at m c}"
  "j \<noteq> i \<Longrightarrow> {c. j \<in> at (del c' i m) c} = {c. j \<in> at m c}"
  by (auto simp: at_ins at_del)

lemma ins_repr:
  "(\<And>c j. j \<in> at m c \<longleftrightarrow> f j = Some c) \<Longrightarrow> f i = None \<or> f i = Some c' \<Longrightarrow>
     j \<in> at (ins c' i m) c \<longleftrightarrow> (f(i \<mapsto> c')) j = Some c"
  by (auto simp: at_ins)

lemma del_repr:
  "(\<And>c j. j \<in> at m c \<longleftrightarrow> f j = Some c) \<Longrightarrow> f i = Some c' \<Longrightarrow>
     j \<in> at (del c' i m) c \<longleftrightarrow> (f(i := None)) j = Some c"
  by (auto simp: at_del)

end

lemma bucket_at_touch [simp]: "bucket_at (bucket_touch c m) = bucket_at m"
  by (rule ext) (simp add: bucket_touch_def bucket_at_def)

interpretation axis: axis_index bucket_insert bucket_erase bucket_at
  by unfold_locales (auto simp: bucket_insert_def bucket_erase_def bucket_at_def)

section \<open>The scene\<close>

record scene =
  sc_stuff :: scene_asset
  sc_x_entities :: buckets
  sc_z_entities :: buckets

definition Scene_empty :: scene where
  "Scene_empty = \<lparr>sc_stuff = default_scene_asset, sc_x_entities = Map.empty, sc_z_entities = Map.empty\<rparr>"

definition Scene_of_asset :: "scene_asset \<Rightarrow> scene" where
  "Scene_of_asset scene = Scene_empty\<lparr>sc_stuff := scene\<rparr>"

text \<open>The constructor from an ID: \<open>message\<close> is what the asset table holds under it.\<close>

definition Scene_of_id :: "asset_msg option \<Rightarrow> scene" where
  "Scene_of_id message =
     (case message of Some (AM_Scene s) \<Rightarrow> Scene_empty\<lparr>sc_stuff := s\<rparr> | _ \<Rightarrow> Scene_empty)"

definition Scene_GetID :: "scene \<Rightarrow> int" where
  "Scene_GetID s = AssetCommonProp_global_id (SceneAsset_common_prop (sc_stuff s))"

text \<open>A coordinate as a bucket index: the implicit conversion of a \<open>float\<close> to \<open>int32_t\<close>.\<close>

definition cell_of :: "flt \<Rightarrow> int res" where
  "cell_of f = (case flt_to_int32 f of None \<Rightarrow> Inl (UB ''float to int32_t'') | Some c \<Rightarrow> Inr c)"

lemma cell_of_Inr [simp]: "cell_of f = Inr c \<longleftrightarrow> flt_to_int32 f = Some c"
  by (simp add: cell_of_def split: option.splits)

definition on_axes ::
  "(int \<Rightarrow> buckets \<Rightarrow> buckets) \<Rightarrow> flt \<Rightarrow> flt \<Rightarrow> scene \<Rightarrow> scene res" where
  "on_axes f x z s =
     bind_res (cell_of x) (\<lambda>cx. bind_res (cell_of z) (\<lambda>cz.
       Inr (s\<lparr>sc_x_entities := f cx (sc_x_entities s), sc_z_entities := f cz (sc_z_entities s)\<rparr>)))"

text \<open>
  The index part of \<open>EnterScene\<close> (the entity table is the caller's); \<open>i\<close>, \<open>x\<close>, \<open>z\<close> are what the
  entity's getters return.
\<close>

definition Scene_EnterScene :: "int \<Rightarrow> flt \<Rightarrow> flt \<Rightarrow> scene \<Rightarrow> scene res" where
  "Scene_EnterScene i x z s = on_axes (\<lambda>c. bucket_insert c i) x z s"

definition Scene_LeaveScene :: "int \<Rightarrow> flt \<Rightarrow> flt \<Rightarrow> scene \<Rightarrow> scene res" where
  "Scene_LeaveScene i x z s = on_axes (\<lambda>c. bucket_erase c i) x z s"

text \<open>\<open>UpdatePosition\<close>: \<open>x\<close>, \<open>z\<close> are the entity's coordinates, \<open>position\<close> is the argument.\<close>

definition Scene_UpdatePosition :: "int \<Rightarrow> flt \<Rightarrow> flt \<Rightarrow> vector3 \<Rightarrow> scene \<Rightarrow> scene res" where
  "Scene_UpdatePosition i x z position s =
     bind_res (on_axes (\<lambda>c. bucket_erase c i) x z s)
       (on_axes (\<lambda>c. bucket_insert c i) (Vector3_x position) (Vector3_z position))"

section \<open>The query\<close>

definition MAX_SIGHT_DISTANCE :: int where
  "MAX_SIGHT_DISTANCE = 60"

text \<open>
  The loop \<open>for (xi = x - 60; xi <= x + 60; ++xi)\<close> in \<open>int32_t\<close>: its last increment reaches
  \<open>x + 61\<close>.
\<close>

definition sight_cells :: "int \<Rightarrow> int list res" where
  "sight_cells x =
     (if in_int32 (x - MAX_SIGHT_DISTANCE) \<and> in_int32 (x + MAX_SIGHT_DISTANCE + 1)
      then Inr [x - MAX_SIGHT_DISTANCE..x + MAX_SIGHT_DISTANCE]
      else Inl (UB ''int32_t overflow''))"

fun collect_cells :: "int list \<Rightarrow> buckets \<Rightarrow> int set \<Rightarrow> int set \<times> buckets" where
  "collect_cells [] m acc = (acc, m)"
| "collect_cells (c # cs) m acc = collect_cells cs (bucket_touch c m) (acc \<union> bucket_at m c)"

text \<open>\<open>std::set_intersection\<close>, on the elements in the order of iteration.\<close>

fun set_intersection :: "'a :: linorder list \<Rightarrow> 'a list \<Rightarrow> 'a list" where
  "set_intersection (x # xs) (y # ys) =
     (if x < y then set_intersection xs (y # ys)
      else if y < x then set_intersection (x # xs) ys
      else x # set_intersection xs ys)"
| "set_intersection _ _ = []"

text \<open>The result: the returned size, the vector filled in, and the scene with its new buckets.\<close>

definition Scene_GetNearByEntities ::
  "(int set \<Rightarrow> int list) \<Rightarrow> (int set \<Rightarrow> int list) \<Rightarrow> flt \<Rightarrow> flt \<Rightarrow> scene \<Rightarrow>
     (int \<times> int list \<times> scene) res" where
  "Scene_GetNearByEntities ex ez fx fz s =
     bind_res (cell_of fx) (\<lambda>x. bind_res (cell_of fz) (\<lambda>z.
     bind_res (sight_cells x) (\<lambda>xcells. bind_res (sight_cells z) (\<lambda>zcells.
       let (xs, xm) = collect_cells xcells (sc_x_entities s) {};
           (zs, zm) = collect_cells zcells (sc_z_entities s) {};
           entities = set_intersection (ex xs) (ez zs)
       in Inr (to_int32 (int (length entities)), entities,
               s\<lparr>sc_x_entities := xm, sc_z_entities := zm\<rparr>)))))"

section \<open>Lemmas of the query\<close>

lemma collect_cells_fst: "fst (collect_cells cs m acc) = acc \<union> (\<Union>c \<in> set cs. bucket_at m c)"
  by (induction cs m acc rule: collect_cells.induct) auto

lemma collect_cells_snd [simp]: "bucket_at (snd (collect_cells cs m acc)) = bucket_at m"
  by (induction cs m acc rule: collect_cells.induct) auto

lemma set_intersection_sub: "set (set_intersection xs ys) \<subseteq> set xs \<inter> set ys"
  by (induction xs ys rule: set_intersection.induct) auto

lemma set_intersection_sorted:
  "sorted_wrt (<) xs \<Longrightarrow> sorted_wrt (<) ys \<Longrightarrow>
     set (set_intersection xs ys) = set xs \<inter> set ys \<and> sorted_wrt (<) (set_intersection xs ys)"
proof (induction xs ys rule: set_intersection.induct)
  case (1 x xs y ys)
  consider "x < y" | "y < x" | "x = y" by (rule linorder_cases)
  then show ?case
  proof cases
    case 1
    with "1.prems" have "x \<notin> set (y # ys)" by auto
    with 1 "1.IH"(1) "1.prems" show ?thesis by auto
  next
    case 2
    with "1.prems" have "y \<notin> set (x # xs)" by auto
    with 2 "1.IH"(2) "1.prems" show ?thesis by auto
  next
    case 3
    with "1.prems" have "x \<notin> set xs" "x \<notin> set ys" by auto
    with 3 "1.IH"(3) "1.prems" show ?thesis by auto
  qed
qed simp_all

lemma cell_of_simps [simp]: "flt_to_int32 f = Some c \<Longrightarrow> cell_of f = Inr c"
  by (simp add: cell_of_def)

lemma on_axes_Inr:
  "on_axes f x z s = Inr s' \<longleftrightarrow>
     (\<exists>cx cz. flt_to_int32 x = Some cx \<and> flt_to_int32 z = Some cz \<and>
        s' = s\<lparr>sc_x_entities := f cx (sc_x_entities s), sc_z_entities := f cz (sc_z_entities s)\<rparr>)"
  by (auto simp: on_axes_def bind_res_Inr_iff)

section \<open>The abstract scene\<close>

text \<open>
  What a scene promises: a finite table of the whole-number coordinates of the entities in it.
  \<open>grid_repr\<close> relates the two hash maps to that table and \<open>near_by\<close> is the square the query
  is meant to return.
\<close>

definition axis_repr :: "buckets \<Rightarrow> (int \<Rightarrow> int option) \<Rightarrow> bool" where
  "axis_repr m f \<longleftrightarrow> (\<forall>c j. j \<in> bucket_at m c \<longleftrightarrow> f j = Some c)"

definition grid_repr :: "scene \<Rightarrow> (int \<Rightarrow> (int \<times> int) option) \<Rightarrow> bool" where
  "grid_repr s pos \<longleftrightarrow> finite (dom pos) \<and>
     axis_repr (sc_x_entities s) (\<lambda>i. map_option fst (pos i)) \<and>
     axis_repr (sc_z_entities s) (\<lambda>i. map_option snd (pos i))"

definition near_by :: "(int \<Rightarrow> (int \<times> int) option) \<Rightarrow> int \<Rightarrow> int \<Rightarrow> int set" where
  "near_by pos x z =
     {i. case pos i of None \<Rightarrow> False
         | Some (cx, cz) \<Rightarrow> \<bar>cx - x\<bar> \<le> MAX_SIGHT_DISTANCE \<and> \<bar>cz - z\<bar> \<le> MAX_SIGHT_DISTANCE}"

definition query_safe :: "int \<Rightarrow> bool" where
  "query_safe c \<longleftrightarrow> in_int32 (c - MAX_SIGHT_DISTANCE) \<and> in_int32 (c + MAX_SIGHT_DISTANCE + 1)"

lemma axis_repr_insert:
  "axis_repr m f \<Longrightarrow> f i = None \<Longrightarrow> axis_repr (bucket_insert c i m) (f(i \<mapsto> c))"
  unfolding axis_repr_def using axis.ins_repr [of m f i c] by blast

lemma axis_repr_erase:
  "axis_repr m f \<Longrightarrow> f i = Some c \<Longrightarrow> axis_repr (bucket_erase c i m) (f(i := None))"
  unfolding axis_repr_def using axis.del_repr [of m f i c] by blast

lemma map_option_upd:
  "(\<lambda>j. map_option h ((pos(i := v)) j)) = (\<lambda>j. map_option h (pos j))(i := map_option h v)"
  by auto

lemma grid_repr_insert:
  assumes "grid_repr s pos" "pos i = None"
  shows "grid_repr (s\<lparr>sc_x_entities := bucket_insert cx i (sc_x_entities s),
           sc_z_entities := bucket_insert cz i (sc_z_entities s)\<rparr>) (pos(i \<mapsto> (cx, cz)))"
  using assms axis_repr_insert [of "sc_x_entities s" "\<lambda>j. map_option fst (pos j)" i cx]
    axis_repr_insert [of "sc_z_entities s" "\<lambda>j. map_option snd (pos j)" i cz]
  by (simp add: grid_repr_def map_option_upd del: fun_upd_apply)

lemma grid_repr_erase:
  assumes "grid_repr s pos" "pos i = Some (cx, cz)"
  shows "grid_repr (s\<lparr>sc_x_entities := bucket_erase cx i (sc_x_entities s),
           sc_z_entities := bucket_erase cz i (sc_z_entities s)\<rparr>) (pos(i := None))"
  using assms axis_repr_erase [of "sc_x_entities s" "\<lambda>j. map_option fst (pos j)" i cx]
    axis_repr_erase [of "sc_z_entities s" "\<lambda>j. map_option snd (pos j)" i cz]
  by (simp add: grid_repr_def map_option_upd del: fun_upd_apply)

lemma near_by_cells:
  assumes "grid_repr s pos"
  shows "(\<Union>c \<in> {x - MAX_SIGHT_DISTANCE..x + MAX_SIGHT_DISTANCE}. bucket_at (sc_x_entities s) c) \<inter>
    (\<Union>c \<in> {z - MAX_SIGHT_DISTANCE..z + MAX_SIGHT_DISTANCE}. bucket_at (sc_z_entities s) c) =
    near_by pos x z"
proof -
  have x: "i \<in> bucket_at (sc_x_entities s) c \<longleftrightarrow> (\<exists>cz. pos i = Some (c, cz))"
    and z: "i \<in> bucket_at (sc_z_entities s) c \<longleftrightarrow> (\<exists>cx. pos i = Some (cx, c))" for i c
    using assms by (auto simp: grid_repr_def axis_repr_def)
  show ?thesis
  proof (rule set_eqI)
    fix i
    show "i \<in> (\<Union>c \<in> {x - MAX_SIGHT_DISTANCE..x + MAX_SIGHT_DISTANCE}. bucket_at (sc_x_entities s) c) \<inter>
        (\<Union>c \<in> {z - MAX_SIGHT_DISTANCE..z + MAX_SIGHT_DISTANCE}. bucket_at (sc_z_entities s) c) \<longleftrightarrow>
      i \<in> near_by pos x z"
    proof (cases "pos i")
      case (Some p)
      then have "i \<in> (\<Union>c \<in> A. bucket_at (sc_x_entities s) c) \<longleftrightarrow> fst p \<in> A"
        and "i \<in> (\<Union>c \<in> A. bucket_at (sc_z_entities s) c) \<longleftrightarrow> snd p \<in> A" for A
        unfolding UN_iff x z by (cases p; auto)+
      moreover have "i \<in> near_by pos x z \<longleftrightarrow>
          \<bar>fst p - x\<bar> \<le> MAX_SIGHT_DISTANCE \<and> \<bar>snd p - z\<bar> \<le> MAX_SIGHT_DISTANCE"
        using Some by (simp add: near_by_def case_prod_unfold)
      moreover have "c \<in> {a - d..a + d} \<longleftrightarrow> \<bar>c - a\<bar> \<le> d" for a c d :: int by auto
      ultimately show ?thesis by (simp only: Int_iff)
    qed (simp add: near_by_def x z)
  qed
qed

lemma grid_same:
  "\<lbrakk>bucket_at (sc_x_entities s') = bucket_at (sc_x_entities s); bucket_at (sc_z_entities s') = bucket_at (sc_z_entities s)\<rbrakk> \<Longrightarrow>
     grid_repr s' pos = grid_repr s pos"
  by (simp add: grid_repr_def axis_repr_def)

lemma near_by_finite: "grid_repr s pos \<Longrightarrow> finite (near_by pos x z)"
  by (rule finite_subset [of _ "dom pos"]) (auto simp: near_by_def grid_repr_def split: option.splits)

lemma axis_cells_finite:
  assumes "axis_repr m f" "finite (dom f)"
  shows "finite (\<Union>c \<in> A. bucket_at m c)"
proof (rule finite_subset [OF _ assms(2)])
  show "(\<Union>c \<in> A. bucket_at m c) \<subseteq> dom f" using assms(1) by (auto simp: axis_repr_def)
qed

lemma grid_cells_finite:
  assumes "grid_repr s pos"
  shows "finite (\<Union>c \<in> A. bucket_at (sc_x_entities s) c)"
    and "finite (\<Union>c \<in> A. bucket_at (sc_z_entities s) c)"
  using assms axis_cells_finite [of _ "\<lambda>i. map_option fst (pos i)" A]
    axis_cells_finite [of _ "\<lambda>i. map_option snd (pos i)" A]
  by (simp_all add: grid_repr_def dom_map_option)

lemma query_result:
  assumes "flt_to_int32 fx = Some x" "flt_to_int32 fz = Some z" "query_safe x" "query_safe z"
  shows "\<exists>s'. Scene_GetNearByEntities ex ez fx fz s =
      Inr (to_int32 (int (length (set_intersection
             (ex (\<Union>c \<in> {x - MAX_SIGHT_DISTANCE..x + MAX_SIGHT_DISTANCE}. bucket_at (sc_x_entities s) c))
             (ez (\<Union>c \<in> {z - MAX_SIGHT_DISTANCE..z + MAX_SIGHT_DISTANCE}. bucket_at (sc_z_entities s) c))))),
           set_intersection
             (ex (\<Union>c \<in> {x - MAX_SIGHT_DISTANCE..x + MAX_SIGHT_DISTANCE}. bucket_at (sc_x_entities s) c))
             (ez (\<Union>c \<in> {z - MAX_SIGHT_DISTANCE..z + MAX_SIGHT_DISTANCE}. bucket_at (sc_z_entities s) c)),
           s') \<and>
     bucket_at (sc_x_entities s') = bucket_at (sc_x_entities s) \<and>
     bucket_at (sc_z_entities s') = bucket_at (sc_z_entities s) \<and> sc_stuff s' = sc_stuff s"
  using assms
  by (simp add: Scene_GetNearByEntities_def sight_cells_def query_safe_def case_prod_unfold
      collect_cells_fst)

text \<open>What a query does, in any scene and for any order of iteration.\<close>

lemma query_undefined:
  "flt_to_int32 fx = None \<or> flt_to_int32 fz = None \<Longrightarrow>
     Scene_GetNearByEntities ex ez fx fz s = Inl (UB ''float to int32_t'')"
  "\<lbrakk>flt_to_int32 fx = Some x; flt_to_int32 fz = Some z; \<not> (query_safe x \<and> query_safe z)\<rbrakk> \<Longrightarrow>
     Scene_GetNearByEntities ex ez fx fz s = Inl (UB ''int32_t overflow'')"
  by (cases "flt_to_int32 fx"; auto simp: Scene_GetNearByEntities_def cell_of_def)
    (auto simp: Scene_GetNearByEntities_def sight_cells_def query_safe_def)

lemma query_facts:
  assumes "Scene_GetNearByEntities ex ez fx fz s = Inr (n, es, s')"
  shows "n = to_int32 (int (length es)) \<and> bucket_at (sc_x_entities s') = bucket_at (sc_x_entities s) \<and>
    bucket_at (sc_z_entities s') = bucket_at (sc_z_entities s) \<and> sc_stuff s' = sc_stuff s \<and>
    (\<exists>x z. flt_to_int32 fx = Some x \<and> flt_to_int32 fz = Some z \<and> query_safe x \<and> query_safe z \<and>
      es = set_intersection
        (ex (\<Union>c \<in> {x - MAX_SIGHT_DISTANCE..x + MAX_SIGHT_DISTANCE}. bucket_at (sc_x_entities s) c))
        (ez (\<Union>c \<in> {z - MAX_SIGHT_DISTANCE..z + MAX_SIGHT_DISTANCE}. bucket_at (sc_z_entities s) c)))"
proof -
  obtain x z where xz: "flt_to_int32 fx = Some x" "flt_to_int32 fz = Some z" "query_safe x" "query_safe z"
    using assms query_undefined [where ex = ex and ez = ez and fx = fx and fz = fz and s = s]
    by (metis Inl_Inr_False option.exhaust)
  define es1 where "es1 = set_intersection
        (ex (\<Union>c \<in> {x - MAX_SIGHT_DISTANCE..x + MAX_SIGHT_DISTANCE}. bucket_at (sc_x_entities s) c))
        (ez (\<Union>c \<in> {z - MAX_SIGHT_DISTANCE..z + MAX_SIGHT_DISTANCE}. bucket_at (sc_z_entities s) c))"
  obtain s1 where q: "Scene_GetNearByEntities ex ez fx fz s = Inr (to_int32 (int (length es1)), es1, s1)"
    and same: "bucket_at (sc_x_entities s1) = bucket_at (sc_x_entities s)"
    "bucket_at (sc_z_entities s1) = bucket_at (sc_z_entities s)" "sc_stuff s1 = sc_stuff s"
    using query_result [OF xz, of ex ez s] unfolding es1_def by blast
  have "n = to_int32 (int (length es1))" "es = es1" "s' = s1" using assms unfolding q by auto
  with same xz show ?thesis unfolding es1_def by blast
qed

lemma query_defined:
  assumes "flt_to_int32 fx = Some x" "flt_to_int32 fz = Some z" "query_safe x" "query_safe z"
  shows "\<exists>n es s'. Scene_GetNearByEntities ex ez fx fz s = Inr (n, es, s')"
  using query_result [OF assms, of ex ez s] by blast

lemma set_intersection_distinct: "distinct xs \<Longrightarrow> distinct (set_intersection xs ys)"
proof (induction xs ys rule: set_intersection.induct)
  case (1 x xs y ys)
  have "x \<notin> set (set_intersection xs ys)" using set_intersection_sub [of xs ys] "1.prems" by auto
  with 1 show ?case by auto
qed simp_all

lemma query_distinct:
  assumes "Scene_GetNearByEntities ex ez fx fz s = Inr (n, es, s')" "\<And>A. distinct (ex A)"
  shows "distinct es"
  using query_facts [OF assms(1)] assms(2) set_intersection_distinct by blast

text \<open>Every finite table is represented: the scene that a list of entities has entered.\<close>

fun scene_of :: "(int \<times> int \<times> int) list \<Rightarrow> scene" where
  "scene_of [] = Scene_empty"
| "scene_of ((i, cx, cz) # es) =
     (scene_of es)\<lparr>sc_x_entities := bucket_insert cx i (sc_x_entities (scene_of es)),
        sc_z_entities := bucket_insert cz i (sc_z_entities (scene_of es))\<rparr>"

lemma grid_repr_empty: "grid_repr Scene_empty Map.empty"
  by (simp add: grid_repr_def axis_repr_def Scene_empty_def bucket_at_def)

lemma scene_of_repr: "distinct (map fst es) \<Longrightarrow> grid_repr (scene_of es) (map_of es)"
proof (induction es rule: scene_of.induct)
  case 1
  then show ?case by (simp add: grid_repr_empty)
next
  case (2 i cx cz es)
  then have "map_of es i = None" by (simp add: map_of_eq_None_iff)
  with 2 show ?case using grid_repr_insert [of "scene_of es" "map_of es" i cz cx]
    by (simp del: fun_upd_apply)
qed

lemma whole_simps [simp]:
  "flt_to_int32 (flt_whole 0) = Some 0" "flt_to_int32 (flt_whole 5) = Some 5"
  "query_safe 0" "query_safe 5"
  by (simp_all add: conv_simps in_int32_def query_safe_def MAX_SIGHT_DISTANCE_def)

text \<open>The result when the sets happen to be iterated in ascending order, as in the examples below.\<close>

lemma GetNearBy_exact:
  assumes "grid_repr s pos"
    and "flt_to_int32 fx = Some x" "flt_to_int32 fz = Some z" "query_safe x" "query_safe z"
  shows "\<exists>s'. Scene_GetNearByEntities sorted_list_of_set sorted_list_of_set fx fz s =
      Inr (to_int32 (int (card (near_by pos x z))), sorted_list_of_set (near_by pos x z), s') \<and>
    grid_repr s' pos"
proof -
  let ?X = "\<Union>c \<in> {x - MAX_SIGHT_DISTANCE..x + MAX_SIGHT_DISTANCE}. bucket_at (sc_x_entities s) c"
  let ?Z = "\<Union>c \<in> {z - MAX_SIGHT_DISTANCE..z + MAX_SIGHT_DISTANCE}. bucket_at (sc_z_entities s) c"
  let ?es = "set_intersection (sorted_list_of_set ?X) (sorted_list_of_set ?Z)"
  have "finite ?X" "finite ?Z" using assms(1) by (rule grid_cells_finite)+
  then have es: "set ?es = ?X \<inter> ?Z \<and> sorted_wrt (<) ?es"
    using set_intersection_sorted [of "sorted_list_of_set ?X" "sorted_list_of_set ?Z"] by simp
  then have "sorted ?es" "distinct ?es" by (simp_all only: strict_sorted_iff)
  then have "sorted_list_of_set (set ?es) = ?es"
    by (rule sorted_list_of_set.idem_if_sorted_distinct)
  moreover have "set ?es = near_by pos x z"
    using es near_by_cells [OF assms(1), of x z] by (simp only:)
  ultimately have "?es = sorted_list_of_set (near_by pos x z)" by (simp only:)
  with query_result [OF assms(2-5), of sorted_list_of_set sorted_list_of_set s] assms(1)
  show ?thesis by (auto simp: grid_repr_def axis_repr_def)
qed

section \<open>Properties\<close>

text \<open>
  C3. \<open>EnterScene\<close> and \<open>LeaveScene\<close> refine the abstract table: entering puts the entity at the
  cell of its coordinates, leaving takes it out, and leaving after entering gives back a scene
  that represents the same table.
\<close>

theorem Scene_Enter_Leave_refine:
  assumes "grid_repr s pos" "pos i = None"
    and "flt_to_int32 x = Some cx" "flt_to_int32 z = Some cz"
  shows "\<exists>s1 s2. Scene_EnterScene i x z s = Inr s1 \<and> grid_repr s1 (pos(i \<mapsto> (cx, cz))) \<and>
    Scene_LeaveScene i x z s1 = Inr s2 \<and> grid_repr s2 pos"
proof -
  let ?s1 = "s\<lparr>sc_x_entities := bucket_insert cx i (sc_x_entities s),
           sc_z_entities := bucket_insert cz i (sc_z_entities s)\<rparr>"
  have r1: "grid_repr ?s1 (pos(i \<mapsto> (cx, cz)))"
    using assms(1,2) by (rule grid_repr_insert)
  have "(pos(i \<mapsto> (cx, cz)))(i := None) = pos"
    using assms(2) by (simp add: fun_upd_idem)
  with grid_repr_erase [OF r1, of i cx cz]
  have "grid_repr (?s1\<lparr>sc_x_entities := bucket_erase cx i (sc_x_entities ?s1),
           sc_z_entities := bucket_erase cz i (sc_z_entities ?s1)\<rparr>) pos"
    by simp
  with r1 assms(3,4) show ?thesis
    unfolding Scene_EnterScene_def Scene_LeaveScene_def on_axes_Inr by blast
qed

theorem Scene_Enter_Leave_refine_witness:
  "\<exists>s1 s2. Scene_EnterScene 7 (flt_whole 5) (flt_whole 0) (scene_of [(8, 1, 2)]) = Inr s1 \<and>
     grid_repr s1 [7 \<mapsto> (5, 0), 8 \<mapsto> (1, 2)] \<and>
     Scene_LeaveScene 7 (flt_whole 5) (flt_whole 0) s1 = Inr s2 \<and> grid_repr s2 [8 \<mapsto> (1, 2)]"
  using Scene_Enter_Leave_refine [of "scene_of [(8, 1, 2)]" "[8 \<mapsto> (1, 2)]" 7
      "flt_whole 5" 5 "flt_whole 0" 0] scene_of_repr [of "[(8, 1, 2)]"]
  by (simp add: fun_upd_twist)

text \<open>
  C2. \<open>UpdatePosition\<close>, called while the entity still reports the coordinates it is indexed under,
  moves it: the old cell is left, the new one entered, and nobody else is affected.
\<close>

theorem Scene_UpdatePosition_refine:
  assumes "grid_repr s pos" "pos i = Some (cx, cz)"
    and "flt_to_int32 x = Some cx" "flt_to_int32 z = Some cz"
    and "flt_to_int32 (Vector3_x p) = Some nx" "flt_to_int32 (Vector3_z p) = Some nz"
  shows "\<exists>s'. Scene_UpdatePosition i x z p s = Inr s' \<and> grid_repr s' (pos(i \<mapsto> (nx, nz)))"
proof -
  let ?s1 = "s\<lparr>sc_x_entities := bucket_erase cx i (sc_x_entities s),
           sc_z_entities := bucket_erase cz i (sc_z_entities s)\<rparr>"
  have "grid_repr ?s1 (pos(i := None))"
    using assms(1,2) by (rule grid_repr_erase)
  from grid_repr_insert [OF this, where i = i and cx = nx and cz = nz] assms(3-6) show ?thesis
    unfolding Scene_UpdatePosition_def bind_res_Inr_iff on_axes_Inr by auto
qed

theorem Scene_UpdatePosition_refine_witness:
  "\<exists>s'. Scene_UpdatePosition 7 (flt_whole 5) (flt_whole 0) default_vector3
      (scene_of [(7, 5, 0)]) = Inr s' \<and> grid_repr s' [7 \<mapsto> (0, 0)]"
proof -
  have "Vector3_x default_vector3 = flt_whole 0" "Vector3_z default_vector3 = flt_whole 0"
    by (simp_all add: Vector3_x_def Vector3_z_def default_vector3_def flt_whole_def)
  then show ?thesis
    using Scene_UpdatePosition_refine [of "scene_of [(7, 5, 0)]" "[7 \<mapsto> (5, 0)]" 7 5 0
        "flt_whole 5" "flt_whole 0" default_vector3 0 0] scene_of_repr [of "[(7, 5, 0)]"]
    by simp
qed

text \<open>
  C12. What \<open>GetNearByEntities\<close> answers, in every scene, also in one that a move has left inconsistent, and whatever the
  order in which the hash sets are iterated (the intersection is that of the usual merge loop, which the code runs on
  sets that need not be sorted). If a coordinate has no value in \<open>int32_t\<close>, or one of the loops over the cells would leave
  the range of \<open>int32_t\<close>, the call is undefined; in no other case. Otherwise it only returns entities that are entered in
  a cell of the x axis and in a cell of the z axis within 60 of the caller's, it changes no cell, and its value
  is the length of the list it fills in. So if the scene represents a table of positions, only entities of
  the square around the caller are returned.
\<close>

theorem GetNearByEntities_sound:
  assumes "\<And>A. set (ex A) \<subseteq> A" "\<And>A. set (ez A) \<subseteq> A"
  shows "case Scene_GetNearByEntities ex ez fx fz s of
      Inl e \<Rightarrow>
        e = UB ''float to int32_t'' \<and> (flt_to_int32 fx = None \<or> flt_to_int32 fz = None) \<or>
        e = UB ''int32_t overflow'' \<and> (\<exists>x z. flt_to_int32 fx = Some x \<and> flt_to_int32 fz = Some z \<and>
          \<not> (query_safe x \<and> query_safe z))
    | Inr (n, es, s') \<Rightarrow> \<exists>x z. flt_to_int32 fx = Some x \<and> flt_to_int32 fz = Some z \<and>
        (\<forall>i \<in> set es. (\<exists>c. \<bar>c - x\<bar> \<le> 60 \<and> i \<in> bucket_at (sc_x_entities s) c) \<and>
          (\<exists>c. \<bar>c - z\<bar> \<le> 60 \<and> i \<in> bucket_at (sc_z_entities s) c)) \<and>
        n = to_int32 (int (length es)) \<and> sc_stuff s' = sc_stuff s \<and>
        bucket_at (sc_x_entities s') = bucket_at (sc_x_entities s) \<and>
        bucket_at (sc_z_entities s') = bucket_at (sc_z_entities s) \<and>
        (\<forall>pos. grid_repr s pos \<longrightarrow> set es \<subseteq> near_by pos x z \<and> grid_repr s' pos)"
proof (cases "Scene_GetNearByEntities ex ez fx fz s")
  case (Inl e)
  show ?thesis
  proof (cases "flt_to_int32 fx = None \<or> flt_to_int32 fz = None")
    case True
    from query_undefined(1) [OF this] Inl True show ?thesis by simp
  next
    case False
    then obtain x z where xz: "flt_to_int32 fx = Some x" "flt_to_int32 fz = Some z" by auto
    then have unsafe: "\<not> (query_safe x \<and> query_safe z)" using query_defined [of fx x fz z ex ez s] Inl by auto
    from query_undefined(2) [OF xz this] Inl xz unsafe show ?thesis by simp
  qed
next
  case (Inr r)
  obtain n es s' where r: "r = (n, es, s')" by (rule prod_cases3)
  from query_facts [OF Inr [unfolded r]] obtain x z where f: "flt_to_int32 fx = Some x" "flt_to_int32 fz = Some z"
    "n = to_int32 (int (length es))" "bucket_at (sc_x_entities s') = bucket_at (sc_x_entities s)"
    "bucket_at (sc_z_entities s') = bucket_at (sc_z_entities s)" "sc_stuff s' = sc_stuff s"
    and es: "es = set_intersection
        (ex (\<Union>c \<in> {x - MAX_SIGHT_DISTANCE..x + MAX_SIGHT_DISTANCE}. bucket_at (sc_x_entities s) c))
        (ez (\<Union>c \<in> {z - MAX_SIGHT_DISTANCE..z + MAX_SIGHT_DISTANCE}. bucket_at (sc_z_entities s) c))"
    by blast
  have sub: "set es \<subseteq> (\<Union>c \<in> {x - MAX_SIGHT_DISTANCE..x + MAX_SIGHT_DISTANCE}. bucket_at (sc_x_entities s) c) \<inter>
      (\<Union>c \<in> {z - MAX_SIGHT_DISTANCE..z + MAX_SIGHT_DISTANCE}. bucket_at (sc_z_entities s) c)"
    unfolding es using set_intersection_sub assms by (meson Int_mono order_trans)
  have "set es \<subseteq> near_by pos x z" if "grid_repr s pos" for pos
    using sub unfolding near_by_cells [OF that] .
  then have "\<forall>pos. grid_repr s pos \<longrightarrow> set es \<subseteq> near_by pos x z \<and> grid_repr s' pos"
    by (simp add: grid_same [OF f(4,5)])
  moreover have cells: "c \<in> {a - MAX_SIGHT_DISTANCE..a + MAX_SIGHT_DISTANCE} \<longleftrightarrow> \<bar>c - a\<bar> \<le> 60" for a c :: int
    by (auto simp: MAX_SIGHT_DISTANCE_def)
  from sub have "\<forall>i \<in> set es. (\<exists>c. \<bar>c - x\<bar> \<le> 60 \<and> i \<in> bucket_at (sc_x_entities s) c) \<and>
      (\<exists>c. \<bar>c - z\<bar> \<le> 60 \<and> i \<in> bucket_at (sc_z_entities s) c)"
    unfolding subset_iff Int_iff UN_iff cells Bex_def by blast
  ultimately show ?thesis using Inr r f by simp
qed

theorem GetNearByEntities_sound_witness:
  "\<exists>n es s'. Scene_GetNearByEntities (rev \<circ> sorted_list_of_set) sorted_list_of_set
      (flt_whole 0) (flt_whole 0) (scene_of [(7, 5, 0), (8, 100, 0)]) = Inr (n, es, s') \<and>
     set es \<subseteq> near_by [7 \<mapsto> (5, 0), 8 \<mapsto> (100, 0)] 0 0"
proof -
  have s: "set ((rev \<circ> sorted_list_of_set) A) \<subseteq> A" "set (sorted_list_of_set A) \<subseteq> A" for A :: "int set"
    by (cases "finite A"; simp)+
  obtain n es s' where q: "Scene_GetNearByEntities (rev \<circ> sorted_list_of_set) sorted_list_of_set
      (flt_whole 0) (flt_whole 0) (scene_of [(7, 5, 0), (8, 100, 0)]) = Inr (n, es, s')"
    using query_defined [OF whole_simps(1,1,3,3)] by blast
  have "grid_repr (scene_of [(7, 5, 0), (8, 100, 0)]) (map_of [(7, 5, 0), (8, 100, 0)])"
    by (rule scene_of_repr) simp
  moreover have "map_of [(7, 5, 0), (8, 100, 0)] = [7 :: int \<mapsto> (5 :: int, 0), 8 \<mapsto> (100, 0 :: int)]"
    by (auto simp: fun_eq_iff)
  ultimately have g: "grid_repr (scene_of [(7, 5, 0), (8, 100, 0)]) [7 \<mapsto> (5, 0), 8 \<mapsto> (100, 0)]" by (simp only:)
  have "\<forall>pos. grid_repr (scene_of [(7, 5, 0), (8, 100, 0)]) pos \<longrightarrow> set es \<subseteq> near_by pos 0 0"
    using GetNearByEntities_sound [OF s, of "flt_whole 0" "flt_whole 0" "scene_of [(7, 5, 0), (8, 100, 0)]"]
    unfolding q whole_simps(1) sum.case prod.case option.inject by blast
  with q g show ?thesis by blast
qed

text \<open>
  The query is not exact in general: \<open>std::set_intersection\<close> needs ascending input and a hash
  set gives none. When both axes are iterated in descending order and an entity \<open>b\<close> is visible
  on the x axis only, the entities below \<open>b\<close> are missed, the caller among them or not.
\<close>

theorem GetNearByEntities_misses:
  assumes "grid_repr s [a \<mapsto> (x, z), b \<mapsto> (x, far), c \<mapsto> (x, z)]" "a < b" "b < c"
    and "MAX_SIGHT_DISTANCE < \<bar>far - z\<bar>"
    and "flt_to_int32 fx = Some x" "flt_to_int32 fz = Some z" "query_safe x" "query_safe z"
  shows "near_by [a \<mapsto> (x, z), b \<mapsto> (x, far), c \<mapsto> (x, z)] x z = {a, c} \<and>
    (\<exists>s'. Scene_GetNearByEntities (rev \<circ> sorted_list_of_set) (rev \<circ> sorted_list_of_set) fx fz s =
      Inr (1, [c], s'))"
proof -
  let ?pos = "[a \<mapsto> (x, z), b \<mapsto> (x, far), c \<mapsto> (x, z)]"
  let ?X = "\<Union>c \<in> {x - MAX_SIGHT_DISTANCE..x + MAX_SIGHT_DISTANCE}. bucket_at (sc_x_entities s) c"
  let ?Z = "\<Union>c \<in> {z - MAX_SIGHT_DISTANCE..z + MAX_SIGHT_DISTANCE}. bucket_at (sc_z_entities s) c"
  have X: "j \<in> ?X \<longleftrightarrow> (\<exists>p. ?pos j = Some p \<and> \<bar>fst p - x\<bar> \<le> MAX_SIGHT_DISTANCE)"
    and Z: "j \<in> ?Z \<longleftrightarrow> (\<exists>p. ?pos j = Some p \<and> \<bar>snd p - z\<bar> \<le> MAX_SIGHT_DISTANCE)" for j
    using assms(1) unfolding grid_repr_def axis_repr_def
    by (auto simp del: fun_upd_apply simp: abs_le_iff)
  have M: "0 \<le> MAX_SIGHT_DISTANCE" by (simp add: MAX_SIGHT_DISTANCE_def)
  have "?X = {a, b, c}" "?Z = {a, c}"
    unfolding set_eq_iff X Z using assms(2-4) M by auto
  moreover have "sorted_list_of_set {a, b, c} = [a, b, c]" "sorted_list_of_set {a, c} = [a, c]"
    using assms(2,3) by simp_all
  ultimately have "set_intersection ((rev \<circ> sorted_list_of_set) ?X) ((rev \<circ> sorted_list_of_set) ?Z) = [c]"
    using assms(2,3) by simp
  with query_result [OF assms(5-8), of "rev \<circ> sorted_list_of_set" "rev \<circ> sorted_list_of_set" s]
  have "\<exists>s'. Scene_GetNearByEntities (rev \<circ> sorted_list_of_set) (rev \<circ> sorted_list_of_set) fx fz s =
      Inr (1, [c], s')"
    by (auto simp: to_int32_def)
  moreover have "near_by ?pos x z = {a, c}"
    using assms(2-4) M by (auto simp: near_by_def split: if_splits)
  ultimately show ?thesis by blast
qed

theorem GetNearByEntities_misses_witness:
  "\<exists>s'. Scene_GetNearByEntities (rev \<circ> sorted_list_of_set) (rev \<circ> sorted_list_of_set)
      (flt_whole 0) (flt_whole 0) (scene_of [(3, 0, 0), (2, 0, 100), (1, 0, 0)]) = Inr (1, [3], s')"
  using GetNearByEntities_misses [of "scene_of [(3, 0, 0), (2, 0, 100), (1, 0, 0)]" 1 0 0 2 100 3
      "flt_whole 0" "flt_whole 0"] scene_of_repr [of "[(3, 0, 0), (2, 0, 100), (1, 0, 0)]"]
  by (simp add: MAX_SIGHT_DISTANCE_def)

end
