(* ===== verification/Registry.thy ===== *)
theory Registry
  imports Proto_Messages
begin

text \<open>
  The three registries: ProtocolManager (Protocol.h, Protocol.cpp), CollocationManager
  (Collocation.h, Collocation.cpp) and AssetManager (Asset.h, Asset.cpp). Each walks the message
  types of a .proto file and keeps one prototype object per type number; AssetManager then reads
  the configuration files. The descriptors (what reflection says of a file), the message factory
  (\<open>proto\<close>) and the parser of an asset (\<open>parse\<close>) belong to protobuf; the file system is a tree.
\<close>

section \<open>Descriptors\<close>

text \<open>
  \<open>de_field1\<close>: the field with number 1, if there is one: the name of its enum type (\<open>None\<close> when
  it is not an enum) and the number of its default value.
\<close>

record descriptor =
  de_name :: string
  de_field1 :: "(string option \<times> int) option"

record file_descriptor =
  fd_enums :: "string list"
  fd_messages :: "descriptor list"

definition FindEnumTypeByName :: "file_descriptor \<Rightarrow> string \<Rightarrow> string option" where
  "FindEnumTypeByName fd name = (if name \<in> set (fd_enums fd) then Some name else None)"

text \<open>
  The test \<open>field && field->enum_type() == wanted\<close> and the number that is read then. Asking a
  field that is not an enum for its default enum value is a fatal error of the library.
\<close>

definition type_number :: "string option \<Rightarrow> descriptor \<Rightarrow> int option res" where
  "type_number wanted d =
     (case de_field1 d of
        None \<Rightarrow> Inr None
      | Some (ty, n) \<Rightarrow>
          if ty \<noteq> wanted then Inr None
          else if ty = None then Inl (UB ''default_value_enum of another type'')
          else Inr (Some n))"

section \<open>The table of prototypes\<close>

type_synonym 'm registry = "int \<Rightarrow> 'm option"

definition registry_put :: "int \<Rightarrow> 'm \<Rightarrow> 'm registry \<Rightarrow> 'm registry" where
  "registry_put k v r = emplace k v r"

definition registry_get :: "'m registry \<Rightarrow> int \<Rightarrow> 'm option" where
  "registry_get r k = r k"

interpretation reg: first_wins registry_put registry_get
  by unfold_locales (simp add: registry_put_def registry_get_def reg_simps)

text \<open>\<open>keep\<close>: the additional tests of a manager on the message name and the number.\<close>

fun register_all ::
  "(string \<Rightarrow> int \<Rightarrow> bool) \<Rightarrow> (string \<Rightarrow> 'm) \<Rightarrow> string option \<Rightarrow> descriptor list \<Rightarrow>
     'm registry \<Rightarrow> 'm registry res" where
  "register_all keep proto wanted [] r = Inr r"
| "register_all keep proto wanted (d # ds) r =
     bind_res (type_number wanted d) (\<lambda>no.
       register_all keep proto wanted ds
         (case no of
            None \<Rightarrow> r
          | Some n \<Rightarrow> if keep (de_name d) n then registry_put n (proto (de_name d)) r else r))"

definition registered :: "(string \<Rightarrow> int \<Rightarrow> bool) \<Rightarrow> (string \<Rightarrow> 'm) \<Rightarrow> string \<Rightarrow> descriptor list \<Rightarrow> (int \<times> 'm) list" where
  "registered keep proto wanted ds =
     concat (map (\<lambda>d. case de_field1 d of
        Some (Some ty, n) \<Rightarrow> if ty = wanted \<and> keep (de_name d) n then [(n, proto (de_name d))] else []
      | _ \<Rightarrow> []) ds)"

lemma register_all_eq:
  "register_all keep proto (Some wanted) ds r =
     Inr (fold (\<lambda>(k, v). registry_put k v) (registered keep proto wanted ds) r)"
proof (induction ds arbitrary: r)
  case (Cons d ds)
  then show ?case
    by (cases "de_field1 d") (auto simp: registered_def type_number_def split: option.splits)
qed (simp add: registered_def)

lemma register_all_get:
  assumes "register_all keep proto (Some wanted) ds Map.empty = Inr r"
  shows "registry_get r n = map_of (registered keep proto wanted ds) n"
proof -
  have "r = fold (\<lambda>(k, v). registry_put k v) (registered keep proto wanted ds) Map.empty"
    using assms by (simp add: register_all_eq)
  then show ?thesis
    using reg.get_fold_put [of "registered keep proto wanted ds" Map.empty n]
    by (simp add: registry_get_def)
qed

section \<open>ProtocolManager and CollocationManager\<close>

text \<open>
  The result of \<open>Load\<close>: its boolean and the table. \<open>pool\<close> is the generated pool, \<open>None\<close> when the
  null test fails; \<open>Meta\<close> is skipped by name before its field is looked at, which makes no
  difference to a message that is skipped anyway.
\<close>

definition protocol_kept :: "string \<Rightarrow> int \<Rightarrow> bool" where
  "protocol_kept name type_t \<longleftrightarrow>
     name \<noteq> ''Meta'' \<and> \<not> meta_type_number META_TYPE_C2S_COUNT < type_t"

lemma protocol_kept_type:
  "protocol_kept name (meta_type_number t) \<longleftrightarrow> name \<noteq> ''Meta'' \<and> t \<le> META_TYPE_C2S_COUNT"
  by (simp add: protocol_kept_def less_eq_meta_type_def not_less del: meta_type_number.simps)

definition ProtocolManager_Load ::
  "(string \<Rightarrow> 'm) \<Rightarrow> (string \<Rightarrow> file_descriptor option) option \<Rightarrow> 'm registry \<Rightarrow>
     (bool \<times> 'm registry) res" where
  "ProtocolManager_Load proto pool r =
     (case pool of None \<Rightarrow> Inr (False, r)
      | Some find_file \<Rightarrow>
         (case find_file ''P_Protocol.proto'' of None \<Rightarrow> Inr (False, r)
          | Some fd \<Rightarrow>
             bind_res
               (register_all protocol_kept proto (FindEnumTypeByName fd ''META_TYPE'')
                 (filter (\<lambda>d. de_name d \<noteq> ''Meta'') (fd_messages fd)) r)
               (\<lambda>r'. Inr (True, r'))))"

definition ProtocolManager_GetMessage :: "'m registry \<Rightarrow> int \<Rightarrow> 'm option" where
  "ProtocolManager_GetMessage r message_type = registry_get r message_type"

text \<open>\<open>CollocationManager::Load\<close> tests neither pointer for null.\<close>

definition CollocationManager_Load ::
  "(string \<Rightarrow> 'm) \<Rightarrow> (string \<Rightarrow> file_descriptor option) option \<Rightarrow> 'm registry \<Rightarrow>
     (bool \<times> 'm registry) res" where
  "CollocationManager_Load proto pool r =
     (case pool of None \<Rightarrow> Inl (UB ''null pointer'')
      | Some find_file \<Rightarrow>
         (case find_file ''CommonConfig.proto'' of None \<Rightarrow> Inl (UB ''null pointer'')
          | Some fd \<Rightarrow>
             bind_res
               (register_all (\<lambda>_ _. True) proto (FindEnumTypeByName fd ''ConfigType'')
                 (fd_messages fd) r)
               (\<lambda>r'. Inr (True, r'))))"

definition CollocationManager_GetMessage :: "'m registry \<Rightarrow> int \<Rightarrow> 'm option" where
  "CollocationManager_GetMessage r message_type = registry_get r message_type"

section \<open>AssetManager\<close>

text \<open>
  Reading a file: \<open>file >> size\<close> skips white space, reads an optional sign and the digits; with no
  digit, \<open>size\<close> is \<open>0\<close>; a number outside of \<open>int32_t\<close> gives the nearest bound.
\<close>

definition is_space :: "byte \<Rightarrow> bool" where
  "is_space b \<longleftrightarrow> b = 32 \<or> (9 \<le> b \<and> b \<le> 13)"

definition is_digit :: "byte \<Rightarrow> bool" where
  "is_digit b \<longleftrightarrow> 48 \<le> b \<and> b \<le> 57"

definition digits_value :: "bytes \<Rightarrow> int" where
  "digits_value ds = fold (\<lambda>d n. n * 10 + (uint d - 48)) ds 0"

definition clamp32 :: "int \<Rightarrow> int" where
  "clamp32 i = max (- (2 ^ 31)) (min i (2 ^ 31 - 1))"

definition read_int32 :: "bytes \<Rightarrow> int \<times> bytes" where
  "read_int32 s =
     (let s1 = dropWhile is_space s;
          neg = (s1 \<noteq> [] \<and> hd s1 = 45);
          s2 = (if s1 \<noteq> [] \<and> (hd s1 = 45 \<or> hd s1 = 43) then tl s1 else s1);
          n = digits_value (takeWhile is_digit s2)
      in (clamp32 (if neg then - n else n), dropWhile is_digit s2))"

text \<open>The file system below the asset path; a file that cannot be opened has no content.\<close>

datatype fnode = Dir string "fnode list" | File string "bytes option"

text \<open>
  The message types of P_Asset.proto by name: those that have \<open>type_t\<close> and lead to a global ID,
  and the others.
\<close>

definition asset_classes :: "string list" where
  "asset_classes = [''Plant'', ''CommonLimit'', ''CoolDown'', ''Hoster'', ''Skill'', ''LevelUpCurve'',
     ''Scene'', ''Particle'', ''Item_Potion'', ''Item_Equipment'']"

definition other_classes :: "string list" where
  "other_classes = [''Vector3'', ''CommonProp'', ''AssetCommonProp'', ''Harm'', ''Item_CommonProp'',
     ''Item_Item'']"

fun asset_msg_name :: "asset_msg \<Rightarrow> string" where
  "asset_msg_name (AM_Plant _) = ''Plant''"
| "asset_msg_name (AM_CommonLimit _ _ _) = ''CommonLimit''"
| "asset_msg_name (AM_CoolDown _ _) = ''CoolDown''"
| "asset_msg_name (AM_Hoster _) = ''Hoster''"
| "asset_msg_name (AM_Skill _) = ''Skill''"
| "asset_msg_name (AM_LevelUpCurve _ _ _) = ''LevelUpCurve''"
| "asset_msg_name (AM_Scene _) = ''Scene''"
| "asset_msg_name (AM_Particle _) = ''Particle''"
| "asset_msg_name (AM_ItemPotion _ _ _) = ''Item_Potion''"
| "asset_msg_name (AM_ItemEquipment _ _) = ''Item_Equipment''"

text \<open>The field \<open>common_prop\<close>, or the one inside \<open>item_common_prop\<close> for an item.\<close>

fun asset_common_prop_of :: "asset_msg \<Rightarrow> asset_common_prop option" where
  "asset_common_prop_of (AM_Plant c) = c"
| "asset_common_prop_of (AM_CommonLimit c _ _) = c"
| "asset_common_prop_of (AM_CoolDown c _) = c"
| "asset_common_prop_of (AM_Hoster h) = ho_common_prop h"
| "asset_common_prop_of (AM_Skill s) = ska_common_prop s"
| "asset_common_prop_of (AM_LevelUpCurve c _ _) = c"
| "asset_common_prop_of (AM_Scene s) = sa_common_prop s"
| "asset_common_prop_of (AM_Particle p) = pa_common_prop p"
| "asset_common_prop_of (AM_ItemPotion p _ _) = ic_common_prop (opt_get default_item_common_prop p)"
| "asset_common_prop_of (AM_ItemEquipment p _) = ic_common_prop (opt_get default_item_common_prop p)"

definition asset_global_id :: "asset_msg \<Rightarrow> int" where
  "asset_global_id m =
     AssetCommonProp_global_id (opt_get default_asset_common_prop (asset_common_prop_of m))"

text \<open>
  \<open>_assets_bytypes\<close> maps a type to a set of pointers; each loaded message is an object of its own,
  so the set is the list of them, in the order of loading.
\<close>

record asset_manager =
  am_parse_sucess :: bool
  am_messages :: "asset_msg registry"
  am_assets :: "asset_msg registry"
  am_assets_bytypes :: "int \<Rightarrow> asset_msg list option"

definition AssetManager_init :: asset_manager where
  "AssetManager_init = \<lparr>am_parse_sucess = False, am_messages = Map.empty, am_assets = Map.empty,
     am_assets_bytypes = Map.empty\<rparr>"

definition AssetManager_Get :: "asset_manager \<Rightarrow> int \<Rightarrow> asset_msg option" where
  "AssetManager_Get am global_id = registry_get (am_assets am) global_id"

definition AssetManager_GetMessage :: "asset_manager \<Rightarrow> int \<Rightarrow> asset_msg option" where
  "AssetManager_GetMessage am message_type = registry_get (am_messages am) message_type"

text \<open>\<open>operator[]\<close> creates the entry it does not find.\<close>

definition AssetManager_GetMessagesByType ::
  "int \<Rightarrow> asset_manager \<Rightarrow> asset_msg list \<times> asset_manager" where
  "AssetManager_GetMessagesByType message_type am =
     (let ms = (case am_assets_bytypes am message_type of None \<Rightarrow> [] | Some ms \<Rightarrow> ms)
      in (ms, am\<lparr>am_assets_bytypes := (am_assets_bytypes am)(message_type \<mapsto> ms)\<rparr>))"

definition AssetManager_GetMessageTypeFrom :: "int \<Rightarrow> int" where
  "AssetManager_GetMessageTypeFrom global_id = to_int32 (drop_bit 16 global_id)"

text \<open>Adding one message to both tables.\<close>

definition add_asset :: "asset_msg \<Rightarrow> asset_manager \<Rightarrow> asset_manager" where
  "add_asset m am =
     (let am1 = am\<lparr>am_assets := registry_put (asset_global_id m) m (am_assets am)\<rparr>;
          t = asset_type_number (asset_msg_type m);
          (ms, am2) = AssetManager_GetMessagesByType t am1
      in am2\<lparr>am_assets_bytypes := (am_assets_bytypes am2)(t \<mapsto> ms @ [m])\<rparr>)"

text \<open>
  One file of the directory \<open>dir\<close>. \<open>parse\<close> is \<open>ParseFromArray\<close> on a new message of the type named
  (its boolean is not tested). When the file holds fewer bytes than it announces, the rest of
  the local array is indeterminate.
\<close>

definition load_file ::
  "(string \<Rightarrow> bytes \<Rightarrow> asset_msg) \<Rightarrow> string \<Rightarrow> bytes option \<Rightarrow> asset_manager \<Rightarrow>
     (bool \<times> asset_manager) res" where
  "load_file parse dir file am =
     (case file of None \<Rightarrow> Inr (False, am)
      | Some s \<Rightarrow>
         let (size, rest) = read_int32 s in
         if size = 0 \<or> 1024 < size then Inr (False, am)
         else if dir \<notin> set (asset_classes @ other_classes) then Inr (False, am)
         else if size < 0 \<or> int (length rest) < size then Inl (UB ''indeterminate bytes'')
         else if dir \<in> set other_classes then Inr (False, am)
         else Inr (True, add_asset (parse dir (take (nat size) rest)) am))"

text \<open>The loop over a directory; the result of a sub-directory is dropped.\<close>

fun LoadAssets ::
  "(string \<Rightarrow> bytes \<Rightarrow> asset_msg) \<Rightarrow> string \<Rightarrow> fnode list \<Rightarrow> asset_manager \<Rightarrow>
     (bool \<times> asset_manager) res" where
  "LoadAssets parse dir [] am = Inr (True, am)"
| "LoadAssets parse dir (Dir name sub # items) am =
     bind_res (LoadAssets parse name sub am) (\<lambda>(_, am'). LoadAssets parse dir items am')"
| "LoadAssets parse dir (File name file # items) am =
     bind_res (load_file parse dir file am) (\<lambda>(ok, am').
       if ok then LoadAssets parse dir items am' else Inr (False, am'))"

text \<open>\<open>root\<close>: the directory \<open>./Asset/Asset/\<close>, if it exists.\<close>

definition AssetManager_Load ::
  "(string \<Rightarrow> asset_msg) \<Rightarrow> (string \<Rightarrow> bytes \<Rightarrow> asset_msg) \<Rightarrow>
     (string \<Rightarrow> file_descriptor option) option \<Rightarrow> fnode list option \<Rightarrow> asset_manager \<Rightarrow>
     (bool \<times> asset_manager) res" where
  "AssetManager_Load proto parse pool root am =
     (case pool of None \<Rightarrow> Inr (False, am)
      | Some find_file \<Rightarrow>
         (case find_file ''P_Asset.proto'' of None \<Rightarrow> Inr (False, am)
          | Some fd \<Rightarrow>
             bind_res
               (register_all (\<lambda>_ _. True) proto (FindEnumTypeByName fd ''ASSET_TYPE'')
                 (fd_messages fd) (am_messages am))
               (\<lambda>r. bind_res
                  (LoadAssets parse ''Asset'' (case root of None \<Rightarrow> [] | Some items \<Rightarrow> items)
                    (am\<lparr>am_messages := r\<rparr>))
                  (\<lambda>(ok, am'). Inr (if ok then (True, am'\<lparr>am_parse_sucess := True\<rparr>) else (False, am'))))))"

section \<open>Lemmas\<close>

text \<open>The protocol file of the repository, as reflection describes it.\<close>

definition P_Protocol_file :: file_descriptor where
  "P_Protocol_file =
     \<lparr>fd_enums = [''ERR_USE_ITEM_TYPE'', ''ERROR_TYPE'', ''ERROR_SHOW_TYPE'', ''ERROR_CODE'', ''META_TYPE''],
      fd_messages =
        [\<lparr>de_name = ''FiledCheck'', de_field1 = Some (None, 0)\<rparr>,
         \<lparr>de_name = ''Bar'', de_field1 = Some (None, 0)\<rparr>,
         \<lparr>de_name = ''MyMessage'', de_field1 = None\<rparr>,
         \<lparr>de_name = ''PlayerProvisionalProp'', de_field1 = Some (None, 0)\<rparr>,
         \<lparr>de_name = ''Player'', de_field1 = Some (Some ''ENTITY_TYPE'', 2)\<rparr>,
         \<lparr>de_name = ''Inventories'', de_field1 = Some (None, 0)\<rparr>,
         \<lparr>de_name = ''ItemEquipment'', de_field1 = Some (None, 0)\<rparr>,
         \<lparr>de_name = ''Meta'', de_field1 = Some (Some ''META_TYPE'', 1)\<rparr>,
         \<lparr>de_name = ''CreatePlayer'', de_field1 = Some (Some ''META_TYPE'', 4)\<rparr>,
         \<lparr>de_name = ''Account'', de_field1 = Some (None, 0)\<rparr>,
         \<lparr>de_name = ''Login'', de_field1 = Some (Some ''META_TYPE'', 2)\<rparr>,
         \<lparr>de_name = ''EnterGame'', de_field1 = Some (Some ''META_TYPE'', 5)\<rparr>,
         \<lparr>de_name = ''EnterScene'', de_field1 = Some (Some ''META_TYPE'', 6)\<rparr>,
         \<lparr>de_name = ''Move'', de_field1 = Some (Some ''META_TYPE'', 7)\<rparr>,
         \<lparr>de_name = ''PlayerList'', de_field1 = Some (Some ''META_TYPE'', 504)\<rparr>,
         \<lparr>de_name = ''PlayerInfo'', de_field1 = Some (Some ''META_TYPE'', 505)\<rparr>,
         \<lparr>de_name = ''LoginResponse'', de_field1 = Some (None, 0)\<rparr>,
         \<lparr>de_name = ''MutableProperty'', de_field1 = Some (Some ''META_TYPE'', 506)\<rparr>,
         \<lparr>de_name = ''AlterError'', de_field1 = Some (Some ''META_TYPE'', 507)\<rparr>,
         \<lparr>de_name = ''SurroundingsChanged'', de_field1 = Some (Some ''META_TYPE'', 508)\<rparr>]\<rparr>"

definition P_Protocol_pool :: "(string \<Rightarrow> file_descriptor option) option" where
  "P_Protocol_pool = Some (\<lambda>n. if n = ''P_Protocol.proto'' then Some P_Protocol_file else None)"

text \<open>The first message that declares a type number.\<close>

definition declares :: "int \<Rightarrow> descriptor \<Rightarrow> bool" where
  "declares n d \<longleftrightarrow> de_name d \<noteq> ''Meta'' \<and> de_field1 d = Some (Some ''META_TYPE'', n)"

lemma registered_find:
  "map_of (registered protocol_kept proto ''META_TYPE'' (filter (\<lambda>d. de_name d \<noteq> ''Meta'') ds)) n =
     (if 500 < n then None else map_option (\<lambda>d. proto (de_name d)) (find (declares n) ds))"
proof (induction ds)
  case (Cons d ds)
  show ?case
  proof (cases "\<exists>k. declares k d")
    case True
    then obtain k where d: "de_name d \<noteq> ''Meta''" "de_field1 d = Some (Some ''META_TYPE'', k)"
      by (auto simp: declares_def)
    then have "declares n d \<longleftrightarrow> n = k" by (auto simp: declares_def)
    with d Cons show ?thesis by (auto simp: registered_def protocol_kept_def)
  next
    case False
    then have "registered protocol_kept proto ''META_TYPE'' (filter (\<lambda>d. de_name d \<noteq> ''Meta'') (d # ds)) =
        registered protocol_kept proto ''META_TYPE'' (filter (\<lambda>d. de_name d \<noteq> ''Meta'') ds)"
      by (auto simp: registered_def declares_def split: option.splits prod.splits)
    with Cons False show ?thesis by simp
  qed
qed (simp add: registered_def)

text \<open>The two tables of the asset manager agree.\<close>

definition assets_ok :: "asset_manager \<Rightarrow> bool" where
  "assets_ok am \<longleftrightarrow>
     (\<forall>i m. AssetManager_Get am i = Some m \<longrightarrow>
        asset_global_id m = i \<and>
        m \<in> set (fst (AssetManager_GetMessagesByType (asset_type_number (asset_msg_type m)) am))) \<and>
     (\<forall>t. \<forall>m \<in> set (fst (AssetManager_GetMessagesByType t am)).
        asset_type_number (asset_msg_type m) = t \<and> AssetManager_Get am (asset_global_id m) \<noteq> None)"

lemma ByType_add_asset:
  "fst (AssetManager_GetMessagesByType t (add_asset m am)) =
     fst (AssetManager_GetMessagesByType t am) @
       (if t = asset_type_number (asset_msg_type m) then [m] else [])"
  by (simp add: AssetManager_GetMessagesByType_def add_asset_def Let_def split: option.splits)

lemma Get_add_asset:
  "AssetManager_Get (add_asset m am) i =
     (if i = asset_global_id m \<and> AssetManager_Get am i = None then Some m else AssetManager_Get am i)"
  by (auto simp: AssetManager_Get_def add_asset_def AssetManager_GetMessagesByType_def Let_def
      reg.get_put)

lemma assets_ok_add: "assets_ok am \<Longrightarrow> assets_ok (add_asset m am)"
  unfolding assets_ok_def ByType_add_asset Get_add_asset by (auto split: if_splits)

lemma load_file_ok:
  "load_file parse dir file am = Inr (ok, am') \<Longrightarrow> assets_ok am \<Longrightarrow> assets_ok am'"
  by (auto simp: load_file_def Let_def assets_ok_add split: option.splits prod.splits if_splits)

lemma LoadAssets_ok:
  "LoadAssets parse dir items am = Inr (ok, am') \<Longrightarrow> assets_ok am \<Longrightarrow> assets_ok am'"
proof (induction parse dir items am arbitrary: ok am' rule: LoadAssets.induct)
  case (2 parse dir name sub items am)
  then obtain b am1 where "LoadAssets parse name sub am = Inr (b, am1)"
    "LoadAssets parse dir items am1 = Inr (ok, am')" by (auto simp: bind_res_Inr_iff)
  with 2 show ?case by fastforce
next
  case (3 parse dir name fl items am)
  then obtain b am1 where f: "load_file parse dir fl am = Inr (b, am1)"
    and r: "(if b then LoadAssets parse dir items am1 else Inr (False, am1)) = Inr (ok, am')"
    by (auto simp: bind_res_Inr_iff)
  have "assets_ok am1" using f 3 by (blast intro: load_file_ok)
  with 3 f r show ?case by (cases b) auto
qed simp

lemma Get_parse_sucess [simp]:
  "AssetManager_Get (am\<lparr>am_parse_sucess := b\<rparr>) = AssetManager_Get am"
  "fst (AssetManager_GetMessagesByType t (am\<lparr>am_parse_sucess := b\<rparr>)) =
     fst (AssetManager_GetMessagesByType t am)"
  by (auto simp: AssetManager_Get_def AssetManager_GetMessagesByType_def Let_def)

lemma assets_ok_parse_sucess [simp]: "assets_ok (am\<lparr>am_parse_sucess := b\<rparr>) = assets_ok am"
  by (simp add: assets_ok_def)

lemma assets_ok_init: "assets_ok (AssetManager_init\<lparr>am_messages := r\<rparr>)"
  by (simp add: assets_ok_def AssetManager_init_def AssetManager_Get_def registry_get_def
      AssetManager_GetMessagesByType_def)

lemma ProtocolManager_Load_own_file:
  assumes "find_file ''P_Protocol.proto'' = Some P_Protocol_file"
  shows "ProtocolManager_Load proto (Some find_file) Map.empty =
    Inr (True, [2 \<mapsto> proto ''Login'', 4 \<mapsto> proto ''CreatePlayer'', 5 \<mapsto> proto ''EnterGame'',
          6 \<mapsto> proto ''EnterScene'', 7 \<mapsto> proto ''Move''])"
proof -
  have "FindEnumTypeByName P_Protocol_file ''META_TYPE'' = Some ''META_TYPE''"
    by (simp add: FindEnumTypeByName_def P_Protocol_file_def)
  then have "ProtocolManager_Load proto (Some find_file) Map.empty =
      Inr (True, fold (\<lambda>(k, v). registry_put k v)
        (registered protocol_kept proto ''META_TYPE''
          (filter (\<lambda>d. de_name d \<noteq> ''Meta'') (fd_messages P_Protocol_file))) Map.empty)"
    using assms by (simp add: ProtocolManager_Load_def register_all_eq)
  moreover have "registered protocol_kept proto ''META_TYPE''
      (filter (\<lambda>d. de_name d \<noteq> ''Meta'') (fd_messages P_Protocol_file)) =
      [(4, proto ''CreatePlayer''), (2, proto ''Login''), (5, proto ''EnterGame''),
       (6, proto ''EnterScene''), (7, proto ''Move'')]"
    by (simp add: registered_def P_Protocol_file_def protocol_kept_def)
  moreover have "fold (\<lambda>(k, v). registry_put k v)
      [(4, proto ''CreatePlayer''), (2, proto ''Login''), (5, proto ''EnterGame''),
       (6, proto ''EnterScene''), (7, proto ''Move'')] Map.empty =
      [2 \<mapsto> proto ''Login'', 4 \<mapsto> proto ''CreatePlayer'', 5 \<mapsto> proto ''EnterGame'',
       6 \<mapsto> proto ''EnterScene'', 7 \<mapsto> proto ''Move'']"
    by (rule ext) (simp add: registry_put_def reg_simps)
  ultimately show ?thesis by simp
qed

section \<open>Properties\<close>

text \<open>
  C31. \<open>ProtocolManager::Load\<close> on any protocol file that declares \<open>META_TYPE\<close>: it succeeds, and
  \<open>GetMessage\<close> then answers with the prototype of the first message, in the order of the file and
  \<open>Meta\<close> apart, whose first field has that number as its default; a number above \<open>C2S_COUNT\<close> has none.
\<close>

theorem ProtocolManager_Load_spec:
  assumes "find_file ''P_Protocol.proto'' = Some fd" "''META_TYPE'' \<in> set (fd_enums fd)"
  shows "\<exists>r. ProtocolManager_Load proto (Some find_file) Map.empty = Inr (True, r) \<and>
    (\<forall>n. ProtocolManager_GetMessage r n =
       (if 500 < n then None else map_option (\<lambda>d. proto (de_name d)) (find (declares n) (fd_messages fd))))"
proof -
  let ?ds = "filter (\<lambda>d. de_name d \<noteq> ''Meta'') (fd_messages fd)"
  obtain r where r: "register_all protocol_kept proto (Some ''META_TYPE'') ?ds Map.empty = Inr r"
    by (simp add: register_all_eq)
  have "ProtocolManager_GetMessage r n =
      (if 500 < n then None else map_option (\<lambda>d. proto (de_name d)) (find (declares n) (fd_messages fd)))" for n
    unfolding ProtocolManager_GetMessage_def using register_all_get [OF r] registered_find by metis
  moreover have "ProtocolManager_Load proto (Some find_file) Map.empty = Inr (True, r)"
    using assms r by (simp add: ProtocolManager_Load_def FindEnumTypeByName_def)
  ultimately show ?thesis by blast
qed

theorem ProtocolManager_Load_spec_witness:
  "\<exists>r. ProtocolManager_Load id P_Protocol_pool Map.empty = Inr (True, r) \<and>
     ProtocolManager_GetMessage r 7 = Some ''Move'' \<and> ProtocolManager_GetMessage r 1 = None \<and>
     ProtocolManager_GetMessage r 505 = None"
proof -
  have "''META_TYPE'' \<in> set (fd_enums P_Protocol_file)" by (simp add: P_Protocol_file_def)
  then obtain r where r: "ProtocolManager_Load id P_Protocol_pool Map.empty = Inr (True, r)"
    "\<forall>n. ProtocolManager_GetMessage r n = (if 500 < n then None
       else map_option (\<lambda>d. id (de_name d)) (find (declares n) (fd_messages P_Protocol_file)))"
    using ProtocolManager_Load_spec [of "\<lambda>n. if n = ''P_Protocol.proto'' then Some P_Protocol_file else None"
        P_Protocol_file id] unfolding P_Protocol_pool_def by auto
  have "find (declares 7) (fd_messages P_Protocol_file) =
      Some \<lparr>de_name = ''Move'', de_field1 = Some (Some ''META_TYPE'', 7)\<rparr>"
    "find (declares 1) (fd_messages P_Protocol_file) = None"
    by (simp_all add: declares_def P_Protocol_file_def)
  with r show ?thesis by (intro exI [of _ r]) simp
qed

text \<open>
  On the repository's own protocol file exactly the five client messages are registered:
  numbers 2, 4, 5, 6 and 7.
\<close>

theorem ProtocolManager_registers_C2S:
  "\<exists>r. ProtocolManager_Load proto P_Protocol_pool Map.empty = Inr (True, r) \<and>
     r = [2 \<mapsto> proto ''Login'', 4 \<mapsto> proto ''CreatePlayer'', 5 \<mapsto> proto ''EnterGame'',
          6 \<mapsto> proto ''EnterScene'', 7 \<mapsto> proto ''Move'']"
  using ProtocolManager_Load_own_file [of "\<lambda>n. if n = ''P_Protocol.proto'' then Some P_Protocol_file else None" proto]
  by (simp add: P_Protocol_pool_def)

text \<open>
  Whatever the asset files hold and whether or not \<open>Load\<close> succeeds, the two asset tables agree:
  \<open>Get\<close> answers with a message of that global ID, which is listed under its type, and every listed
  message has its type and an entry under its ID.
\<close>

theorem AssetManager_Load_consistent:
  assumes "AssetManager_Load proto parse pool root AssetManager_init = Inr (ok, am)"
  shows "(AssetManager_Get am i = Some m \<longrightarrow>
        asset_global_id m = i \<and>
        m \<in> set (fst (AssetManager_GetMessagesByType (asset_type_number (asset_msg_type m)) am))) \<and>
     (m \<in> set (fst (AssetManager_GetMessagesByType t am)) \<longrightarrow>
        asset_type_number (asset_msg_type m) = t \<and> AssetManager_Get am (asset_global_id m) \<noteq> None)"
proof -
  have init: "assets_ok AssetManager_init" using assets_ok_init [of Map.empty]
    by (simp add: AssetManager_init_def)
  have "assets_ok am"
    using assms
    by (auto simp: AssetManager_Load_def bind_res_Inr_iff init split: option.splits if_splits
        dest!: LoadAssets_ok [OF _ assets_ok_init] simp: assets_ok_init simp del: LoadAssets.simps)
  then show ?thesis by (auto simp: assets_ok_def)
qed

theorem AssetManager_Load_consistent_witness:
  "\<exists>am m. AssetManager_Load (\<lambda>_. AM_Plant None)
       (\<lambda>_ _. AM_Plant (Some (default_asset_common_prop\<lparr>ac_global_id := Some 7\<rparr>)))
       (Some (\<lambda>_. Some \<lparr>fd_enums = [''ASSET_TYPE''], fd_messages = []\<rparr>))
       (Some [Dir ''Plant'' [File ''a'' (Some [49, 0])]]) AssetManager_init = Inr (True, am) \<and>
     AssetManager_Get am 7 = Some m \<and> asset_global_id m = 7"
proof -
  let ?parse = "\<lambda>_ _. AM_Plant (Some (default_asset_common_prop\<lparr>ac_global_id := Some 7\<rparr>))"
  have size: "read_int32 [49, 0] = (1, [0])"
    by (simp add: read_int32_def is_space_def is_digit_def digits_value_def clamp32_def)
  have "\<exists>am. AssetManager_Load (\<lambda>_. AM_Plant None) ?parse
      (Some (\<lambda>_. Some \<lparr>fd_enums = [''ASSET_TYPE''], fd_messages = []\<rparr>))
      (Some [Dir ''Plant'' [File ''a'' (Some [49, 0])]]) AssetManager_init = Inr (True, am) \<and> AssetManager_Get am 7 \<noteq> None"
    by (simp add: AssetManager_Load_def FindEnumTypeByName_def load_file_def size asset_classes_def other_classes_def
        add_asset_def AssetManager_init_def AssetManager_Get_def AssetManager_GetMessagesByType_def
        asset_global_id_def AssetCommonProp_global_id_def registry_put_def registry_get_def emplace_def Let_def)
  then show ?thesis using AssetManager_Load_consistent by blast
qed

text \<open>
  A global ID built the way the protocol file documents it (type and sub-type in two bytes
  each, index in four) loses its type in \<open>GetMessageTypeFrom\<close>: what comes back is made of the
  sub-type and the upper half of the index.
\<close>

theorem GetMessageTypeFrom_drops_type:
  assumes "0 \<le> type" "type < 2 ^ 15" "0 \<le> sub" "sub < 2 ^ 15" "0 \<le> idx" "idx < 2 ^ 32"
  shows "AssetManager_GetMessageTypeFrom (type * 2 ^ 48 + sub * 2 ^ 32 + idx) =
    sub * 2 ^ 16 + idx div 2 ^ 16"
proof -
  have "type * 2 ^ 48 + sub * 2 ^ 32 + idx = (type * 2 ^ 32 + sub * 2 ^ 16) * 2 ^ 16 + idx" by simp
  then have "drop_bit 16 (type * 2 ^ 48 + sub * 2 ^ 32 + idx) =
      type * 2 ^ 32 + (sub * 2 ^ 16 + idx div 2 ^ 16)"
    unfolding drop_bit_eq_div by simp
  then have "AssetManager_GetMessageTypeFrom (type * 2 ^ 48 + sub * 2 ^ 32 + idx) =
      to_int32 (type * 2 ^ 32 + (sub * 2 ^ 16 + idx div 2 ^ 16))"
    by (simp only: AssetManager_GetMessageTypeFrom_def)
  also have "\<dots> = to_int32 (sub * 2 ^ 16 + idx div 2 ^ 16)"
    by (simp add: to_int32_def add.assoc)
  also have "\<dots> = sub * 2 ^ 16 + idx div 2 ^ 16"
  proof (rule to_int32_id)
    have "0 \<le> idx div 2 ^ 16" "idx div 2 ^ 16 < 2 ^ 16" using assms(5,6) by simp_all
    with assms(3,4) show "in_int32 (sub * 2 ^ 16 + idx div 2 ^ 16)" by (simp add: in_int32_def)
  qed
  finally show ?thesis .
qed

theorem GetMessageTypeFrom_drops_type_witness:
  "AssetManager_GetMessageTypeFrom (9 * 2 ^ 48 + 2 * 2 ^ 32 + 65536) = 2 * 2 ^ 16 + 1"
  using GetMessageTypeFrom_drops_type [of 9 2 65536] by simp

end
