(* ===== verification/Redis_Client.thy ===== *)
theory Redis_Client
  imports Registry
begin

text \<open>
  RedisManager.h: the client of the data base. The server is outside of the model: \<open>command\<close> takes
  the arguments hiredis sends and the state of the server and gives its reply, or none when the
  connection failed. hiredis reads its format and its \<open>%s\<close> arguments as C strings.
\<close>

section \<open>Text\<close>

definition ascii :: "char list \<Rightarrow> bytes" where
  "ascii s = map (\<lambda>c. of_char c) s"

fun dec_nat :: "nat \<Rightarrow> bytes" where
  "dec_nat n = (if n < 10 then [48 + word_of_nat n]
     else dec_nat (n div 10) @ [48 + word_of_nat (n mod 10)])"

declare dec_nat.simps [simp del]

text \<open>\<open>std::to_string\<close>.\<close>

definition to_string :: "int \<Rightarrow> bytes" where
  "to_string i = (if i < 0 then 45 # dec_nat (nat (- i)) else dec_nat (nat i))"

section \<open>Replies and commands\<close>

datatype reply =
  R_String bytes | R_Array | R_Integer int | R_Nil | R_Status bytes | R_Error bytes

type_synonym 'd redis = "bytes list \<Rightarrow> 'd \<Rightarrow> reply option \<times> 'd"

text \<open>\<open>Redis::ExcuteCommand\<close>: a command without arguments, split at its spaces.\<close>

fun split_words :: "bytes \<Rightarrow> bytes \<Rightarrow> bytes list" where
  "split_words w [] = (if w = [] then [] else [w])"
| "split_words w (b # bs) =
     (if b = 32 then (if w = [] then split_words [] bs else w # split_words [] bs)
      else split_words (w @ [b]) bs)"

definition Redis_ExcuteCommand :: "'d redis \<Rightarrow> bytes \<Rightarrow> 'd \<Rightarrow> reply option \<times> 'd" where
  "Redis_ExcuteCommand command c d = command (split_words [] (c_str c)) d"

definition Redis_CreatePlayer :: "'d redis \<Rightarrow> 'd \<Rightarrow> int \<times> 'd" where
  "Redis_CreatePlayer command d =
     (case command [ascii ''Incr'', ascii ''player_counter''] d of
        (Some (R_Integer i), d') \<Rightarrow> (i, d')
      | (_, d') \<Rightarrow> (0, d'))"

definition player_key :: "int \<Rightarrow> bytes" where
  "player_key player_id = ascii ''player:'' @ to_string player_id"

text \<open>\<open>value = reply->str\<close> builds the string from a C string.\<close>

definition Redis_GetPlayer :: "'d redis \<Rightarrow> int \<Rightarrow> 'd \<Rightarrow> bytes \<times> 'd" where
  "Redis_GetPlayer command player_id d =
     (case command [ascii ''Get'', player_key player_id] d of
        (Some (R_String str), d') \<Rightarrow> (c_str str, d')
      | (_, d') \<Rightarrow> ([], d'))"

text \<open>
  The result says whether the reply was released: the early return on a reply that is not a
  string skips \<open>freeReplyObject\<close>.
\<close>

definition Redis_SavePlayer :: "'d redis \<Rightarrow> int \<Rightarrow> bytes \<Rightarrow> 'd \<Rightarrow> bool \<times> 'd" where
  "Redis_SavePlayer command player_id stuff d =
     (case command [ascii ''Set'', c_str (player_key player_id), c_str stuff] d of
        (None, d') \<Rightarrow> (True, d')
      | (Some (R_String _), d') \<Rightarrow> (True, d')
      | (Some _, d') \<Rightarrow> (False, d'))"

section \<open>What the code relies on\<close>

text \<open>
  The documented behaviour of \<open>SET\<close> and \<open>GET\<close>: \<open>view d\<close> is the table of strings the server holds.
\<close>

definition redis_ok :: "'d redis \<Rightarrow> ('d \<Rightarrow> bytes \<Rightarrow> bytes option) \<Rightarrow> bool" where
  "redis_ok command view \<longleftrightarrow>
     (\<forall>d k v. \<exists>d'. command [ascii ''Set'', k, v] d = (Some (R_Status (ascii ''OK'')), d') \<and>
        view d' = (view d)(k \<mapsto> v)) \<and>
     (\<forall>d k. \<exists>d'. command [ascii ''Get'', k] d =
        (Some (case view d k of None \<Rightarrow> R_Nil | Some v \<Rightarrow> R_String v), d') \<and> view d' = view d)"

text \<open>A server that behaves so, for the witnesses.\<close>

type_synonym mem_db = "(bytes \<Rightarrow> bytes option) \<times> int"

definition mem_redis :: "mem_db redis" where
  "mem_redis args d =
     (if length args = 3 \<and> args ! 0 = ascii ''Set'' then
        (Some (R_Status (ascii ''OK'')), ((fst d)(args ! 1 \<mapsto> args ! 2), snd d))
      else if length args = 2 \<and> args ! 0 = ascii ''Get'' then
        (Some (case fst d (args ! 1) of None \<Rightarrow> R_Nil | Some v \<Rightarrow> R_String v), d)
      else if length args = 2 \<and> args ! 0 = ascii ''Incr'' then
        (Some (R_Integer (snd d + 1)), (fst d, snd d + 1))
      else (Some (R_Error []), d))"

lemma mem_redis_ok: "redis_ok mem_redis fst"
  by (auto simp: redis_ok_def mem_redis_def ascii_def)

section \<open>Keys\<close>

lemma uint_digit: "n < 10 \<Longrightarrow> uint (48 + word_of_nat n :: byte) = 48 + int n"
proof -
  assume n: "n < 10"
  have "(48 + word_of_nat n :: byte) = word_of_int (48 + int n)" by simp
  then have "uint (48 + word_of_nat n :: byte) = (48 + int n) mod 2 ^ LENGTH(8)"
    by (simp only: uint_word_of_int)
  also have "\<dots> = 48 + int n" using n by (intro mod_pos_pos_trivial) simp_all
  finally show ?thesis .
qed

lemma digits_value_dec_nat: "digits_value (dec_nat n) = int n"
proof (induction n rule: dec_nat.induct)
  case (1 n)
  show ?case
  proof (cases "n < 10")
    case True
    then show ?thesis by (simp add: dec_nat.simps [of n] digits_value_def uint_digit)
  next
    case False
    with "1.IH" have "digits_value (dec_nat (n div 10)) = int (n div 10)" by simp
    with False show ?thesis
      using uint_digit [of "n mod 10"] mult_div_mod_eq [of 10 "int n"]
      by (simp add: dec_nat.simps [of n] digits_value_def zdiv_int zmod_int)
  qed
qed

lemma dec_nat_digits: "b \<in> set (dec_nat n) \<Longrightarrow> 48 \<le> uint b \<and> uint b \<le> 57"
proof (induction n rule: dec_nat.induct)
  case (1 n)
  then show ?case
    using uint_digit [of n] uint_digit [of "n mod 10"]
    by (auto simp: dec_nat.simps [of n] split: if_splits)
qed

lemma dec_nat_inj: "dec_nat m = dec_nat n \<Longrightarrow> m = n"
  by (metis digits_value_dec_nat of_nat_eq_iff)

lemma dec_nat_no_sign: "45 # xs \<noteq> dec_nat n"
proof
  assume "45 # xs = dec_nat n"
  then have "(45 :: byte) \<in> set (dec_nat n)" by (metis list.set_intros(1))
  from dec_nat_digits [OF this] show False by simp
qed

lemma to_string_inj: "to_string i = to_string j \<Longrightarrow> i = j"
  by (auto simp: to_string_def dec_nat_no_sign dec_nat_no_sign [symmetric]
      dest!: dec_nat_inj split: if_splits)

lemma player_key_inj: "player_key i = player_key j \<longleftrightarrow> i = j"
  by (auto simp: player_key_def dest: to_string_inj)

lemma player_key_no_nul: "c_str (player_key i) = player_key i"
proof -
  have "0 \<notin> set (to_string i)" by (auto simp: to_string_def dest: dec_nat_digits)
  moreover have "0 \<notin> set (ascii ''player:'')" by (simp add: ascii_def)
  ultimately show ?thesis by (simp add: c_str_id_iff player_key_def)
qed

lemma Save_view:
  assumes "redis_ok command view" "Redis_SavePlayer command i stuff d = (freed, d')"
  shows "view d' = (view d)(player_key i \<mapsto> c_str stuff) \<and> \<not> freed"
proof -
  obtain d1 where "command [ascii ''Set'', player_key i, c_str stuff] d = (Some (R_Status (ascii ''OK'')), d1)"
    "view d1 = (view d)(player_key i \<mapsto> c_str stuff)"
    using assms(1) unfolding redis_ok_def by blast
  with assms(2) show ?thesis by (simp add: Redis_SavePlayer_def player_key_no_nul)
qed

lemma Get_view:
  assumes "redis_ok command view"
  shows "\<exists>d'. Redis_GetPlayer command i d =
     (case view d (player_key i) of None \<Rightarrow> [] | Some v \<Rightarrow> c_str v, d') \<and> view d' = view d"
proof -
  obtain d1 where "command [ascii ''Get'', player_key i] d =
      (Some (case view d (player_key i) of None \<Rightarrow> R_Nil | Some v \<Rightarrow> R_String v), d1)" "view d1 = view d"
    using assms unfolding redis_ok_def by blast
  then show ?thesis by (simp add: Redis_GetPlayer_def split: option.splits)
qed

section \<open>Properties\<close>

text \<open>
  What \<open>SavePlayer\<close> stores and \<open>GetPlayer\<close> reads back is the record up to its first NUL byte: the
  round trip is exact if and only if the serialised player contains no NUL byte. Other players'
  records are untouched, and the reply of the server is never released.
\<close>

theorem Redis_Save_Get_roundtrip:
  assumes "redis_ok command view" "Redis_SavePlayer command i stuff d = (freed, d1)"
  shows "(fst (Redis_GetPlayer command i d1) = stuff \<longleftrightarrow> 0 \<notin> set stuff) \<and>
    fst (Redis_GetPlayer command i d1) = c_str stuff \<and>
    (j \<noteq> i \<longrightarrow> fst (Redis_GetPlayer command j d1) = fst (Redis_GetPlayer command j d)) \<and>
    \<not> freed"
proof -
  have d1: "view d1 = (view d)(player_key i \<mapsto> c_str stuff)" "\<not> freed"
    using Save_view [OF assms] by simp_all
  have get: "fst (Redis_GetPlayer command k e) =
      (case view e (player_key k) of None \<Rightarrow> [] | Some v \<Rightarrow> c_str v)" for k e
    using Get_view [OF assms(1), of k e] by auto
  have "c_str (c_str stuff) = c_str stuff" by (simp add: c_str_id_iff)
  with d1 show ?thesis by (simp add: get player_key_inj flip: c_str_id_iff)
qed

theorem Redis_Save_Get_roundtrip_witness:
  "fst (Redis_GetPlayer mem_redis 7
     (snd (Redis_SavePlayer mem_redis 7 [10, 3, 0, 9] (Map.empty, 0)))) = [10, 3]"
proof -
  obtain f d1 where s: "Redis_SavePlayer mem_redis 7 [10, 3, 0, 9] (Map.empty, 0) = (f, d1)"
    by (rule prod.exhaust)
  from Redis_Save_Get_roundtrip [OF mem_redis_ok s] s show ?thesis
    by (simp add: c_str_def)
qed

end
