(* ===== verification/Net_Socket.thy ===== *)
theory Net_Socket
  imports Base
begin

text \<open>
  The network layer: Socket.h (a connection and the manager of the network threads), NetThread.h
  (a thread that owns connections) and AsyncAcceptor.h. boost::asio is outside of the model: an
  asynchronous operation is the fact that it was started, its completion an event with the
  outcome asio reports. Each operation is one step (the fresh list is guarded by a mutex, the
  flags and the counter are atomic), and the steps of several threads interleave.
\<close>

section \<open>A connection\<close>

text \<open>
  \<open>sk_connected\<close>: the kernel still knows the peer, so \<open>remote_endpoint()\<close> does not throw;
  \<open>sk_reads\<close>, \<open>sk_writes\<close>: the reads started, and what the writes started are to send; \<open>sk_shutdowns\<close>,
  \<open>sk_on_close\<close>: how often the sending side was shut down and \<open>OnClose\<close> was called. \<open>sk_room\<close>: the bytes the
  kernel's send buffer takes at the moment; \<open>sk_sending\<close>: the writes whose handler has not run yet, the oldest first,
  each with whether the kernel has taken the whole of it.
\<close>

record sock =
  sk_closed :: bool
  sk_closing :: bool
  sk_is_open :: bool
  sk_connected :: bool
  sk_reads :: nat
  sk_writes :: "bytes list"
  sk_shutdowns :: nat
  sk_on_close :: nat
  sk_room :: nat
  sk_sending :: "bool list"

text \<open>A new connection; the send buffer of the kernel has some room at first.\<close>

definition initial_room :: nat where
  "initial_room = 2 ^ 16"

definition Socket_init :: "bool \<Rightarrow> sock" where
  "Socket_init connected = \<lparr>sk_closed = False, sk_closing = False, sk_is_open = True,
     sk_connected = connected, sk_reads = 0, sk_writes = [], sk_shutdowns = 0, sk_on_close = 0,
     sk_room = initial_room, sk_sending = []\<rparr>"

definition Socket_GetRemoteEndPoint :: "sock \<Rightarrow> unit res" where
  "Socket_GetRemoteEndPoint s = (if sk_connected s then Inr () else Inl (Thrown ''remote_endpoint''))"

text \<open>The destructor: an exception that leaves it ends the program.\<close>

definition Socket_destruct :: "sock \<Rightarrow> sock res" where
  "Socket_destruct s =
     (case Socket_GetRemoteEndPoint s of
        Inl _ \<Rightarrow> Inl (UB ''exception leaves a destructor'')
      | Inr _ \<Rightarrow> Inr (s\<lparr>sk_is_open := False\<rparr>))"

definition Socket_Update :: "sock \<Rightarrow> bool" where
  "Socket_Update s \<longleftrightarrow> \<not> sk_closed s"

definition Socket_Close :: "sock \<Rightarrow> sock" where
  "Socket_Close s =
     (if sk_closed s then s
      else s\<lparr>sk_closed := True, sk_shutdowns := Suc (sk_shutdowns s), sk_on_close := Suc (sk_on_close s)\<rparr>)"

definition Socket_DelayedClose :: "sock \<Rightarrow> sock" where
  "Socket_DelayedClose s = s\<lparr>sk_closing := True\<rparr>"

definition Socket_IsConnect :: "sock \<Rightarrow> bool" where
  "Socket_IsConnect s \<longleftrightarrow> sk_is_open s"

definition Socket_IsOpen :: "sock \<Rightarrow> bool" where
  "Socket_IsOpen s \<longleftrightarrow> \<not> sk_closed s \<and> \<not> sk_closing s"

definition Socket_AsyncReceive :: "sock \<Rightarrow> sock" where
  "Socket_AsyncReceive s = s\<lparr>sk_reads := Suc (sk_reads s)\<rparr>"

text \<open>The default handler of a read starts the next one, whatever the error.\<close>

definition Socket_OnReceive :: "sock \<Rightarrow> sock" where
  "Socket_OnReceive s = Socket_AsyncReceive s"

text \<open>
  \<open>AsyncSend\<close> gives asio a pointer to the bytes, not a copy. \<open>async_write\<close> tries to send at once, at most 64 KB in one
  operation, unless an earlier write still waits; what the kernel has not taken then is read from the pointer
  later. Every caller passes a local string that ends with the caller's return. On a connection that is gone or
  shut down the write fails without reading on.
\<close>

definition Socket_takes_whole :: "bytes \<Rightarrow> sock \<Rightarrow> bool" where
  "Socket_takes_whole content s \<longleftrightarrow>
     \<not> sk_connected s \<or> 0 < sk_shutdowns s \<or>
     False \<notin> set (sk_sending s) \<and> length content \<le> min (sk_room s) 65536"

definition Socket_AsyncSend :: "bytes \<Rightarrow> sock \<Rightarrow> sock" where
  "Socket_AsyncSend content s =
     s\<lparr>sk_writes := sk_writes s @ [content],
       sk_sending := sk_sending s @ [Socket_takes_whole content s],
       sk_room := (if False \<in> set (sk_sending s) then sk_room s else sk_room s - min (length content) 65536)\<rparr>"

definition Socket_OnSend :: "sock \<Rightarrow> sock" where
  "Socket_OnSend s = s"

text \<open>
  What becomes of the oldest write, which goes on (\<open>ok\<close>) or has failed. If bytes of it are left and it goes on, it
  reads them from a string that does not exist any more. Its handler is bound to the plain \<open>this\<close>, which does not keep
  the session alive: after the destructor (\<open>alive\<close> is false), which cancels the writes, the call is a call on a
  destroyed object.
\<close>

definition Socket_sent :: "bool \<Rightarrow> bool \<Rightarrow> sock \<Rightarrow> sock res" where
  "Socket_sent alive ok s =
     (case sk_sending s of
        [] \<Rightarrow> Inr s
      | whole # ws \<Rightarrow>
          if ok \<and> \<not> whole then Inl (UB ''write from a destroyed buffer'')
          else if \<not> alive then Inl (UB ''member call on a destroyed session'')
          else Inr (Socket_OnSend (s\<lparr>sk_sending := ws\<rparr>)))"

lemmas socket_defs = Socket_Update_def Socket_Close_def Socket_IsOpen_def Socket_DelayedClose_def

text \<open>What a network thread needs of its connections.\<close>

locale managed_socket =
  fixes alive :: "'s \<Rightarrow> bool"
    and open_for_use :: "'s \<Rightarrow> bool"
    and shut :: "'s \<Rightarrow> 's"
  assumes use_alive: "open_for_use s \<Longrightarrow> alive s"
    and shut_dead: "\<not> alive (shut s)"
    and shut_idem: "shut (shut s) = shut s"
begin

lemma dead_not_usable: "\<not> alive s \<Longrightarrow> \<not> open_for_use s"
  using use_alive by blast

lemma shut_not_usable: "\<not> open_for_use (shut s)"
  using shut_dead by (rule dead_not_usable)

lemma usable_filter: "filter alive (filter open_for_use ss) = filter open_for_use ss"
  using use_alive by (induction ss) auto

end

interpretation sock: managed_socket Socket_Update Socket_IsOpen Socket_Close
  by unfold_locales (auto simp: socket_defs)

section \<open>A network thread\<close>

text \<open>
  Connections are named by numbers; the table gives their states. \<open>nt_thread\<close> says whether the
  thread object exists (and is joinable), \<open>nt_io_stopped\<close> whether the thread's \<open>io_service\<close> has been stopped, and
  \<open>nt_over\<close> whether \<open>Run\<close> has returned.
\<close>

type_synonym socks = "nat \<Rightarrow> sock"

record net_thread =
  nt_socket_list :: "nat list"
  nt_connections :: int
  nt_stopped :: bool
  nt_thread :: bool
  nt_fresh_list :: "nat list"
  nt_timer :: bool
  nt_io_stopped :: bool
  nt_over :: bool

definition NetworkThread_init :: net_thread where
  "NetworkThread_init = \<lparr>nt_socket_list = [], nt_connections = 0, nt_stopped = False,
     nt_thread = False, nt_fresh_list = [], nt_timer = False, nt_io_stopped = False, nt_over = False\<rparr>"

definition NetworkThread_Stop :: "net_thread \<Rightarrow> net_thread" where
  "NetworkThread_Stop t = t\<lparr>nt_stopped := True, nt_io_stopped := True\<rparr>"

text \<open>
  The rest of \<open>Run\<close>, once the stopped \<open>io_service\<close> returns from its loop: both lists are cleared, and the counter is
  left as it is.
\<close>

definition NetworkThread_Run_end :: "net_thread \<Rightarrow> net_thread" where
  "NetworkThread_Run_end t = t\<lparr>nt_socket_list := [], nt_fresh_list := [], nt_timer := False, nt_over := True\<rparr>"

text \<open>\<open>Start\<close> creates the thread, whose \<open>Run\<close> arms the timer.\<close>

definition NetworkThread_Start :: "net_thread \<Rightarrow> bool \<times> net_thread" where
  "NetworkThread_Start t = (True, t\<lparr>nt_thread := True, nt_timer := True\<rparr>)"

text \<open>\<open>Wait\<close>, which is only called after \<open>Stop\<close>, joins: when it returns, \<open>Run\<close> has come to its end.\<close>

definition NetworkThread_Wait :: "net_thread \<Rightarrow> net_thread res" where
  "NetworkThread_Wait t =
     (if nt_thread t then Inr ((if nt_over t then t else NetworkThread_Run_end t)\<lparr>nt_thread := False\<rparr>)
      else Inl (UB ''null thread pointer''))"

definition NetworkThread_destruct :: "net_thread \<Rightarrow> net_thread res" where
  "NetworkThread_destruct t =
     (let t1 = NetworkThread_Stop t
      in if nt_thread t1
         then bind_res (NetworkThread_Wait t1) (\<lambda>t2. Inr (t2\<lparr>nt_thread := False\<rparr>))
         else Inr t1)"

definition NetworkThread_GetConnectionCount :: "net_thread \<Rightarrow> int" where
  "NetworkThread_GetConnectionCount t = nt_connections t"

definition NetworkThread_AddSocket :: "nat \<Rightarrow> net_thread \<Rightarrow> net_thread" where
  "NetworkThread_AddSocket i t =
     t\<lparr>nt_connections := to_int32 (nt_connections t + 1), nt_fresh_list := nt_fresh_list t @ [i]\<rparr>"

fun add_fresh :: "socks \<Rightarrow> nat list \<Rightarrow> net_thread \<Rightarrow> net_thread" where
  "add_fresh S [] t = t"
| "add_fresh S (i # is) t =
     add_fresh S is
       (if Socket_IsOpen (S i) then t\<lparr>nt_socket_list := nt_socket_list t @ [i]\<rparr>
        else t\<lparr>nt_connections := to_int32 (nt_connections t - 1)\<rparr>)"

definition NetworkThread_AddSockets :: "socks \<Rightarrow> net_thread \<Rightarrow> net_thread" where
  "NetworkThread_AddSockets S t =
     (if nt_fresh_list t = [] then t
      else (add_fresh S (nt_fresh_list t) t)\<lparr>nt_fresh_list := []\<rparr>)"

text \<open>
  The predicate of \<open>remove_if\<close>, run over the list: the connections it keeps, the table, and the
  counter. \<open>upd\<close> is the virtual \<open>Update\<close> of the connection's class: \<open>Socket_Update\<close> unless the class
  overrides it.
\<close>

fun sweep :: "(sock \<Rightarrow> bool) \<Rightarrow> nat list \<Rightarrow> socks \<Rightarrow> int \<Rightarrow> nat list \<times> socks \<times> int" where
  "sweep upd [] S n = ([], S, n)"
| "sweep upd (i # is) S n =
     (if \<not> upd (S i) then
        sweep upd is (if Socket_IsOpen (S i) then S(i := Socket_Close (S i)) else S) (to_int32 (n - 1))
      else (let (ks, S', n') = sweep upd is S n in (i # ks, S', n')))"

definition NetworkThread_Update :: "(sock \<Rightarrow> bool) \<Rightarrow> socks \<Rightarrow> net_thread \<Rightarrow> socks \<times> net_thread" where
  "NetworkThread_Update upd S t =
     (if nt_stopped t then (S, t\<lparr>nt_timer := False\<rparr>)
      else
        let t1 = NetworkThread_AddSockets S (t\<lparr>nt_timer := True\<rparr>);
            (ks, S', n) = sweep upd (nt_socket_list t1) S (nt_connections t1)
        in (S', t1\<lparr>nt_socket_list := ks, nt_connections := n\<rparr>))"

section \<open>The manager of the threads\<close>

record socket_manager =
  sm_acceptor :: bool
  sm_threads :: "net_thread list option"
  sm_thread_count :: int

definition SocketManager_init :: socket_manager where
  "SocketManager_init = \<lparr>sm_acceptor = False, sm_threads = None, sm_thread_count = 1\<rparr>"

text \<open>\<open>bound\<close>: whether the acceptor could be created; \<open>threads\<close>: what \<open>CreateThreads\<close> returns.\<close>

definition SocketManager_StartNetwork ::
  "bool \<Rightarrow> net_thread list \<Rightarrow> int \<Rightarrow> socket_manager \<Rightarrow> (bool \<times> socket_manager) res" where
  "SocketManager_StartNetwork bound threads thread_count m =
     (if \<not> bound then Inr (False, m)
      else if int (length threads) < thread_count then Inl (UB ''thread index out of range'')
      else Inr (True, m\<lparr>sm_acceptor := True, sm_thread_count := thread_count,
        sm_threads := Some (map (\<lambda>t. snd (NetworkThread_Start t)) (take (nat thread_count) threads) @
          drop (nat thread_count) threads)\<rparr>))"

fun wait_all :: "net_thread list \<Rightarrow> net_thread list res" where
  "wait_all [] = Inr []"
| "wait_all (t # ts) =
     bind_res (NetworkThread_Wait t) (\<lambda>t'. bind_res (wait_all ts) (\<lambda>ts'. Inr (t' # ts')))"

definition SocketManager_Wait :: "net_thread list \<Rightarrow> int \<Rightarrow> net_thread list res" where
  "SocketManager_Wait threads n =
     bind_res (wait_all (take (nat n) threads)) (\<lambda>ts. Inr (ts @ drop (nat n) threads))"

definition SocketManager_StopNetwork :: "socket_manager \<Rightarrow> socket_manager res" where
  "SocketManager_StopNetwork m =
     (if \<not> sm_acceptor m then Inl (UB ''null acceptor pointer'')
      else case sm_threads m of
        None \<Rightarrow> Inl (UB ''null thread array'')
      | Some ts \<Rightarrow>
          bind_res
            (SocketManager_Wait
              (map NetworkThread_Stop (take (nat (sm_thread_count m)) ts) @ drop (nat (sm_thread_count m)) ts)
              (sm_thread_count m))
            (\<lambda>_. Inr (m\<lparr>sm_acceptor := False, sm_threads := None, sm_thread_count := 0\<rparr>)))"

text \<open>
  \<open>OnSocketOpen\<close>: \<open>started\<close> is the connection after \<open>Start()\<close>, \<open>None\<close> when the constructor or
  \<open>Start\<close> threw \<open>system_error\<close>.
\<close>

definition SocketManager_OnSocketOpen ::
  "nat \<Rightarrow> sock option \<Rightarrow> nat \<Rightarrow> socks \<Rightarrow> net_thread list \<Rightarrow> (socks \<times> net_thread list) res" where
  "SocketManager_OnSocketOpen i started thread_index S threads =
     (case started of None \<Rightarrow> Inr (S, threads)
      | Some s \<Rightarrow>
         if length threads \<le> thread_index then Inl (UB ''thread index out of range'')
         else Inr (S(i := s), threads[thread_index := NetworkThread_AddSocket i (threads ! thread_index)]))"

text \<open>The loop of \<open>SelectThreadWithMinConnections\<close> over the counts of the threads from \<open>i\<close> on.\<close>

fun select_min :: "int list \<Rightarrow> nat \<Rightarrow> int list \<Rightarrow> nat \<Rightarrow> nat" where
  "select_min counts i [] m = m"
| "select_min counts i (c # cs) m =
     select_min counts (Suc i) cs (if c < counts ! m then i else m)"

definition SelectThreadWithMinConnections :: "net_thread list \<Rightarrow> nat" where
  "SelectThreadWithMinConnections threads =
     (let counts = map NetworkThread_GetConnectionCount threads in select_min counts 1 (tl counts) 0)"

definition SocketManager_GetSocketForAccept :: "net_thread list \<Rightarrow> nat res" where
  "SocketManager_GetSocketForAccept threads =
     (if threads = [] then Inl (UB ''thread index out of range'')
      else Inr (SelectThreadWithMinConnections threads))"

section \<open>The acceptor\<close>

record acceptor =
  ac_listening :: bool
  ac_closed :: bool
  ac_pending :: nat

definition AsyncAcceptor_init :: acceptor where
  "AsyncAcceptor_init = \<lparr>ac_listening = True, ac_closed = False, ac_pending = 0\<rparr>"

definition AsyncAcceptor_Close :: "acceptor \<Rightarrow> acceptor" where
  "AsyncAcceptor_Close a = (if ac_closed a then a else a\<lparr>ac_closed := True, ac_listening := False\<rparr>)"

text \<open>
  Starting an accept. With a callback, \<open>_socket_factory\<close> first gives the socket and the index of
  the thread for it.
\<close>

definition AsyncAcceptor_AsyncAccept :: "acceptor \<Rightarrow> acceptor" where
  "AsyncAcceptor_AsyncAccept a = a\<lparr>ac_pending := Suc (ac_pending a)\<rparr>"

definition AsyncAcceptor_AsyncAcceptWithCallback ::
  "(unit \<Rightarrow> nat res) \<Rightarrow> acceptor \<Rightarrow> (nat \<times> acceptor) res" where
  "AsyncAcceptor_AsyncAcceptWithCallback socket_factory a =
     bind_res (socket_factory ()) (\<lambda>i. Inr (i, a\<lparr>ac_pending := Suc (ac_pending a)\<rparr>))"

text \<open>
  The completion of an accept: without an error the callback runs (a \<open>system_error\<close> it throws is
  swallowed; another exception passes), and the next accept is started unless closed. The factory
  looks at the state \<open>w'\<close> that the callback has left.
\<close>

definition swallow :: "'a \<Rightarrow> 'a res \<Rightarrow> 'a res" where
  "swallow w r = (case r of Inl (Thrown _) \<Rightarrow> Inr w | _ \<Rightarrow> r)"

definition AsyncAcceptor_OnAccept ::
  "('w \<Rightarrow> nat res) \<Rightarrow> (nat \<Rightarrow> 'w \<Rightarrow> 'w res) \<Rightarrow> bool \<Rightarrow> nat \<Rightarrow> acceptor \<Rightarrow> 'w \<Rightarrow>
     (nat option \<times> acceptor \<times> 'w) res" where
  "AsyncAcceptor_OnAccept socket_factory accept_callback error thread_index a w =
     (let a1 = a\<lparr>ac_pending := ac_pending a - 1\<rparr>
      in bind_res (if error then Inr w else swallow w (accept_callback thread_index w)) (\<lambda>w'.
           if ac_closed a1 then Inr (None, a1, w')
           else bind_res (AsyncAcceptor_AsyncAcceptWithCallback (\<lambda>_. socket_factory w') a1)
                  (\<lambda>(i, a2). Inr (Some i, a2, w'))))"

section \<open>Lemmas\<close>

lemma to_int32_pm1:
  "to_int32 (to_int32 k + 1) = to_int32 (k + 1)" "to_int32 (to_int32 k - 1) = to_int32 (k - 1)"
  "to_int32 (1 + to_int32 k) = to_int32 (1 + k)"
  using to_int32_add [of k 1] to_int32_add [of k "- 1"] by (simp_all add: add.commute)

lemma sweep_eq:
  "sweep Socket_Update is S (to_int32 k) =
     (filter (\<lambda>i. Socket_Update (S i)) is, S,
      to_int32 (k - int (length (filter (\<lambda>i. \<not> Socket_Update (S i)) is))))"
proof (induction "is" arbitrary: k)
  case (Cons i "is")
  then show ?case using sock.dead_not_usable [of "S i"]
    by (simp add: to_int32_pm1 algebra_simps)
qed simp

lemma add_fresh_eq:
  "nt_connections t = to_int32 k \<Longrightarrow>
     add_fresh S is t = t\<lparr>nt_socket_list := nt_socket_list t @ filter (\<lambda>i. Socket_IsOpen (S i)) is,
       nt_connections := to_int32 (k - int (length (filter (\<lambda>i. \<not> Socket_IsOpen (S i)) is)))\<rparr>"
proof (induction "is" arbitrary: t k)
  case (Cons i "is")
  show ?case
  proof (cases "Socket_IsOpen (S i)")
    case True
    with Cons.IH [of "t\<lparr>nt_socket_list := nt_socket_list t @ [i]\<rparr>" k] Cons.prems
    show ?thesis by simp
  next
    case False
    have "nt_connections (t\<lparr>nt_connections := to_int32 (nt_connections t - 1)\<rparr>) = to_int32 (k - 1)"
      using Cons.prems by (simp add: to_int32_pm1)
    from Cons.IH [OF this] False show ?thesis by (simp add: algebra_simps)
  qed
qed simp

text \<open>The counter counts the two lists.\<close>

definition count_ok :: "net_thread \<Rightarrow> bool" where
  "count_ok t \<longleftrightarrow>
     nt_connections t = to_int32 (int (length (nt_socket_list t)) + int (length (nt_fresh_list t)))"

lemma length_filter_not:
  "int (length (filter (\<lambda>x. \<not> P x) xs)) = int (length xs) - int (length (filter P xs))"
  by (induction xs) auto

lemma AddSockets_eq:
  assumes "count_ok t"
  shows "NetworkThread_AddSockets S t =
    t\<lparr>nt_socket_list := nt_socket_list t @ filter (\<lambda>i. Socket_IsOpen (S i)) (nt_fresh_list t),
      nt_connections := to_int32 (int (length (nt_socket_list t)) +
        int (length (filter (\<lambda>i. Socket_IsOpen (S i)) (nt_fresh_list t)))),
      nt_fresh_list := []\<rparr>"
  using assms
  by (auto simp: NetworkThread_AddSockets_def count_ok_def add_fresh_eq length_filter_not
      algebra_simps)

lemma Update_eq:
  assumes "count_ok t" "\<not> nt_stopped t"
  shows "NetworkThread_Update Socket_Update S t =
    (S, t\<lparr>nt_socket_list := filter (\<lambda>i. Socket_Update (S i)) (nt_socket_list t) @
            filter (\<lambda>i. Socket_IsOpen (S i)) (nt_fresh_list t),
          nt_connections := to_int32 (int (length (filter (\<lambda>i. Socket_Update (S i)) (nt_socket_list t))) +
            int (length (filter (\<lambda>i. Socket_IsOpen (S i)) (nt_fresh_list t)))),
          nt_fresh_list := [], nt_timer := True\<rparr>)"
proof -
  have ok: "count_ok (t\<lparr>nt_timer := True\<rparr>)" using assms(1) by (simp add: count_ok_def)
  have keep: "Socket_IsOpen s \<and> Socket_Update s \<longleftrightarrow> Socket_IsOpen s"
    and none: "\<not> (Socket_IsOpen s \<and> \<not> Socket_Update s)" for s
    using sock.use_alive by blast+
  show ?thesis
    using assms(2)
    by (intro prod_eqI net_thread.equality) (simp_all add: NetworkThread_Update_def
        AddSockets_eq [OF ok] sweep_eq keep none length_filter_not add.commute)
qed

text \<open>
  The steps that interleave on one thread: it is started, a connection is handed over (also after the end of \<open>Run\<close>:
  nothing keeps the acceptor from it), the timer fires while \<open>Run\<close> is in its loop, the thread is told to stop,
  \<open>Run\<close> comes to its end because of that, a connection is closed or marked for closing by anyone.
\<close>

inductive net_step :: "socks \<times> net_thread \<Rightarrow> socks \<times> net_thread \<Rightarrow> bool" where
  run: "net_step (S, t) (S, snd (NetworkThread_Start t))"
    if "\<not> nt_thread t" "\<not> nt_over t"
| add: "net_step (S, t) (S(i := s), NetworkThread_AddSocket i t)"
    if "i \<notin> set (nt_socket_list t)" "i \<notin> set (nt_fresh_list t)"
| update: "net_step (S, t) (NetworkThread_Update Socket_Update S t)"
    if "nt_thread t" "\<not> nt_over t"
| stop: "net_step (S, t) (S, NetworkThread_Stop t)"
| ended: "net_step (S, t) (S, NetworkThread_Run_end t)"
    if "nt_thread t" "nt_io_stopped t" "\<not> nt_over t"
| close: "net_step (S, t) (S(i := Socket_Close (S i)), t)"
| delayed: "net_step (S, t) (S(i := Socket_DelayedClose (S i)), t)"

inductive net_reach :: "socks \<times> net_thread \<Rightarrow> bool" where
  start: "net_reach (S, NetworkThread_init)"
| step: "net_reach c \<Longrightarrow> net_step c c' \<Longrightarrow> net_reach c'"

definition thread_ok :: "net_thread \<Rightarrow> bool" where
  "thread_ok t \<longleftrightarrow> distinct (nt_socket_list t @ nt_fresh_list t) \<and> (nt_over t \<longrightarrow> nt_stopped t) \<and>
     (nt_io_stopped t \<longrightarrow> nt_stopped t) \<and> (\<not> nt_over t \<longrightarrow> count_ok t)"

lemma net_step_ok:
  assumes "net_step c c'" "thread_ok (snd c)"
  shows "thread_ok (snd c')"
  using assms(1)
proof (cases rule: net_step.cases)
  case (add i t S s)
  with assms(2) show ?thesis
    by (simp add: NetworkThread_AddSocket_def thread_ok_def count_ok_def to_int32_pm1 algebra_simps)
next
  case (update t S)
  show ?thesis
  proof (cases "nt_stopped t")
    case True
    with update assms(2) show ?thesis by (simp add: NetworkThread_Update_def thread_ok_def count_ok_def)
  next
    case False
    with update assms(2) show ?thesis by (auto simp: Update_eq thread_ok_def count_ok_def)
  qed
qed (use assms(2) in \<open>auto simp: NetworkThread_Stop_def NetworkThread_Start_def NetworkThread_Run_end_def
    thread_ok_def count_ok_def\<close>)

lemma net_reach_ok: "net_reach c \<Longrightarrow> thread_ok (snd c)"
proof (induction rule: net_reach.induct)
  case (start S)
  then show ?case by (simp add: NetworkThread_init_def thread_ok_def count_ok_def to_int32_def)
qed (rule net_step_ok)

text \<open>By how much the counter is more than the lists count.\<close>

definition count_excess :: "net_thread \<Rightarrow> int" where
  "count_excess t = to_int32 (NetworkThread_GetConnectionCount t -
     (int (length (nt_socket_list t)) + int (length (nt_fresh_list t))))"

lemma net_step_over:
  assumes "net_step c c'" "nt_over (snd c)"
  shows "nt_over (snd c') \<and> count_excess (snd c') = count_excess (snd c)"
  using assms(1)
proof (cases rule: net_step.cases)
  case (add i t S s)
  with assms(2) show ?thesis
    using to_int32_add [of "nt_connections t + 1" "- (int (length (nt_socket_list t)) + int (length (nt_fresh_list t)) + 1)"]
    by (simp add: NetworkThread_AddSocket_def count_excess_def NetworkThread_GetConnectionCount_def algebra_simps)
qed (use assms(2) in \<open>auto simp: NetworkThread_Stop_def count_excess_def NetworkThread_GetConnectionCount_def\<close>)

section \<open>Properties\<close>

text \<open>
  C19. For connections that keep the \<open>Update\<close> of \<open>Socket\<close>, in every interleaving of hand-overs, timer ticks, closes,
  the stop of the thread and the end of its \<open>Run\<close>: no connection is listed twice; until \<open>Run\<close> returns the connection
  counter is the number of connections on the two lists; a tick of a thread that has not been stopped leaves exactly the
  connections that are not closed, together with the handed-over ones that are still open, and empties the list of
  fresh ones without touching any connection. When a stopped thread's \<open>Run\<close> returns, it empties the lists and leaves
  the counter, which then counts connections that are on no list; and no later step puts that right: the
  difference between the counter and the lists (in 32 bits) stays what it is.
\<close>

theorem NetworkThread_counts_connections:
  assumes "net_reach (S, t)"
  shows "distinct (nt_socket_list t @ nt_fresh_list t) \<and>
    (\<not> nt_over t \<longrightarrow> NetworkThread_GetConnectionCount t =
      to_int32 (int (length (nt_socket_list t)) + int (length (nt_fresh_list t)))) \<and>
    (\<not> nt_stopped t \<longrightarrow>
       fst (NetworkThread_Update Socket_Update S t) = S \<and>
       nt_fresh_list (snd (NetworkThread_Update Socket_Update S t)) = [] \<and>
       nt_socket_list (snd (NetworkThread_Update Socket_Update S t)) =
         filter (\<lambda>i. \<not> sk_closed (S i)) (nt_socket_list t) @
         filter (\<lambda>i. Socket_IsOpen (S i)) (nt_fresh_list t)) \<and>
    (\<not> nt_over t \<longrightarrow>
       nt_socket_list (NetworkThread_Run_end t) = [] \<and> nt_fresh_list (NetworkThread_Run_end t) = [] \<and>
       NetworkThread_GetConnectionCount (NetworkThread_Run_end t) =
         to_int32 (int (length (nt_socket_list t)) + int (length (nt_fresh_list t)))) \<and>
    (nt_over t \<longrightarrow> (\<forall>S' t'. net_step (S, t) (S', t') \<longrightarrow> nt_over t' \<and> count_excess t' = count_excess t))"
proof -
  have ok: "thread_ok t" using net_reach_ok [OF assms] by simp
  have tick: "NetworkThread_Update Socket_Update S t =
    (S, t\<lparr>nt_socket_list := filter (\<lambda>i. Socket_Update (S i)) (nt_socket_list t) @
            filter (\<lambda>i. Socket_IsOpen (S i)) (nt_fresh_list t),
          nt_connections := to_int32 (int (length (filter (\<lambda>i. Socket_Update (S i)) (nt_socket_list t))) +
            int (length (filter (\<lambda>i. Socket_IsOpen (S i)) (nt_fresh_list t)))),
          nt_fresh_list := [], nt_timer := True\<rparr>)" if "\<not> nt_stopped t"
    using ok that by (intro Update_eq) (auto simp: thread_ok_def)
  have "\<forall>S' t'. nt_over t \<and> net_step (S, t) (S', t') \<longrightarrow> nt_over t' \<and> count_excess t' = count_excess t"
    using net_step_over by fastforce
  with ok show ?thesis
    by (auto simp: tick NetworkThread_GetConnectionCount_def NetworkThread_Run_end_def Socket_Update_def thread_ok_def
        count_ok_def)
qed

theorem NetworkThread_counts_connections_witness:
  "NetworkThread_GetConnectionCount
     (NetworkThread_AddSocket 4 (NetworkThread_AddSocket 3 NetworkThread_init)) = 2"
proof -
  let ?S = "\<lambda>_. Socket_init True"
  have "net_reach (?S, NetworkThread_init)" by (rule net_reach.start)
  from net_reach.step [OF this net_step.add [of 3 _ _ "Socket_init True"]]
  have "net_reach (?S(3 := Socket_init True), NetworkThread_AddSocket 3 NetworkThread_init)"
    by (simp add: NetworkThread_init_def)
  from net_reach.step [OF this net_step.add [of 4 _ _ "Socket_init True"]]
  have "net_reach (?S(3 := Socket_init True, 4 := Socket_init True),
      NetworkThread_AddSocket 4 (NetworkThread_AddSocket 3 NetworkThread_init))"
    by (simp add: NetworkThread_init_def NetworkThread_AddSocket_def)
  from NetworkThread_counts_connections [OF this] show ?thesis
    by (simp add: NetworkThread_init_def NetworkThread_AddSocket_def to_int32_def)
qed

text \<open>
  \<open>Close\<close> acts once: any number of calls shuts the connection down and calls \<open>OnClose\<close> exactly
  once, and afterwards \<open>Update\<close> reports the connection as dead and \<open>IsOpen\<close> is false.
\<close>

theorem Socket_Close_once:
  assumes "0 < n" "\<not> sk_closed s"
  shows "(Socket_Close ^^ n) s =
      s\<lparr>sk_closed := True, sk_shutdowns := sk_shutdowns s + 1, sk_on_close := sk_on_close s + 1\<rparr> \<and>
    \<not> Socket_Update ((Socket_Close ^^ n) s) \<and> \<not> Socket_IsOpen ((Socket_Close ^^ n) s)"
proof -
  have "(Socket_Close ^^ Suc k) s = Socket_Close s" for k
    by (induction k) (simp_all add: sock.shut_idem)
  then have eq: "(Socket_Close ^^ n) s = Socket_Close s" using assms(1) by (cases n) simp_all
  show ?thesis
    unfolding eq using assms(2) sock.shut_dead [of s] sock.shut_not_usable [of s]
    by (auto simp: Socket_Close_def)
qed

theorem Socket_Close_once_witness:
  "sk_on_close ((Socket_Close ^^ 3) (Socket_init True)) = 1"
  using Socket_Close_once [of 3 "Socket_init True"] by (simp add: Socket_init_def)

text \<open>
  \<open>DelayedClose\<close> does not close: as long as nobody calls \<open>Close\<close> on it, a connection that is
  on the list of a running thread and was marked for closing stays open and on the list, whatever
  the number of ticks.
\<close>

theorem DelayedClose_keeps_connection:
  assumes "count_ok t" "\<not> nt_stopped t" "i \<in> set (nt_socket_list t)" "\<not> sk_closed (S i)"
    and "S' = S(i := Socket_DelayedClose (S i))"
    and "c = ((\<lambda>(S, t). NetworkThread_Update Socket_Update S t) ^^ n) (S', t)"
  shows "i \<in> set (nt_socket_list (snd c)) \<and> \<not> sk_closed (fst c i) \<and>
    sk_shutdowns (fst c i) = sk_shutdowns (S i)"
proof -
  have "\<exists>t''. ((\<lambda>(S, t). NetworkThread_Update Socket_Update S t) ^^ n) (S', t) = (S', t'') \<and> count_ok t'' \<and>
      \<not> nt_stopped t'' \<and> i \<in> set (nt_socket_list t'')"
  proof (induction n)
    case (Suc n)
    then obtain t1 where t1: "((\<lambda>(S, t). NetworkThread_Update Socket_Update S t) ^^ n) (S', t) = (S', t1)"
      "count_ok t1" "\<not> nt_stopped t1" "i \<in> set (nt_socket_list t1)" by blast
    moreover have "Socket_Update (S' i)" using assms(4,5) by (simp add: socket_defs)
    ultimately show ?case by (simp add: Update_eq count_ok_def)
  qed (use assms in simp)
  then show ?thesis using assms(4-6) by (auto simp: Socket_DelayedClose_def)
qed

theorem DelayedClose_keeps_connection_witness:
  "5 \<in> set (nt_socket_list (snd (((\<lambda>(S, t). NetworkThread_Update Socket_Update S t) ^^ 100)
     (\<lambda>_. Socket_DelayedClose (Socket_init True),
      NetworkThread_init\<lparr>nt_socket_list := [5], nt_connections := 1\<rparr>))))"
proof -
  let ?t = "NetworkThread_init\<lparr>nt_socket_list := [5], nt_connections := 1\<rparr>"
  let ?S = "(\<lambda>_. Socket_DelayedClose (Socket_init True))(5 := Socket_init True)"
  have "count_ok ?t" "\<not> nt_stopped ?t" "5 \<in> set (nt_socket_list ?t)" "\<not> sk_closed (?S 5)"
    by (simp_all add: count_ok_def NetworkThread_init_def to_int32_def Socket_init_def)
  moreover have "(\<lambda>_. Socket_DelayedClose (Socket_init True)) = ?S(5 := Socket_DelayedClose (?S 5))"
    by auto
  ultimately show ?thesis
    using DelayedClose_keeps_connection [of ?t 5 ?S "\<lambda>_. Socket_DelayedClose (Socket_init True)" _ 100]
    by blast
qed

lemma select_min_spec:
  assumes "cs = drop i counts" "m < i" "i \<le> length counts" "\<forall>j < i. counts ! m \<le> counts ! j"
    and "\<forall>j < m. counts ! m < counts ! j"
  shows "select_min counts i cs m < length counts \<and>
    (\<forall>j < length counts. counts ! select_min counts i cs m \<le> counts ! j) \<and>
    (\<forall>j < select_min counts i cs m. counts ! select_min counts i cs m < counts ! j)"
  using assms
proof (induction cs arbitrary: i m)
  case Nil
  then show ?case by auto
next
  case (Cons c cs)
  then have i: "i < length counts" by (metis drop_all leI list.distinct(1))
  with Cons.prems(1) have c: "c = counts ! i" "cs = drop (Suc i) counts"
    by (metis Cons_nth_drop_Suc list.inject)+
  show ?case
  proof (cases "c < counts ! m")
    case True
    with Cons.prems c i have "\<forall>j < Suc i. counts ! i \<le> counts ! j" "\<forall>j < i. counts ! i < counts ! j"
      by (auto simp: less_Suc_eq)
    with Cons.IH [of "Suc i" i] True c i show ?thesis by simp
  next
    case False
    with Cons.prems c have "\<forall>j < Suc i. counts ! m \<le> counts ! j" by (auto simp: less_Suc_eq)
    with Cons.IH [of "Suc i" m] False c i Cons.prems(2,5) show ?thesis by simp
  qed
qed

lemma select_thread_spec:
  assumes "threads \<noteq> []"
  shows "SelectThreadWithMinConnections threads < length threads \<and>
    (\<forall>j < length threads. nt_connections (threads ! SelectThreadWithMinConnections threads) \<le> nt_connections (threads ! j)) \<and>
    (\<forall>j < SelectThreadWithMinConnections threads.
       nt_connections (threads ! SelectThreadWithMinConnections threads) < nt_connections (threads ! j))"
proof -
  let ?c = "map NetworkThread_GetConnectionCount threads"
  define k where "k = SelectThreadWithMinConnections threads"
  have k: "k = select_min ?c 1 (tl ?c) 0"
    by (simp add: k_def SelectThreadWithMinConnections_def Let_def)
  have "k < length ?c \<and> (\<forall>j < length ?c. ?c ! k \<le> ?c ! j) \<and> (\<forall>j < k. ?c ! k < ?c ! j)"
    unfolding k by (rule select_min_spec) (use assms in \<open>simp_all add: drop_Suc Suc_le_eq\<close>)
  then show ?thesis by (auto simp: NetworkThread_GetConnectionCount_def simp flip: k_def)
qed

text \<open>
  \<open>SelectThreadWithMinConnections\<close> returns the first thread with the least number of
  connections, always within the array.
\<close>

theorem SelectThread_least:
  assumes "threads \<noteq> []" "k = SelectThreadWithMinConnections threads"
  shows "k < length threads \<and>
    (\<forall>j < length threads. nt_connections (threads ! k) \<le> nt_connections (threads ! j)) \<and>
    (\<forall>j < k. nt_connections (threads ! k) < nt_connections (threads ! j))"
  using assms select_thread_spec by blast

theorem SelectThread_least_witness:
  "SelectThreadWithMinConnections
     [NetworkThread_init\<lparr>nt_connections := 3\<rparr>, NetworkThread_init\<lparr>nt_connections := 1\<rparr>,
      NetworkThread_init\<lparr>nt_connections := 1\<rparr>] < 3"
  using SelectThread_least [of "[NetworkThread_init\<lparr>nt_connections := 3\<rparr>,
      NetworkThread_init\<lparr>nt_connections := 1\<rparr>, NetworkThread_init\<lparr>nt_connections := 1\<rparr>]"]
  by simp

text \<open>
  The acceptor keeps exactly one accept outstanding while it is open, also when the callback
  throws a \<open>system_error\<close>; after \<open>Close\<close> the completion that asio still delivers starts no other.
\<close>

theorem AsyncAcceptor_rearms_until_closed:
  assumes "ac_pending a = 1" "socket_factory w' = Inr k"
    and "AsyncAcceptor_OnAccept socket_factory cb err i a w = Inr (next, a', w')"
  shows "(\<not> ac_closed a \<longrightarrow> next = Some k \<and> ac_pending a' = 1 \<and> ac_listening a' = ac_listening a) \<and>
    (ac_closed a \<longrightarrow> next = None \<and> ac_pending a' = 0) \<and>
    (\<not> err \<and> cb i w = Inl (Thrown x) \<longrightarrow> w' = w)"
  using assms
  by (auto simp: AsyncAcceptor_OnAccept_def AsyncAcceptor_AsyncAcceptWithCallback_def swallow_def
      bind_res_Inr_iff Let_def split: if_splits)

theorem AsyncAcceptor_rearms_until_closed_witness:
  "\<exists>n a' w'. AsyncAcceptor_OnAccept (\<lambda>_. Inr 0) (\<lambda>_ _. Inl (Thrown ''x'')) False 0
      (AsyncAcceptor_Close (AsyncAcceptor_AsyncAccept AsyncAcceptor_init)) (7 :: int) = Inr (n, a', w') \<and>
     ac_pending a' = 0 \<and> w' = 7"
proof -
  let ?a = "AsyncAcceptor_Close (AsyncAcceptor_AsyncAccept AsyncAcceptor_init)"
  have a: "ac_pending ?a = 1" "ac_closed ?a"
    by (simp_all add: AsyncAcceptor_Close_def AsyncAcceptor_AsyncAccept_def AsyncAcceptor_init_def)
  have "\<exists>n a' w'. AsyncAcceptor_OnAccept (\<lambda>_. Inr 0) (\<lambda>_ _. Inl (Thrown ''x'')) False 0 ?a (7 :: int) =
      Inr (n, a', w')"
    using a by (simp add: AsyncAcceptor_OnAccept_def swallow_def)
  then obtain n a' w' where r: "AsyncAcceptor_OnAccept (\<lambda>_. Inr 0) (\<lambda>_ _. Inl (Thrown ''x'')) False 0 ?a (7 :: int) =
      Inr (n, a', w')" by blast
  from AsyncAcceptor_rearms_until_closed [OF a(1) _ r, of 0 "''x''"] a r show ?thesis by auto
qed

end
