(* ===== verification/Game_World.thy ===== *)
theory Game_World
  imports Priority_Queue Scene_Grid Registry Redis_Client Net_Socket
begin

text \<open>
  The shared state of the game server: the objects on the heap, the singletons that hold them
  (EntityManager of Entity.h, SceneManager of Scene.h, the queue of MessageDispatcher.h), the
  global player of WorldSession.cpp and the outside world. An object is named by a number; a
  \<open>shared_ptr\<close> is such a number and a count of owners.
\<close>

section \<open>Objects\<close>

record player_data =
  pd_session :: "nat option"
  pd_stuff :: player_stuff
  pd_heart_count :: int

text \<open>The dynamic class of an object, with the members of its own.\<close>

datatype entity_kind = KEntity | KHoster hoster_asset | KPlayer player_data

text \<open>\<open>e_scene\<close>: the scene \<open>_locate_scene\<close> points to, by its key in the scene manager.\<close>

record entity =
  e_ID :: int
  e_scene :: "int option"
  e_common :: common_prop
  e_kind :: entity_kind

definition Entity_new :: "entity_kind \<Rightarrow> entity" where
  "Entity_new kind = \<lparr>e_ID = 0, e_scene = None, e_common = default_common_prop, e_kind = kind\<rparr>"

section \<open>The world\<close>

record 'd world =
  w_heap :: "nat \<Rightarrow> entity option"
  w_refs :: "nat \<Rightarrow> nat"
  w_next :: nat
  w_entities :: "int \<Rightarrow> nat option"
  w_scenes :: "int \<Rightarrow> scene option"
  w_queue :: "msg_item list"
  w_assets :: asset_manager
  w_protos :: "proto_msg registry"
  w_socks :: "nat \<Rightarrow> sock"
  w_player :: "nat option"
  w_hosters :: "nat list"
  w_db :: 'd
  w_draws :: nat

text \<open>
  What the code calls but does not define: the codec of protobuf, the iteration orders of the hash
  sets, the data base, the draws of the random generator (the n-th one) and the clock.
\<close>

record 'd env =
  en_codec :: codec
  en_ex :: "int set \<Rightarrow> int list"
  en_ez :: "int set \<Rightarrow> int list"
  en_order :: "asset_msg list \<Rightarrow> asset_msg list"
  en_redis :: "'d redis"
  en_gen :: "nat \<Rightarrow> int \<Rightarrow> int \<Rightarrow> int"
  en_now :: int

definition deref :: "nat \<Rightarrow> 'd world \<Rightarrow> entity res" where
  "deref r w = (case w_heap w r of None \<Rightarrow> Inl (UB ''dangling pointer'') | Some e \<Rightarrow> Inr e)"

definition put_entity :: "nat \<Rightarrow> entity \<Rightarrow> 'd world \<Rightarrow> 'd world" where
  "put_entity r e w = w\<lparr>w_heap := (w_heap w)(r \<mapsto> e)\<rparr>"

definition alloc :: "entity \<Rightarrow> 'd world \<Rightarrow> nat \<times> 'd world" where
  "alloc e w = (w_next w, w\<lparr>w_heap := (w_heap w)(w_next w \<mapsto> e),
     w_refs := (w_refs w)(w_next w := 1), w_next := Suc (w_next w)\<rparr>)"

lemma deref_Inr [simp]: "deref r w = Inr e \<longleftrightarrow> w_heap w r = Some e"
  by (simp add: deref_def split: option.splits)

lemma deref_Some [simp]: "w_heap w r = Some e \<Longrightarrow> deref r w = Inr e"
  by simp

lemma put_entity_sel [simp]:
  "w_heap (put_entity r e w) = (w_heap w)(r \<mapsto> e)" "w_refs (put_entity r e w) = w_refs w"
  "w_entities (put_entity r e w) = w_entities w" "w_scenes (put_entity r e w) = w_scenes w"
  "w_queue (put_entity r e w) = w_queue w" "w_socks (put_entity r e w) = w_socks w"
  "w_assets (put_entity r e w) = w_assets w" "w_protos (put_entity r e w) = w_protos w"
  "w_player (put_entity r e w) = w_player w" "w_hosters (put_entity r e w) = w_hosters w"
  "w_db (put_entity r e w) = w_db w" "w_next (put_entity r e w) = w_next w"
  "w_draws (put_entity r e w) = w_draws w"
  by (simp_all add: put_entity_def)

section \<open>EntityManager\<close>

text \<open>
  \<open>Add\<close> and \<open>Emplace\<close> keep the first object under an ID. Emplace reads \<open>entity->_ID\<close> for its trace
  output.
\<close>

definition manager_put :: "int \<Rightarrow> nat \<Rightarrow> 'd world \<Rightarrow> 'd world" where
  "manager_put entity_id r w =
     (case w_entities w entity_id of
        Some _ \<Rightarrow> w
      | None \<Rightarrow> w\<lparr>w_entities := (w_entities w)(entity_id \<mapsto> r),
                  w_refs := (w_refs w)(r := Suc (w_refs w r))\<rparr>)"

definition EntityManager_Add :: "nat \<Rightarrow> 'd world \<Rightarrow> 'd world res" where
  "EntityManager_Add r w = bind_res (deref r w) (\<lambda>e. Inr (manager_put (e_ID e) r w))"

definition EntityManager_Emplace :: "int \<Rightarrow> nat \<Rightarrow> 'd world \<Rightarrow> 'd world res" where
  "EntityManager_Emplace entity_id r w =
     bind_res (deref r w) (\<lambda>_. Inr (manager_put entity_id r w))"

definition EntityManager_GetEntity :: "'d world \<Rightarrow> int \<Rightarrow> nat option" where
  "EntityManager_GetEntity w entity_id = w_entities w entity_id"

definition EntityManager_Has :: "'d world \<Rightarrow> int \<Rightarrow> bool" where
  "EntityManager_Has w entity_id \<longleftrightarrow> EntityManager_GetEntity w entity_id \<noteq> None"

text \<open>
  \<open>Erase\<close> drops the manager's pointer while it holds the manager's mutex. If it was the last one,
  the destructor of the entity runs there and calls \<open>Erase\<close>, which locks the same mutex again.
\<close>

definition EntityManager_Erase :: "int \<Rightarrow> 'd world \<Rightarrow> 'd world res" where
  "EntityManager_Erase entity_id w =
     (case w_entities w entity_id of
        None \<Rightarrow> Inr w
      | Some r \<Rightarrow>
          if w_refs w r \<le> 1 then Inl (UB ''mutex locked twice by one thread'')
          else Inr (w\<lparr>w_entities := (w_entities w)(entity_id := None),
                      w_refs := (w_refs w)(r := w_refs w r - 1)\<rparr>))"

definition EntityManager_Erase_entity :: "nat \<Rightarrow> 'd world \<Rightarrow> 'd world res" where
  "EntityManager_Erase_entity r w = bind_res (deref r w) (\<lambda>e. EntityManager_Erase (e_ID e) w)"

text \<open>The destructor of an entity, and an owner other than the manager letting go of it.\<close>

definition Entity_destruct :: "nat \<Rightarrow> 'd world \<Rightarrow> 'd world res" where
  "Entity_destruct r w =
     bind_res (deref r w) (\<lambda>e.
       bind_res (EntityManager_Erase (e_ID e) w) (\<lambda>w'.
         Inr (w'\<lparr>w_heap := (w_heap w')(r := None)\<rparr>)))"

definition release :: "nat \<Rightarrow> 'd world \<Rightarrow> 'd world res" where
  "release r w =
     (let w1 = w\<lparr>w_refs := (w_refs w)(r := w_refs w r - 1)\<rparr>
      in if w_refs w r \<le> 1 then Entity_destruct r w1 else Inr w1)"

interpretation manager: first_wins manager_put EntityManager_GetEntity
  by unfold_locales (auto simp: manager_put_def EntityManager_GetEntity_def split: option.splits)

section \<open>SceneManager\<close>

fun load_scenes :: "asset_msg list \<Rightarrow> (int \<Rightarrow> scene option) \<Rightarrow> bool \<times> (int \<Rightarrow> scene option)" where
  "load_scenes [] scenes = (True, scenes)"
| "load_scenes (m # ms) scenes =
     (case m of
        AM_Scene asset_scene \<Rightarrow>
          (let s = Scene_of_asset asset_scene in load_scenes ms (registry_put (Scene_GetID s) s scenes))
      | _ \<Rightarrow> (False, scenes))"

definition SceneManager_Load :: "'d env \<Rightarrow> 'd world \<Rightarrow> bool \<times> 'd world" where
  "SceneManager_Load E w =
     (let (ms, am) = AssetManager_GetMessagesByType (asset_type_number ASSET_TYPE_SCENE) (w_assets w);
          (ok, scenes) = load_scenes (en_order E ms) (w_scenes w)
      in (ok, w\<lparr>w_assets := am, w_scenes := scenes\<rparr>))"

definition SceneManager_Get :: "'d world \<Rightarrow> int \<Rightarrow> scene option" where
  "SceneManager_Get w scene_id = registry_get (w_scenes w) scene_id"

text \<open>The scene a pointer refers to.\<close>

definition the_scene :: "int \<Rightarrow> 'd world \<Rightarrow> scene res" where
  "the_scene k w = (case w_scenes w k of None \<Rightarrow> Inl (UB ''dangling pointer'') | Some s \<Rightarrow> Inr s)"

definition put_scene :: "int \<Rightarrow> scene \<Rightarrow> 'd world \<Rightarrow> 'd world" where
  "put_scene k s w = w\<lparr>w_scenes := (w_scenes w)(k \<mapsto> s)\<rparr>"

lemma the_scene_Inr [simp]: "the_scene k w = Inr s \<longleftrightarrow> w_scenes w k = Some s"
  by (simp add: the_scene_def split: option.splits)

lemma the_scene_Some [simp]: "w_scenes w k = Some s \<Longrightarrow> the_scene k w = Inr s"
  by simp

lemma put_scene_sel [simp]:
  "w_heap (put_scene k s w) = w_heap w" "w_refs (put_scene k s w) = w_refs w"
  "w_entities (put_scene k s w) = w_entities w" "w_scenes (put_scene k s w) = (w_scenes w)(k \<mapsto> s)"
  "w_queue (put_scene k s w) = w_queue w" "w_socks (put_scene k s w) = w_socks w"
  "w_assets (put_scene k s w) = w_assets w" "w_protos (put_scene k s w) = w_protos w"
  "w_player (put_scene k s w) = w_player w" "w_hosters (put_scene k s w) = w_hosters w"
  "w_db (put_scene k s w) = w_db w" "w_next (put_scene k s w) = w_next w"
  "w_draws (put_scene k s w) = w_draws w"
  by (simp_all add: put_scene_def)

section \<open>MessageDispatcher: sending\<close>

text \<open>
  \<open>operator <\<close> of \<open>PriorityQueueItem\<close>: the standard queue has its greatest element on top, which is one
  of the smallest priority number. So the queue is ordered by that number.
\<close>

definition PriorityQueueItem_less :: "msg_item \<Rightarrow> msg_item \<Rightarrow> bool" where
  "PriorityQueueItem_less item other \<longleftrightarrow> MsgItem_priority other < MsgItem_priority item"

lemma pq_ordered_PriorityQueueItem:
  "pq_ordered MsgItem_priority q \<longleftrightarrow> sorted_wrt (\<lambda>a b. \<not> PriorityQueueItem_less a b) q"
  by (simp add: pq_ordered_def sorted_map PriorityQueueItem_less_def not_less)

text \<open>
  \<open>SendMessage\<close>: the item that goes into the queue copies \<open>msg\<close> before the time is set, and the
  time is set in the local \<open>msg\<close>.
\<close>

definition MessageDispatcher_SendMessage :: "int \<Rightarrow> msg_item \<Rightarrow> 'd world \<Rightarrow> 'd world" where
  "MessageDispatcher_SendMessage now msg w =
     (let item = msg; msg = msg\<lparr>mi_time := Some now\<rparr>
      in w\<lparr>w_queue := PriorityQueue_Emplace MsgItem_priority item (w_queue w)\<rparr>)"

definition MessageDispatcher_Empty :: "'d world \<Rightarrow> bool" where
  "MessageDispatcher_Empty w \<longleftrightarrow> PriorityQueue_Empty (w_queue w)"

lemma SendMessage_sel [simp]:
  "w_heap (MessageDispatcher_SendMessage now m w) = w_heap w"
  "w_entities (MessageDispatcher_SendMessage now m w) = w_entities w"
  "w_scenes (MessageDispatcher_SendMessage now m w) = w_scenes w"
  "w_refs (MessageDispatcher_SendMessage now m w) = w_refs w"
  "w_socks (MessageDispatcher_SendMessage now m w) = w_socks w"
  "mset (w_queue (MessageDispatcher_SendMessage now m w)) = add_mset m (mset (w_queue w))"
  by (simp_all add: MessageDispatcher_SendMessage_def PriorityQueue_Emplace_def)

section \<open>Lemmas\<close>

definition scene_entries :: "scene_asset list \<Rightarrow> (int \<times> scene) list" where
  "scene_entries as = map (\<lambda>a. (Scene_GetID (Scene_of_asset a), Scene_of_asset a)) as"

lemma load_scenes_eq:
  "load_scenes (map AM_Scene as) scenes =
     (True, fold (\<lambda>(k, v). registry_put k v) (scene_entries as) scenes)"
  by (induction "as" arbitrary: scenes) (simp_all add: scene_entries_def Let_def)

lemma map_of_scene_entries:
  "map_of (scene_entries as) k =
     map_option Scene_of_asset (find (\<lambda>a. asset_global_id (AM_Scene a) = k) as)"
  by (induction "as")
    (simp_all add: scene_entries_def Scene_GetID_def Scene_of_asset_def Scene_empty_def
      asset_global_id_def SceneAsset_common_prop_def)

section \<open>Properties\<close>

text \<open>
  \<open>SceneManager::Load\<close> on scene assets succeeds, and \<open>Get\<close> then gives for every ID the scene,
  without entities, of the first asset with that global ID in the order of iteration, or null.
\<close>

theorem SceneManager_Load_spec:
  assumes "en_order E (fst (AssetManager_GetMessagesByType 9 (w_assets w))) = map AM_Scene as"
    and "w_scenes w = Map.empty"
  shows "fst (SceneManager_Load E w) \<and>
    SceneManager_Get (snd (SceneManager_Load E w)) k =
      map_option Scene_of_asset (find (\<lambda>a. asset_global_id (AM_Scene a) = k) as)"
proof -
  obtain ms am where m: "AssetManager_GetMessagesByType 9 (w_assets w) = (ms, am)"
    by (rule prod.exhaust)
  have "SceneManager_Load E w = (True, w\<lparr>w_assets := am,
      w_scenes := fold (\<lambda>(k, v). registry_put k v) (scene_entries as) Map.empty\<rparr>)"
    using assms m by (simp add: SceneManager_Load_def load_scenes_eq)
  then show ?thesis
    using reg.get_fold_put [of "scene_entries as" Map.empty k]
    by (simp add: SceneManager_Get_def map_of_scene_entries registry_get_def)
qed

definition demo_scene_asset :: "int \<Rightarrow> int \<Rightarrow> scene_asset" where
  "demo_scene_asset i len = default_scene_asset\<lparr>sa_length := Some len,
     sa_common_prop := Some (default_asset_common_prop\<lparr>ac_global_id := Some i\<rparr>)\<rparr>"

definition demo_world :: "mem_db world" where
  "demo_world = \<lparr>w_heap = Map.empty, w_refs = (\<lambda>_. 0), w_next = 0, w_entities = Map.empty,
     w_scenes = Map.empty, w_queue = [], w_assets = AssetManager_init, w_protos = Map.empty,
     w_socks = (\<lambda>_. Socket_init True), w_player = None, w_hosters = [], w_db = (Map.empty, 0),
     w_draws = 0\<rparr>"

text \<open>
  A small codec for the witnesses: it writes nothing and reads every string as the default message.
\<close>

definition demo_codec :: codec where
  "demo_codec = \<lparr>ser_common = (\<lambda>_. []), parse_common = (\<lambda>_. Some default_common_prop),
     ser_player = (\<lambda>_. []), parse_player = (\<lambda>_. (True, default_player_stuff)),
     ser_proto = (\<lambda>_. []), parse_proto = (\<lambda>d _. Some d),
     ser_meta = (\<lambda>_. []), parse_meta = (\<lambda>_. None), ser_asset = (\<lambda>_. [])\<rparr>"

definition demo_env :: "mem_db env" where
  "demo_env = \<lparr>en_codec = demo_codec, en_ex = sorted_list_of_set, en_ez = sorted_list_of_set,
     en_order = (\<lambda>ms. ms), en_redis = mem_redis, en_gen = (\<lambda>_ lo hi. lo), en_now = 0\<rparr>"

theorem SceneManager_Load_spec_witness:
  "SceneManager_Get (snd (SceneManager_Load demo_env (demo_world\<lparr>w_assets :=
     add_asset (AM_Scene (demo_scene_asset 5 2)) (add_asset (AM_Scene (demo_scene_asset 5 1)) AssetManager_init)\<rparr>))) 5 =
   Some (Scene_of_asset (demo_scene_asset 5 1))"
proof -
  let ?w = "demo_world\<lparr>w_assets :=
     add_asset (AM_Scene (demo_scene_asset 5 2)) (add_asset (AM_Scene (demo_scene_asset 5 1)) AssetManager_init)\<rparr>"
  have init: "fst (AssetManager_GetMessagesByType t AssetManager_init) = []" for t
    by (simp add: AssetManager_GetMessagesByType_def AssetManager_init_def)
  have "en_order demo_env (fst (AssetManager_GetMessagesByType 9 (w_assets ?w))) =
      map AM_Scene [demo_scene_asset 5 1, demo_scene_asset 5 2]"
    by (simp add: demo_env_def ByType_add_asset init)
  moreover have "w_scenes ?w = Map.empty" by (simp add: demo_world_def)
  ultimately have "SceneManager_Get (snd (SceneManager_Load demo_env ?w)) 5 =
      map_option Scene_of_asset (find (\<lambda>a. asset_global_id (AM_Scene a) = 5)
        [demo_scene_asset 5 1, demo_scene_asset 5 2])"
    using SceneManager_Load_spec by blast
  then show ?thesis
    by (simp add: asset_global_id_def demo_scene_asset_def AssetCommonProp_global_id_def)
qed

end
