(* ===== verification/Entity_Ops.thy ===== *)
theory Entity_Ops
  imports Game_World
begin

text \<open>
  The class Entity (Entity.h, Entity.cpp): attributes, sight, entering and leaving a scene, moving,
  and the messages an entity sends to those near it. Virtual functions that a derived class
  overrides are dispatched in the theories of the derived classes.
\<close>

unbundle bit_operations_syntax

section \<open>Attributes\<close>

definition Entity_SetID :: "int \<Rightarrow> entity \<Rightarrow> entity" where
  "Entity_SetID entity_id e =
     e\<lparr>e_ID := entity_id, e_common := (e_common e)\<lparr>cp_entity_id := Some entity_id\<rparr>\<rparr>"

definition Entity_GetLevel :: "entity \<Rightarrow> int" where
  "Entity_GetLevel e = CommonProp_level (e_common e)"

definition Entity_GetGender :: "entity \<Rightarrow> int" where
  "Entity_GetGender e = (case CommonProp_gender (e_common e) of GENDER_TYPE_MAN \<Rightarrow> 1 | GENDER_TYPE_WOMAN \<Rightarrow> 2)"

definition Entity_HasAction :: "action_state \<Rightarrow> entity \<Rightarrow> bool" where
  "Entity_HasAction type e \<longleftrightarrow>
     action_state_number (CommonProp_action_state_type (e_common e)) OR action_state_number type \<noteq> 0"

text \<open>\<open>ClearAction\<close> computes a value and changes nothing.\<close>

definition Entity_ClearAction :: "action_state \<Rightarrow> entity \<Rightarrow> bool \<times> entity" where
  "Entity_ClearAction type e =
     (action_state_number (CommonProp_action_state_type (e_common e)) OR NOT (action_state_number type) \<noteq> 0, e)"

definition Entity_IsPlayer :: "entity \<Rightarrow> bool" where
  "Entity_IsPlayer e =
     (case e_kind e of KPlayer _ \<Rightarrow> True | _ \<Rightarrow> CommonProp_entity_type (e_common e) = ENTITY_TYPE_PLAYER)"

text \<open>\<open>SetEntityType\<close>; a player also writes its own data.\<close>

definition Entity_SetEntityType :: "entity_type \<Rightarrow> entity \<Rightarrow> entity" where
  "Entity_SetEntityType ty e =
     (let e1 = e\<lparr>e_common := (e_common e)\<lparr>cp_entity_type := Some ty\<rparr>\<rparr>
      in case e_kind e of
           KPlayer p \<Rightarrow>
             e1\<lparr>e_kind := KPlayer (p\<lparr>pd_stuff := (pd_stuff p)\<lparr>ps_common_prop :=
                Some ((PlayerStuff_common_prop (pd_stuff p))\<lparr>cp_entity_type := Some ty\<rparr>)\<rparr>\<rparr>)\<rparr>
         | _ \<Rightarrow> e1)"

definition Entity_GetMaxVisibalRange :: "entity \<Rightarrow> flt" where
  "Entity_GetMaxVisibalRange e = CommonProp_visibility_range (e_common e)"

text \<open>\<open>GetSightDistance\<close> is \<open>0.0f\<close>; no class overrides it.\<close>

definition Entity_GetSightDistance :: "entity \<Rightarrow> flt" where
  "Entity_GetSightDistance e = Fin 0"

definition Entity_IsInSight :: "vector3 \<Rightarrow> entity \<Rightarrow> bool" where
  "Entity_IsInSight pos e =
     (let curr_pos = CommonProp_position (e_common e); visibility_range = Entity_GetSightDistance e
      in flt_less visibility_range (flt_abs (flt_sub (Vector3_x pos) (Vector3_x curr_pos))) \<or>
         flt_less visibility_range (flt_abs (flt_sub (Vector3_z pos) (Vector3_z curr_pos))))"

definition Entity_GetX :: "entity \<Rightarrow> flt" where
  "Entity_GetX e = Vector3_x (CommonProp_position (e_common e))"

definition Entity_GetY :: "entity \<Rightarrow> flt" where
  "Entity_GetY e = Vector3_y (CommonProp_position (e_common e))"

definition Entity_GetZ :: "entity \<Rightarrow> flt" where
  "Entity_GetZ e = Vector3_z (CommonProp_position (e_common e))"

definition Entity_UpdatePosition :: "vector3 \<Rightarrow> entity \<Rightarrow> entity" where
  "Entity_UpdatePosition position e = e\<lparr>e_common := (e_common e)\<lparr>cp_position := Some position\<rparr>\<rparr>"

definition Entity_SetSceneID :: "int \<Rightarrow> entity \<Rightarrow> entity" where
  "Entity_SetSceneID scene_id e = e\<lparr>e_common := (e_common e)\<lparr>cp_scene_id := Some scene_id\<rparr>\<rparr>"

definition Entity_GetSceneID :: "entity \<Rightarrow> int" where
  "Entity_GetSceneID e = to_int32 (CommonProp_scene_id (e_common e))"

definition Entity_HasScene :: "entity \<Rightarrow> bool" where
  "Entity_HasScene e \<longleftrightarrow> e_scene e \<noteq> None"

section \<open>Messages to those near by\<close>

text \<open>The loop of \<open>SendNearbyMessage\<close> over the IDs the scene returned.\<close>

fun send_each :: "'d env \<Rightarrow> msg_item \<Rightarrow> int list \<Rightarrow> 'd world \<Rightarrow> 'd world res" where
  "send_each E item [] w = Inr w"
| "send_each E item (i # is) w =
     (case EntityManager_GetEntity w i of
        None \<Rightarrow> send_each E item is w
      | Some r \<Rightarrow> bind_res (deref r w) (\<lambda>near_entity.
          let item' = item\<lparr>mi_receiver := Some (e_ID near_entity)\<rparr>
          in send_each E item' is (MessageDispatcher_SendMessage (en_now E) item' w)))"

definition Entity_SendMessage :: "'d env \<Rightarrow> msg_item \<Rightarrow> 'd world \<Rightarrow> 'd world" where
  "Entity_SendMessage E item w = MessageDispatcher_SendMessage (en_now E) item w"

definition Entity_SendNearbyMessage :: "'d env \<Rightarrow> nat \<Rightarrow> msg_item \<Rightarrow> 'd world \<Rightarrow> 'd world res" where
  "Entity_SendNearbyMessage E r item w =
     bind_res (deref r w) (\<lambda>e.
       case e_scene e of
         None \<Rightarrow> Inr w
       | Some k \<Rightarrow> bind_res (the_scene k w) (\<lambda>s.
           bind_res (Scene_GetNearByEntities (en_ex E) (en_ez E) (Entity_GetX e) (Entity_GetZ e) s)
             (\<lambda>(n, entities, s').
                let w1 = put_scene k s' w
                in if n = 0 then Inr w1
                   else send_each E (item\<lparr>mi_sender := Some (e_ID e)\<rparr>) entities w1)))"

definition Entity_BroadCastCommonProp :: "'d env \<Rightarrow> nat \<Rightarrow> int \<Rightarrow> 'd world \<Rightarrow> 'd world res" where
  "Entity_BroadCastCommonProp E r type w =
     bind_res (deref r w) (\<lambda>e.
       Entity_SendNearbyMessage E r
         (default_msg_item\<lparr>mi_type := Some type, mi_sender := Some (e_ID e),
            mi_content := Some (ser_common (en_codec E) (e_common e))\<rparr>) w)"

section \<open>Entering, leaving and moving\<close>

definition Entity_OnEnterScene :: "'d env \<Rightarrow> nat \<Rightarrow> int \<Rightarrow> 'd world \<Rightarrow> 'd world res" where
  "Entity_OnEnterScene E r scene_id w =
     bind_res (deref r w) (\<lambda>e.
       case SceneManager_Get w scene_id of
         None \<Rightarrow> Inr (put_entity r (e\<lparr>e_scene := None\<rparr>) w)
       | Some s \<Rightarrow>
           (let e1 = Entity_SetSceneID scene_id (e\<lparr>e_scene := Some scene_id\<rparr>)
            in bind_res (EntityManager_Add r (put_entity r e1 w)) (\<lambda>w1.
                 bind_res (Scene_EnterScene (e_ID e1) (Entity_GetX e1) (Entity_GetZ e1) s) (\<lambda>s1.
                   Entity_BroadCastCommonProp E r MSG_TYPE_AOI_ENTER (put_scene scene_id s1 w1)))))"

definition Entity_OnBirth :: "'d env \<Rightarrow> nat \<Rightarrow> int \<Rightarrow> 'd world \<Rightarrow> 'd world res" where
  "Entity_OnBirth E r scene_id w = Entity_OnEnterScene E r scene_id w"

definition Entity_OnDeath :: "nat \<Rightarrow> 'd world \<Rightarrow> 'd world res" where
  "Entity_OnDeath r w = bind_res (deref r w) (\<lambda>e. EntityManager_Erase (e_ID e) w)"

definition Entity_OnLeaveScene :: "'d env \<Rightarrow> nat \<Rightarrow> 'd world \<Rightarrow> 'd world res" where
  "Entity_OnLeaveScene E r w =
     bind_res (deref r w) (\<lambda>e.
       case e_scene e of
         None \<Rightarrow> Inr w
       | Some k \<Rightarrow> bind_res (the_scene k w) (\<lambda>s.
           bind_res (Scene_LeaveScene (e_ID e) (Entity_GetX e) (Entity_GetZ e) s) (\<lambda>s1.
             Entity_SendNearbyMessage E r
               (default_msg_item\<lparr>mi_type := Some MSG_TYPE_AOI_LEAVE, mi_sender := Some (e_ID e)\<rparr>)
               (put_scene k s1 w))))"

definition Entity_StepMove :: "'d env \<Rightarrow> nat \<Rightarrow> vector3 \<Rightarrow> 'd world \<Rightarrow> 'd world res" where
  "Entity_StepMove E r position w =
     bind_res (deref r w) (\<lambda>e.
       case e_scene e of
         None \<Rightarrow> Inr w
       | Some k \<Rightarrow>
           (let e1 = Entity_UpdatePosition position e; w1 = put_entity r e1 w
            in bind_res (the_scene k w1) (\<lambda>s.
                 bind_res (Scene_UpdatePosition (e_ID e1) (Entity_GetX e1) (Entity_GetZ e1) position s)
                   (\<lambda>s1. Entity_BroadCastCommonProp E r MSG_TYPE_AOI_MOVE (put_scene k s1 w1)))))"

section \<open>Receiving\<close>

definition Entity_HandleMessage :: "'d env \<Rightarrow> msg_item \<Rightarrow> bool" where
  "Entity_HandleMessage E item =
     (if MsgItem_type item = MSG_TYPE_AOI_ENTER then MsgItem_sender item \<noteq> MsgItem_receiver item
      else if MsgItem_type item = MSG_TYPE_AOI_LEAVE \<or> MsgItem_type item = MSG_TYPE_AOI_MOVE then
        (if MsgItem_sender item = MsgItem_receiver item then False
         else parse_common (en_codec E) (MsgItem_content item) \<noteq> None)
      else True)"

section \<open>Lemmas\<close>

text \<open>The manager's pointers are alive and filed under the ID of their object.\<close>

definition manager_ok :: "'d world \<Rightarrow> bool" where
  "manager_ok w \<longleftrightarrow> (\<forall>i r. w_entities w i = Some r \<longrightarrow> (\<exists>e. w_heap w r = Some e \<and> e_ID e = i))"

definition to_receiver :: "msg_item \<Rightarrow> int \<Rightarrow> msg_item" where
  "to_receiver item i = item\<lparr>mi_receiver := Some i\<rparr>"

text \<open>All but the message queue is unchanged.\<close>

definition only_queue :: "'d world \<Rightarrow> 'd world \<Rightarrow> bool" where
  "only_queue w w' \<longleftrightarrow> (\<exists>q. w' = w\<lparr>w_queue := q\<rparr>)"

lemma only_queue_sel:
  "only_queue w w' \<Longrightarrow> w_heap w' = w_heap w" "only_queue w w' \<Longrightarrow> w_entities w' = w_entities w"
  "only_queue w w' \<Longrightarrow> w_scenes w' = w_scenes w" "only_queue w w' \<Longrightarrow> w_refs w' = w_refs w"
  "only_queue w w' \<Longrightarrow> w_socks w' = w_socks w" "only_queue w w' \<Longrightarrow> w_player w' = w_player w"
  by (auto simp: only_queue_def)

lemma only_queue_refl [simp]: "only_queue w w"
  unfolding only_queue_def by (rule exI [of _ "w_queue w"]) simp

lemma only_queue_send: "only_queue (MessageDispatcher_SendMessage now m w) w' \<Longrightarrow> only_queue w w'"
  by (auto simp: only_queue_def MessageDispatcher_SendMessage_def Let_def)

lemma manager_ok_send [simp]:
  "manager_ok (MessageDispatcher_SendMessage now m w) = manager_ok w"
  by (simp add: manager_ok_def)

lemma send_each_spec:
  assumes "manager_ok w"
  shows "\<exists>w'. send_each E item is w = Inr w' \<and> only_queue w w' \<and>
    mset (w_queue w') = mset (w_queue w) +
      mset (map (to_receiver item) (filter (\<lambda>i. w_entities w i \<noteq> None) is))"
  using assms
proof (induction "is" arbitrary: item w)
  case (Cons i "is")
  show ?case
  proof (cases "w_entities w i")
    case None
    with Cons show ?thesis by (simp add: EntityManager_GetEntity_def)
  next
    case (Some r)
    then obtain e where e: "w_heap w r = Some e" "e_ID e = i"
      using Cons.prems by (auto simp: manager_ok_def)
    let ?item = "item\<lparr>mi_receiver := Some i\<rparr>"
    let ?w = "MessageDispatcher_SendMessage (en_now E) ?item w"
    have "to_receiver ?item = to_receiver item" by (rule ext) (simp add: to_receiver_def)
    moreover have "to_receiver item i = ?item" by (simp add: to_receiver_def)
    moreover obtain w' where "send_each E ?item is ?w = Inr w'" "only_queue ?w w'"
      "mset (w_queue w') = mset (w_queue ?w) +
        mset (map (to_receiver ?item) (filter (\<lambda>i. w_entities ?w i \<noteq> None) is))"
      using Cons.IH [of ?w ?item] Cons.prems by auto
    ultimately show ?thesis using Some e
      by (auto simp: EntityManager_GetEntity_def dest: only_queue_send)
  qed
qed simp

text \<open>What an entity gets when it asks a scene who is near it.\<close>

definition near_ids :: "'d env \<Rightarrow> entity \<Rightarrow> scene \<Rightarrow> (int \<times> int list \<times> scene) res" where
  "near_ids E e s = Scene_GetNearByEntities (en_ex E) (en_ez E) (Entity_GetX e) (Entity_GetZ e) s"

text \<open>The messages that \<open>SendNearbyMessage\<close> queues for the IDs that the scene returns.\<close>

definition messages_for :: "'d world \<Rightarrow> msg_item \<Rightarrow> int list \<Rightarrow> msg_item list" where
  "messages_for w item ids = map (to_receiver item) (filter (\<lambda>i. w_entities w i \<noteq> None) ids)"

text \<open>
  What \<open>SendNearbyMessage\<close> does: one copy of the item for every registered entity the scene returns, and
  nothing else changes.
\<close>

lemma SendNearby_spec:
  assumes "manager_ok w" "w_heap w r = Some e" "e_scene e = Some k" "w_scenes w k = Some s"
    and "near_ids E e s = Inr (n, ids, s')"
  shows "\<exists>w'. Entity_SendNearbyMessage E r item w = Inr w' \<and> only_queue (put_scene k s' w) w' \<and>
    (length ids < 2 ^ 31 \<longrightarrow> mset (w_queue w') =
      mset (w_queue w) + mset (messages_for w (item\<lparr>mi_sender := Some (e_ID e)\<rparr>) ids))"
proof -
  let ?w = "put_scene k s' w" and ?item = "item\<lparr>mi_sender := Some (e_ID e)\<rparr>"
  have n: "n = to_int32 (int (length ids))" using query_facts [OF assms(5) [unfolded near_ids_def]] by blast
  have run: "Entity_SendNearbyMessage E r item w = (if n = 0 then Inr ?w else send_each E ?item ids ?w)"
    using assms(2-5) by (simp add: Entity_SendNearbyMessage_def near_ids_def Let_def)
  show ?thesis
  proof (cases "n = 0")
    case True
    have "ids = []" if "length ids < 2 ^ 31"
      using True n that to_int32_id [of "int (length ids)"] by (simp add: in_int32_def)
    with True run show ?thesis by (auto simp: messages_for_def intro!: exI [of _ ?w])
  next
    case False
    have "manager_ok ?w" using assms(1) by (simp add: manager_ok_def)
    from send_each_spec [OF this, of E ?item ids] False run show ?thesis by (auto simp: messages_for_def)
  qed
qed

definition attributes_item :: "'d env \<Rightarrow> int \<Rightarrow> int \<Rightarrow> common_prop \<Rightarrow> msg_item" where
  "attributes_item E type i common = default_msg_item\<lparr>mi_type := Some type, mi_sender := Some i,
     mi_content := Some (ser_common (en_codec E) common)\<rparr>"

lemma Broadcast_spec:
  assumes "manager_ok w" "w_heap w r = Some e" "e_scene e = Some k" "w_scenes w k = Some s"
    and "near_ids E e s = Inr (n, ids, s')"
  shows "\<exists>w'. Entity_BroadCastCommonProp E r type w = Inr w' \<and> only_queue (put_scene k s' w) w' \<and>
    (length ids < 2 ^ 31 \<longrightarrow> mset (w_queue w') =
      mset (w_queue w) + mset (messages_for w (attributes_item E type (e_ID e) (e_common e)) ids))"
proof -
  let ?item = "attributes_item E type (e_ID e) (e_common e)"
  have "?item\<lparr>mi_sender := Some (e_ID e)\<rparr> = ?item" by (simp add: attributes_item_def)
  moreover have "Entity_BroadCastCommonProp E r type w = Entity_SendNearbyMessage E r ?item w"
    using assms(2) by (simp add: Entity_BroadCastCommonProp_def attributes_item_def)
  ultimately show ?thesis using SendNearby_spec [OF assms, of ?item] by (simp only:)
qed

lemma near_ids_defined:
  assumes "flt_to_int32 (Entity_GetX e) = Some x" "flt_to_int32 (Entity_GetZ e) = Some z" "query_safe x" "query_safe z"
  shows "\<exists>n ids s'. near_ids E e s = Inr (n, ids, s')"
  unfolding near_ids_def using query_defined [OF assms] by blast

lemma near_ids_facts:
  assumes "near_ids E e s = Inr (n, ids, s')"
  shows "bucket_at (sc_x_entities s') = bucket_at (sc_x_entities s)"
    and "bucket_at (sc_z_entities s') = bucket_at (sc_z_entities s)" and "grid_repr s' pos = grid_repr s pos"
    and "(\<And>A. distinct (en_ex E A)) \<Longrightarrow> distinct ids"
  using query_facts [OF assms [unfolded near_ids_def]] query_distinct [OF assms [unfolded near_ids_def]]
    grid_same [of s' s pos] by blast+

lemma OnEnterScene_run:
  assumes "manager_ok w" "w_heap w r = Some e" "w_entities w (e_ID e) = None" "w_scenes w k = Some s"
    and "Scene_EnterScene (e_ID e) (Entity_GetX e) (Entity_GetZ e) s = Inr s1"
    and "near_ids E e s1 = Inr (n, ids, s')" "common = (e_common e)\<lparr>cp_scene_id := Some k\<rparr>"
  shows "\<exists>w'. Entity_OnEnterScene E r k w = Inr w' \<and>
    w_heap w' = (w_heap w)(r \<mapsto> e\<lparr>e_scene := Some k, e_common := common\<rparr>) \<and>
    w_entities w' = (w_entities w)(e_ID e \<mapsto> r) \<and> w_scenes w' = (w_scenes w)(k \<mapsto> s') \<and>
    (length ids < 2 ^ 31 \<longrightarrow> mset (w_queue w') =
      mset (w_queue w) + mset (messages_for w' (attributes_item E MSG_TYPE_AOI_ENTER (e_ID e) common) ids))"
proof -
  let ?e = "e\<lparr>e_scene := Some k, e_common := common\<rparr>"
  let ?w = "put_scene k s1 (manager_put (e_ID e) r (put_entity r ?e w))"
  have pos: "Entity_GetX ?e = Entity_GetX e" "Entity_GetZ ?e = Entity_GetZ e"
    by (simp_all add: Entity_GetX_def Entity_GetZ_def assms(7) CommonProp_position_def)
  have w: "w_heap ?w r = Some ?e" "w_entities ?w = (w_entities w)(e_ID e \<mapsto> r)" "w_scenes ?w k = Some s1"
    "w_queue ?w = w_queue w" "w_heap ?w = (w_heap w)(r \<mapsto> ?e)"
    using assms(3) by (simp_all add: manager_put_def)
  have ok: "manager_ok ?w"
    using assms(1,2) unfolding manager_ok_def w(2,5) by (auto split: if_splits) fastforce
  have "near_ids E ?e s1 = Inr (n, ids, s')" using assms(6) by (simp add: near_ids_def pos)
  from Broadcast_spec [OF ok w(1) _ w(3) this, of MSG_TYPE_AOI_ENTER]
  obtain w' where w': "Entity_BroadCastCommonProp E r MSG_TYPE_AOI_ENTER ?w = Inr w'" "only_queue (put_scene k s' ?w) w'"
    "length ids < 2 ^ 31 \<longrightarrow> mset (w_queue w') = mset (w_queue w) +
      mset (messages_for ?w (attributes_item E MSG_TYPE_AOI_ENTER (e_ID e) common) ids)"
    unfolding w(4) by auto
  have "Entity_OnEnterScene E r k w = Inr w'"
    using w'(1) assms(2,4,5) pos
    by (simp add: Entity_OnEnterScene_def SceneManager_Get_def registry_get_def EntityManager_Add_def
        Entity_SetSceneID_def assms(7))
  moreover have sel: "w_heap w' = (w_heap w)(r \<mapsto> ?e)" "w_entities w' = (w_entities w)(e_ID e \<mapsto> r)"
    "w_scenes w' = (w_scenes w)(k \<mapsto> s')"
    using only_queue_sel(1-3) [OF w'(2)] w(1,2,5) assms(3) by (simp_all add: manager_put_def)
  moreover have "messages_for w' = messages_for ?w" by (intro ext) (simp only: messages_for_def sel(2) w(2))
  ultimately show ?thesis using w'(3) by simp
qed

section \<open>Properties\<close>

text \<open>
  C13. Entering a scene, for an entity that the manager does not know yet, at coordinates whose cells are in the range of
  \<open>int32_t\<close> with those within sight: the entity is registered and entered in the scene at its coordinates (so that a
  scene that represents a table represents it with the newcomer), and then exactly the registered entities among
  the IDs that the scene's query returns (fewer than \<open>2^31\<close>) get one \<open>AOI_ENTER\<close> message for each time they are
  returned, with its attributes; nothing else is queued. This holds for a manager that files the live objects under their
  own IDs, in every scene and for every order in which the hash sets are iterated, on which it depends whom the query
  returns. No other scene changes: an entity that comes from another scene is not taken out of it.
\<close>

theorem OnEnterScene_notifies_nearby:
  assumes "manager_ok w" "w_heap w r = Some e" "w_entities w (e_ID e) = None" "w_scenes w k = Some s"
    and "flt_to_int32 (Entity_GetX e) = Some x" "flt_to_int32 (Entity_GetZ e) = Some z" "query_safe x" "query_safe z"
    and "common = (e_common e)\<lparr>cp_scene_id := Some k\<rparr>"
  shows "\<exists>w' s1 n ids s'. Entity_OnEnterScene E r k w = Inr w' \<and>
    w_heap w' = (w_heap w)(r \<mapsto> e\<lparr>e_scene := Some k, e_common := common\<rparr>) \<and>
    w_entities w' = (w_entities w)(e_ID e \<mapsto> r) \<and> w_scenes w' = (w_scenes w)(k \<mapsto> s') \<and>
    Scene_EnterScene (e_ID e) (Entity_GetX e) (Entity_GetZ e) s = Inr s1 \<and>
    Scene_GetNearByEntities (en_ex E) (en_ez E) (Entity_GetX e) (Entity_GetZ e) s1 = Inr (n, ids, s') \<and>
    (\<forall>pos. grid_repr s pos \<and> pos (e_ID e) = None \<longrightarrow> grid_repr s' (pos(e_ID e \<mapsto> (x, z)))) \<and>
    (length ids < 2 ^ 31 \<longrightarrow> mset (w_queue w') = mset (w_queue w) +
      mset (map (to_receiver (default_msg_item\<lparr>mi_type := Some MSG_TYPE_AOI_ENTER,
            mi_sender := Some (e_ID e), mi_content := Some (ser_common (en_codec E) common)\<rparr>))
        (filter (\<lambda>i. w_entities w' i \<noteq> None) ids)))"
proof -
  let ?s1 = "s\<lparr>sc_x_entities := bucket_insert x (e_ID e) (sc_x_entities s),
           sc_z_entities := bucket_insert z (e_ID e) (sc_z_entities s)\<rparr>"
  have s1: "Scene_EnterScene (e_ID e) (Entity_GetX e) (Entity_GetZ e) s = Inr ?s1"
    using assms(5,6) by (simp add: Scene_EnterScene_def on_axes_def)
  obtain n ids s' where q: "near_ids E e ?s1 = Inr (n, ids, s')" using near_ids_defined [OF assms(5-8)] by blast
  have g: "\<forall>pos. grid_repr s pos \<and> pos (e_ID e) = None \<longrightarrow> grid_repr s' (pos(e_ID e \<mapsto> (x, z)))"
    using near_ids_facts(3) [OF q] grid_repr_insert by blast
  from OnEnterScene_run [OF assms(1-4) s1 q assms(9)] s1 q g show ?thesis
    unfolding near_ids_def messages_for_def attributes_item_def by blast
qed

text \<open>Two entities and a scene, for the witnesses.\<close>

definition demo_two :: "mem_db world" where
  "demo_two = demo_world\<lparr>
     w_heap := [0 \<mapsto> Entity_SetID 7 (Entity_new KEntity),
                1 \<mapsto> Entity_SetID 8 ((Entity_new KEntity)\<lparr>e_scene := Some 5\<rparr>)],
     w_refs := (\<lambda>_. 1), w_entities := [8 \<mapsto> 1], w_scenes := [5 \<mapsto> scene_of [(8, 0, 0)]], w_next := 2\<rparr>"

lemma trunc_zero [simp]: "trunc_units 0 = 0" "in_int32 0"
  by (simp_all add: trunc_units_def in_int32_def)

lemma demo_pos [simp]:
  "flt_to_int32 (Fin 0) = Some 0" "Entity_GetX (Entity_SetID i (Entity_new K)) = Fin 0"
  "Entity_GetZ (Entity_SetID i (Entity_new K)) = Fin 0"
  using whole_simps(1)
  by (simp_all add: flt_whole_def Entity_GetX_def Entity_GetZ_def Entity_SetID_def Entity_new_def
      CommonProp_position_def default_common_prop_def Vector3_x_def Vector3_z_def default_vector3_def)

lemma demo_two_ok: "manager_ok demo_two"
  by (auto simp: manager_ok_def demo_two_def demo_world_def Entity_SetID_def)

text \<open>The example iterates the sets in ascending order, which makes the query exact.\<close>

lemma demo_near_ids:
  assumes "grid_repr s pos" "flt_to_int32 (Entity_GetX e) = Some x" "flt_to_int32 (Entity_GetZ e) = Some z"
    and "query_safe x" "query_safe z" "near_ids demo_env e s = Inr (n, ids, s')"
  shows "ids = sorted_list_of_set (near_by pos x z)"
proof -
  have "en_ex demo_env = sorted_list_of_set" "en_ez demo_env = sorted_list_of_set" by (simp_all add: demo_env_def)
  with GetNearBy_exact [OF assms(1-5)] assms(6) show ?thesis unfolding near_ids_def by auto
qed

lemma demo_entering:
  assumes "e = Entity_SetID 7 (Entity_new KEntity)" "Scene_EnterScene 7 (Entity_GetX e) (Entity_GetZ e) (scene_of [(8, 0, 0)]) = Inr s1"
    and "near_ids demo_env e s1 = Inr (n, ids, s')"
  shows "ids = [7, 8]"
proof -
  have at: "flt_to_int32 (Entity_GetX e) = Some 0" "flt_to_int32 (Entity_GetZ e) = Some 0" by (simp_all add: assms(1))
  have near: "near_by [8 \<mapsto> (0, 0), 7 \<mapsto> (0, 0)] 0 0 = {7, 8}"
    by (auto simp: near_by_def MAX_SIGHT_DISTANCE_def split: if_splits)
  have "s1 = scene_of [(7, 0, 0), (8, 0, 0)]" using assms(2) at by (simp add: Scene_EnterScene_def on_axes_Inr)
  moreover have "grid_repr (scene_of [(7, 0, 0), (8, 0, 0)]) [8 \<mapsto> (0, 0), 7 \<mapsto> (0, 0)]"
    using scene_of_repr [of "[(7, 0, 0), (8, 0, 0)]"] by simp
  ultimately show ?thesis using demo_near_ids [OF _ at whole_simps(3,3) assms(3)] near by simp
qed

theorem OnEnterScene_notifies_nearby_witness:
  "\<exists>w'. Entity_OnEnterScene demo_env 0 5 demo_two = Inr w' \<and> length (w_queue w') = 2 \<and>
     mi_receiver ` set (w_queue w') = {Some 7, Some 8}"
proof -
  let ?e = "Entity_SetID 7 (Entity_new KEntity)"
  have e: "e_ID ?e = 7" "w_heap demo_two 0 = Some ?e" "w_entities demo_two = [8 \<mapsto> 1]"
    "w_scenes demo_two 5 = Some (scene_of [(8, 0, 0)])" "w_queue demo_two = []"
    by (simp_all add: Entity_SetID_def demo_two_def demo_world_def)
  have h: "w_entities demo_two (e_ID ?e) = None" "flt_to_int32 (Entity_GetX ?e) = Some 0" "flt_to_int32 (Entity_GetZ ?e) = Some 0"
    unfolding e(1,3) by simp_all
  let ?m = "default_msg_item\<lparr>mi_type := Some MSG_TYPE_AOI_ENTER, mi_sender := Some 7,
     mi_content := Some (ser_common (en_codec demo_env) ((e_common ?e)\<lparr>cp_scene_id := Some 5\<rparr>))\<rparr>"
  obtain w' s1 n ids s' where w': "Entity_OnEnterScene demo_env 0 5 demo_two = Inr w'" "w_entities w' = [8 \<mapsto> 1, 7 \<mapsto> 0]"
    "Scene_EnterScene 7 (Entity_GetX ?e) (Entity_GetZ ?e) (scene_of [(8, 0, 0)]) = Inr s1"
    "near_ids demo_env ?e s1 = Inr (n, ids, s')"
    "length ids < 2 ^ 31 \<longrightarrow> mset (w_queue w') = mset [] + mset (map (to_receiver ?m) (filter (\<lambda>i. w_entities w' i \<noteq> None) ids))"
    using OnEnterScene_notifies_nearby [OF demo_two_ok e(2) h(1) e(4) h(2,3) whole_simps(3,3) refl, of demo_env]
    unfolding e(1,3,5) near_ids_def by blast
  have "ids = [7, 8]" using demo_entering [OF refl w'(3,4)] .
  with w'(2,5) have it: "mset (w_queue w') = {#to_receiver ?m 7, to_receiver ?m 8#}" by simp
  have "length (w_queue w') = size (mset (w_queue w'))" by (simp only: size_mset)
  moreover have "mi_receiver ` set (w_queue w') = mi_receiver ` set_mset (mset (w_queue w'))"
    by (simp only: set_mset_mset)
  ultimately show ?thesis using w'(1) unfolding it by (auto simp: to_receiver_def)
qed

text \<open>
  C38. Leaving a scene, for an entity whose cells are in the range of \<open>int32_t\<close> with those within sight: the entity is
  taken out of the cells of its coordinates and no other cell changes (so that a scene that represents a table
  represents it without the entity), and then exactly the registered entities among the IDs that the scene's
  query returns (fewer than \<open>2^31\<close>) get one \<open>AOI_LEAVE\<close> message for each time they are returned; nothing else is
  queued. This holds for a manager that files the live objects under their own IDs, in every scene and for every order of
  iteration. But the message carries no attributes, and the entity keeps pointing to the scene it left.
\<close>

theorem OnLeaveScene_spec:
  assumes "manager_ok w" "w_heap w r = Some e" "e_scene e = Some k" "w_scenes w k = Some s"
    and "flt_to_int32 (Entity_GetX e) = Some x" "flt_to_int32 (Entity_GetZ e) = Some z" "query_safe x" "query_safe z"
  shows "\<exists>w' s1 n ids s'. Entity_OnLeaveScene E r w = Inr w' \<and> w_heap w' = w_heap w \<and>
    w_entities w' = w_entities w \<and> w_scenes w' = (w_scenes w)(k \<mapsto> s') \<and>
    bucket_at (sc_x_entities s') = (bucket_at (sc_x_entities s))(x := bucket_at (sc_x_entities s) x - {e_ID e}) \<and>
    bucket_at (sc_z_entities s') = (bucket_at (sc_z_entities s))(z := bucket_at (sc_z_entities s) z - {e_ID e}) \<and>
    (\<forall>pos. grid_repr s pos \<and> pos (e_ID e) = Some (x, z) \<longrightarrow> grid_repr s' (pos(e_ID e := None))) \<and>
    Scene_LeaveScene (e_ID e) (Entity_GetX e) (Entity_GetZ e) s = Inr s1 \<and>
    Scene_GetNearByEntities (en_ex E) (en_ez E) (Entity_GetX e) (Entity_GetZ e) s1 = Inr (n, ids, s') \<and>
    (length ids < 2 ^ 31 \<longrightarrow> mset (w_queue w') = mset (w_queue w) +
      mset (map (to_receiver (default_msg_item\<lparr>mi_type := Some MSG_TYPE_AOI_LEAVE, mi_sender := Some (e_ID e)\<rparr>))
        (filter (\<lambda>i. w_entities w i \<noteq> None) ids)))"
proof -
  let ?item = "default_msg_item\<lparr>mi_type := Some MSG_TYPE_AOI_LEAVE, mi_sender := Some (e_ID e)\<rparr>"
  let ?s1 = "s\<lparr>sc_x_entities := bucket_erase x (e_ID e) (sc_x_entities s),
           sc_z_entities := bucket_erase z (e_ID e) (sc_z_entities s)\<rparr>"
  let ?w = "put_scene k ?s1 w"
  have ok: "manager_ok ?w" using assms(1) by (simp add: manager_ok_def)
  have s1: "Scene_LeaveScene (e_ID e) (Entity_GetX e) (Entity_GetZ e) s = Inr ?s1"
    using assms(5,6) by (simp add: Scene_LeaveScene_def on_axes_def)
  obtain n ids s' where q: "near_ids E e ?s1 = Inr (n, ids, s')" using near_ids_defined [OF assms(5-8)] by blast
  have g: "\<forall>pos. grid_repr s pos \<and> pos (e_ID e) = Some (x, z) \<longrightarrow> grid_repr s' (pos(e_ID e := None))"
    using near_ids_facts(3) [OF q] grid_repr_erase by blast
  have cells: "bucket_at (sc_x_entities s') = (bucket_at (sc_x_entities s))(x := bucket_at (sc_x_entities s) x - {e_ID e})"
    "bucket_at (sc_z_entities s') = (bucket_at (sc_z_entities s))(z := bucket_at (sc_z_entities s) z - {e_ID e})"
    unfolding near_ids_facts(1,2) [OF q] by (simp_all add: fun_eq_iff axis.at_del)
  have heap: "w_heap ?w r = Some e" "w_scenes ?w k = Some ?s1" using assms(2) by simp_all
  have same: "?item\<lparr>mi_sender := Some (e_ID e)\<rparr> = ?item" by simp
  obtain w' where w': "Entity_SendNearbyMessage E r ?item ?w = Inr w'" "only_queue (put_scene k s' ?w) w'"
    "length ids < 2 ^ 31 \<longrightarrow> mset (w_queue w') = mset (w_queue w) + mset (messages_for w ?item ids)"
    using SendNearby_spec [OF ok heap(1) assms(3) heap(2) q, of ?item] unfolding same by (auto simp: messages_for_def)
  have "Entity_OnLeaveScene E r w = Inr w'"
    using w'(1) assms(2-4) s1 by (simp add: Entity_OnLeaveScene_def)
  moreover have "w_heap w' = w_heap w \<and> w_entities w' = w_entities w \<and> w_scenes w' = (w_scenes w)(k \<mapsto> s')"
    using w'(2) by (simp add: only_queue_sel)
  ultimately show ?thesis using w'(3) g cells s1 q unfolding near_ids_def messages_for_def by blast
qed

theorem OnLeaveScene_spec_witness:
  "\<exists>w'. Entity_OnLeaveScene demo_env 1 demo_two = Inr w' \<and> w_heap w' = w_heap demo_two \<and> w_queue w' = []"
proof -
  let ?e = "Entity_SetID 8 ((Entity_new KEntity)\<lparr>e_scene := Some 5\<rparr>)"
  have e: "e_ID ?e = 8" "w_heap demo_two 1 = Some ?e" "e_scene ?e = Some 5"
    "w_scenes demo_two 5 = Some (scene_of [(8, 0, 0)])" "w_queue demo_two = []"
    "flt_to_int32 (Entity_GetX ?e) = Some 0" "flt_to_int32 (Entity_GetZ ?e) = Some 0"
    using demo_pos(2,3) [of 8 KEntity]
    by (simp_all add: Entity_SetID_def demo_two_def demo_world_def Entity_GetX_def Entity_GetZ_def)
  have g: "grid_repr (scene_of [(8, 0, 0)]) [8 \<mapsto> (0, 0)]" "[8 \<mapsto> (0, 0 :: int)] (e_ID ?e) = Some (0, 0)"
    using scene_of_repr [of "[(8, 0, 0)]"] e(1) by simp_all
  obtain w' s1 n ids s' where w': "Entity_OnLeaveScene demo_env 1 demo_two = Inr w'" "w_heap w' = w_heap demo_two"
    "grid_repr s' ([8 \<mapsto> (0, 0)](e_ID ?e := None))" "near_ids demo_env ?e s1 = Inr (n, ids, s')"
    "length ids < 2 ^ 31 \<longrightarrow> mset (w_queue w') = mset [] + mset (map (to_receiver (default_msg_item\<lparr>mi_type := Some MSG_TYPE_AOI_LEAVE,
      mi_sender := Some (e_ID ?e)\<rparr>)) (filter (\<lambda>i. w_entities demo_two i \<noteq> None) ids))"
    using OnLeaveScene_spec [OF demo_two_ok e(2,3,4,6,7) whole_simps(3,3), of demo_env] g
    unfolding e(5) near_ids_def by blast
  have "grid_repr s1 ([8 \<mapsto> (0, 0)](e_ID ?e := None))" using near_ids_facts(3) [OF w'(4)] w'(3) by simp
  from demo_near_ids [OF this e(6,7) whole_simps(3,3) w'(4)] have "ids = []"
    by (simp add: near_by_def e(1))
  with w' show ?thesis by auto
qed

lemma erase_insert_cells:
  assumes "axis_repr m f" "f i = Some c" "n \<noteq> c"
  shows "{d. i \<in> bucket_at (bucket_insert n i (bucket_erase n i m)) d} = {c, n}"
proof -
  have "{d. i \<in> bucket_at m d} = {c}" using assms(1,2) by (auto simp: axis_repr_def)
  with assms(3) show ?thesis unfolding axis.cells_move by auto
qed

lemma two_cells_no_table:
  assumes "{d. i \<in> bucket_at (sc_x_entities s) d} = {c, n}" "n \<noteq> c"
  shows "\<not> grid_repr s pos"
proof
  assume "grid_repr s pos"
  then have "{d. i \<in> bucket_at (sc_x_entities s) d} = set_option (map_option fst (pos i))"
    by (auto simp: grid_repr_def axis_repr_def)
  with assms show False by (cases "pos i") auto
qed

text \<open>The scene after a move: the new cells are erased and entered again.\<close>

definition scene_after_move :: "int \<Rightarrow> int \<Rightarrow> int \<Rightarrow> scene \<Rightarrow> scene" where
  "scene_after_move i nx nz s =
     s\<lparr>sc_x_entities := bucket_insert nx i (bucket_erase nx i (sc_x_entities s)),
       sc_z_entities := bucket_insert nz i (bucket_erase nz i (sc_z_entities s))\<rparr>"

lemma StepMove_run:
  assumes "w_heap w r = Some e" "e_scene e = Some k" "w_scenes w k = Some s" "manager_ok w"
    and "flt_to_int32 (Vector3_x position) = Some nx" "flt_to_int32 (Vector3_z position) = Some nz"
    and "query_safe nx" "query_safe nz"
  shows "\<exists>w' s'. Entity_StepMove E r position w = Inr w' \<and> w_scenes w' = (w_scenes w)(k \<mapsto> s') \<and>
    w_heap w' = (w_heap w)(r \<mapsto> Entity_UpdatePosition position e) \<and>
    bucket_at (sc_x_entities s') = bucket_at (sc_x_entities (scene_after_move (e_ID e) nx nz s)) \<and>
    bucket_at (sc_z_entities s') = bucket_at (sc_z_entities (scene_after_move (e_ID e) nx nz s))"
proof -
  let ?e = "Entity_UpdatePosition position e"
  let ?s1 = "scene_after_move (e_ID e) nx nz s"
  let ?w = "put_scene k ?s1 (put_entity r ?e w)"
  have at: "Entity_GetX ?e = Vector3_x position" "Entity_GetZ ?e = Vector3_z position"
    "e_ID ?e = e_ID e" "e_scene ?e = Some k"
    using assms(2) by (simp_all add: Entity_GetX_def Entity_GetZ_def Entity_UpdatePosition_def CommonProp_position_def)
  have "Scene_UpdatePosition (e_ID ?e) (Entity_GetX ?e) (Entity_GetZ ?e) position s = Inr ?s1"
    using assms(5,6) unfolding at Scene_UpdatePosition_def bind_res_Inr_iff on_axes_Inr scene_after_move_def
    by (intro exI) auto
  then have step: "Entity_StepMove E r position w = Entity_BroadCastCommonProp E r MSG_TYPE_AOI_MOVE ?w"
    using assms(1-3) by (simp add: Entity_StepMove_def Let_def)
  obtain n es s' where q: "Scene_GetNearByEntities (en_ex E) (en_ez E) (Entity_GetX ?e) (Entity_GetZ ?e) ?s1 =
      Inr (n, es, s')"
    and same: "bucket_at (sc_x_entities s') = bucket_at (sc_x_entities ?s1)"
    "bucket_at (sc_z_entities s') = bucket_at (sc_z_entities ?s1)"
    using query_result [OF assms(5-8), of "en_ex E" "en_ez E" ?s1] unfolding at by blast
  let ?item = "default_msg_item\<lparr>mi_type := Some MSG_TYPE_AOI_MOVE,
     mi_content := Some (ser_common (en_codec E) (e_common ?e)), mi_sender := Some (e_ID e)\<rparr>"
  have run: "Entity_BroadCastCommonProp E r MSG_TYPE_AOI_MOVE ?w =
      (if n = 0 then Inr (put_scene k s' ?w) else send_each E ?item es (put_scene k s' ?w))"
    using q at(3,4) by (simp add: Entity_BroadCastCommonProp_def Entity_SendNearbyMessage_def Let_def)
  have "manager_ok (put_scene k s' ?w)"
    using assms(1,4) at(3) by (auto simp: manager_ok_def) (metis option.inject)
  then obtain w' where w': "Entity_StepMove E r position w = Inr w'" "only_queue (put_scene k s' ?w) w'"
    using step run send_each_spec [of "put_scene k s' ?w" E ?item es] by (cases "n = 0") auto
  from only_queue_sel(1,3) [OF w'(2)]
  have "w_scenes w' = (w_scenes w)(k \<mapsto> s')" "w_heap w' = (w_heap w)(r \<mapsto> ?e)" by simp_all
  with w'(1) same show ?thesis by blast
qed

text \<open>
  C37. \<open>StepMove\<close> leaves a ghost: it updates the entity first, so that the scene erases the new cell
  instead of the old one. After a move that changes both cells the entity is filed at its old and
  at its new place, and the scene no longer represents any table of positions.
\<close>

theorem StepMove_leaves_ghost:
  assumes "w_heap w r = Some e" "e_scene e = Some k" "w_scenes w k = Some s" "manager_ok w"
    and "flt_to_int32 (Vector3_x position) = Some nx" "flt_to_int32 (Vector3_z position) = Some nz"
    and "query_safe nx" "query_safe nz"
    and "grid_repr s pos" "pos (e_ID e) = Some (cx, cz)" "nx \<noteq> cx" "nz \<noteq> cz"
  shows "\<exists>w' s'. Entity_StepMove E r position w = Inr w' \<and> w_scenes w' k = Some s' \<and>
    {c. e_ID e \<in> bucket_at (sc_x_entities s') c} = {cx, nx} \<and>
    {c. e_ID e \<in> bucket_at (sc_z_entities s') c} = {cz, nz} \<and> (\<forall>pos'. \<not> grid_repr s' pos')"
proof -
  obtain w' s' where w': "Entity_StepMove E r position w = Inr w'" "w_scenes w' k = Some s'"
    and same: "bucket_at (sc_x_entities s') = bucket_at (sc_x_entities (scene_after_move (e_ID e) nx nz s))"
    "bucket_at (sc_z_entities s') = bucket_at (sc_z_entities (scene_after_move (e_ID e) nx nz s))"
    using StepMove_run [OF assms(1-8), of E] by auto
  have "{c. e_ID e \<in> bucket_at (sc_x_entities s') c} = {cx, nx}"
    "{c. e_ID e \<in> bucket_at (sc_z_entities s') c} = {cz, nz}"
    using assms(9-12) erase_insert_cells [of "sc_x_entities s" "\<lambda>i. map_option fst (pos i)" "e_ID e" cx nx]
      erase_insert_cells [of "sc_z_entities s" "\<lambda>i. map_option snd (pos i)" "e_ID e" cz nz]
    unfolding same by (simp_all add: grid_repr_def scene_after_move_def)
  with w' two_cells_no_table assms(11) show ?thesis by blast
qed

theorem StepMove_leaves_ghost_witness:
  "\<exists>w' s'. Entity_StepMove demo_env 1 \<lparr>v3_x = Some (flt_whole 5), v3_y = None, v3_z = Some (flt_whole 5)\<rparr>
     demo_two = Inr w' \<and> w_scenes w' 5 = Some s' \<and> {c. 8 \<in> bucket_at (sc_x_entities s') c} = {0, 5}"
proof -
  let ?p = "\<lparr>v3_x = Some (flt_whole 5), v3_y = None, v3_z = Some (flt_whole 5)\<rparr>"
  let ?e = "Entity_SetID 8 ((Entity_new KEntity)\<lparr>e_scene := Some 5\<rparr>)"
  have e: "e_ID ?e = 8" "w_heap demo_two 1 = Some ?e" "e_scene ?e = Some 5"
    "w_scenes demo_two 5 = Some (scene_of [(8, 0, 0)])"
    by (simp_all add: Entity_SetID_def demo_two_def demo_world_def)
  have g: "grid_repr (scene_of [(8, 0, 0)]) [8 \<mapsto> (0, 0)]" "[8 \<mapsto> (0, 0)] (e_ID ?e) = Some (0, 0)"
    using scene_of_repr [of "[(8, 0, 0)]"] e(1) by simp_all
  have p: "flt_to_int32 (Vector3_x ?p) = Some 5" "flt_to_int32 (Vector3_z ?p) = Some 5"
    by (simp_all add: Vector3_x_def Vector3_z_def)
  have "(5 :: int) \<noteq> 0" by simp
  from StepMove_leaves_ghost [OF e(2,3,4) demo_two_ok(1) p whole_simps(4,4) g this this, of demo_env]
  show ?thesis unfolding e(1) by blast
qed

text \<open>
  \<open>IsInSight\<close> does not measure a distance: for finite coordinates it is true exactly when the
  position differs from the entity's own in x or in z, however far away it is, and false at the
  entity's own place.
\<close>

theorem IsInSight_iff_elsewhere:
  assumes "Vector3_x pos = Fin px" "Vector3_z pos = Fin pz"
    and "Entity_GetX e = Fin ex" "Entity_GetZ e = Fin ez"
  shows "Entity_IsInSight pos e \<longleftrightarrow> px \<noteq> ex \<or> pz \<noteq> ez"
  using assms
  by (simp add: Entity_IsInSight_def Entity_GetSightDistance_def Entity_GetX_def Entity_GetZ_def
      flt_less_zero_abs_sub)

theorem IsInSight_iff_elsewhere_witness:
  "Entity_IsInSight \<lparr>v3_x = Some (Fin 3), v3_y = None, v3_z = None\<rparr> (Entity_new KEntity) \<and>
   \<not> Entity_IsInSight default_vector3 (Entity_new KEntity)"
  using IsInSight_iff_elsewhere [of "\<lparr>v3_x = Some (Fin 3), v3_y = None, v3_z = None\<rparr>" 3 0 "Entity_new KEntity" 0 0]
    IsInSight_iff_elsewhere [of default_vector3 0 0 "Entity_new KEntity" 0 0]
  by (simp add: CommonProp_position_def default_common_prop_def Vector3_x_def Vector3_z_def default_vector3_def Entity_GetX_def Entity_GetZ_def
      Entity_SetID_def Entity_new_def)

text \<open>
  \<open>HasAction\<close> is true of every state and every question, and \<open>ClearAction\<close> is true as well and
  changes nothing: both combine the numbers of the states with a bitwise or.
\<close>

theorem HasAction_ClearAction_trivial:
  "Entity_HasAction type e \<and> Entity_ClearAction type e = (True, e)"
proof -
  have pos: "0 < action_state_number a" for a by (cases a) simp_all
  have "0 < action_state_number a OR action_state_number b" for a b
    using pos [of a] or_greater_eq [of "action_state_number b" "action_state_number a"] pos [of b]
    by (simp add: or.commute)
  moreover have "action_state_number a OR NOT (action_state_number b) < 0" for a b
    using pos [of a] pos [of b] by simp
  ultimately show ?thesis
    by (metis Entity_ClearAction_def Entity_HasAction_def less_irrefl)
qed

text \<open>
  \<open>OnDeath\<close> removes the entity from the manager and leaves every other entry alone, provided
  somebody else still owns it; when the manager holds the last pointer, the destructor runs inside
  \<open>Erase\<close> and locks the manager's mutex a second time.
\<close>

theorem OnDeath_needs_another_owner:
  assumes "w_heap w r = Some e" "w_entities w (e_ID e) = Some r"
  shows "(2 \<le> w_refs w r \<longrightarrow> (\<exists>w'. Entity_OnDeath r w = Inr w' \<and>
       \<not> EntityManager_Has w' (e_ID e) \<and> w_heap w' = w_heap w \<and>
       (j \<noteq> e_ID e \<longrightarrow> EntityManager_GetEntity w' j = EntityManager_GetEntity w j))) \<and>
    (w_refs w r = 1 \<longrightarrow> Entity_OnDeath r w = Inl (UB ''mutex locked twice by one thread''))"
  using assms
  by (auto simp: Entity_OnDeath_def EntityManager_Erase_def EntityManager_Has_def EntityManager_GetEntity_def)

theorem OnDeath_needs_another_owner_witness:
  "Entity_OnDeath 1 demo_two = Inl (UB ''mutex locked twice by one thread'')"
  using OnDeath_needs_another_owner [of demo_two 1 "Entity_SetID 8 ((Entity_new KEntity)\<lparr>e_scene := Some 5\<rparr>)" 0]
  by (simp add: demo_two_def demo_world_def Entity_SetID_def)

text \<open>
  The destructor of an entity removes whatever the manager holds under the entity's ID, also
  when that is another, living object with the same ID.
\<close>

theorem destructor_erases_by_ID:
  assumes "w_heap w r = Some e" "w_entities w (e_ID e) = Some r'" "r' \<noteq> r" "2 \<le> w_refs w r'" "w_refs w r = 1"
  shows "\<exists>w'. release r w = Inr w' \<and> w_heap w' r = None \<and> w_heap w' r' = w_heap w r' \<and>
    EntityManager_GetEntity w' (e_ID e) = None"
  using assms
  by (auto simp: release_def Entity_destruct_def EntityManager_Erase_def EntityManager_GetEntity_def Let_def)

theorem destructor_erases_by_ID_witness:
  "\<exists>w'. release 0 (demo_two\<lparr>w_heap := [0 \<mapsto> Entity_SetID 8 (Entity_new KEntity), 1 \<mapsto> Entity_SetID 8 (Entity_new KEntity)],
     w_refs := (\<lambda>r. if r = 0 then 1 else 2)\<rparr>) = Inr w' \<and> EntityManager_GetEntity w' 8 = None"
  using destructor_erases_by_ID [of "demo_two\<lparr>w_heap := [0 \<mapsto> Entity_SetID 8 (Entity_new KEntity), 1 \<mapsto> Entity_SetID 8 (Entity_new KEntity)],
     w_refs := (\<lambda>r. if r = 0 then 1 else 2)\<rparr>" 0 "Entity_SetID 8 (Entity_new KEntity)" 1]
  by (auto simp: demo_two_def demo_world_def Entity_SetID_def)

end
