(* ===== verification/Item_Model.thy ===== *)
theory Item_Model
  imports Proto_Messages
begin

text \<open>
  The items (Item/Item.h, Item.cpp, Item_Potion and Item_Equipment): an item wraps the serialised
  configuration message and keeps a copy of its common attributes.
\<close>

text \<open>The class of the object, and \<open>it_stuff = None\<close> for a null \<open>_stuff\<close> pointer.\<close>

datatype item_class = IC_Item | IC_Potion | IC_Equipment

record item =
  it_class :: item_class
  it_common_prop :: item_common_prop
  it_stuff :: "item_item option"

definition Item_new :: item where
  "Item_new = \<lparr>it_class = IC_Item, it_common_prop = default_item_common_prop,
     it_stuff = Some default_item_item\<rparr>"

definition item_wrap :: "codec \<Rightarrow> asset_msg \<Rightarrow> item_item \<Rightarrow> item_item" where
  "item_wrap C message st = st\<lparr>ii_type_t := Some (asset_msg_type message), ii_stuff := Some (ser_asset C message)\<rparr>"

text \<open>
  The constructor from a configuration message looks the field \<open>item_common_prop\<close> up without testing
  that it exists; for a message that has none, reflection gets a null field.
\<close>

definition Item_of_message :: "codec \<Rightarrow> asset_msg \<Rightarrow> item res" where
  "Item_of_message C message =
     (let it = Item_new\<lparr>it_stuff := Some (item_wrap C message default_item_item)\<rparr>
      in case message of
           AM_ItemPotion p _ _ \<Rightarrow> Inr (it\<lparr>it_common_prop := opt_get default_item_common_prop p\<rparr>)
         | AM_ItemEquipment p _ \<Rightarrow> Inr (it\<lparr>it_common_prop := opt_get default_item_common_prop p\<rparr>)
         | _ \<Rightarrow> Inl (UB ''null field descriptor''))"

text \<open>The constructor from an \<open>Item_Item\<close> does not create \<open>_stuff\<close> before it copies into it.\<close>

definition Item_of_item :: "item_item \<Rightarrow> item res" where
  "Item_of_item st = Inl (UB ''null pointer'')"

definition Item_of_ptr :: "item_item option \<Rightarrow> item" where
  "Item_of_ptr p = Item_new\<lparr>it_stuff := p\<rparr>"

text \<open>The derived constructors fill \<open>_stuff\<close> and leave the common attributes at their defaults.\<close>

definition Item_Potion_of :: "codec \<Rightarrow> item_common_prop option \<Rightarrow> potion_type option \<Rightarrow> int option \<Rightarrow> item" where
  "Item_Potion_of C stuff potion_type increase_value = Item_new\<lparr>it_class := IC_Potion,
     it_stuff := Some (item_wrap C (AM_ItemPotion stuff potion_type increase_value) default_item_item)\<rparr>"

definition Item_Equipment_of :: "codec \<Rightarrow> item_common_prop option \<Rightarrow> equip_type option \<Rightarrow> item" where
  "Item_Equipment_of C stuff equip_type = Item_new\<lparr>it_class := IC_Equipment,
     it_stuff := Some (item_wrap C (AM_ItemEquipment stuff equip_type) default_item_item)\<rparr>"

definition Item_GetCommonProp :: "item \<Rightarrow> item_common_prop" where
  "Item_GetCommonProp it = it_common_prop it"

definition Item_GetType :: "item \<Rightarrow> asset_type res" where
  "Item_GetType it = (case it_stuff it of None \<Rightarrow> Inl (UB ''null pointer'') | Some st \<Rightarrow> Inr (ItemItem_type_t st))"

definition Item_CanUse :: "item \<Rightarrow> bool" where
  "Item_CanUse it = True"

text \<open>\<open>Use\<close>, by class; the result is the number of items used up.\<close>

definition Item_Use :: "item \<Rightarrow> int" where
  "Item_Use it =
     (case it_class it of
        IC_Item \<Rightarrow> if \<not> Item_CanUse it then 0 else 1
      | IC_Potion \<Rightarrow> 0
      | IC_Equipment \<Rightarrow> 0)"

section \<open>Properties\<close>

text \<open>
  An item made from the configuration of a potion or an equipment has the type number of that
  configuration, wraps its serialisation and keeps its common attributes, so the inventory it goes
  to is the configured one; made by the constructor of the derived class it has the same wrapper
  but not the attributes: it always goes to the back package, and using it uses nothing up.
\<close>

theorem Item_constructors_agree_on_wrapper:
  "\<exists>it. Item_of_message C (AM_ItemPotion p t v) = Inr it \<and>
     it_stuff it = it_stuff (Item_Potion_of C p t v) \<and> Item_GetType it = Inr ITEM_TYPE_POTION \<and>
     ItemCommonProp_inventory (Item_GetCommonProp it) =
       ItemCommonProp_inventory (opt_get default_item_common_prop p) \<and>
     ItemCommonProp_inventory (Item_GetCommonProp (Item_Potion_of C p t v)) = INVENTORY_TYPE_BACKPACKAGE \<and>
     Item_Use it = 1 \<and> Item_Use (Item_Potion_of C p t v) = 0"
  by (simp add: Item_of_message_def Item_Potion_of_def Item_new_def Item_GetType_def item_wrap_def
      ItemItem_type_t_def Item_GetCommonProp_def ItemCommonProp_inventory_def
      default_item_common_prop_def Item_Use_def Item_CanUse_def Let_def)

end
