(* ===== verification/Player_Ops.thy ===== *)
theory Player_Ops
  imports Entity_Ops Item_Model
begin

text \<open>
  The class Player (Player.h, Player.cpp): loading and saving, the handlers of the client protocol
  and their table, what is sent to the client, and the inventories. \<open>r\<close> is the player's own object.
\<close>

section \<open>The object\<close>

definition Player_new :: "int \<Rightarrow> nat option \<Rightarrow> entity" where
  "Player_new player_id session =
     Entity_SetID player_id
       (Entity_new (KPlayer \<lparr>pd_session = session, pd_stuff = default_player_stuff, pd_heart_count = 0\<rparr>))"

definition deref_player :: "nat \<Rightarrow> 'd world \<Rightarrow> (entity \<times> player_data) res" where
  "deref_player r w =
     bind_res (deref r w) (\<lambda>e.
       case e_kind e of KPlayer p \<Rightarrow> Inr (e, p) | _ \<Rightarrow> Inl (UB ''not a player''))"

lemma deref_player_Some [simp]:
  "w_heap w r = Some e \<Longrightarrow> e_kind e = KPlayer p \<Longrightarrow> deref_player r w = Inr (e, p)"
  by (simp add: deref_player_def)

definition Player_GetCurretSightDistance :: "player_data \<Rightarrow> flt" where
  "Player_GetCurretSightDistance p = opt_get (Fin 0) (opt_get None (ps_sight_distance (pd_stuff p)))"

definition Player_ModifySightDistance :: "flt \<Rightarrow> player_data \<Rightarrow> player_data" where
  "Player_ModifySightDistance off p =
     p\<lparr>pd_stuff := (pd_stuff p)\<lparr>ps_sight_distance :=
        Some (Some (flt_add (Player_GetCurretSightDistance p) off))\<rparr>\<rparr>"

section \<open>Sending to the client\<close>

text \<open>
  \<open>SendProtocol\<close>: a message without a field \<open>type_t\<close> is not sent. The numbers of \<open>type_t\<close> are always
  valid, so the test of \<open>META_TYPE_IsValid\<close> passes.
\<close>

definition Player_SendProtocol :: "'d env \<Rightarrow> nat \<Rightarrow> proto_msg \<Rightarrow> 'd world \<Rightarrow> 'd world res" where
  "Player_SendProtocol E r message w =
     bind_res (deref_player r w) (\<lambda>(e, p).
       case proto_type_t message of
         None \<Rightarrow> Inr w
       | Some type_t \<Rightarrow>
           (let content = ser_meta (en_codec E)
                  \<lparr>me_type_t = Some type_t, me_stuff = Some (ser_proto (en_codec E) message)\<rparr>
            in case pd_session p of
                 None \<Rightarrow> Inl (UB ''null session pointer'')
               | Some i \<Rightarrow> Inr (w\<lparr>w_socks := (w_socks w)(i := Socket_AsyncSend content (w_socks w i))\<rparr>)))"

definition Player_SendPlayer :: "'d env \<Rightarrow> nat \<Rightarrow> 'd world \<Rightarrow> 'd world res" where
  "Player_SendPlayer E r w =
     bind_res (deref_player r w) (\<lambda>(e, p). Player_SendProtocol E r (PM_PlayerInfo (Some (pd_stuff p))) w)"

text \<open>The virtual \<open>SendProtocol\<close> of an entity near by: only a player sends anything.\<close>

definition SendProtocol_virtual :: "'d env \<Rightarrow> nat \<Rightarrow> proto_msg \<Rightarrow> 'd world \<Rightarrow> 'd world res" where
  "SendProtocol_virtual E r message w =
     bind_res (deref r w) (\<lambda>e.
       case e_kind e of KPlayer _ \<Rightarrow> Player_SendProtocol E r message w | _ \<Rightarrow> Inr w)"

fun send_protocol_each :: "'d env \<Rightarrow> proto_msg \<Rightarrow> int list \<Rightarrow> 'd world \<Rightarrow> 'd world res" where
  "send_protocol_each E message [] w = Inr w"
| "send_protocol_each E message (i # is) w =
     (case EntityManager_GetEntity w i of
        None \<Rightarrow> send_protocol_each E message is w
      | Some r \<Rightarrow> bind_res (SendProtocol_virtual E r message w) (send_protocol_each E message is))"

text \<open>\<open>SendNearbyProtocol\<close> does not test the scene pointer.\<close>

definition Player_SendNearbyProtocol :: "'d env \<Rightarrow> nat \<Rightarrow> proto_msg \<Rightarrow> 'd world \<Rightarrow> 'd world res" where
  "Player_SendNearbyProtocol E r message w =
     bind_res (deref r w) (\<lambda>e.
       case e_scene e of
         None \<Rightarrow> Inl (UB ''null scene pointer'')
       | Some k \<Rightarrow> bind_res (the_scene k w) (\<lambda>s.
           bind_res (Scene_GetNearByEntities (en_ex E) (en_ez E) (Entity_GetX e) (Entity_GetZ e) s)
             (\<lambda>(n, entities, s').
                let w1 = put_scene k s' w
                in if n = 0 then Inr w1 else send_protocol_each E message entities w1)))"

section \<open>Loading and saving\<close>

text \<open>
  The inventories a loaded player is given: one for every number from the count it has up to the
  last type. The sizes of the descriptor are never \<open>0\<close> there, so no step is cut short.
\<close>

definition inventory_type_of_index :: "nat \<Rightarrow> inventory_type" where
  "inventory_type_of_index i =
     (if i = 0 then INVENTORY_TYPE_BACKPACKAGE else if i = 1 then INVENTORY_TYPE_EQUIPMENT
      else INVENTORY_TYPE_FASHION)"

definition inventory_count :: nat where
  "inventory_count = length inventory_type_descriptor - 1"

fun add_inventories :: "nat \<Rightarrow> nat \<Rightarrow> inventory list \<Rightarrow> inventory list" where
  "add_inventories 0 index invs = invs"
| "add_inventories (Suc n) index invs =
     add_inventories n (Suc index)
       (invs @ [\<lparr>inv_inventory_type = Some (inventory_type_of_index index), inv_items = []\<rparr>])"

definition Player_init_inventories :: "player_stuff \<Rightarrow> player_stuff" where
  "Player_init_inventories stuff =
     (let curr = length (PlayerStuff_inventories stuff)
      in if inventory_count \<le> curr then stuff
         else stuff\<lparr>ps_inventory := Some (add_inventories (inventory_count - curr) curr (PlayerStuff_inventories stuff))\<rparr>)"

text \<open>\<open>Load\<close> returns \<open>0\<close> on every path; the result of the parse is not tested.\<close>

definition Player_Load :: "'d env \<Rightarrow> nat \<Rightarrow> 'd world \<Rightarrow> (int \<times> 'd world) res" where
  "Player_Load E r w =
     bind_res (deref_player r w) (\<lambda>(e, p).
       let (stuff, d) = Redis_GetPlayer (en_redis E) (e_ID e) (w_db w); w1 = w\<lparr>w_db := d\<rparr>
       in if stuff = [] then Inr (0, w1)
          else
            let parsed = snd (parse_player (en_codec E) stuff);
                e1 = e\<lparr>e_common := PlayerStuff_common_prop parsed,
                       e_kind := KPlayer (p\<lparr>pd_stuff := Player_init_inventories parsed\<rparr>)\<rparr>
            in Inr (0, put_entity r e1 w1))"

definition Player_Save :: "'d env \<Rightarrow> nat \<Rightarrow> 'd world \<Rightarrow> (int \<times> 'd world) res" where
  "Player_Save E r w =
     bind_res (deref_player r w) (\<lambda>(e, p).
       let common = (if CommonProp_entity_type (e_common e) \<noteq> ENTITY_TYPE_PLAYER
                     then (e_common e)\<lparr>cp_entity_type := Some ENTITY_TYPE_PLAYER\<rparr> else e_common e);
           stuff = (pd_stuff p)\<lparr>ps_common_prop := Some common\<rparr>;
           w1 = put_entity r (e\<lparr>e_common := common, e_kind := KPlayer (p\<lparr>pd_stuff := stuff\<rparr>)\<rparr>) w;
           (_, d) = Redis_SavePlayer (en_redis E) (e_ID e) (ser_player (en_codec E) stuff) (w_db w1)
       in Inr (0, w1\<lparr>w_db := d\<rparr>))"

section \<open>The handlers\<close>

definition Player_CmdLogin :: "'d env \<Rightarrow> nat \<Rightarrow> proto_msg \<Rightarrow> 'd world \<Rightarrow> (int \<times> 'd world) res" where
  "Player_CmdLogin E r message w =
     bind_res (Player_Load E r w) (\<lambda>(rc, w1).
       if rc \<noteq> 0 then Inr (1, w1) else bind_res (Player_SendPlayer E r w1) (\<lambda>w2. Inr (0, w2)))"

definition Player_OnEnterGame :: "'d env \<Rightarrow> nat \<Rightarrow> 'd world \<Rightarrow> (int \<times> 'd world) res" where
  "Player_OnEnterGame E r w =
     bind_res (Player_Load E r w) (\<lambda>(rc, w1).
       if rc \<noteq> 0 then Inr (1, w1) else bind_res (Player_SendPlayer E r w1) (\<lambda>w2. Inr (0, w2)))"

definition Player_Logout :: "'d env \<Rightarrow> nat \<Rightarrow> 'd world \<Rightarrow> (int \<times> 'd world) res" where
  "Player_Logout E r w =
     bind_res (deref_player r w) (\<lambda>(e, p).
       let w1 = put_entity r (e\<lparr>e_kind := KPlayer (p\<lparr>pd_stuff := (pd_stuff p)\<lparr>ps_sight_distance := Some None\<rparr>\<rparr>)\<rparr>) w
       in bind_res (Player_Save E r w1) (\<lambda>(_, w2).
            bind_res (Entity_OnLeaveScene E r w2) (\<lambda>w3. Inr (0, w3))))"

definition Player_LeaveScene :: "'d env \<Rightarrow> nat \<Rightarrow> 'd world \<Rightarrow> (int \<times> 'd world) res" where
  "Player_LeaveScene E r w = bind_res (Entity_OnLeaveScene E r w) (\<lambda>w'. Inr (0, w'))"

definition Player_CmdEnterScene :: "'d env \<Rightarrow> nat \<Rightarrow> proto_msg \<Rightarrow> 'd world \<Rightarrow> (int \<times> 'd world) res" where
  "Player_CmdEnterScene E r message w =
     (case message of
        PM_EnterScene sid \<Rightarrow>
          (let scene_id = opt_get 0 sid; scene_id = (if scene_id = 0 then 589825 else scene_id)
           in bind_res (Entity_OnEnterScene E r scene_id w) (\<lambda>w'. Inr (0, w')))
      | _ \<Rightarrow> Inr (1, w))"

definition Player_CmdMove :: "'d env \<Rightarrow> nat \<Rightarrow> proto_msg \<Rightarrow> 'd world \<Rightarrow> (int \<times> 'd world) res" where
  "Player_CmdMove E r message w =
     (case message of
        PM_Move to \<Rightarrow> bind_res (Entity_StepMove E r (opt_get default_vector3 to) w) (\<lambda>w'. Inr (0, w'))
      | _ \<Rightarrow> Inr (1, w))"

text \<open>Field \<open>type_t\<close> of a received message always holds a declared value.\<close>

definition Player_DefaultMethod :: "proto_msg \<Rightarrow> int" where
  "Player_DefaultMethod message = (case proto_type_t message of None \<Rightarrow> 1 | Some _ \<Rightarrow> 0)"

text \<open>The table of the handlers; a second handler for a type is ignored.\<close>

datatype handler = H_CmdLogin | H_CmdEnterScene | H_CmdMove | H_Default

definition Player_AddHandler :: "int \<Rightarrow> handler \<Rightarrow> (int \<Rightarrow> handler option) \<Rightarrow> (int \<Rightarrow> handler option)" where
  "Player_AddHandler message_type callback callbacks =
     (case callbacks message_type of Some _ \<Rightarrow> callbacks | None \<Rightarrow> emplace message_type callback callbacks)"

definition Player_callbacks :: "int \<Rightarrow> handler option" where
  "Player_callbacks =
     Player_AddHandler (meta_type_number META_TYPE_C2S_MOVE) H_CmdMove
       (Player_AddHandler (meta_type_number META_TYPE_C2S_ENTER_SCENE) H_CmdEnterScene
         (Player_AddHandler (meta_type_number META_TYPE_C2S_LOGIN) H_CmdLogin Map.empty))"

definition Player_GetMethod :: "(int \<Rightarrow> handler option) \<Rightarrow> int \<Rightarrow> handler" where
  "Player_GetMethod callbacks message_type =
     (case callbacks message_type of None \<Rightarrow> H_Default | Some h \<Rightarrow> h)"

interpretation callbacks: first_wins Player_AddHandler "\<lambda>s k. s k"
  by unfold_locales (simp add: Player_AddHandler_def reg_simps split: option.splits)

fun run_handler :: "'d env \<Rightarrow> nat \<Rightarrow> handler \<Rightarrow> proto_msg \<Rightarrow> 'd world \<Rightarrow> (int \<times> 'd world) res" where
  "run_handler E r H_CmdLogin message w = Player_CmdLogin E r message w"
| "run_handler E r H_CmdEnterScene message w = Player_CmdEnterScene E r message w"
| "run_handler E r H_CmdMove message w = Player_CmdMove E r message w"
| "run_handler E r H_Default message w = Inr (Player_DefaultMethod message, w)"

definition Player_HandleProtocol ::
  "'d env \<Rightarrow> nat \<Rightarrow> int \<Rightarrow> proto_msg \<Rightarrow> 'd world \<Rightarrow> (bool \<times> 'd world) res" where
  "Player_HandleProtocol E r type_t message w =
     bind_res (run_handler E r (Player_GetMethod Player_callbacks type_t) message w) (\<lambda>(_, w'). Inr (True, w'))"

section \<open>Messages from other entities\<close>

definition Player_HandleMessage :: "'d env \<Rightarrow> nat \<Rightarrow> msg_item \<Rightarrow> 'd world \<Rightarrow> (bool \<times> 'd world) res" where
  "Player_HandleMessage E r item w =
     bind_res (deref r w) (\<lambda>e.
       if MsgItem_type item = MSG_TYPE_AOI_ENTER then
         (case parse_common (en_codec E) (MsgItem_content item) of
            None \<Rightarrow> Inr (False, w)
          | Some common_prop \<Rightarrow>
              if \<not> Entity_IsInSight (CommonProp_position common_prop) e then Inr (False, w)
              else bind_res
                (Player_SendProtocol E r
                  (PM_SurroundingsChanged (Some ACTION_TYPE_ENTER) (Some (CommonProp_entity_id common_prop))
                    (Some (MsgItem_content item))) w)
                (\<lambda>w'. Inr (True, w')))
       else if MsgItem_type item = MSG_TYPE_AOI_LEAVE \<or> MsgItem_type item = MSG_TYPE_AOI_MOVE then
         (case parse_common (en_codec E) (MsgItem_content item) of
            None \<Rightarrow> Inr (False, w)
          | Some common_prop \<Rightarrow>
              bind_res
                (Player_SendProtocol E r
                  (PM_SurroundingsChanged
                    (Some (if MsgItem_type item = MSG_TYPE_AOI_LEAVE then ACTION_TYPE_LEAVE else ACTION_TYPE_MOVE))
                    (Some (CommonProp_entity_id common_prop)) None) w)
                (\<lambda>w'. Inr (True, w')))
       else Inr (True, w))"

definition Player_Update :: "player_data \<Rightarrow> (bool \<times> player_data) res" where
  "Player_Update p =
     (if in_int64 (pd_heart_count p + 1) then Inr (True, p\<lparr>pd_heart_count := pd_heart_count p + 1\<rparr>)
      else Inl (UB ''int64_t overflow''))"

section \<open>Inventories\<close>

text \<open>
  \<open>PushBackItem\<close> changes the player's data before it fails, so it gives both. The number of the
  inventory type is used as an index, into the descriptor and into the repeated field; the
  item that was added is then asked to copy from a message of another type, which is a fatal error
  (an exception) of protobuf.
\<close>

definition mutable_inventory :: "player_data \<Rightarrow> player_data" where
  "mutable_inventory p =
     p\<lparr>pd_stuff := (pd_stuff p)\<lparr>ps_inventory := Some (PlayerStuff_inventories (pd_stuff p))\<rparr>\<rparr>"

definition set_inventory :: "nat \<Rightarrow> inventory \<Rightarrow> player_data \<Rightarrow> player_data" where
  "set_inventory i new p =
     p\<lparr>pd_stuff := (pd_stuff p)\<lparr>ps_inventory := Some ((PlayerStuff_inventories (pd_stuff p))[i := new])\<rparr>\<rparr>"

definition Player_PushBackItem ::
  "inventory_type \<Rightarrow> item option \<Rightarrow> player_data \<Rightarrow> player_data \<times> bool res" where
  "Player_PushBackItem inventory_type item p =
     (case item of
        None \<Rightarrow> (p, Inr False)
      | Some it \<Rightarrow>
          (let n = inventory_type_number inventory_type
           in if length inventory_type_descriptor \<le> n then (p, Inl (UB ''enum value index''))
              else
                let inventory_size = snd (inventory_type_descriptor ! n);
                    p1 = mutable_inventory p; invs = PlayerStuff_inventories (pd_stuff p1)
                in if length invs \<le> n then (p1, Inl (UB ''repeated field index''))
                   else if inventory_size \<le> length (inv_items (invs ! n)) then (p1, Inr False)
                   else (set_inventory n ((invs ! n)\<lparr>inv_items := inv_items (invs ! n) @ [default_item_item]\<rparr>) p1,
                         Inl (Thrown ''MergeFrom of another message type''))))"

definition Player_GainItem_ptr :: "item option \<Rightarrow> player_data \<Rightarrow> player_data \<times> bool res" where
  "Player_GainItem_ptr item p =
     (case item of
        None \<Rightarrow> (p, Inr False)
      | Some it \<Rightarrow> Player_PushBackItem (ItemCommonProp_inventory (Item_GetCommonProp it)) item p)"

definition Player_GainItem ::
  "codec \<Rightarrow> asset_manager \<Rightarrow> int \<Rightarrow> player_data \<Rightarrow> player_data \<times> bool res" where
  "Player_GainItem C am global_item_id p =
     (case AssetManager_Get am global_item_id of
        None \<Rightarrow> (p, Inr False)
      | Some asset_item \<Rightarrow>
          (case Item_of_message C asset_item of
             Inl err \<Rightarrow> (p, Inl err)
           | Inr it \<Rightarrow>
               (case Player_GainItem_ptr (Some it) p of
                  (p', Inl err) \<Rightarrow> (p', Inl err)
                | (p', Inr _) \<Rightarrow> (p', Inr True))))"

text \<open>\<open>GetInventories\<close> and \<open>GetInventory\<close>.\<close>

definition Player_GetInventories :: "player_data \<Rightarrow> inventory list" where
  "Player_GetInventories p = PlayerStuff_inventories (pd_stuff p)"

definition Player_GetInventory :: "inventory_type \<Rightarrow> player_data \<Rightarrow> inventory res" where
  "Player_GetInventory type p =
     (let n = inventory_type_number type; invs = PlayerStuff_inventories (pd_stuff p)
      in if length invs \<le> n then Inl (UB ''repeated field index'') else Inr (invs ! n))"

section \<open>Lemmas\<close>

lemma add_inventories_eq:
  "add_inventories n i invs = invs @
     map (\<lambda>j. \<lparr>inv_inventory_type = Some (inventory_type_of_index j), inv_items = []\<rparr>) [i..<i + n]"
proof (induction n arbitrary: i invs)
  case (Suc n)
  have "[i..<i + Suc n] = i # [Suc i..<Suc i + n]" by (simp add: upt_conv_Cons)
  with Suc show ?case by simp
qed simp

lemma inventory_count_eq: "inventory_count = 3"
  by (simp add: inventory_count_def inventory_type_descriptor_def)

lemma init_inventories_eq:
  "PlayerStuff_inventories (Player_init_inventories st) = PlayerStuff_inventories st @
     map (\<lambda>j. \<lparr>inv_inventory_type = Some (inventory_type_of_index j), inv_items = []\<rparr>)
       [length (PlayerStuff_inventories st)..<3]"
  by (simp add: Player_init_inventories_def inventory_count_eq add_inventories_eq Let_def
      PlayerStuff_inventories_def)

section \<open>Properties\<close>

text \<open>
  The table of the protocol handlers: type 2 is \<open>CmdLogin\<close>, 6 \<open>CmdEnterScene\<close>, 7 \<open>CmdMove\<close>, every other
  type goes to the default method, which changes nothing; a handler registered later for a type
  that has one is ignored; and \<open>HandleProtocol\<close> returns true whatever the handler returned.
\<close>

theorem Player_HandleProtocol_dispatch:
  "Player_GetMethod Player_callbacks n =
     (if n = 2 then H_CmdLogin else if n = 6 then H_CmdEnterScene else if n = 7 then H_CmdMove else H_Default) \<and>
   Player_GetMethod (Player_AddHandler n h Player_callbacks) n =
     (if n \<in> {2, 6, 7} then Player_GetMethod Player_callbacks n else h) \<and>
   Player_HandleProtocol E r n message w =
     bind_res (run_handler E r (Player_GetMethod Player_callbacks n) message w) (\<lambda>(_, w'). Inr (True, w')) \<and>
   run_handler E r H_Default message w = Inr (Player_DefaultMethod message, w)"
proof -
  have cb: "Player_callbacks k = (if k = 2 then Some H_CmdLogin else if k = 6 then Some H_CmdEnterScene
      else if k = 7 then Some H_CmdMove else None)" for k
    unfolding Player_callbacks_def by (simp add: callbacks.get_put)
  show ?thesis
    by (simp add: Player_GetMethod_def cb callbacks.get_put Player_HandleProtocol_def)
qed

text \<open>
  C20. Saving a player and loading it into a fresh object with the same ID gives back the stored data
  with the attributes of the saved object, and all three inventories, as long as the serialised
  player is not empty and contains no NUL byte.
\<close>

theorem Player_Save_Load_roundtrip:
  assumes "redis_ok (en_redis E) view" "w_heap w r = Some e" "e_kind e = KPlayer p"
    and "w_heap w r2 = Some e2" "e_kind e2 = KPlayer p2" "e_ID e2 = e_ID e" "r2 \<noteq> r"
    and "common = (if CommonProp_entity_type (e_common e) \<noteq> ENTITY_TYPE_PLAYER
           then (e_common e)\<lparr>cp_entity_type := Some ENTITY_TYPE_PLAYER\<rparr> else e_common e)"
    and "stuff = (pd_stuff p)\<lparr>ps_common_prop := Some common\<rparr>"
    and "parse_player (en_codec E) (ser_player (en_codec E) stuff) = (True, stuff)"
    and "ser_player (en_codec E) stuff \<noteq> []" "0 \<notin> set (ser_player (en_codec E) stuff)"
  shows "\<exists>w1 w2. Player_Save E r w = Inr (0, w1) \<and> Player_Load E r2 w1 = Inr (0, w2) \<and>
    w_heap w2 r2 = Some (e2\<lparr>e_common := common,
      e_kind := KPlayer (p2\<lparr>pd_stuff := Player_init_inventories stuff\<rparr>)\<rparr>) \<and>
    3 \<le> length (PlayerStuff_inventories (Player_init_inventories stuff))"
proof -
  let ?bs = "ser_player (en_codec E) stuff"
  let ?w0 = "put_entity r (e\<lparr>e_common := common, e_kind := KPlayer (p\<lparr>pd_stuff := stuff\<rparr>)\<rparr>) w"
  obtain f d where sv: "Redis_SavePlayer (en_redis E) (e_ID e) ?bs (w_db w) = (f, d)"
    by (rule prod.exhaust)
  then have d: "view d = (view (w_db w))(player_key (e_ID e) \<mapsto> ?bs)"
    using Save_view [OF assms(1) sv] assms(12) by (simp flip: c_str_id_iff)
  have save: "Player_Save E r w = Inr (0, ?w0\<lparr>w_db := d\<rparr>)"
    using assms(2,3,8,9) sv by (simp add: Player_Save_def Let_def)
  obtain d2 where g: "Redis_GetPlayer (en_redis E) (e_ID e) d = (?bs, d2)"
    using Get_view [OF assms(1), of "e_ID e" d] d assms(12) by (auto simp flip: c_str_id_iff)
  have heap: "w_heap (?w0\<lparr>w_db := d\<rparr>) r2 = Some e2" using assms(4,7) by simp
  have "PlayerStuff_common_prop stuff = common" using assms(9) by (simp add: PlayerStuff_common_prop_def)
  then have "Player_Load E r2 (?w0\<lparr>w_db := d\<rparr>) = Inr (0, put_entity r2 (e2\<lparr>e_common := common,
      e_kind := KPlayer (p2\<lparr>pd_stuff := Player_init_inventories stuff\<rparr>)\<rparr>) (?w0\<lparr>w_db := d2\<rparr>))"
    using deref_player_Some [OF heap assms(5)] g assms(6,10,11)
    by (simp add: Player_Load_def)
  with save show ?thesis by (simp add: init_inventories_eq)
qed

definition demo_player_env :: "mem_db env" where
  "demo_player_env = demo_env\<lparr>en_codec := demo_codec\<lparr>ser_player := (\<lambda>_. [1]),
     parse_player := (\<lambda>_. (True, default_player_stuff\<lparr>ps_common_prop := Some
       (default_common_prop\<lparr>cp_entity_id := Some 7, cp_entity_type := Some ENTITY_TYPE_PLAYER\<rparr>)\<rparr>))\<rparr>\<rparr>"

theorem Player_Save_Load_roundtrip_witness:
  "\<exists>w1 w2 e. Player_Save demo_player_env 0 (demo_world\<lparr>w_heap := [0 \<mapsto> Player_new 7 None, 1 \<mapsto> Player_new 7 None]\<rparr>) =
       Inr (0, w1) \<and> Player_Load demo_player_env 1 w1 = Inr (0, w2) \<and> w_heap w2 1 = Some e \<and>
     CommonProp_entity_type (e_common e) = ENTITY_TYPE_PLAYER"
proof -
  let ?w = "demo_world\<lparr>w_heap := [0 \<mapsto> Player_new 7 None, 1 \<mapsto> Player_new 7 None]\<rparr>"
  let ?e = "Player_new 7 None"
  let ?p = "\<lparr>pd_session = None, pd_stuff = default_player_stuff, pd_heart_count = 0\<rparr>"
  let ?c = "default_common_prop\<lparr>cp_entity_id := Some 7, cp_entity_type := Some ENTITY_TYPE_PLAYER\<rparr>"
  have w: "w_heap ?w 0 = Some ?e" "w_heap ?w 1 = Some ?e" by simp_all
  have e: "e_kind ?e = KPlayer ?p" "e_common ?e = default_common_prop\<lparr>cp_entity_id := Some 7\<rparr>"
    by (simp_all add: Player_new_def Entity_SetID_def Entity_new_def)
  have c: "?c = (if CommonProp_entity_type (e_common ?e) \<noteq> ENTITY_TYPE_PLAYER
      then (e_common ?e)\<lparr>cp_entity_type := Some ENTITY_TYPE_PLAYER\<rparr> else e_common ?e)"
    by (simp add: e CommonProp_entity_type_def default_common_prop_def)
  have "redis_ok (en_redis demo_player_env) fst" using mem_redis_ok by (simp add: demo_player_env_def demo_env_def)
  from Player_Save_Load_roundtrip [OF this w(1) e(1) w(2) e(1) refl _ c refl]
  show ?thesis by (auto simp: demo_player_env_def demo_env_def CommonProp_entity_type_def)
qed

text \<open>
  \<open>Load\<close> reports no failure: for an ID the data base does not know, \<open>CmdLogin\<close> still returns \<open>0\<close>
  and sends the client a \<open>PlayerInfo\<close> with whatever data the object happens to hold.
\<close>

theorem Player_CmdLogin_unknown_player:
  assumes "w_heap w r = Some e" "e_kind e = KPlayer p" "pd_session p = Some i"
    and "Redis_GetPlayer (en_redis E) (e_ID e) (w_db w) = ([], d)"
  shows "\<exists>w'. Player_CmdLogin E r message w = Inr (0, w') \<and> w_heap w' = w_heap w \<and>
    sk_writes (w_socks w' i) = sk_writes (w_socks w i) @
      [ser_meta (en_codec E) \<lparr>me_type_t = Some META_TYPE_S2C_PLAYER_INFO,
         me_stuff = Some (ser_proto (en_codec E) (PM_PlayerInfo (Some (pd_stuff p))))\<rparr>]"
  using assms
  by (simp add: Player_CmdLogin_def Player_Load_def Player_SendPlayer_def Player_SendProtocol_def
      deref_player_def Socket_AsyncSend_def Let_def)

theorem Player_CmdLogin_unknown_player_witness:
  "\<exists>w'. Player_CmdLogin demo_env 0 PM_CreatePlayer (demo_world\<lparr>w_heap := [0 \<mapsto> Player_new 7 (Some 3)]\<rparr>) =
     Inr (0, w') \<and> length (sk_writes (w_socks w' 3)) = 1"
proof -
  let ?w = "demo_world\<lparr>w_heap := [0 \<mapsto> Player_new 7 (Some 3)]\<rparr>"
  let ?p = "\<lparr>pd_session = Some 3, pd_stuff = default_player_stuff, pd_heart_count = 0\<rparr>"
  have e: "w_heap ?w 0 = Some (Player_new 7 (Some 3))" "e_kind (Player_new 7 (Some 3)) = KPlayer ?p"
    "pd_session ?p = Some 3"
    by (simp_all add: Player_new_def Entity_SetID_def Entity_new_def)
  have "Redis_GetPlayer (en_redis demo_env) i (w_db ?w) = ([], w_db ?w)" for i
    by (simp add: demo_env_def demo_world_def Redis_GetPlayer_def mem_redis_def ascii_def)
  from Player_CmdLogin_unknown_player [OF e this, of PM_CreatePlayer] show ?thesis
    by (force simp: demo_world_def Socket_init_def)
qed

text \<open>
  No item can be stored: \<open>PushBackItem\<close> never returns true. When the inventory that the type's
  number selects (the one after the inventory meant) exists and has room, an empty slot is used up
  and the call ends in protobuf's exception; the other inventories are untouched.
\<close>

theorem PushBackItem_never_stores:
  "snd (Player_PushBackItem ty item p) \<noteq> Inr True \<and>
   (ty = INVENTORY_TYPE_BACKPACKAGE \<and> item \<noteq> None \<and>
      length (Player_GetInventories p) = 3 \<and> length (inv_items (Player_GetInventories p ! 1)) < 6 \<longrightarrow>
    snd (Player_PushBackItem ty item p) = Inl (Thrown ''MergeFrom of another message type'') \<and>
    Player_GetInventories (fst (Player_PushBackItem ty item p)) =
      (Player_GetInventories p)[1 := (Player_GetInventories p ! 1)\<lparr>inv_items :=
         inv_items (Player_GetInventories p ! 1) @ [default_item_item]\<rparr>])"
proof -
  have "snd (Player_PushBackItem ty item p) \<noteq> Inr True"
    by (auto simp: Player_PushBackItem_def Let_def split: option.splits)
  moreover have "PlayerStuff_inventories (pd_stuff (mutable_inventory p)) = Player_GetInventories p"
    by (simp add: mutable_inventory_def Player_GetInventories_def PlayerStuff_inventories_def)
  ultimately show ?thesis
    by (auto simp: Player_PushBackItem_def inventory_type_descriptor_def set_inventory_def Let_def
        Player_GetInventories_def PlayerStuff_inventories_def)
qed

theorem PushBackItem_never_stores_witness:
  "snd (Player_PushBackItem INVENTORY_TYPE_BACKPACKAGE (Some Item_new)
     \<lparr>pd_session = None, pd_stuff = Player_init_inventories default_player_stuff, pd_heart_count = 0\<rparr>) =
   Inl (Thrown ''MergeFrom of another message type'')"
proof -
  let ?p = "\<lparr>pd_session = None, pd_stuff = Player_init_inventories default_player_stuff, pd_heart_count = 0\<rparr>"
  have "PlayerStuff_inventories default_player_stuff = []"
    by (simp add: PlayerStuff_inventories_def default_player_stuff_def)
  then have "length (Player_GetInventories ?p) = 3 \<and> length (inv_items (Player_GetInventories ?p ! 1)) < 6"
    by (simp add: Player_GetInventories_def init_inventories_eq)
  with PushBackItem_never_stores [of INVENTORY_TYPE_BACKPACKAGE "Some Item_new" ?p] show ?thesis by simp
qed

text \<open>
  A client is never told who left: the message \<open>OnLeaveScene\<close> sends has no content, an empty
  content parses as the default attributes, and \<open>HandleMessage\<close> reports a leaving entity with ID 0.
\<close>

theorem Player_told_of_leave_by_nobody:
  assumes "w_heap w r = Some e" "e_kind e = KPlayer p" "pd_session p = Some i"
    and "parse_common (en_codec E) [] = Some default_common_prop"
    and "item = default_msg_item\<lparr>mi_type := Some MSG_TYPE_AOI_LEAVE, mi_sender := Some sender, mi_receiver := Some (e_ID e)\<rparr>"
  shows "\<exists>w'. Player_HandleMessage E r item w = Inr (True, w') \<and>
    sk_writes (w_socks w' i) = sk_writes (w_socks w i) @
      [ser_meta (en_codec E) \<lparr>me_type_t = Some META_TYPE_S2C_SURROUNDINGS_CHANGED,
         me_stuff = Some (ser_proto (en_codec E)
           (PM_SurroundingsChanged (Some ACTION_TYPE_LEAVE) (Some 0) None))\<rparr>]"
  using assms
  by (simp add: Player_HandleMessage_def Player_SendProtocol_def deref_player_def msg_type_defs
      msg_item_getters default_msg_item_def CommonProp_entity_id_def default_common_prop_def
      Socket_AsyncSend_def Let_def)

theorem Player_told_of_leave_by_nobody_witness:
  "\<exists>w'. Player_HandleMessage demo_env 0
     (default_msg_item\<lparr>mi_type := Some MSG_TYPE_AOI_LEAVE, mi_sender := Some 8, mi_receiver := Some 7\<rparr>)
     (demo_world\<lparr>w_heap := [0 \<mapsto> Player_new 7 (Some 3)]\<rparr>) = Inr (True, w') \<and>
     length (sk_writes (w_socks w' 3)) = 1"
proof -
  let ?w = "demo_world\<lparr>w_heap := [0 \<mapsto> Player_new 7 (Some 3)]\<rparr>"
  let ?p = "\<lparr>pd_session = Some 3, pd_stuff = default_player_stuff, pd_heart_count = 0\<rparr>"
  have e: "w_heap ?w 0 = Some (Player_new 7 (Some 3))" "e_kind (Player_new 7 (Some 3)) = KPlayer ?p"
    "pd_session ?p = Some 3" "e_ID (Player_new 7 (Some 3)) = 7"
    by (simp_all add: Player_new_def Entity_SetID_def Entity_new_def)
  have "parse_common (en_codec demo_env) [] = Some default_common_prop"
    by (simp add: demo_env_def demo_codec_def)
  from Player_told_of_leave_by_nobody [OF e(1-3) this refl, of 8] e(4) show ?thesis
    by (force simp: demo_world_def Socket_init_def)
qed

end
