(* ===== verification/Common_Util.thy ===== *)
theory Common_Util
  imports Base
begin

text \<open>
  CommonUtil.h: uniform draws and the choice of an element by weight. The generator of the C++
  library is a parameter \<open>gen\<close>: \<open>gen lo hi\<close> is the next draw from \<open>[lo, hi]\<close>. Weights are what
  the callback gives for the elements of the range, in order.
\<close>

section \<open>The code\<close>

text \<open>\<open>std::uniform_int_distribution\<close> requires \<open>min <= max\<close>.\<close>

definition CommonUtil_Random :: "(int \<Rightarrow> int \<Rightarrow> int) \<Rightarrow> int \<Rightarrow> int \<Rightarrow> int res" where
  "CommonUtil_Random gen lo hi =
     (if lo \<le> hi then Inr (gen lo hi) else Inl (UB ''uniform_int_distribution''))"

text \<open>The first loop: the sum in an \<open>int\<close>, whose overflow is undefined.\<close>

fun sum_weights :: "int \<Rightarrow> int list \<Rightarrow> int res" where
  "sum_weights acc [] = Inr acc"
| "sum_weights acc (w # ws) =
     (if in_int32 (acc + w) then sum_weights (acc + w) ws else Inl (UB ''sum''))"

text \<open>The second loop: \<open>Some i\<close> is the index it stops at, \<open>None\<close> that it runs off the end.\<close>

fun scan_weights :: "int \<Rightarrow> nat \<Rightarrow> int list \<Rightarrow> nat option res" where
  "scan_weights rnd index [] = Inr None"
| "scan_weights rnd index (w # ws) =
     (if rnd < w then Inr (Some index)
      else if in_int32 (rnd - w) then scan_weights (rnd - w) (Suc index) ws
      else Inl (UB ''rnd''))"

definition RandomByWeight :: "(int \<Rightarrow> int \<Rightarrow> int) \<Rightarrow> int list \<Rightarrow> int res" where
  "RandomByWeight gen ws =
     bind_res (sum_weights 0 ws) (\<lambda>sum.
       if sum \<le> 0 then Inr (- 1)
       else bind_res (CommonUtil_Random gen 0 (sum - 1)) (\<lambda>rnd.
         bind_res (scan_weights rnd 0 ws) (\<lambda>r.
           Inr (case r of Some i \<Rightarrow> to_int32 (int i) | None \<Rightarrow> - 1))))"

text \<open>The variant that returns an iterator: a position, \<open>length ws\<close> being \<open>end\<close>.\<close>

definition RandomItorByWeight :: "(int \<Rightarrow> int \<Rightarrow> int) \<Rightarrow> int list \<Rightarrow> nat res" where
  "RandomItorByWeight gen ws =
     bind_res (sum_weights 0 ws) (\<lambda>sum.
       if sum \<le> 0 then Inr (length ws)
       else bind_res (CommonUtil_Random gen 0 (sum - 1)) (\<lambda>rnd.
         bind_res (scan_weights rnd 0 ws) (\<lambda>r.
           Inr (case r of Some i \<Rightarrow> i | None \<Rightarrow> length ws))))"

section \<open>Lemmas\<close>

abbreviation weights_ok :: "int list \<Rightarrow> bool" where
  "weights_ok ws \<equiv> (\<forall>w \<in> set ws. 0 \<le> w) \<and> in_int32 (sum_list ws)"

lemma sum_list_nonneg_int: "\<forall>w \<in> set ws. 0 \<le> w \<Longrightarrow> 0 \<le> sum_list (ws :: int list)"
  by (induction ws) auto

lemma sum_weights_eq:
  "\<forall>w \<in> set ws. 0 \<le> w \<Longrightarrow> 0 \<le> acc \<Longrightarrow> in_int32 (acc + sum_list ws) \<Longrightarrow>
     sum_weights acc ws = Inr (acc + sum_list ws)"
proof (induction ws arbitrary: acc)
  case Nil
  then show ?case by simp
next
  case (Cons w ws)
  then have "0 \<le> sum_list ws" by (intro sum_list_nonneg_int) simp
  with Cons.prems have "in_int32 (acc + w)" by (auto simp: in_int32_def)
  with Cons show ?case by (simp add: add.assoc)
qed

lemma sum_list_take_le:
  "\<forall>w \<in> set ws. 0 \<le> w \<Longrightarrow> sum_list (take i ws) \<le> (sum_list ws :: int)"
proof -
  assume "\<forall>w \<in> set ws. 0 \<le> w"
  then have "0 \<le> sum_list (drop i ws)"
    by (intro sum_list_nonneg_int) (auto dest: in_set_dropD)
  moreover have "sum_list ws = sum_list (take i ws) + sum_list (drop i ws)"
    by (metis append_take_drop_id sum_list_append)
  ultimately show ?thesis by simp
qed

lemma scan_weights_ge: "scan_weights r j ws = Inr (Some n) \<Longrightarrow> j \<le> n"
  by (induction ws arbitrary: r j) (auto split: if_splits dest: Suc_leD)

text \<open>The loop stops at the index whose span of the cumulated weights holds the draw.\<close>

lemma scan_weights_iff:
  "\<forall>w \<in> set ws. 0 \<le> w \<Longrightarrow> 0 \<le> rnd \<Longrightarrow> in_int32 rnd \<Longrightarrow> i < length ws \<Longrightarrow>
     scan_weights rnd k ws = Inr (Some (k + i)) \<longleftrightarrow>
     sum_list (take i ws) \<le> rnd \<and> rnd < sum_list (take (Suc i) ws)"
proof (induction ws arbitrary: rnd k i)
  case Nil
  then show ?case by simp
next
  case (Cons w ws)
  have w: "0 \<le> w" using Cons.prems by simp
  show ?case
  proof (cases "rnd < w")
    case True
    have "0 \<le> sum_list (take (i - 1) ws)"
      using Cons.prems by (intro sum_list_nonneg_int) (auto dest: in_set_takeD)
    with True Cons.prems show ?thesis by (cases i) auto
  next
    case False
    then have r: "0 \<le> rnd - w" "in_int32 (rnd - w)"
      using w Cons.prems by (auto simp: in_int32_def)
    show ?thesis
    proof (cases i)
      case 0
      from 0 False r show ?thesis
        using scan_weights_ge [of "rnd - w" "Suc k" ws k] by auto
    next
      case (Suc j)
      then have "scan_weights (rnd - w) (Suc k) ws = Inr (Some (Suc k + j)) \<longleftrightarrow>
          sum_list (take j ws) \<le> rnd - w \<and> rnd - w < sum_list (take (Suc j) ws)"
        using Cons.IH [of "rnd - w" j "Suc k"] Cons.prems r by simp
      with Suc False r show ?thesis by auto
    qed
  qed
qed

lemma scan_weights_total:
  "\<forall>w \<in> set ws. 0 \<le> w \<Longrightarrow> 0 \<le> rnd \<Longrightarrow> in_int32 rnd \<Longrightarrow> rnd < sum_list ws \<Longrightarrow>
     \<exists>i < length ws. scan_weights rnd k ws = Inr (Some (k + i)) \<and> 0 < ws ! i"
proof (induction ws arbitrary: rnd k)
  case Nil
  then show ?case by simp
next
  case (Cons w ws)
  show ?case
  proof (cases "rnd < w")
    case True
    with Cons.prems show ?thesis by (intro exI [of _ 0]) auto
  next
    case False
    with Cons.prems have "0 \<le> rnd - w" "in_int32 (rnd - w)" "rnd - w < sum_list ws"
      by (auto simp: in_int32_def)
    with Cons obtain i where "i < length ws"
      "scan_weights (rnd - w) (Suc k) ws = Inr (Some (Suc k + i))" "0 < ws ! i"
      by (metis list.set_intros(2))
    with False \<open>in_int32 (rnd - w)\<close> show ?thesis by (intro exI [of _ "Suc i"]) simp
  qed
qed

lemma RandomByWeight_step:
  assumes "weights_ok ws" and "0 < sum_list ws"
  shows "RandomByWeight gen ws =
    bind_res (scan_weights (gen 0 (sum_list ws - 1)) 0 ws)
      (\<lambda>r. Inr (case r of Some i \<Rightarrow> to_int32 (int i) | None \<Rightarrow> - 1))"
  using assms by (simp add: RandomByWeight_def CommonUtil_Random_def sum_weights_eq)

section \<open>Properties\<close>

text \<open>
  The choice is proportional to the weights: of the \<open>sum\<close> equally likely draws, exactly as
  many lead to index \<open>i\<close> as the weight of element \<open>i\<close> says.
\<close>

theorem RandomByWeight_proportional:
  assumes "weights_ok ws" and "i < length ws" and "length ws < 2 ^ 31"
  shows "card {r \<in> {0..<sum_list ws}. RandomByWeight (\<lambda>_ _. r) ws = Inr (int i)} = nat (ws ! i)"
proof -
  have pos: "\<forall>w \<in> set ws. 0 \<le> w" using assms(1) by simp
  have eq: "RandomByWeight (\<lambda>_ _. r) ws = Inr (int i) \<longleftrightarrow>
      sum_list (take i ws) \<le> r \<and> r < sum_list (take (Suc i) ws)"
    if r: "r \<in> {0..<sum_list ws}" for r
  proof -
    from r assms(1) have r32: "0 \<le> r" "r < sum_list ws" "in_int32 r" "0 < sum_list ws"
      by (auto simp: in_int32_def)
    with pos obtain j where j: "j < length ws" "scan_weights r 0 ws = Inr (Some j)"
      using scan_weights_total [of ws r 0] by auto
    then have "in_int32 (int j)" using assms(3) by (simp add: in_int32_def)
    with j have "RandomByWeight (\<lambda>_ _. r) ws = Inr (int i) \<longleftrightarrow> scan_weights r 0 ws = Inr (Some i)"
      using assms(1) r32 by (simp add: RandomByWeight_step conv_simps)
    then show ?thesis
      using scan_weights_iff [of ws r i 0] pos r32 assms(2) by simp
  qed
  have "sum_list (take (Suc i) ws) \<le> sum_list ws" "0 \<le> sum_list (take i ws)"
    using pos by (auto intro!: sum_list_take_le sum_list_nonneg_int dest: in_set_takeD)
  then have "{r \<in> {0..<sum_list ws}. RandomByWeight (\<lambda>_ _. r) ws = Inr (int i)} =
      {sum_list (take i ws)..<sum_list (take (Suc i) ws)}"
    using eq by auto
  then show ?thesis using assms(2) by (simp add: take_Suc_conv_app_nth)
qed

theorem RandomByWeight_proportional_witness:
  "card {r \<in> {0..<sum_list [2, 0, 3 :: int]}. RandomByWeight (\<lambda>_ _. r) [2, 0, 3] = Inr (int 2)} = 3"
  using RandomByWeight_proportional [of "[2, 0, 3]" 2] by (simp add: in_int32_def)

text \<open>
  A choice never fails while some weight is positive: for every generator that keeps to its
  bounds the result is the index of an element with a positive weight, and the iterator variant
  returns that element's position.
\<close>

theorem RandomByWeight_picks_positive:
  assumes "weights_ok ws" and "0 < sum_list ws" and "length ws < 2 ^ 31"
    and "\<And>lo hi. lo \<le> hi \<Longrightarrow> lo \<le> gen lo hi \<and> gen lo hi \<le> hi"
  shows "\<exists>i < length ws. RandomByWeight gen ws = Inr (int i) \<and>
           RandomItorByWeight gen ws = Inr i \<and> 0 < ws ! i"
proof -
  let ?r = "gen 0 (sum_list ws - 1)"
  have r: "0 \<le> ?r" "?r < sum_list ws"
    using assms(4) [of 0 "sum_list ws - 1"] assms(2) by auto
  with assms(1) have "in_int32 ?r" by (auto simp: in_int32_def)
  with r assms(1) obtain i where i: "i < length ws" "0 < ws ! i"
      "scan_weights ?r 0 ws = Inr (Some i)"
    using scan_weights_total [of ws ?r 0] by auto
  moreover have "in_int32 (int i)" using i(1) assms(3) by (simp add: in_int32_def)
  ultimately show ?thesis
    using assms(1,2)
    by (intro exI [of _ i])
      (simp add: RandomByWeight_step RandomItorByWeight_def CommonUtil_Random_def
        sum_weights_eq conv_simps)
qed

theorem RandomByWeight_picks_positive_witness:
  "\<exists>i < length [0, 4 :: int]. RandomByWeight (\<lambda>lo hi. hi) [0, 4] = Inr (int i) \<and>
     RandomItorByWeight (\<lambda>lo hi. hi) [0, 4] = Inr i \<and> 0 < [0, 4 :: int] ! i"
  by (rule RandomByWeight_picks_positive) (simp_all add: in_int32_def)

end
