(* ===== verification/Hoster_Ops.thy ===== *)
theory Hoster_Ops
  imports Entity_Ops Common_Util
begin

text \<open>
  The class Hoster and HosterManager (Hoster.h, Hoster.cpp): the inhabitants of the world, built from
  their configuration, which walk at random once a second.
\<close>

section \<open>A hoster\<close>

text \<open>The constructors from a message and from an ID (\<open>message\<close>: what the asset table holds).\<close>

definition Hoster_of_asset :: "hoster_asset \<Rightarrow> entity" where
  "Hoster_of_asset hoster = (Entity_new (KHoster hoster))\<lparr>e_common := HosterAsset_human_prop hoster\<rparr>"

definition Hoster_of_id :: "asset_msg option \<Rightarrow> entity" where
  "Hoster_of_id message =
     (case message of Some (AM_Hoster h) \<Rightarrow> Hoster_of_asset h | _ \<Rightarrow> Entity_new (KHoster default_hoster_asset))"

definition Hoster_GetHumanProp :: "hoster_asset \<Rightarrow> common_prop" where
  "Hoster_GetHumanProp h = HosterAsset_human_prop h"

definition Hoster_HandleMessage :: "msg_item \<Rightarrow> bool" where
  "Hoster_HandleMessage item =
     (if MsgItem_type item = MSG_TYPE_AOI_ENTER \<or> MsgItem_type item = MSG_TYPE_AOI_LEAVE \<or>
         MsgItem_type item = MSG_TYPE_AOI_MOVE
      then MsgItem_sender item \<noteq> MsgItem_receiver item else True)"

text \<open>One draw of \<open>CommonUtil::Random\<close> from the world's generator.\<close>

definition draw :: "'d env \<Rightarrow> int \<Rightarrow> int \<Rightarrow> 'd world \<Rightarrow> (int \<times> 'd world) res" where
  "draw E lo hi w =
     bind_res (CommonUtil_Random (en_gen E (w_draws w)) lo hi) (\<lambda>v. Inr (v, w\<lparr>w_draws := Suc (w_draws w)\<rparr>))"

text \<open>
  \<open>Update\<close> starts each walk at the configured position of \<open>_stuff\<close>, not at the present one. A
  negative speed makes the bounds of the draw the wrong way round.
\<close>

definition Hoster_Update :: "'d env \<Rightarrow> int \<Rightarrow> nat \<Rightarrow> 'd world \<Rightarrow> (bool \<times> 'd world) res" where
  "Hoster_Update E heart_count r w =
     bind_res (deref r w) (\<lambda>e.
       case e_kind e of
         KHoster stuff \<Rightarrow>
           (if e_scene e = None then Inr (False, w)
            else if heart_count mod 20 \<noteq> 0 then Inr (True, w)
            else
              (let hp = HosterAsset_human_prop stuff; speed = CommonProp_speed hp;
                   position = CommonProp_position hp
               in if \<not> in_int32 (- speed) then Inl (UB ''int32_t overflow'')
                  else bind_res (draw E (- speed) speed w) (\<lambda>(x, w1).
                    bind_res (draw E (- speed) speed w1) (\<lambda>(z, w2).
                      let position = position\<lparr>v3_x := Some (flt_add (Vector3_x position) (flt_of_int x))\<rparr>;
                          position = position\<lparr>v3_z := Some (flt_add (Vector3_z position) (flt_of_int z))\<rparr>
                      in bind_res (Entity_StepMove E r position w2) (\<lambda>w3. Inr (True, w3))))))
       | _ \<Rightarrow> Inl (UB ''not a hoster''))"

section \<open>HosterManager\<close>

fun load_hosters :: "'d env \<Rightarrow> asset_msg list \<Rightarrow> 'd world \<Rightarrow> (bool \<times> 'd world) res" where
  "load_hosters E [] w = Inr (True, w)"
| "load_hosters E (m # ms) w =
     (case m of
        AM_Hoster h \<Rightarrow>
          (let scene_id = CommonProp_scene_id (HosterAsset_human_prop h)
           in case SceneManager_Get w scene_id of
                None \<Rightarrow> load_hosters E ms w
              | Some _ \<Rightarrow>
                  (let (r, w1) = alloc (Hoster_of_asset h) w;
                       e = Entity_SetID (AssetCommonProp_global_id (HosterAsset_common_prop h)) (Hoster_of_asset h)
                   in bind_res (Entity_OnBirth E r scene_id (put_entity r e w1)) (\<lambda>w2.
                        load_hosters E ms (w2\<lparr>w_hosters := w_hosters w2 @ [r]\<rparr>))))
      | _ \<Rightarrow> Inr (False, w))"

definition HosterManager_Load :: "'d env \<Rightarrow> 'd world \<Rightarrow> (bool \<times> 'd world) res" where
  "HosterManager_Load E w =
     (let (ms, am) = AssetManager_GetMessagesByType (asset_type_number ASSET_TYPE_HOSTER) (w_assets w)
      in load_hosters E (en_order E ms) (w\<lparr>w_assets := am\<rparr>))"

fun update_hosters :: "'d env \<Rightarrow> int \<Rightarrow> nat list \<Rightarrow> 'd world \<Rightarrow> 'd world res" where
  "update_hosters E diff [] w = Inr w"
| "update_hosters E diff (r # rs) w =
     bind_res (Hoster_Update E diff r w) (\<lambda>(_, w'). update_hosters E diff rs w')"

definition HosterManager_Update :: "'d env \<Rightarrow> int \<Rightarrow> 'd world \<Rightarrow> (bool \<times> 'd world) res" where
  "HosterManager_Update E diff w =
     bind_res (update_hosters E diff (w_hosters w) w) (\<lambda>w'. Inr (True, w'))"

section \<open>Properties\<close>

text \<open>
  C35. A hoster stays within its speed of the place it was configured at, however often it walks: a
  walk moves it to the configured position plus a draw from \<open>[-speed, speed]\<close> on each axis. On a
  heart beat that is not a multiple of 20 it does not move. This holds for a configuration with a speed that is
  not negative and with coordinates that are whole numbers of magnitude below \<open>2^23\<close> minus the speed, so that
  the sums are exact in a \<open>float\<close> (a negative speed is an empty range for the generator, which is undefined), for a
  hoster in a loaded scene, and for a generator that stays in its range.
\<close>

theorem Hoster_walk_is_tethered:
  assumes "w_heap w r = Some e" "e_kind e = KHoster h" "e_scene e = Some k" "w_scenes w k = Some s"
    and "manager_ok w" "hp = HosterAsset_human_prop h" "0 \<le> CommonProp_speed hp"
    and "Vector3_x (CommonProp_position hp) = flt_whole px"
    and "Vector3_z (CommonProp_position hp) = flt_whole pz"
    and "\<bar>px\<bar> + CommonProp_speed hp < 2 ^ 23" "\<bar>pz\<bar> + CommonProp_speed hp < 2 ^ 23"
    and "\<And>n lo hi. lo \<le> hi \<Longrightarrow> lo \<le> en_gen E n lo hi \<and> en_gen E n lo hi \<le> hi"
  shows "\<exists>w' e'. Hoster_Update E heart_count r w = Inr (True, w') \<and> w_heap w' r = Some e' \<and>
    (if heart_count mod 20 = 0
     then \<exists>dx dz. \<bar>dx\<bar> \<le> CommonProp_speed hp \<and> \<bar>dz\<bar> \<le> CommonProp_speed hp \<and>
       Entity_GetX e' = flt_whole (px + dx) \<and> Entity_GetZ e' = flt_whole (pz + dz)
     else w' = w)"
proof (cases "heart_count mod 20 = 0")
  case False
  with assms(1-3) show ?thesis by (simp add: Hoster_Update_def)
next
  case True
  let ?v = "CommonProp_speed hp"
  define dx where "dx = en_gen E (w_draws w) (- ?v) ?v"
  define dz where "dz = en_gen E (Suc (w_draws w)) (- ?v) ?v"
  have d: "\<bar>dx\<bar> \<le> ?v" "\<bar>dz\<bar> \<le> ?v"
    using assms(12) [of "- ?v" ?v "w_draws w"] assms(12) [of "- ?v" ?v "Suc (w_draws w)"] assms(7)
    by (auto simp: dx_def dz_def)
  have b: "\<bar>dx\<bar> < 2 ^ 24" "\<bar>dz\<bar> < 2 ^ 24" "\<bar>px + dx\<bar> < 2 ^ 24" "\<bar>pz + dz\<bar> < 2 ^ 24"
    using d assms(10,11) by auto
  let ?pos = "(CommonProp_position hp)\<lparr>v3_x := Some (flt_whole (px + dx)), v3_z := Some (flt_whole (pz + dz))\<rparr>"
  let ?w = "w\<lparr>w_draws := Suc (Suc (w_draws w))\<rparr>"
  have x: "flt_add (Vector3_x (CommonProp_position hp)) (flt_of_int dx) = flt_whole (px + dx)"
    and z: "flt_add (Vector3_z (CommonProp_position hp)) (flt_of_int dz) = flt_whole (pz + dz)"
    using assms(8,9) b by (simp_all add: flt_of_int_whole flt_add_whole)
  have vz: "Vector3_z (p\<lparr>v3_x := a\<rparr>) = Vector3_z p" for p a by (simp add: Vector3_z_def)
  have at: "Vector3_x ?pos = flt_whole (px + dx)" "Vector3_z ?pos = flt_whole (pz + dz)"
    by (simp_all add: Vector3_x_def Vector3_z_def)
  have safe: "in_int32 (px + dx)" "in_int32 (pz + dz)" "query_safe (px + dx)" "query_safe (pz + dz)"
    using b by (auto simp: in_int32_def query_safe_def MAX_SIGHT_DISTANCE_def)
  obtain w' s' where w': "Entity_StepMove E r ?pos ?w = Inr w'"
    "w_heap w' = (w_heap w)(r \<mapsto> Entity_UpdatePosition ?pos e)"
    using StepMove_run [of ?w r e k s ?pos "px + dx" "pz + dz" E] assms(1,3-5) safe
    by (auto simp: at flt_to_int32_whole manager_ok_def)
  have "in_int32 (- ?v)" using assms(7,10) by (auto simp: in_int32_def)
  then have "Hoster_Update E heart_count r w = Inr (True, w')"
    using True assms(1-3,7) w'(1)
    by (simp add: Hoster_Update_def draw_def CommonUtil_Random_def Let_def x z vz
        flip: dx_def dz_def assms(6))
  moreover have "Entity_GetX (Entity_UpdatePosition ?pos e) = flt_whole (px + dx)"
    "Entity_GetZ (Entity_UpdatePosition ?pos e) = flt_whole (pz + dz)"
    using at by (simp_all add: Entity_GetX_def Entity_GetZ_def Entity_UpdatePosition_def CommonProp_position_def)
  ultimately show ?thesis using True d w'(2) by auto
qed

theorem Hoster_walk_is_tethered_witness:
  "\<exists>w' e'. Hoster_Update demo_env 40 0 (demo_world\<lparr>
       w_heap := [0 \<mapsto> (Hoster_of_asset default_hoster_asset)\<lparr>e_scene := Some 5\<rparr>],
       w_scenes := [5 \<mapsto> Scene_empty]\<rparr>) = Inr (True, w') \<and> w_heap w' 0 = Some e' \<and>
     (\<exists>dx. \<bar>dx\<bar> \<le> 1 \<and> Entity_GetX e' = flt_whole (0 + dx))"
proof -
  let ?w = "demo_world\<lparr>w_heap := [0 \<mapsto> (Hoster_of_asset default_hoster_asset)\<lparr>e_scene := Some 5\<rparr>],
       w_scenes := [5 \<mapsto> Scene_empty]\<rparr>"
  let ?e = "(Hoster_of_asset default_hoster_asset)\<lparr>e_scene := Some 5\<rparr>"
  let ?hp = "HosterAsset_human_prop default_hoster_asset"
  have w: "w_heap ?w 0 = Some ?e" "e_kind ?e = KHoster default_hoster_asset" "e_scene ?e = Some 5"
    "w_scenes ?w 5 = Some Scene_empty" "manager_ok ?w"
    by (simp_all add: Hoster_of_asset_def Entity_new_def manager_ok_def demo_world_def)
  have v: "CommonProp_speed ?hp = 1" "Vector3_x (CommonProp_position ?hp) = flt_whole 0"
    "Vector3_z (CommonProp_position ?hp) = flt_whole 0"
    by (simp_all add: HosterAsset_human_prop_def default_hoster_asset_def CommonProp_speed_def
        default_common_prop_def CommonProp_position_def default_vector3_def Vector3_x_def Vector3_z_def
        flt_whole_def)
  have g: "lo \<le> hi \<Longrightarrow> lo \<le> en_gen demo_env n lo hi \<and> en_gen demo_env n lo hi \<le> hi" for n lo hi
    by (simp add: demo_env_def)
  show ?thesis
    using Hoster_walk_is_tethered [OF w refl _ v(2,3) _ _ g, of 40] v(1) by (auto simp: demo_env_def)
qed

end
