(* ===== verification/Dispatcher.thy ===== *)
theory Dispatcher
  imports Player_Ops Hoster_Ops
begin

text \<open>
  The loop of MessageDispatcher (MessageDispatcher.h, MessageDispatcher.cpp): it takes messages off
  the queue and hands them to their receivers. Sending is in theory Game_World.
\<close>

section \<open>The code\<close>

text \<open>The virtual \<open>HandleMessage\<close>.\<close>

definition HandleMessage_virtual :: "'d env \<Rightarrow> nat \<Rightarrow> msg_item \<Rightarrow> 'd world \<Rightarrow> (bool \<times> 'd world) res" where
  "HandleMessage_virtual E r item w =
     bind_res (deref r w) (\<lambda>e.
       case e_kind e of
         KEntity \<Rightarrow> Inr (Entity_HandleMessage E item, w)
       | KHoster _ \<Rightarrow> Inr (Hoster_HandleMessage item, w)
       | KPlayer _ \<Rightarrow> Player_HandleMessage E r item w)"

definition MessageDispatcher_Discharge :: "'d env \<Rightarrow> int \<Rightarrow> msg_item \<Rightarrow> 'd world \<Rightarrow> (bool \<times> 'd world) res" where
  "MessageDispatcher_Discharge E receiver message w =
     (case EntityManager_GetEntity w receiver of
        None \<Rightarrow> Inr (False, w)
      | Some r \<Rightarrow> bind_res (HandleMessage_virtual E r message w) (\<lambda>(_, w'). Inr (True, w')))"

text \<open>
  One round of the loop at time \<open>now\<close>. A delayed message that is not yet due has been taken off the
  queue by then, and \<open>continue\<close> forgets it.
\<close>

definition MessageDispatcher_round :: "'d env \<Rightarrow> int \<Rightarrow> 'd world \<Rightarrow> 'd world res" where
  "MessageDispatcher_round E now w =
     (if MessageDispatcher_Empty w then Inr w
      else bind_res (PriorityQueue_GetNext (w_queue w)) (\<lambda>(message, q).
        let w1 = w\<lparr>w_queue := q\<rparr>
        in if MsgItem_delay message > 0 \<and> now < MsgItem_time message + MsgItem_delay message then Inr w1
           else bind_res (MessageDispatcher_Discharge E (MsgItem_receiver message) message w1)
                  (\<lambda>(_, w2). Inr w2)))"

text \<open>Several rounds, with the times of the clock.\<close>

fun MessageDispatcher_rounds :: "'d env \<Rightarrow> int list \<Rightarrow> 'd world \<Rightarrow> 'd world res" where
  "MessageDispatcher_rounds E [] w = Inr w"
| "MessageDispatcher_rounds E (t # ts) w =
     bind_res (MessageDispatcher_round E t w) (MessageDispatcher_rounds E ts)"

section \<open>Lemmas\<close>

lemma Player_SendProtocol_queue:
  assumes "Player_SendProtocol E r m w = Inr w'"
  shows "w_queue w' = w_queue w"
proof (cases "deref_player r w")
  case (Inr ep)
  with assms show ?thesis
    by (cases ep; cases "proto_type_t m"; cases "pd_session (snd ep)")
      (auto simp: Player_SendProtocol_def Let_def)
qed (use assms in \<open>simp add: Player_SendProtocol_def\<close>)

lemma Player_HandleMessage_queue:
  "Player_HandleMessage E r m w = Inr (b, w') \<Longrightarrow> w_queue w' = w_queue w"
  unfolding Player_HandleMessage_def bind_res_Inr_iff
  by (auto simp: bind_res_Inr_iff split: option.split_asm if_split_asm dest: Player_SendProtocol_queue)

lemma HandleMessage_queue:
  assumes "HandleMessage_virtual E r m w = Inr (b, w')"
  shows "w_queue w' = w_queue w"
proof -
  obtain e where "w_heap w r = Some e"
    using assms by (auto simp: HandleMessage_virtual_def bind_res_Inr_iff)
  with assms show ?thesis
    by (cases "e_kind e") (auto simp: HandleMessage_virtual_def dest: Player_HandleMessage_queue)
qed

lemma Discharge_queue:
  "MessageDispatcher_Discharge E i m w = Inr (b, w') \<Longrightarrow> w_queue w' = w_queue w"
  by (auto simp: MessageDispatcher_Discharge_def bind_res_Inr_iff split: option.splits
      dest: HandleMessage_queue)

text \<open>What the messages of a list do to the world when they are handed over one after the other.\<close>

fun deliver :: "'d env \<Rightarrow> msg_item list \<Rightarrow> 'd world \<Rightarrow> 'd world res" where
  "deliver E [] w = Inr w"
| "deliver E (m # ms) w =
     (let w1 = w\<lparr>w_queue := m # ms\<rparr>
      in case EntityManager_GetEntity w1 (MsgItem_receiver m) of
           None \<Rightarrow> deliver E ms w1
         | Some r \<Rightarrow> bind_res (HandleMessage_virtual E r m w1) (\<lambda>(_, w2). deliver E ms w2))"

lemma deliver_Cons:
  "deliver E (m # ms) w =
     bind_res (MessageDispatcher_Discharge E (MsgItem_receiver m) m (w\<lparr>w_queue := m # ms\<rparr>))
       (\<lambda>(_, w'). deliver E ms w')"
  by (auto simp: MessageDispatcher_Discharge_def Let_def bind_res_assoc split_def split: option.split)

declare deliver.simps(2) [simp del] deliver_Cons [simp]

lemma rounds_deliver:
  assumes "w_queue w = m # ms" "\<forall>x \<in> set ms. \<not> MsgItem_delay x > 0" "length ts = length ms"
  shows "MessageDispatcher_rounds E ts w = deliver E ms w"
  using assms
proof (induction ms arbitrary: m w ts)
  case (Cons x ms)
  then obtain t ts' where ts: "ts = t # ts'" "length ts' = length ms" by (cases ts) auto
  have "MessageDispatcher_round E t w =
      bind_res (MessageDispatcher_Discharge E (MsgItem_receiver x) x (w\<lparr>w_queue := x # ms\<rparr>)) (\<lambda>(_, w2). Inr w2)"
    using Cons.prems(1,2)
    by (simp add: MessageDispatcher_round_def MessageDispatcher_Empty_def PriorityQueue_Empty_def Let_def)
  moreover have "MessageDispatcher_rounds E ts' w' = deliver E ms w'"
    if "MessageDispatcher_Discharge E (MsgItem_receiver x) x (w\<lparr>w_queue := x # ms\<rparr>) = Inr (b, w')" for b w'
    using Cons.IH [of w' x ts'] Discharge_queue [OF that] ts(2) Cons.prems(2) by simp
  ultimately show ?case
    by (cases "MessageDispatcher_Discharge E (MsgItem_receiver x) x (w\<lparr>w_queue := x # ms\<rparr>)") (auto simp: ts(1))
qed simp

lemma round_shortens:
  assumes "MessageDispatcher_round E t w = Inr w'" "w_queue w \<noteq> []"
  shows "w_queue w' \<noteq> [] \<and> length (w_queue w') < length (w_queue w)"
proof -
  obtain x q where q: "w_queue w = x # q" using assms(2) by (cases "w_queue w") auto
  show ?thesis
  proof (cases q)
    case Nil
    with assms(1) q show ?thesis
      by (simp add: MessageDispatcher_round_def MessageDispatcher_Empty_def PriorityQueue_Empty_def)
  next
    case (Cons y q')
    with assms(1) q have "w_queue w' = q"
      by (auto simp: MessageDispatcher_round_def MessageDispatcher_Empty_def PriorityQueue_Empty_def Let_def bind_res_Inr_iff
          split: if_splits dest: Discharge_queue)
    with Cons q show ?thesis by simp
  qed
qed

section \<open>Properties\<close>

text \<open>
  C14. The dispatcher delivers the wrong messages: with \<open>n + 1\<close> messages in the queue, none of them
  delayed, \<open>n\<close> rounds hand over, in the order of their priority and each to the handler of its receiver,
  all messages but the first one, which is dropped unread; the last of them is then still queued, and the round that takes it reads a
  destroyed element.
\<close>

theorem Dispatcher_drops_first_message:
  assumes "w_queue w = m # ms" "pq_ordered MsgItem_priority (w_queue w)"
    and "\<forall>x \<in> set ms. MsgItem_delay x = 0" "length ts = length ms"
  shows "MessageDispatcher_rounds E ts w = deliver E ms w \<and>
    sorted (map MsgItem_priority ms) \<and> (\<forall>x \<in> set ms. MsgItem_priority m \<le> MsgItem_priority x) \<and>
    (\<forall>w'. length (w_queue w') = 1 \<longrightarrow>
       MessageDispatcher_round E t w' = Inl (UB ''reference to a destroyed element''))"
proof -
  have "MessageDispatcher_rounds E ts w = deliver E ms w"
    using rounds_deliver [OF assms(1) _ assms(4), of E] assms(3) by simp
  moreover have "MessageDispatcher_round E t w' = Inl (UB ''reference to a destroyed element'')"
    if "length (w_queue w') = 1" for w'
  proof -
    from that obtain x where "w_queue w' = [x]" by (cases "w_queue w'") auto
    then show ?thesis
      by (simp add: MessageDispatcher_round_def MessageDispatcher_Empty_def PriorityQueue_Empty_def)
  qed
  ultimately show ?thesis using assms(1,2) by (simp add: pq_ordered_def)
qed

theorem Dispatcher_drops_first_message_witness:
  "MessageDispatcher_rounds demo_env [1] (demo_world\<lparr>w_queue :=
     [default_msg_item\<lparr>mi_receiver := Some 1\<rparr>, default_msg_item\<lparr>mi_receiver := Some 2\<rparr>]\<rparr>) =
   deliver demo_env [default_msg_item\<lparr>mi_receiver := Some 2\<rparr>] (demo_world\<lparr>w_queue :=
     [default_msg_item\<lparr>mi_receiver := Some 1\<rparr>, default_msg_item\<lparr>mi_receiver := Some 2\<rparr>]\<rparr>)"
proof -
  let ?m = "default_msg_item\<lparr>mi_receiver := Some 1\<rparr>" and ?n = "default_msg_item\<lparr>mi_receiver := Some 2\<rparr>"
  let ?w = "demo_world\<lparr>w_queue := [?m, ?n]\<rparr>"
  have "pq_ordered MsgItem_priority (w_queue ?w)" "\<forall>x \<in> set [?n]. MsgItem_delay x = 0"
    by (simp_all add: pq_ordered_def MsgItem_priority_def MsgItem_delay_def default_msg_item_def)
  with Dispatcher_drops_first_message [of ?w ?m "[?n]" "[1]" demo_env 0] show ?thesis by simp
qed

text \<open>
  Delays do not work: what \<open>SendMessage\<close> queues never carries the time of sending, so a delayed
  message is due at once unless the clock stands before its bare delay; and a message that is not
  due when it comes up is taken off the queue without being delivered.
\<close>

theorem Dispatcher_delay_broken:
  assumes "w_queue w = [x]" "mi_time msg = None" "MsgItem_priority x \<le> MsgItem_priority msg"
    and "0 < MsgItem_delay msg" "w1 = MessageDispatcher_SendMessage sent msg w"
  shows "MsgItem_time (last (w_queue w1)) = 0 \<and>
    (MsgItem_delay msg \<le> now \<longrightarrow> MessageDispatcher_round E now w1 =
       bind_res (MessageDispatcher_Discharge E (MsgItem_receiver msg) msg (w1\<lparr>w_queue := [msg]\<rparr>)) (\<lambda>(_, w2). Inr w2)) \<and>
    (now < MsgItem_delay msg \<longrightarrow> MessageDispatcher_round E now w1 = Inr (w1\<lparr>w_queue := [msg]\<rparr>))"
proof -
  have q: "w_queue w1 = [x, msg]"
    using assms(1,3,5) by (simp add: MessageDispatcher_SendMessage_def PriorityQueue_Emplace_def)
  with assms(2,4) show ?thesis
    by (auto simp: MessageDispatcher_round_def MessageDispatcher_Empty_def PriorityQueue_Empty_def
        MsgItem_time_def Let_def)
qed

theorem Dispatcher_delay_broken_witness:
  "MessageDispatcher_round demo_env 1500000000
     (MessageDispatcher_SendMessage 1499999999 (default_msg_item\<lparr>mi_delay := Some 60\<rparr>)
       (demo_world\<lparr>w_queue := [default_msg_item]\<rparr>)) =
   Inr (MessageDispatcher_SendMessage 1499999999 (default_msg_item\<lparr>mi_delay := Some 60\<rparr>)
       (demo_world\<lparr>w_queue := [default_msg_item]\<rparr>)\<lparr>w_queue := [default_msg_item\<lparr>mi_delay := Some 60\<rparr>]\<rparr>)"
proof -
  let ?m = "default_msg_item\<lparr>mi_delay := Some 60\<rparr>"
  let ?w = "demo_world\<lparr>w_queue := [default_msg_item]\<rparr>"
  let ?w1 = "MessageDispatcher_SendMessage 1499999999 ?m ?w"
  have "MessageDispatcher_Discharge demo_env (MsgItem_receiver ?m) ?m (?w1\<lparr>w_queue := [?m]\<rparr>) =
      Inr (False, ?w1\<lparr>w_queue := [?m]\<rparr>)"
    by (simp add: MessageDispatcher_Discharge_def EntityManager_GetEntity_def demo_world_def)
  with Dispatcher_delay_broken [of ?w default_msg_item ?m ?w1 1499999999 1500000000 demo_env]
  show ?thesis by (simp add: default_msg_item_def MsgItem_priority_def MsgItem_delay_def)
qed

text \<open>
  C15. The dispatcher's loop ends, where it is meant to run forever: once there is a message in the queue, at most as many
  rounds as there are messages later the thread has failed, whatever the messages are and whatever they
  cause, unless new messages keep arriving in time.
\<close>

theorem dispatcher_loop_ends:
  assumes "w_queue w \<noteq> []" "length (w_queue w) \<le> length ts"
  shows "\<exists>e. MessageDispatcher_rounds E ts w = Inl e"
  using assms
proof (induction ts arbitrary: w)
  case (Cons t ts)
  show ?case
  proof (cases "MessageDispatcher_round E t w")
    case (Inr w')
    with round_shortens [OF Inr Cons.prems(1)] Cons.IH [of w'] Cons.prems(2) show ?thesis by simp
  qed simp
qed simp

theorem dispatcher_loop_ends_witness:
  "\<exists>e. MessageDispatcher_rounds demo_env [1, 2] (demo_world\<lparr>w_queue :=
     [default_msg_item\<lparr>mi_receiver := Some 1\<rparr>, default_msg_item\<lparr>mi_receiver := Some 2\<rparr>]\<rparr>) = Inl e"
  by (rule dispatcher_loop_ends) simp_all

end
