(* ===== verification/World_Session.thy ===== *)
theory World_Session
  imports Player_Ops
begin

text \<open>
  The session of a client (WorldSession.h, WorldSession.cpp): the handler of a received packet and the
  manager of the sessions. A session is a connection of theory Net_Socket; \<open>w_player\<close> is the one
  global \<open>g_player\<close> of the file.
\<close>

section \<open>The session\<close>

definition on_sock :: "nat \<Rightarrow> (sock \<Rightarrow> sock) \<Rightarrow> 'd world \<Rightarrow> 'd world" where
  "on_sock i f w = w\<lparr>w_socks := (w_socks w)(i := f (w_socks w i))\<rparr>"

definition WorldSession_Start :: "nat \<Rightarrow> 'd world \<Rightarrow> 'd world" where
  "WorldSession_Start i w = on_sock i Socket_AsyncReceive w"

text \<open>\<open>Update\<close> is true also for a session that is closed.\<close>

definition WorldSession_Update :: "'d world \<Rightarrow> (bool \<times> 'd world) res" where
  "WorldSession_Update w =
     (case w_player w of
        None \<Rightarrow> Inr (True, w)
      | Some r \<Rightarrow>
          bind_res (deref_player r w) (\<lambda>(e, p).
            bind_res (Player_Update p) (\<lambda>(_, p'). Inr (True, put_entity r (e\<lparr>e_kind := KPlayer p'\<rparr>) w))))"

text \<open>\<open>g_player = std::make_shared<Player>(player_id, session)\<close>.\<close>

definition set_g_player :: "int \<Rightarrow> nat \<Rightarrow> 'd world \<Rightarrow> (nat \<times> 'd world) res" where
  "set_g_player player_id session w =
     (let (r, w1) = alloc (Player_new player_id (Some session)) w; w2 = w1\<lparr>w_player := Some r\<rparr>
      in case w_player w of
           None \<Rightarrow> Inr (r, w2)
         | Some old \<Rightarrow> bind_res (release old w2) (\<lambda>w3. Inr (r, w3)))"

text \<open>The packet every received packet is answered with: an \<open>EnterGame\<close> for player 100000.\<close>

definition greeting :: "codec \<Rightarrow> bytes" where
  "greeting C = ser_meta C \<lparr>me_type_t = Some META_TYPE_C2S_ENTER_GAME,
     me_stuff = Some (ser_proto C (PM_EnterGame (Some META_TYPE_C2S_ENTER_GAME) (Some 100000)))\<rparr>"

text \<open>
  The game logic on a parsed message: the world, and whether the handler goes on to receive
  (\<open>False\<close> for an early \<open>return\<close>).
\<close>

definition session_logic ::
  "'d env \<Rightarrow> nat \<Rightarrow> meta_type \<Rightarrow> proto_msg \<Rightarrow> 'd world \<Rightarrow> (bool \<times> 'd world) res" where
  "session_logic E i type_t message w =
     (if type_t = META_TYPE_C2S_CREATE_PLAYER then
        (case message of
           PM_CreatePlayer \<Rightarrow>
             (let (player_id, d) = Redis_CreatePlayer (en_redis E) (w_db w); w1 = w\<lparr>w_db := d\<rparr>
              in if player_id = 0 then Inr (False, w1)
                 else bind_res (set_g_player player_id i w1) (\<lambda>(r, w2).
                        bind_res (Player_Save E r w2) (\<lambda>(_, w3). Inr (True, w3))))
         | _ \<Rightarrow> Inr (False, w))
      else if type_t = META_TYPE_C2S_ENTER_GAME then
        (if w_player w \<noteq> None then Inr (False, w)
         else case message of
           PM_EnterGame _ player_id \<Rightarrow>
             bind_res (set_g_player (opt_get 0 player_id) i w) (\<lambda>(r, w1).
               bind_res (Player_OnEnterGame E r w1) (\<lambda>(_, w2). Inr (True, w2)))
         | _ \<Rightarrow> Inr (False, w))
      else
        (case w_player w of
           None \<Rightarrow> Inr (False, w)
         | Some r \<Rightarrow>
             bind_res (Player_HandleProtocol E r (meta_type_number type_t) message w) (\<lambda>(_, w1). Inr (True, w1))))"

text \<open>
  \<open>InitializeHandler\<close> on session \<open>i\<close>: \<open>error\<close> is the outcome of the read, \<open>buffer\<close> the bytes received. The
  message is parsed into the prototype object of the protocol table. An exception (only
  \<open>remote_endpoint()\<close> throws here) ends the handler without a new read.
\<close>

definition InitializeHandler :: "'d env \<Rightarrow> nat \<Rightarrow> bool \<Rightarrow> bytes \<Rightarrow> 'd world \<Rightarrow> 'd world res" where
  "InitializeHandler E i error buffer w =
     (if \<not> sk_connected (w_socks w i) then Inr w
      else if error then Inr (on_sock i Socket_Close w)
      else
        let w1 = on_sock i (Socket_AsyncSend (greeting (en_codec E))) w
        in case parse_meta (en_codec E) buffer of
             None \<Rightarrow> Inr (on_sock i Socket_Close w1)
           | Some m \<Rightarrow>
               (case ProtocolManager_GetMessage (w_protos w1) (meta_type_number (Meta_type_t m)) of
                  None \<Rightarrow> Inr (on_sock i Socket_Close w1)
                | Some prototype \<Rightarrow>
                    (case parse_proto (en_codec E) prototype (Meta_stuff m) of
                       None \<Rightarrow> Inr (on_sock i Socket_Close w1)
                     | Some message \<Rightarrow>
                         let w2 = w1\<lparr>w_protos := (w_protos w1)(meta_type_number (Meta_type_t m) \<mapsto> message)\<rparr>
                         in bind_res (session_logic E i (Meta_type_t m) message w2) (\<lambda>(again, w3).
                              Inr (if again then on_sock i Socket_AsyncReceive w3 else w3)))))"

section \<open>The manager of the sessions\<close>

record session_manager =
  ws_list :: "nat list"
  ws_sessions :: "int \<Rightarrow> nat option"

definition WorldSessionManager_Add :: "nat \<Rightarrow> session_manager \<Rightarrow> session_manager" where
  "WorldSessionManager_Add session m = m\<lparr>ws_list := ws_list m @ [session]\<rparr>"

definition WorldSessionManager_Emplace :: "int \<Rightarrow> nat \<Rightarrow> session_manager \<Rightarrow> session_manager" where
  "WorldSessionManager_Emplace player_id session m =
     (case ws_sessions m player_id of
        None \<Rightarrow> m\<lparr>ws_sessions := (ws_sessions m)(player_id \<mapsto> session)\<rparr>
      | Some _ \<Rightarrow> m)"

definition WorldSessionManager_GetCount :: "session_manager \<Rightarrow> nat" where
  "WorldSessionManager_GetCount m = length (ws_list m)"

interpretation sessions: first_wins WorldSessionManager_Emplace ws_sessions
  by unfold_locales (simp add: WorldSessionManager_Emplace_def split: option.splits)

definition WorldSessionManager_CreateThreads :: "int \<Rightarrow> net_thread list" where
  "WorldSessionManager_CreateThreads n = replicate (nat n) NetworkThread_init"

text \<open>\<open>OnSocketAccept\<close>: the new session starts to receive and goes to its thread.\<close>

definition WorldSessionManager_OnSocketAccept ::
  "nat \<Rightarrow> sock \<Rightarrow> nat \<Rightarrow> socks \<Rightarrow> net_thread list \<Rightarrow> (socks \<times> net_thread list) res" where
  "WorldSessionManager_OnSocketAccept i s thread_index S threads =
     SocketManager_OnSocketOpen i (Some (Socket_AsyncReceive s)) thread_index S threads"

text \<open>\<open>StartNetwork\<close>: the threads, then the first accept with the socket of the least busy thread.\<close>

definition WorldSessionManager_StartNetwork ::
  "bool \<Rightarrow> int \<Rightarrow> acceptor \<Rightarrow> socket_manager \<Rightarrow> (bool \<times> acceptor \<times> socket_manager) res" where
  "WorldSessionManager_StartNetwork bound thread_count a m =
     bind_res (SocketManager_StartNetwork bound (WorldSessionManager_CreateThreads thread_count) thread_count m)
       (\<lambda>(ok, m').
          if \<not> ok then Inr (False, a, m')
          else bind_res
            (AsyncAcceptor_AsyncAcceptWithCallback
              (\<lambda>_. SocketManager_GetSocketForAccept (case sm_threads m' of None \<Rightarrow> [] | Some ts \<Rightarrow> ts)) a)
            (\<lambda>(_, a'). Inr (True, a', m')))"

section \<open>Lemmas\<close>

lemma on_sock_sel [simp]:
  "w_socks (on_sock i f w) = (w_socks w)(i := f (w_socks w i))" "w_player (on_sock i f w) = w_player w"
  "w_protos (on_sock i f w) = w_protos w" "w_heap (on_sock i f w) = w_heap w"
  by (simp_all add: on_sock_def)

text \<open>A received packet that parses as message \<open>msg\<close> of type \<open>ty\<close>.\<close>

definition received :: "'d env \<Rightarrow> 'd world \<Rightarrow> bytes \<Rightarrow> meta_type \<Rightarrow> proto_msg \<Rightarrow> bool" where
  "received E w buffer ty msg \<longleftrightarrow>
     (\<exists>m prototype. parse_meta (en_codec E) buffer = Some m \<and> Meta_type_t m = ty \<and>
        w_protos w (meta_type_number ty) = Some prototype \<and>
        parse_proto (en_codec E) prototype (Meta_stuff m) = Some msg)"

definition after_parse :: "'d env \<Rightarrow> nat \<Rightarrow> meta_type \<Rightarrow> proto_msg \<Rightarrow> 'd world \<Rightarrow> 'd world" where
  "after_parse E i ty msg w =
     (let w1 = on_sock i (Socket_AsyncSend (greeting (en_codec E))) w
      in w1\<lparr>w_protos := (w_protos w1)(meta_type_number ty \<mapsto> msg)\<rparr>)"

lemma InitializeHandler_received:
  assumes "received E w buffer ty msg" "sk_connected (w_socks w i)"
  shows "InitializeHandler E i False buffer w =
    bind_res (session_logic E i ty msg (after_parse E i ty msg w)) (\<lambda>(again, w3).
      Inr (if again then on_sock i Socket_AsyncReceive w3 else w3))"
  using assms
  by (auto simp: received_def InitializeHandler_def ProtocolManager_GetMessage_def registry_get_def
      after_parse_def Let_def)

section \<open>Properties\<close>

text \<open>
  C29. A packet that cannot be parsed, whose type no protocol message has, or whose contents do not parse as that message, closes the session, and so does a
  read error, as long as the connection still has a peer: the session is closed, the sending side is shut down and
  \<open>OnClose\<close> called exactly once (not again if the session was closed before), no further read is started, and no
  other session, no object and no player changes. When the connection has no peer any more (it was reset),
  \<open>remote_endpoint()\<close> throws first and nothing at all happens: the session is not closed.
\<close>

theorem InitializeHandler_closes_on_bad_input:
  assumes "error \<or> parse_meta (en_codec E) buffer = None \<or>
      (\<exists>m. parse_meta (en_codec E) buffer = Some m \<and>
         (w_protos w (meta_type_number (Meta_type_t m)) = None \<or>
          (\<exists>d. w_protos w (meta_type_number (Meta_type_t m)) = Some d \<and>
             parse_proto (en_codec E) d (Meta_stuff m) = None)))"
  shows "\<exists>w'. InitializeHandler E i error buffer w = Inr w' \<and>
    (if sk_connected (w_socks w i)
     then sk_closed (w_socks w' i) \<and> sk_reads (w_socks w' i) = sk_reads (w_socks w i) \<and>
       sk_shutdowns (w_socks w' i) = sk_shutdowns (w_socks w i) + (if sk_closed (w_socks w i) then 0 else 1) \<and>
       sk_on_close (w_socks w' i) = sk_on_close (w_socks w i) + (if sk_closed (w_socks w i) then 0 else 1) \<and>
       w_heap w' = w_heap w \<and> w_player w' = w_player w \<and> (j \<noteq> i \<longrightarrow> w_socks w' j = w_socks w j)
     else w' = w)"
proof -
  have "InitializeHandler E i error buffer w =
      Inr (on_sock i Socket_Close (if error then w else on_sock i (Socket_AsyncSend (greeting (en_codec E))) w))"
    if "sk_connected (w_socks w i)"
    using assms that
    by (auto simp: InitializeHandler_def ProtocolManager_GetMessage_def registry_get_def Let_def)
  then show ?thesis
    by (cases "sk_connected (w_socks w i)")
      (auto simp: InitializeHandler_def on_sock_def Socket_Close_def Socket_AsyncSend_def)
qed

theorem InitializeHandler_closes_on_bad_input_witness:
  "\<exists>w'. InitializeHandler demo_env 3 False [1, 2] demo_world = Inr w' \<and> sk_closed (w_socks w' 3) \<and>
     sk_shutdowns (w_socks w' 3) = 1"
  using InitializeHandler_closes_on_bad_input [of False demo_env "[1, 2]" demo_world 3 0]
  by (auto simp: demo_world_def demo_env_def demo_codec_def Socket_init_def)

text \<open>
  All sessions act on one player: a message other than \<open>CREATE_PLAYER\<close> and \<open>ENTER_GAME\<close> that arrives
  on session \<open>i\<close> is handled by the global player object, whichever session that player belongs to.
\<close>

theorem session_acts_on_global_player:
  assumes "received E w buffer ty msg" "sk_connected (w_socks w i)" "w_player w = Some r"
    and "ty \<noteq> META_TYPE_C2S_CREATE_PLAYER" "ty \<noteq> META_TYPE_C2S_ENTER_GAME"
  shows "InitializeHandler E i False buffer w =
    bind_res (Player_HandleProtocol E r (meta_type_number ty) msg (after_parse E i ty msg w))
      (\<lambda>(_, w1). Inr (on_sock i Socket_AsyncReceive w1))"
proof -
  have "w_player (after_parse E i ty msg w) = Some r" using assms(3) by (simp add: after_parse_def Let_def)
  with assms(4,5) InitializeHandler_received [OF assms(1,2)] show ?thesis
    by (cases "Player_HandleProtocol E r (meta_type_number ty) msg (after_parse E i ty msg w)")
      (auto simp: session_logic_def)
qed

definition demo_session_env :: "meta_type \<Rightarrow> mem_db env" where
  "demo_session_env ty = demo_env\<lparr>en_codec := demo_codec\<lparr>
     parse_meta := (\<lambda>_. Some \<lparr>me_type_t = Some ty, me_stuff = Some []\<rparr>), ser_meta := (\<lambda>_. [1])\<rparr>\<rparr>"

definition demo_session_world :: "mem_db world" where
  "demo_session_world = demo_world\<lparr>w_heap := [0 \<mapsto> Player_new 7 (Some 3)], w_player := Some 0,
     w_protos := [5 \<mapsto> PM_EnterGame None None, 7 \<mapsto> PM_Move None]\<rparr>"

lemma demo_received:
  "received (demo_session_env META_TYPE_C2S_MOVE) demo_session_world b META_TYPE_C2S_MOVE (PM_Move None)"
  "received (demo_session_env META_TYPE_C2S_ENTER_GAME) demo_session_world b META_TYPE_C2S_ENTER_GAME (PM_EnterGame None None)"
  "sk_connected (w_socks demo_session_world i)" "w_player demo_session_world = Some 0"
  by (simp_all add: received_def demo_session_env_def demo_env_def demo_codec_def demo_session_world_def
      Meta_type_t_def Meta_stuff_def demo_world_def Socket_init_def)

theorem session_acts_on_global_player_witness:
  "InitializeHandler (demo_session_env META_TYPE_C2S_MOVE) 8 False [] demo_session_world =
     bind_res (Player_HandleProtocol (demo_session_env META_TYPE_C2S_MOVE) 0 7 (PM_Move None)
         (after_parse (demo_session_env META_TYPE_C2S_MOVE) 8 META_TYPE_C2S_MOVE (PM_Move None) demo_session_world))
       (\<lambda>(_, w1). Inr (on_sock 8 Socket_AsyncReceive w1))"
  using session_acts_on_global_player [OF demo_received(1) demo_received(3,4), of 8 "[]"] by simp

text \<open>
  Once anybody is in the game, an \<open>ENTER_GAME\<close> on any session leaves that session open and deaf:
  the handler returns without starting a read and without closing, so the client is never heard
  again.
\<close>

theorem second_EnterGame_leaves_session_deaf:
  assumes "received E w buffer META_TYPE_C2S_ENTER_GAME msg" "sk_connected (w_socks w i)"
    and "w_player w = Some r" "\<not> sk_closed (w_socks w i)"
  shows "\<exists>w'. InitializeHandler E i False buffer w = Inr w' \<and> \<not> sk_closed (w_socks w' i) \<and>
    sk_reads (w_socks w' i) = sk_reads (w_socks w i) \<and> w_heap w' = w_heap w"
proof -
  let ?w = "after_parse E i META_TYPE_C2S_ENTER_GAME msg w"
  have p: "w_player ?w = Some r" "w_heap ?w = w_heap w" "sk_closed (w_socks ?w i) = sk_closed (w_socks w i)"
    "sk_reads (w_socks ?w i) = sk_reads (w_socks w i)"
    using assms(3) by (simp_all add: after_parse_def Let_def Socket_AsyncSend_def)
  then have "session_logic E i META_TYPE_C2S_ENTER_GAME msg ?w = Inr (False, ?w)"
    by (simp add: session_logic_def)
  with InitializeHandler_received [OF assms(1,2)] p assms(4) show ?thesis by simp
qed

theorem second_EnterGame_leaves_session_deaf_witness:
  "\<exists>w'. InitializeHandler (demo_session_env META_TYPE_C2S_ENTER_GAME) 8 False [] demo_session_world = Inr w' \<and>
     \<not> sk_closed (w_socks w' 8) \<and> sk_reads (w_socks w' 8) = 0"
proof -
  have "\<not> sk_closed (w_socks demo_session_world 8)" "sk_reads (w_socks demo_session_world 8) = 0"
    by (simp_all add: demo_session_world_def demo_world_def Socket_init_def)
  with second_EnterGame_leaves_session_deaf [OF demo_received(2) demo_received(3,4), of 8 "[]"]
  show ?thesis by auto
qed

text \<open>
  A session is never taken off its network thread: \<open>WorldSession::Update\<close> overrides the test of the
  base class and is true for a closed session as well, so a tick keeps every listed session and the
  thread's counter never goes down for one.
\<close>

theorem WorldSession_never_removed:
  assumes "\<not> nt_stopped t" "nt_fresh_list t = []"
    and "WorldSession_Update w = Inr (b, w')"
  shows "NetworkThread_Update (\<lambda>_. b) S t = (S, t\<lparr>nt_timer := True\<rparr>)"
proof -
  have "b" using assms(3)
    by (cases "w_player w") (auto simp: WorldSession_Update_def bind_res_Inr_iff split: prod.splits)
  moreover have "sweep (\<lambda>_. True) is S n = (is, S, n)" for "is" n
    by (induction "is") simp_all
  ultimately show ?thesis
    using assms(1,2) by (simp add: NetworkThread_Update_def NetworkThread_AddSockets_def Let_def)
qed

theorem WorldSession_never_removed_witness:
  "NetworkThread_Update (\<lambda>_. True) (\<lambda>_. Socket_Close (Socket_init True)) (NetworkThread_init\<lparr>nt_socket_list := [5], nt_connections := 1\<rparr>) =
   ((\<lambda>_. Socket_Close (Socket_init True)),
    NetworkThread_init\<lparr>nt_socket_list := [5], nt_connections := 1, nt_timer := True\<rparr>)"
proof -
  have "WorldSession_Update demo_world = Inr (True, demo_world)"
    by (simp add: WorldSession_Update_def demo_world_def)
  with WorldSession_never_removed [of "NetworkThread_init\<lparr>nt_socket_list := [5], nt_connections := 1\<rparr>"
      demo_world True demo_world "\<lambda>_. Socket_Close (Socket_init True)"]
  show ?thesis by (simp add: NetworkThread_init_def)
qed

end
