(* ===== verification/Game_Timer.thy ===== *)
theory Game_Timer
  imports Base
begin

text \<open>
  Timer.h: the millisecond clock of the server, time differences, and the four timers. The
  clock is an \<open>int32_t\<close>, the intervals are \<open>time_t\<close> (64 bits) or \<open>int32_t\<close>; signed overflow is
  a failing branch.
\<close>

section \<open>The clock\<close>

text \<open>\<open>now\<close> and \<open>start_time\<close> are the system clock's milliseconds.\<close>

definition GetTime :: "int \<Rightarrow> int \<Rightarrow> int" where
  "GetTime start_time now = to_int32 (now - start_time)"

text \<open>
  The first branch is computed in \<open>unsigned int\<close> (the literal \<open>0xFFFFFFFF\<close> is one) and
  converted back; the second is signed.
\<close>

definition GetTimeDiff :: "int \<Rightarrow> int \<Rightarrow> int res" where
  "GetTimeDiff old_time new_time =
     (if old_time > new_time then Inr (to_int32 ((0xFFFFFFFF - old_time) + new_time))
      else if in_int32 (new_time - old_time) then Inr (new_time - old_time)
      else Inl (UB ''GetTimeDiff''))"

definition GetTimeDiffToNow :: "int \<Rightarrow> int \<Rightarrow> int \<Rightarrow> int res" where
  "GetTimeDiffToNow start_time now old_time = GetTimeDiff old_time (GetTime start_time now)"

section \<open>IntervalTimer\<close>

record interval_timer =
  it_interval :: int
  it_current :: int

definition IntervalTimer_new :: interval_timer where
  "IntervalTimer_new = \<lparr>it_interval = 0, it_current = 0\<rparr>"

definition IntervalTimer_Update :: "int \<Rightarrow> interval_timer \<Rightarrow> interval_timer res" where
  "IntervalTimer_Update diff t =
     (let c = it_current t + diff
      in if \<not> in_int64 c then Inl (UB ''IntervalTimer::Update'')
         else Inr (t\<lparr>it_current := (if c < 0 then 0 else c)\<rparr>))"

definition IntervalTimer_Passed :: "interval_timer \<Rightarrow> bool" where
  "IntervalTimer_Passed t \<longleftrightarrow> it_interval t \<le> it_current t"

text \<open>The remainder of C++ truncates towards zero; by zero it is undefined.\<close>

definition IntervalTimer_Reset :: "interval_timer \<Rightarrow> interval_timer res" where
  "IntervalTimer_Reset t =
     (if it_interval t \<le> it_current t
      then if it_interval t = 0 then Inl (UB ''IntervalTimer::Reset'')
           else Inr (t\<lparr>it_current :=
             sgn (it_current t) * (\<bar>it_current t\<bar> mod \<bar>it_interval t\<bar>)\<rparr>)
      else Inr t)"

definition IntervalTimer_SetCurrent :: "int \<Rightarrow> interval_timer \<Rightarrow> interval_timer" where
  "IntervalTimer_SetCurrent c t = t\<lparr>it_current := c\<rparr>"

definition IntervalTimer_SetInterval :: "int \<Rightarrow> interval_timer \<Rightarrow> interval_timer" where
  "IntervalTimer_SetInterval i t = t\<lparr>it_interval := i\<rparr>"

text \<open>
  How the timer is driven: one \<open>Update\<close> per tick, and a \<open>Reset\<close> when it has passed. The result
  counts the ticks at which it had passed.
\<close>

fun interval_run :: "int list \<Rightarrow> nat \<Rightarrow> interval_timer \<Rightarrow> (nat \<times> interval_timer) res" where
  "interval_run [] n t = Inr (n, t)"
| "interval_run (d # ds) n t =
     bind_res (IntervalTimer_Update d t) (\<lambda>t'.
       if IntervalTimer_Passed t' then bind_res (IntervalTimer_Reset t') (interval_run ds (Suc n))
       else interval_run ds n t')"

section \<open>TimeTracker and TimeTrackerSmall\<close>

text \<open>The two differ in the width of their field only.\<close>

definition TimeTracker_Update :: "int \<Rightarrow> int \<Rightarrow> int res" where
  "TimeTracker_Update diff expiry =
     (if in_int64 (expiry - diff) then Inr (expiry - diff) else Inl (UB ''TimeTracker::Update''))"

definition TimeTracker_Passed :: "int \<Rightarrow> bool" where
  "TimeTracker_Passed expiry \<longleftrightarrow> expiry \<le> 0"

definition TimeTracker_Reset :: "int \<Rightarrow> int \<Rightarrow> int" where
  "TimeTracker_Reset interval expiry = interval"

definition TimeTrackerSmall_Update :: "int \<Rightarrow> int \<Rightarrow> int res" where
  "TimeTrackerSmall_Update diff expiry =
     (if in_int32 (expiry - diff) then Inr (expiry - diff)
      else Inl (UB ''TimeTrackerSmall::Update''))"

definition TimeTrackerSmall_Passed :: "int \<Rightarrow> bool" where
  "TimeTrackerSmall_Passed expiry \<longleftrightarrow> expiry \<le> 0"

definition TimeTrackerSmall_Reset :: "int \<Rightarrow> int \<Rightarrow> int" where
  "TimeTrackerSmall_Reset interval expiry = interval"

section \<open>PeriodicTimer\<close>

record periodic_timer =
  pt_period :: int
  pt_expireTime :: int

definition sub32 :: "string \<Rightarrow> int \<Rightarrow> int \<Rightarrow> int res" where
  "sub32 op a b = (if in_int32 (a - b) then Inr (a - b) else Inl (UB op))"

definition add32 :: "string \<Rightarrow> int \<Rightarrow> int \<Rightarrow> int res" where
  "add32 op a b = (if in_int32 (a + b) then Inr (a + b) else Inl (UB op))"

definition PeriodicTimer_Update :: "int \<Rightarrow> periodic_timer \<Rightarrow> (bool \<times> periodic_timer) res" where
  "PeriodicTimer_Update diff t =
     bind_res (sub32 ''PeriodicTimer'' (pt_expireTime t) diff) (\<lambda>e.
       if 0 < e then Inr (False, t\<lparr>pt_expireTime := e\<rparr>)
       else bind_res (add32 ''PeriodicTimer'' e (if pt_period t > diff then pt_period t else diff))
              (\<lambda>e'. Inr (True, t\<lparr>pt_expireTime := e'\<rparr>)))"

definition PeriodicTimer_SetPeriodic :: "int \<Rightarrow> int \<Rightarrow> periodic_timer \<Rightarrow> periodic_timer" where
  "PeriodicTimer_SetPeriodic period start_time t =
     t\<lparr>pt_expireTime := start_time, pt_period := period\<rparr>"

definition PeriodicTimer_TUpdate :: "int \<Rightarrow> periodic_timer \<Rightarrow> periodic_timer res" where
  "PeriodicTimer_TUpdate diff t =
     bind_res (sub32 ''PeriodicTimer'' (pt_expireTime t) diff) (\<lambda>e. Inr (t\<lparr>pt_expireTime := e\<rparr>))"

definition PeriodicTimer_TPassed :: "periodic_timer \<Rightarrow> bool" where
  "PeriodicTimer_TPassed t \<longleftrightarrow> pt_expireTime t \<le> 0"

definition PeriodicTimer_TReset :: "int \<Rightarrow> int \<Rightarrow> periodic_timer \<Rightarrow> periodic_timer res" where
  "PeriodicTimer_TReset diff period t =
     bind_res (add32 ''PeriodicTimer'' (pt_expireTime t) (if period > diff then period else diff))
       (\<lambda>e. Inr (t\<lparr>pt_expireTime := e\<rparr>))"

section \<open>Lemmas\<close>

lemma to_int32_wrapped: "2 ^ 31 \<le> i \<Longrightarrow> i < 2 ^ 32 + 2 ^ 31 \<Longrightarrow> to_int32 i = i - 2 ^ 32"
proof -
  assume a: "2 ^ 31 \<le> i" "i < 2 ^ 32 + 2 ^ 31"
  have "(i + 2 ^ 31) mod 2 ^ 32 = (i + 2 ^ 31 - 2 ^ 32 + 2 ^ 32) mod 2 ^ 32"
    by (simp add: algebra_simps)
  also have "\<dots> = (i + 2 ^ 31 - 2 ^ 32) mod 2 ^ 32" by (rule mod_add_self2)
  also have "\<dots> = i + 2 ^ 31 - 2 ^ 32" using a by (intro mod_pos_pos_trivial) simp_all
  finally show ?thesis by (simp add: to_int32_def)
qed

lemma periodic_run_split:
  "PeriodicTimer_Update diff t =
     bind_res (PeriodicTimer_TUpdate diff t) (\<lambda>t1.
       if PeriodicTimer_TPassed t1
       then bind_res (PeriodicTimer_TReset diff (pt_period t) t1) (\<lambda>t2. Inr (True, t2))
       else Inr (False, t1))"
  by (simp add: PeriodicTimer_Update_def PeriodicTimer_TUpdate_def PeriodicTimer_TPassed_def
      PeriodicTimer_TReset_def sub32_def add32_def)

text \<open>One tick of a positive interval: the phase is the time modulo the interval.\<close>

lemma interval_tick:
  assumes "0 < it_interval t" "0 \<le> it_current t" "it_current t < it_interval t" "0 \<le> d"
    and "in_int64 (it_current t + d)"
  shows "interval_run (d # ds) n t =
    interval_run ds (if it_interval t \<le> it_current t + d then Suc n else n)
      (t\<lparr>it_current := (it_current t + d) mod it_interval t\<rparr>)"
proof -
  have "sgn (it_current t + d) * (\<bar>it_current t + d\<bar> mod \<bar>it_interval t\<bar>) =
      (it_current t + d) mod it_interval t"
    if "it_interval t \<le> it_current t + d"
    using that assms by simp
  then show ?thesis
    using assms
    by (auto simp: IntervalTimer_Update_def IntervalTimer_Passed_def IntervalTimer_Reset_def
        Let_def)
qed

section \<open>Properties\<close>

text \<open>
  What \<open>GetTimeDiff\<close> measures when \<open>d\<close> milliseconds have passed: exactly \<open>d\<close> as long as the
  32-bit clock does not wrap in between, and one millisecond too little when it does (the
  subtraction from \<open>0xFFFFFFFF\<close> instead of \<open>2^32\<close>).
\<close>

theorem GetTimeDiff_elapsed:
  assumes "in_int32 old" and "0 \<le> d" and "d < 2 ^ 31"
  shows "GetTimeDiff old (to_int32 (old + d)) = Inr (if old + d < 2 ^ 31 then d else d - 1)"
proof (cases "old + d < 2 ^ 31")
  case True
  with assms have "in_int32 (old + d)" "in_int32 d" by (auto simp: in_int32_def)
  with True assms(2) show ?thesis by (simp add: GetTimeDiff_def conv_simps)
next
  case False
  then have w: "to_int32 (old + d) = old + d - 2 ^ 32"
    using assms by (intro to_int32_wrapped) (auto simp: in_int32_def)
  have "in_int32 (d - 1)" using assms by (auto simp: in_int32_def)
  with False w assms show ?thesis by (simp add: GetTimeDiff_def conv_simps)
qed

theorem GetTimeDiff_elapsed_witness:
  "GetTimeDiff (2 ^ 31 - 1) (to_int32 (2 ^ 31 - 1 + 50)) = Inr 49 \<and>
   GetTimeDiff 1000 (to_int32 (1000 + 50)) = Inr 50"
  using GetTimeDiff_elapsed [of "2 ^ 31 - 1" 50] GetTimeDiff_elapsed [of 1000 50]
  by (simp add: in_int32_def)

text \<open>
  An interval timer driven by ticks no longer than its interval loses no time: after any
  sequence of ticks it has fired once per whole interval elapsed, and what is left over is the
  phase of the next interval.
\<close>

theorem IntervalTimer_no_drift:
  assumes "0 < it_interval t" and "0 \<le> it_current t" and "it_current t < it_interval t"
    and "\<forall>d \<in> set ds. 0 \<le> d \<and> d \<le> it_interval t" and "in_int64 (it_current t + sum_list ds)"
  shows "interval_run ds n t =
    Inr (n + nat ((it_current t + sum_list ds) div it_interval t),
         t\<lparr>it_current := (it_current t + sum_list ds) mod it_interval t\<rparr>)"
  using assms
proof (induction ds arbitrary: n t)
  case Nil
  then show ?case by (simp add: mod_pos_pos_trivial)
next
  case (Cons d ds)
  let ?i = "it_interval t" and ?c = "it_current t + d"
  have sum: "0 \<le> sum_list ds" using Cons.prems(4) by (intro sum_list_nonneg) simp
  have tick: "interval_run (d # ds) n t =
      interval_run ds (if ?i \<le> ?c then Suc n else n) (t\<lparr>it_current := ?c mod ?i\<rparr>)"
    using Cons.prems sum by (intro interval_tick) (auto simp: in_int64_def)
  have c: "?c mod ?i = (if ?i \<le> ?c then ?c - ?i else ?c)"
  proof -
    have "(?c - ?i) mod ?i = ?c - ?i" if "?i \<le> ?c"
      using that Cons.prems by (intro mod_pos_pos_trivial) auto
    then show ?thesis using Cons.prems by (auto simp: mod_pos_pos_trivial)
  qed
  have ih: "interval_run ds m (t\<lparr>it_current := ?c mod ?i\<rparr>) =
      Inr (m + nat ((?c mod ?i + sum_list ds) div ?i),
           t\<lparr>it_current := (?c mod ?i + sum_list ds) mod ?i\<rparr>)" for m
    using Cons.IH [of "t\<lparr>it_current := ?c mod ?i\<rparr>" m] Cons.prems sum c
    by (auto simp: in_int64_def)
  have full: "it_current t + sum_list (d # ds) = ?c + sum_list ds" by simp
  show ?case
  proof (cases "?i \<le> ?c")
    case True
    let ?r = "?c - ?i + sum_list ds"
    have r: "?c + sum_list ds = ?r + ?i" by simp
    have "0 \<le> ?r div ?i" using True Cons.prems(1) sum by (simp add: pos_imp_zdiv_nonneg_iff)
    moreover have "(?c + sum_list ds) div ?i = ?r div ?i + 1" "(?c + sum_list ds) mod ?i = ?r mod ?i"
      unfolding r using Cons.prems(1) by (simp_all only: div_add_self2 mod_add_self2)
    ultimately show ?thesis
      unfolding full using tick ih c True by (simp add: nat_add_distrib)
  next
    case False
    then show ?thesis unfolding full using tick ih c by simp
  qed
qed

theorem IntervalTimer_no_drift_witness:
  "interval_run [30, 50, 40] 0 \<lparr>it_interval = 50, it_current = 0\<rparr> =
     Inr (2, \<lparr>it_interval = 50, it_current = 20\<rparr>)"
  using IntervalTimer_no_drift [of "\<lparr>it_interval = 50, it_current = 0\<rparr>" "[30, 50, 40]" 0]
  by (simp add: in_int64_def)

text \<open>
  A periodic timer armed with a positive time never overflows and stays armed: it fires at
  the tick that reaches its expiry and then waits one period from the missed expiry, or, when
  the tick was longer than the period, the old waiting time again (it does not catch up).
\<close>

theorem PeriodicTimer_Update_spec:
  assumes "0 < pt_expireTime t" and "0 < pt_period t" and "0 \<le> diff"
    and "in_int32 (pt_expireTime t)" and "in_int32 (pt_period t)" and "in_int32 diff"
  shows "\<exists>e. PeriodicTimer_Update diff t = Inr (pt_expireTime t \<le> diff, t\<lparr>pt_expireTime := e\<rparr>) \<and>
    e = (if diff < pt_expireTime t then pt_expireTime t - diff
         else pt_expireTime t + max 0 (pt_period t - diff)) \<and>
    0 < e \<and> in_int32 e"
  using assms
  by (auto simp: PeriodicTimer_Update_def sub32_def add32_def in_int32_def)

theorem PeriodicTimer_Update_spec_witness:
  "\<exists>e. PeriodicTimer_Update 70 \<lparr>pt_period = 100, pt_expireTime = 60\<rparr> =
         Inr (True, \<lparr>pt_period = 100, pt_expireTime = e\<rparr>) \<and> e = 90"
  using PeriodicTimer_Update_spec [of "\<lparr>pt_period = 100, pt_expireTime = 60\<rparr>" 70]
  by (simp add: in_int32_def)

end
