(* ===== verification/World_Loop.thy ===== *)
theory World_Loop
  imports Hoster_Ops Game_Timer
begin

text \<open>
  World.h, World.cpp and the loop of Main.cpp: loading everything in order, the heart beat of the
  world, and the pacing of the loop at 50 milliseconds.
\<close>

section \<open>World\<close>

text \<open>What loading reads from outside: the generated descriptors and the asset files.\<close>

record boot =
  bt_pool :: "(string \<Rightarrow> file_descriptor option) option"
  bt_proto :: "string \<Rightarrow> proto_msg"
  bt_asset :: "string \<Rightarrow> asset_msg"
  bt_parse :: "string \<Rightarrow> bytes \<Rightarrow> asset_msg"
  bt_root :: "fnode list option"

definition World_Load :: "'d env \<Rightarrow> boot \<Rightarrow> 'd world \<Rightarrow> (bool \<times> 'd world) res" where
  "World_Load E b w =
     bind_res (ProtocolManager_Load (bt_proto b) (bt_pool b) (w_protos w)) (\<lambda>(ok, protos).
       let w1 = w\<lparr>w_protos := protos\<rparr>
       in if \<not> ok then Inr (False, w1)
          else bind_res (AssetManager_Load (bt_asset b) (bt_parse b) (bt_pool b) (bt_root b) (w_assets w1))
            (\<lambda>(ok, am).
              let w2 = w1\<lparr>w_assets := am\<rparr>
              in if \<not> ok then Inr (False, w2)
                 else
                   let (ok, w3) = SceneManager_Load E w2
                   in if \<not> ok then Inr (False, w3)
                      else bind_res (HosterManager_Load E w3) (\<lambda>(ok, w4).
                        if \<not> ok then Inr (False, w4) else Inr (True, w4))))"

text \<open>\<open>_heart_count\<close> is an \<open>int64_t\<close> and is passed on as an \<open>int32_t\<close>. Nothing ever sets \<open>_stopped\<close>.\<close>

record world_object =
  wo_stopped :: bool
  wo_heart_count :: int

definition World_init :: world_object where
  "World_init = \<lparr>wo_stopped = False, wo_heart_count = 0\<rparr>"

definition World_IsStopped :: "world_object \<Rightarrow> bool" where
  "World_IsStopped wo = wo_stopped wo"

definition World_Update :: "'d env \<Rightarrow> world_object \<Rightarrow> 'd world \<Rightarrow> (world_object \<times> 'd world) res" where
  "World_Update E wo w =
     (let h = wo_heart_count wo + 1
      in if \<not> in_int64 h then Inl (UB ''int64_t overflow'')
         else bind_res (HosterManager_Update E (to_int32 h) w) (\<lambda>(_, w'). Inr (wo\<lparr>wo_heart_count := h\<rparr>, w')))"

section \<open>The loop\<close>

definition const_world_sleep :: int where
  "const_world_sleep = 50"

record pace =
  pc_prev_time :: int
  pc_prev_sleep :: int

text \<open>The time keeping of one iteration that starts when the clock shows \<open>curr_time\<close>.\<close>

definition WorldUpdateLoop_pace :: "int \<Rightarrow> pace \<Rightarrow> pace res" where
  "WorldUpdateLoop_pace curr_time p =
     bind_res (GetTimeDiff (pc_prev_time p) curr_time) (\<lambda>diff.
       if \<not> in_int32 (const_world_sleep + pc_prev_sleep p) then Inl (UB ''int32_t overflow'')
       else if diff \<le> const_world_sleep + pc_prev_sleep p then
         (if in_int32 (const_world_sleep + pc_prev_sleep p - diff)
          then Inr \<lparr>pc_prev_time = curr_time, pc_prev_sleep = const_world_sleep + pc_prev_sleep p - diff\<rparr>
          else Inl (UB ''int32_t overflow''))
       else Inr \<lparr>pc_prev_time = curr_time, pc_prev_sleep = 0\<rparr>)"

text \<open>
  The loop over iterations from clock \<open>t\<close>: \<open>(u, d)\<close> are the time that \<open>World::Update\<close> takes and the time that the
  thread sleeps beyond what was asked (\<open>sleep_for\<close> sleeps at least that). The result is the clock at the start of
  the next iteration.
\<close>

fun WorldUpdateLoop_run :: "(int \<times> int) list \<Rightarrow> int \<Rightarrow> pace \<Rightarrow> (int \<times> pace) res" where
  "WorldUpdateLoop_run [] t p = Inr (t, p)"
| "WorldUpdateLoop_run ((u, d) # us) t p =
     bind_res (WorldUpdateLoop_pace t p) (\<lambda>p'. WorldUpdateLoop_run us (t + u + (pc_prev_sleep p' + d)) p')"

text \<open>The whole of one iteration: the clock is read, the world updated, the sleep computed.\<close>

definition WorldUpdateLoop_step ::
  "'d env \<Rightarrow> int \<Rightarrow> pace \<Rightarrow> world_object \<Rightarrow> 'd world \<Rightarrow> (pace \<times> world_object \<times> 'd world) res" where
  "WorldUpdateLoop_step E curr_time p wo w =
     (if World_IsStopped wo then Inr (p, wo, w)
      else bind_res (GetTimeDiff (pc_prev_time p) curr_time) (\<lambda>_.
        bind_res (World_Update E wo w) (\<lambda>(wo', w').
          bind_res (WorldUpdateLoop_pace curr_time p) (\<lambda>p'. Inr (p', wo', w')))))"

section \<open>Lemmas\<close>

lemma pace_step:
  assumes "0 \<le> pc_prev_time p" "0 \<le> v" "0 \<le> pc_prev_sleep p" "pc_prev_sleep p \<le> 50"
    and "t = pc_prev_time p + v + pc_prev_sleep p" "t < 2 ^ 31"
  shows "WorldUpdateLoop_pace t p = Inr \<lparr>pc_prev_time = t, pc_prev_sleep = max 0 (50 - v)\<rparr>"
  using assms
  by (auto simp: WorldUpdateLoop_pace_def GetTimeDiff_def const_world_sleep_def in_int32_def)

text \<open>What an iteration takes beyond its sleep.\<close>

definition overhead :: "int \<times> int \<Rightarrow> int" where
  "overhead = (\<lambda>(u, d). u + d)"

lemma run_bounds:
  "\<lbrakk>0 \<le> t0; 0 \<le> s; s \<le> 50; 0 \<le> v; \<forall>i \<in> set us. 0 \<le> overhead i;
    t0 + s + v + sum_list (map overhead us) + 50 * int (length us) + 50 < 2 ^ 31\<rbrakk> \<Longrightarrow>
   \<exists>t p. WorldUpdateLoop_run us (t0 + v + s) \<lparr>pc_prev_time = t0, pc_prev_sleep = s\<rparr> = Inr (t, p) \<and>
     0 \<le> pc_prev_sleep p \<and> pc_prev_sleep p \<le> 50 \<and>
     t0 + s + 50 * int (length us) + last (v # map overhead us) \<le> t \<and>
     ((\<forall>i \<in> insert v (overhead ` set us). i \<le> 50) \<longrightarrow> t = t0 + s + 50 * int (length us) + last (v # map overhead us))"
proof (induction us arbitrary: t0 s v)
  case (Cons i us)
  obtain u d where i: "i = (u, d)" by (cases i)
  let ?t = "t0 + v + s" and ?s = "max 0 (50 - v)" and ?v = "overhead i"
  have nonneg: "0 \<le> sum_list (map overhead us)" using Cons.prems(5) by (intro sum_list_nonneg) auto
  have p: "WorldUpdateLoop_pace ?t \<lparr>pc_prev_time = t0, pc_prev_sleep = s\<rparr> = Inr \<lparr>pc_prev_time = ?t, pc_prev_sleep = ?s\<rparr>"
    using Cons.prems nonneg by (intro pace_step) auto
  have ih: "0 \<le> ?t" "0 \<le> ?s" "?s \<le> 50" "0 \<le> ?v" "\<forall>i \<in> set us. 0 \<le> overhead i"
    "?t + ?s + ?v + sum_list (map overhead us) + 50 * int (length us) + 50 < 2 ^ 31"
    using Cons.prems by (auto simp: max_def)
  have run: "WorldUpdateLoop_run (i # us) ?t \<lparr>pc_prev_time = t0, pc_prev_sleep = s\<rparr> =
      WorldUpdateLoop_run us (?t + ?v + ?s) \<lparr>pc_prev_time = ?t, pc_prev_sleep = ?s\<rparr>"
    using p by (simp add: i overhead_def algebra_simps)
  have s: "50 \<le> v + ?s" "v \<le> 50 \<Longrightarrow> v + ?s = 50" by auto
  from Cons.IH [OF ih] obtain t p' where
    r: "WorldUpdateLoop_run us (?t + ?v + ?s) \<lparr>pc_prev_time = ?t, pc_prev_sleep = ?s\<rparr> = Inr (t, p')"
      "0 \<le> pc_prev_sleep p'" "pc_prev_sleep p' \<le> 50"
      "?t + ?s + 50 * int (length us) + last (?v # map overhead us) \<le> t"
      "(\<forall>i \<in> insert ?v (overhead ` set us). i \<le> 50) \<longrightarrow> t = ?t + ?s + 50 * int (length us) + last (?v # map overhead us)"
    by blast
  have l: "last (v # map overhead (i # us)) = last (?v # map overhead us)" by simp
  have "t0 + s + 50 * int (length (i # us)) + last (?v # map overhead us) \<le> t"
    using r(4) s(1) by simp
  moreover have "t = t0 + s + 50 * int (length (i # us)) + last (?v # map overhead us)"
    if "\<forall>i \<in> insert v (overhead ` set (i # us)). i \<le> 50"
    using r(5) s(2) that by simp
  ultimately show ?case unfolding run l using r(1-3) by blast
qed simp

section \<open>Properties\<close>

text \<open>
  C34. The loop keeps its period without drift. \<open>us\<close> are, for each iteration, the time of its update and the time
  by which its sleep is too long, none negative; the clock, in milliseconds, stays below \<open>2^31\<close>. Then the loop
  never runs ahead: \<open>n\<close> iterations take at least \<open>50 n\<close> milliseconds and what the last one took beyond its
  sleep. And if no iteration takes more than 50 ms beyond its sleep, it is exactly that: slow updates and late wake-ups
  before the last iteration are made up for. No sleep is longer than 50 ms.
\<close>

theorem WorldUpdateLoop_period:
  assumes "0 \<le> t0" "us \<noteq> []" "\<forall>(u, d) \<in> set us. 0 \<le> u \<and> 0 \<le> d"
    and "t0 + (\<Sum>(u, d) \<leftarrow> us. u + d) + 50 * int (length us) + 50 < 2 ^ 31"
  shows "\<exists>t p. WorldUpdateLoop_run us t0 \<lparr>pc_prev_time = t0, pc_prev_sleep = 0\<rparr> = Inr (t, p) \<and>
    0 \<le> pc_prev_sleep p \<and> pc_prev_sleep p \<le> 50 \<and>
    t0 + 50 * int (length us) + fst (last us) + snd (last us) \<le> t \<and>
    ((\<forall>(u, d) \<in> set us. u + d \<le> 50) \<longrightarrow> t = t0 + 50 * int (length us) + fst (last us) + snd (last us))"
proof -
  have v: "\<forall>i \<in> set us. 0 \<le> overhead i" "last (0 # map overhead us) = fst (last us) + snd (last us)"
    using assms(2,3) by (auto simp: overhead_def last_map case_prod_beta)
  have sum: "(\<Sum>(u, d) \<leftarrow> us. u + d) = sum_list (map overhead us)" by (simp add: overhead_def)
  have all: "(\<forall>(u, d) \<in> set us. u + d \<le> 50) = (\<forall>i \<in> insert 0 (overhead ` set us). i \<le> 50)"
    by (auto simp: overhead_def)
  have "t0 + 0 + 0 + sum_list (map overhead us) + 50 * int (length us) + 50 < 2 ^ 31"
    using assms(4) sum by simp
  from run_bounds [OF assms(1) order_refl _ order_refl v(1) this]
  show ?thesis unfolding v(2) all by (simp add: add.assoc)
qed

theorem WorldUpdateLoop_period_witness:
  "\<exists>p. WorldUpdateLoop_run [(3, 0), (40, 2), (0, 1), (49, 1), (7, 0)] 1000 \<lparr>pc_prev_time = 1000, pc_prev_sleep = 0\<rparr> = Inr (1257, p)"
  using WorldUpdateLoop_period [of 1000 "[(3, 0), (40, 2), (0, 1), (49, 1), (7, 0)]"] by auto

text \<open>
  Loading stops at the first part that fails, in the order protocol, assets, scenes, hosters, and
  reports success only if all four succeeded.
\<close>

theorem World_Load_order:
  assumes "World_Load E b w = Inr (ok, w')"
  shows "\<exists>ok1 protos. ProtocolManager_Load (bt_proto b) (bt_pool b) (w_protos w) = Inr (ok1, protos) \<and>
    (ok \<longrightarrow> ok1 \<and>
       (\<exists>am w3. AssetManager_Load (bt_asset b) (bt_parse b) (bt_pool b) (bt_root b) (w_assets w) = Inr (True, am) \<and>
          SceneManager_Load E (w\<lparr>w_protos := protos, w_assets := am\<rparr>) = (True, w3) \<and>
          HosterManager_Load E w3 = Inr (True, w'))) \<and>
    (\<not> ok1 \<longrightarrow> \<not> ok \<and> w' = w\<lparr>w_protos := protos\<rparr>)"
proof -
  obtain ok1 protos where 1: "ProtocolManager_Load (bt_proto b) (bt_pool b) (w_protos w) = Inr (ok1, protos)"
    using assms by (auto simp: World_Load_def bind_res_Inr_iff)
  show ?thesis
  proof (cases ok1)
    case False
    with 1 assms have "\<not> ok" "w' = w\<lparr>w_protos := protos\<rparr>" by (auto simp: World_Load_def)
    with 1 False show ?thesis by blast
  next
    case True
    with 1 assms obtain ok2 am where
      2: "AssetManager_Load (bt_asset b) (bt_parse b) (bt_pool b) (bt_root b) (w_assets w) = Inr (ok2, am)"
      by (auto simp: World_Load_def bind_res_Inr_iff)
    obtain ok3 w3 where 3: "SceneManager_Load E (w\<lparr>w_protos := protos, w_assets := am\<rparr>) = (ok3, w3)"
      by (rule prod.exhaust)
    have run: "World_Load E b w = (if \<not> ok2 then Inr (False, w\<lparr>w_protos := protos, w_assets := am\<rparr>)
        else if \<not> ok3 then Inr (False, w3)
        else bind_res (HosterManager_Load E w3) (\<lambda>(ok, w4). if \<not> ok then Inr (False, w4) else Inr (True, w4)))"
      using 1 2 3 True by (simp add: World_Load_def)
    show ?thesis
    proof (cases "ok2 \<and> ok3")
      case False
      with run assms have "\<not> ok" by (auto split: if_splits)
      with 1 True show ?thesis by blast
    next
      case ok23: True
      with run assms have "HosterManager_Load E w3 = Inr (ok, w')"
        by (cases "HosterManager_Load E w3") (auto split: if_splits)
      with 1 2 3 True ok23 show ?thesis by (cases ok) auto
    qed
  qed
qed

theorem World_Load_order_witness:
  "\<not> fst (projr (World_Load demo_env \<lparr>bt_pool = None, bt_proto = (\<lambda>_. PM_CreatePlayer),
     bt_asset = (\<lambda>_. AM_Plant None), bt_parse = (\<lambda>_ _. AM_Plant None), bt_root = None\<rparr> demo_world))"
proof -
  let ?b = "\<lparr>bt_pool = None, bt_proto = (\<lambda>_. PM_CreatePlayer),
     bt_asset = (\<lambda>_. AM_Plant None), bt_parse = (\<lambda>_ _. AM_Plant None), bt_root = None\<rparr>"
  have p: "ProtocolManager_Load (bt_proto ?b) (bt_pool ?b) (w_protos demo_world) = Inr (False, w_protos demo_world)"
    by (simp add: ProtocolManager_Load_def)
  then have "World_Load demo_env ?b demo_world = Inr (False, demo_world\<lparr>w_protos := w_protos demo_world\<rparr>)"
    by (simp add: World_Load_def)
  then obtain ok w' where r: "World_Load demo_env ?b demo_world = Inr (ok, w')" by blast
  from World_Load_order [OF this] p have "\<not> ok" by auto
  with r show ?thesis by simp
qed

end
