(* ===== verification/World_Inv.thy ===== *)
theory World_Inv
  imports Outcome Dispatcher World_Session World_Loop
begin

text \<open>
  The invariant of the shared state: every pointer that the managers, the global player and the
  entities hold refers to a live object of the class the code takes it for, the count of owners of
  an object is exact, and the session of a player is an accepted connection. Every operation of the
  server keeps it, or fails in one of the ways that \<open>known_failure\<close> lists; those that use something after its
  end are the dispatcher's reference and the writes of a session. \<open>L r\<close> counts the owners of object \<open>r\<close> among the local variables of the caller; \<open>R i\<close> is the
  number of reads started on session \<open>i\<close>, \<open>None\<close> if there is no such session.
\<close>

section \<open>The invariant\<close>

definition known_failure :: "err \<Rightarrow> bool" where
  "known_failure e \<longleftrightarrow> e \<in> UB ` {''float to int32_t'', ''int32_t overflow'', ''int64_t overflow'',
     ''mutex locked twice by one thread'', ''reference to a destroyed element'',
     ''uniform_int_distribution'', ''GetTimeDiff'', ''write from a destroyed buffer'',
     ''member call on a destroyed session'', ''exception leaves a destructor''}"

definition entity_ok :: "(nat \<Rightarrow> nat option) \<Rightarrow> 'd world \<Rightarrow> entity \<Rightarrow> bool" where
  "entity_ok R w e \<longleftrightarrow> (\<forall>k. e_scene e = Some k \<longrightarrow> w_scenes w k \<noteq> None) \<and>
     (\<forall>p. e_kind e = KPlayer p \<longrightarrow> (\<exists>i. pd_session p = Some i \<and> R i \<noteq> None))"

definition same_class :: "entity_kind \<Rightarrow> entity_kind \<Rightarrow> bool" where
  "same_class a b \<longleftrightarrow>
     (case a of KEntity \<Rightarrow> b = KEntity | KHoster _ \<Rightarrow> (\<exists>h. b = KHoster h) | KPlayer _ \<Rightarrow> (\<exists>p. b = KPlayer p))"

text \<open>The owners of an object that are not local variables.\<close>

definition owners :: "'d world \<Rightarrow> nat \<Rightarrow> entity \<Rightarrow> nat" where
  "owners w r e = of_bool (w_entities w (e_ID e) = Some r) + count_list (w_hosters w) r +
     of_bool (w_player w = Some r)"

definition heap_ok :: "(nat \<Rightarrow> nat option) \<Rightarrow> (nat \<Rightarrow> nat) \<Rightarrow> 'd world \<Rightarrow> bool" where
  "heap_ok R L w \<longleftrightarrow> (\<forall>r e. w_heap w r = Some e \<longrightarrow>
     r < w_next w \<and> entity_ok R w e \<and> w_refs w r = owners w r e + L r)"

definition hosters_ok :: "'d world \<Rightarrow> bool" where
  "hosters_ok w \<longleftrightarrow> (\<forall>r \<in> set (w_hosters w). \<exists>e h. w_heap w r = Some e \<and> e_kind e = KHoster h)"

definition player_ok :: "'d world \<Rightarrow> bool" where
  "player_ok w \<longleftrightarrow> (\<forall>r. w_player w = Some r \<longrightarrow> (\<exists>e p. w_heap w r = Some e \<and> e_kind e = KPlayer p))"

definition protos_ok :: "proto_msg registry \<Rightarrow> bool" where
  "protos_ok P \<longleftrightarrow> (\<forall>n m. P n = Some m \<longrightarrow> (\<exists>t. proto_type_t m = Some t \<and> meta_type_number t = n))"

definition socks_ok :: "(nat \<Rightarrow> nat option) \<Rightarrow> 'd world \<Rightarrow> bool" where
  "socks_ok R w \<longleftrightarrow> (\<forall>i n. R i = Some n \<longrightarrow> sk_reads (w_socks w i) = n)"

definition world_ok :: "(nat \<Rightarrow> nat option) \<Rightarrow> (nat \<Rightarrow> nat) \<Rightarrow> 'd world \<Rightarrow> bool" where
  "world_ok R L w \<longleftrightarrow> heap_ok R L w \<and> manager_ok w \<and> hosters_ok w \<and> player_ok w \<and>
     protos_ok (w_protos w) \<and> socks_ok R w"

lemmas world_ok_defs = world_ok_def heap_ok_def hosters_ok_def player_ok_def manager_ok_def socks_ok_def

abbreviation no_locals :: "nat \<Rightarrow> nat" where
  "no_locals \<equiv> (\<lambda>_. 0)"

text \<open>Keeping the invariant, and no failure but the known ones.\<close>

abbreviation keeps :: "(nat \<Rightarrow> nat option) \<Rightarrow> (nat \<Rightarrow> nat) \<Rightarrow> 'd world res \<Rightarrow> bool" where
  "keeps R L m \<equiv> post known_failure (world_ok R L) m"

abbreviation keeps2 :: "(nat \<Rightarrow> nat option) \<Rightarrow> (nat \<Rightarrow> nat) \<Rightarrow> ('a \<times> 'd world) res \<Rightarrow> bool" where
  "keeps2 R L m \<equiv> post known_failure (\<lambda>(_, w). world_ok R L w) m"

lemma known_failures [simp]:
  "known_failure (UB ''float to int32_t'')" "known_failure (UB ''int32_t overflow'')"
  "known_failure (UB ''int64_t overflow'')" "known_failure (UB ''mutex locked twice by one thread'')"
  "known_failure (UB ''reference to a destroyed element'')" "known_failure (UB ''uniform_int_distribution'')"
  "known_failure (UB ''GetTimeDiff'')" "known_failure (UB ''write from a destroyed buffer'')"
  "known_failure (UB ''member call on a destroyed session'')" "known_failure (UB ''exception leaves a destructor'')"
  by (auto simp: known_failure_def)

section \<open>Elementary updates\<close>

lemma world_ok_frame [simp]:
  "world_ok R L (w\<lparr>w_queue := q\<rparr>) = world_ok R L w"
  "world_ok R L (w\<lparr>w_db := d\<rparr>) = world_ok R L w" "world_ok R L (w\<lparr>w_draws := n\<rparr>) = world_ok R L w"
  "world_ok R L (w\<lparr>w_assets := a\<rparr>) = world_ok R L w"
  by (simp_all add: world_ok_defs entity_ok_def owners_def)

text \<open>Sessions change or come to their end; those of the players stay.\<close>

lemma world_ok_fewer:
  assumes "world_ok R L w" "\<And>r e p i. \<lbrakk>w_heap w r = Some e; e_kind e = KPlayer p; pd_session p = Some i\<rbrakk> \<Longrightarrow> R' i \<noteq> None"
    and "\<And>i n. R' i = Some n \<Longrightarrow> sk_reads (f i) = n"
  shows "world_ok R' L (w\<lparr>w_socks := f\<rparr>)"
proof -
  have own: "owners (w\<lparr>w_socks := f\<rparr>) = owners w" by (intro ext) (simp add: owners_def)
  have "entity_ok R' (w\<lparr>w_socks := f\<rparr>) e" if e: "w_heap w r = Some e" for r e
  proof -
    have "entity_ok R w e" using assms(1) e by (auto simp: world_ok_def heap_ok_def)
    then show ?thesis using assms(2) [OF e] unfolding entity_ok_def by fastforce
  qed
  then have "heap_ok R' L (w\<lparr>w_socks := f\<rparr>)" using assms(1) by (auto simp: world_ok_def heap_ok_def own)
  moreover have "socks_ok R' (w\<lparr>w_socks := f\<rparr>)" using assms(3) by (simp add: socks_ok_def)
  ultimately show ?thesis
    using assms(1) by (simp add: world_ok_def manager_ok_def hosters_ok_def player_ok_def)
qed

lemma world_ok_sessions:
  assumes "world_ok R L w" "\<And>i. R i \<noteq> None \<Longrightarrow> R' i \<noteq> None" "\<And>i n. R' i = Some n \<Longrightarrow> sk_reads (f i) = n"
  shows "world_ok R' L (w\<lparr>w_socks := f\<rparr>)"
proof (rule world_ok_fewer [OF assms(1) _ assms(3)])
  fix r e p i
  assume "w_heap w r = Some e" and p: "e_kind e = KPlayer p" "pd_session p = Some i"
  then have "entity_ok R w e" using assms(1) by (auto simp: world_ok_def heap_ok_def)
  with p show "R' i \<noteq> None" using assms(2) by (auto simp: entity_ok_def)
qed

lemma world_ok_send [simp]: "world_ok R L (MessageDispatcher_SendMessage now m w) = world_ok R L w"
  by (simp add: MessageDispatcher_SendMessage_def Let_def)

lemma world_ok_only_queue: "only_queue w w' \<Longrightarrow> world_ok R L w' = world_ok R L w"
  by (auto simp: only_queue_def)

lemma world_ok_put_scene: "world_ok R L w \<Longrightarrow> world_ok R L (put_scene k s w)"
  by (auto simp: world_ok_defs entity_ok_def owners_def)

lemma world_ok_put_entity:
  assumes "world_ok R L w" "w_heap w r = Some e" "e_ID e' = e_ID e" "same_class (e_kind e) (e_kind e')" "entity_ok R w e'"
  shows "world_ok R L (put_entity r e' w)"
proof -
  have "entity_ok R (put_entity r e' w) = entity_ok R w" by (rule ext) (simp add: entity_ok_def)
  moreover have "owners (put_entity r e' w) = owners w" by (intro ext) (simp add: owners_def)
  moreover have "owners w r e' = owners w r e" using assms(3) by (simp add: owners_def)
  ultimately have "heap_ok R L (put_entity r e' w)"
    using assms unfolding world_ok_def heap_ok_def by auto
  moreover have "manager_ok (put_entity r e' w)"
    using assms unfolding world_ok_def manager_ok_def by force
  moreover have "hosters_ok (put_entity r e' w)" "player_ok (put_entity r e' w)"
    using assms unfolding world_ok_def hosters_ok_def player_ok_def same_class_def by force+
  ultimately show ?thesis using assms by (simp add: world_ok_def socks_ok_def)
qed

lemma world_ok_manager_put:
  assumes "world_ok R L w" "w_heap w r = Some e"
  shows "world_ok R L (manager_put (e_ID e) r w)"
proof (cases "w_entities w (e_ID e)")
  case (Some r')
  then show ?thesis using assms by (simp add: manager_put_def)
next
  case None
  let ?w = "manager_put (e_ID e) r w"
  have sel: "w_heap ?w = w_heap w" "w_next ?w = w_next w" "w_scenes ?w = w_scenes w" "w_hosters ?w = w_hosters w"
    "w_player ?w = w_player w" "w_protos ?w = w_protos w" "w_entities ?w = (w_entities w)(e_ID e \<mapsto> r)"
    "w_refs ?w = (w_refs w)(r := Suc (w_refs w r))" "w_socks ?w = w_socks w"
    using None by (simp_all add: manager_put_def)
  have own: "owners ?w r' e' = owners w r' e' + of_bool (r' = r)" if "w_heap w r' = Some e'" for r' e'
    using that None assms by (auto simp: owners_def sel world_ok_defs)
  show ?thesis
    using assms own unfolding world_ok_defs sel by (auto simp: entity_ok_def sel)
qed

lemma deref_keeps: "w_heap w r \<noteq> None \<Longrightarrow> \<exists>e. deref r w = Inr e \<and> w_heap w r = Some e"
  by auto

lemma world_okD:
  assumes "world_ok R L w"
  shows "w_heap w r = Some e \<Longrightarrow> entity_ok R w e" "manager_ok w"
    "w_player w = Some r \<Longrightarrow> \<exists>e p. w_heap w r = Some e \<and> e_kind e = KPlayer p"
    "r \<in> set (w_hosters w) \<Longrightarrow> \<exists>e h. w_heap w r = Some e \<and> e_kind e = KHoster h"
    "w_entities w i = Some r \<Longrightarrow> \<exists>e. w_heap w r = Some e \<and> e_ID e = i"
  using assms by (auto simp: world_ok_defs)

section \<open>The scene\<close>

abbreviation mild :: "'a res \<Rightarrow> bool" where
  "mild m \<equiv> post known_failure (\<lambda>_. True) m"

lemma post_mild: "mild m \<Longrightarrow> (\<And>x. Q x) \<Longrightarrow> post known_failure Q m"
  by (rule post_conseq)

lemma cell_of_mild: "mild (cell_of f)"
  by (simp add: cell_of_def split: option.split)

lemma on_axes_mild: "mild (on_axes f x z s)"
  unfolding on_axes_def post_bind post_simps
  by (rule post_mild [OF cell_of_mild], rule post_mild [OF cell_of_mild], rule TrueI)

lemma EnterScene_mild: "mild (Scene_EnterScene i x z s)"
  unfolding Scene_EnterScene_def by (rule on_axes_mild)

lemma LeaveScene_mild: "mild (Scene_LeaveScene i x z s)"
  unfolding Scene_LeaveScene_def by (rule on_axes_mild)

lemma UpdatePosition_mild: "mild (Scene_UpdatePosition i x z v s)"
  unfolding Scene_UpdatePosition_def post_bind by (rule post_mild [OF on_axes_mild], rule on_axes_mild)

lemma sight_cells_mild: "mild (sight_cells x)"
  by (simp add: sight_cells_def)

lemma query_mild: "mild (Scene_GetNearByEntities ex ez fx fz s)"
  unfolding Scene_GetNearByEntities_def post_bind Let_def
  by (rule post_mild [OF cell_of_mild], rule post_mild [OF cell_of_mild],
      rule post_mild [OF sight_cells_mild], rule post_mild [OF sight_cells_mild]) (simp split: prod.split)

lemmas scene_mild = post_mild [OF EnterScene_mild] post_mild [OF LeaveScene_mild]
  post_mild [OF UpdatePosition_mild] post_mild [OF query_mild]

section \<open>Entities\<close>

lemma send_each_keeps:
  assumes "world_ok R L w"
  shows "keeps R L (send_each E item is w)"
  using send_each_spec [OF world_okD(2) [OF assms], of E item "is"] assms
  by (auto simp: world_ok_only_queue)

lemma scene_of_entity:
  assumes "world_ok R L w" "w_heap w r = Some e" "e_scene e = Some k"
  obtains s where "w_scenes w k = Some s"
  using world_okD(1) [OF assms(1,2)] assms(3) by (auto simp: entity_ok_def)

lemma SendNearby_keeps:
  assumes "world_ok R L w" "w_heap w r \<noteq> None"
  shows "keeps R L (Entity_SendNearbyMessage E r item w)"
proof -
  obtain e where e: "w_heap w r = Some e" using assms(2) by blast
  show ?thesis
  proof (cases "e_scene e")
    case None
    with e assms(1) show ?thesis by (simp add: Entity_SendNearbyMessage_def)
  next
    case (Some k)
    then obtain s where "w_scenes w k = Some s" by (rule scene_of_entity [OF assms(1) e])
    moreover have "post known_failure
      (\<lambda>(n, entities, s'). let w1 = put_scene k s' w in
         keeps R L (if n = 0 then Inr w1 else send_each E (item\<lparr>mi_sender := Some (e_ID e)\<rparr>) entities w1))
      (Scene_GetNearByEntities (en_ex E) (en_ez E) (Entity_GetX e) (Entity_GetZ e) s)"
      using assms(1)
      by (intro post_mild [OF query_mild]) (auto simp: Let_def intro!: send_each_keeps intro: world_ok_put_scene)
    ultimately show ?thesis using e Some
      by (simp add: Entity_SendNearbyMessage_def Let_def split_def)
  qed
qed

lemma Broadcast_keeps:
  assumes "world_ok R L w" "w_heap w r \<noteq> None"
  shows "keeps R L (Entity_BroadCastCommonProp E r type w)"
proof -
  obtain e where "w_heap w r = Some e" using assms(2) by blast
  then show ?thesis by (simp add: Entity_BroadCastCommonProp_def SendNearby_keeps [OF assms(1)])
qed

lemma OnEnterScene_keeps:
  assumes "world_ok R L w" "w_heap w r \<noteq> None"
  shows "keeps R L (Entity_OnEnterScene E r scene_id w)"
proof -
  obtain e where e: "w_heap w r = Some e" using assms(2) by blast
  note ok = world_okD(1) [OF assms(1) e]
  show ?thesis
  proof (cases "SceneManager_Get w scene_id")
    case None
    have "world_ok R L (put_entity r (e\<lparr>e_scene := None\<rparr>) w)"
      using e ok by (intro world_ok_put_entity [OF assms(1) e]) (simp_all add: same_class_def entity_ok_def split: entity_kind.split)
    with None e show ?thesis by (simp add: Entity_OnEnterScene_def)
  next
    case (Some s)
    let ?e1 = "Entity_SetSceneID scene_id (e\<lparr>e_scene := Some scene_id\<rparr>)"
    let ?w1 = "put_entity r ?e1 w"
    have 1: "world_ok R L ?w1"
      using e ok Some
      by (intro world_ok_put_entity [OF assms(1) e])
        (simp_all add: same_class_def entity_ok_def Entity_SetSceneID_def SceneManager_Get_def registry_get_def split: entity_kind.split)
    have 2: "w_heap ?w1 r = Some ?e1" by simp
    have "world_ok R L (manager_put (e_ID ?e1) r ?w1)" by (rule world_ok_manager_put [OF 1 2])
    then have "keeps R L (Entity_BroadCastCommonProp E r MSG_TYPE_AOI_ENTER (put_scene scene_id s1 (manager_put (e_ID ?e1) r ?w1)))" for s1
      using 2 by (intro Broadcast_keeps world_ok_put_scene) (simp_all add: manager_put_def split: option.split)
    with e Some 2 show ?thesis
      by (auto simp: Entity_OnEnterScene_def EntityManager_Add_def Let_def intro: post_mild [OF EnterScene_mild])
  qed
qed

lemma OnLeaveScene_keeps:
  assumes "world_ok R L w" "w_heap w r \<noteq> None"
  shows "keeps R L (Entity_OnLeaveScene E r w)"
proof -
  obtain e where e: "w_heap w r = Some e" using assms(2) by blast
  show ?thesis
  proof (cases "e_scene e")
    case None
    with e assms(1) show ?thesis by (simp add: Entity_OnLeaveScene_def)
  next
    case (Some k)
    then obtain s where "w_scenes w k = Some s" by (rule scene_of_entity [OF assms(1) e])
    with e Some assms show ?thesis
      by (auto simp: Entity_OnLeaveScene_def intro!: post_mild [OF LeaveScene_mild] SendNearby_keeps intro: world_ok_put_scene)
  qed
qed

lemma StepMove_keeps:
  assumes "world_ok R L w" "w_heap w r \<noteq> None"
  shows "keeps R L (Entity_StepMove E r position w)"
proof -
  obtain e where e: "w_heap w r = Some e" using assms(2) by blast
  show ?thesis
  proof (cases "e_scene e")
    case None
    with e assms(1) show ?thesis by (simp add: Entity_StepMove_def)
  next
    case (Some k)
    then obtain s where s: "w_scenes w k = Some s" by (rule scene_of_entity [OF assms(1) e])
    have "world_ok R L (put_entity r (Entity_UpdatePosition position e) w)"
      using world_okD(1) [OF assms(1) e]
      by (intro world_ok_put_entity [OF assms(1) e])
        (simp_all add: Entity_UpdatePosition_def same_class_def entity_ok_def split: entity_kind.split)
    with e Some s show ?thesis
      by (auto simp: Entity_StepMove_def Let_def intro!: post_mild [OF UpdatePosition_mild] Broadcast_keeps intro: world_ok_put_scene)
  qed
qed

section \<open>What operations leave alone\<close>

text \<open>Objects live on in their class; the hosters and the global player stay the same.\<close>

definition stable :: "'d world \<Rightarrow> 'd world \<Rightarrow> bool" where
  "stable w w' \<longleftrightarrow> w_hosters w' = w_hosters w \<and> w_player w' = w_player w \<and>
     (\<forall>r e. w_heap w r = Some e \<longrightarrow> (\<exists>e'. w_heap w' r = Some e' \<and> same_class (e_kind e) (e_kind e')))"

abbreviation steady :: "'d world \<Rightarrow> 'd world res \<Rightarrow> bool" where
  "steady w m \<equiv> post (\<lambda>_. True) (stable w) m"

lemma same_class_refl [simp]: "same_class k k"
  by (simp add: same_class_def split: entity_kind.split)

lemma same_class_trans: "same_class a b \<Longrightarrow> same_class b c \<Longrightarrow> same_class a c"
  by (auto simp: same_class_def split: entity_kind.splits)

lemma stable_refl [simp]: "stable w w"
  by (simp add: stable_def)

lemma stable_trans: "stable w w' \<Longrightarrow> stable w' w'' \<Longrightarrow> stable w w''"
  unfolding stable_def by (elim conjE, intro conjI) (simp_all, blast intro: same_class_trans)

lemma stable_alive: "stable w w' \<Longrightarrow> w_heap w r \<noteq> None \<Longrightarrow> w_heap w' r \<noteq> None"
  by (force simp: stable_def)

lemma steady_trans: "stable w w' \<Longrightarrow> steady w' m \<Longrightarrow> steady w m"
  by (erule post_conseq) (rule stable_trans)

lemma post_any: "(\<And>x. Q x) \<Longrightarrow> post (\<lambda>_. True) Q m"
  by (cases m) simp_all

lemma stable_updates:
  "stable w (put_scene k s w)" "stable w (MessageDispatcher_SendMessage now m w)" "stable w (manager_put i r w)"
  "w_heap w r = Some e \<Longrightarrow> same_class (e_kind e) (e_kind e') \<Longrightarrow> stable w (put_entity r e' w)"
  by (simp_all add: stable_def manager_put_def MessageDispatcher_SendMessage_def Let_def split: option.split)

lemma post_both: "post A P m \<Longrightarrow> post B Q m \<Longrightarrow> post A (\<lambda>x. P x \<and> Q x) m"
  by (cases m) simp_all

lemma post_deref: "(\<And>e. w_heap w r = Some e \<Longrightarrow> Q e) \<Longrightarrow> post (\<lambda>_. True) Q (deref r w)"
  by (simp add: deref_def split: option.split)

lemma post_the_scene: "(\<And>s. w_scenes w k = Some s \<Longrightarrow> Q s) \<Longrightarrow> post (\<lambda>_. True) Q (the_scene k w)"
  by (simp add: the_scene_def split: option.split)

lemma send_each_steady: "steady w (send_each E item is w)"
proof (induction "is" arbitrary: item w)
  case (Cons i "is")
  show ?case
    by (auto simp: Let_def split: option.split intro!: Cons.IH post_deref steady_trans [OF stable_updates(2) Cons.IH])
qed simp

lemma SendNearby_steady: "steady w (Entity_SendNearbyMessage E r item w)"
  unfolding Entity_SendNearbyMessage_def post_bind
  by (intro post_deref)
    (auto simp: Let_def split: option.split
      intro!: post_the_scene post_any [where m = "Scene_GetNearByEntities ex ez x z s" for ex ez x z s] stable_updates steady_trans [OF stable_updates(1) send_each_steady])

lemma Broadcast_steady: "steady w (Entity_BroadCastCommonProp E r type w)"
  unfolding Entity_BroadCastCommonProp_def post_bind by (intro post_deref SendNearby_steady)

lemma OnEnterScene_steady: "steady w (Entity_OnEnterScene E r k w)"
  unfolding Entity_OnEnterScene_def post_bind
proof (rule post_deref)
  fix e assume e: "w_heap w r = Some e"
  let ?e1 = "Entity_SetSceneID k (e\<lparr>e_scene := Some k\<rparr>)"
  have "stable w (put_entity r ?e1 w)" by (rule stable_updates(4) [OF e]) (simp add: Entity_SetSceneID_def)
  moreover have "stable (put_entity r ?e1 w) (manager_put (e_ID ?e1) r (put_entity r ?e1 w))"
    by (rule stable_updates)
  moreover have "stable (manager_put (e_ID ?e1) r (put_entity r ?e1 w))
      (put_scene k s (manager_put (e_ID ?e1) r (put_entity r ?e1 w)))" for s
    by (rule stable_updates)
  ultimately have "stable w (put_scene k s (manager_put (e_ID ?e1) r (put_entity r ?e1 w)))" for s
    by (blast intro: stable_trans)
  then have "steady w (Entity_BroadCastCommonProp E r MSG_TYPE_AOI_ENTER
      (put_scene k s (manager_put (e_ID ?e1) r (put_entity r ?e1 w))))" for s
    by (rule steady_trans [OF _ Broadcast_steady])
  then show "steady w (case SceneManager_Get w k of
        None \<Rightarrow> Inr (put_entity r (e\<lparr>e_scene := None\<rparr>) w)
      | Some s \<Rightarrow>
         (let e1 = ?e1 in bind_res (EntityManager_Add r (put_entity r e1 w)) (\<lambda>w1.
            bind_res (Scene_EnterScene (e_ID e1) (Entity_GetX e1) (Entity_GetZ e1) s) (\<lambda>s1.
              Entity_BroadCastCommonProp E r MSG_TYPE_AOI_ENTER (put_scene k s1 w1)))))"
    using e by (auto simp: Let_def EntityManager_Add_def split: option.split
        intro!: stable_updates(4) post_any [where m = "Scene_EnterScene i x z s" for i x z s])
qed

lemma StepMove_steady: "steady w (Entity_StepMove E r position w)"
  unfolding Entity_StepMove_def post_bind
proof (rule post_deref)
  fix e assume e: "w_heap w r = Some e"
  let ?w1 = "put_entity r (Entity_UpdatePosition position e) w"
  have "stable w ?w1" by (rule stable_updates(4) [OF e]) (simp add: Entity_UpdatePosition_def)
  then have "stable w (put_scene k s ?w1)" for k s by (rule stable_trans [OF _ stable_updates(1)])
  then have "steady w (Entity_BroadCastCommonProp E r MSG_TYPE_AOI_MOVE (put_scene k s ?w1))" for k s
    by (rule steady_trans [OF _ Broadcast_steady])
  then show "steady w (case e_scene e of None \<Rightarrow> Inr w
      | Some k \<Rightarrow> (let e1 = Entity_UpdatePosition position e; w1 = put_entity r e1 w
         in bind_res (the_scene k w1) (\<lambda>s.
              bind_res (Scene_UpdatePosition (e_ID e1) (Entity_GetX e1) (Entity_GetZ e1) position s)
                (\<lambda>s1. Entity_BroadCastCommonProp E r MSG_TYPE_AOI_MOVE (put_scene k s1 w1)))))"
    by (auto simp: Let_def split: option.split intro!: post_the_scene post_any [where m = "Scene_UpdatePosition i x z p s" for i x z p s])
qed

end
