(* ===== verification/World_Safe.thy ===== *)
theory World_Safe
  imports World_Inv
begin

text \<open>
  Every operation of players, hosters, sessions and the dispatcher keeps the invariant of theory
  World_Inv and fails only in known ways. Owners that are local variables of the code are counted
  by \<open>L\<close>: an allocation adds one, storing or dropping the pointer takes it away.
\<close>

section \<open>Owners\<close>

lemma world_ok_fresh:
  assumes "world_ok R L w"
  shows "w_heap w (w_next w) = None" "w_entities w i \<noteq> Some (w_next w)" "w_next w \<notin> set (w_hosters w)"
    "w_player w \<noteq> Some (w_next w)"
  using assms by (fastforce simp: world_ok_defs)+

lemma world_ok_alloc:
  assumes "world_ok R L w" "entity_ok R w e"
  shows "world_ok R (L(w_next w := 1)) (snd (alloc e w))"
proof -
  let ?w = "snd (alloc e w)"
  have sel: "w_heap ?w = (w_heap w)(w_next w \<mapsto> e)" "w_refs ?w = (w_refs w)(w_next w := 1)"
    "w_next ?w = Suc (w_next w)" "w_scenes ?w = w_scenes w" "w_entities ?w = w_entities w"
    "w_hosters ?w = w_hosters w" "w_player ?w = w_player w" "w_protos ?w = w_protos w"
    by (simp_all add: alloc_def)
  have own: "owners ?w = owners w" by (intro ext) (simp add: owners_def sel)
  have ent: "entity_ok R ?w = entity_ok R w" by (intro ext) (simp add: entity_ok_def sel)
  have zero: "owners w (w_next w) e = 0"
    using world_ok_fresh [OF assms(1)] by (simp add: owners_def)
  note fresh = world_ok_fresh [OF assms(1)]
  have "heap_ok R (L(w_next w := 1)) ?w"
    using assms zero by (force simp: heap_ok_def sel own ent world_ok_def)
  moreover have "manager_ok ?w" "hosters_ok ?w" "player_ok ?w"
    using assms(1) fresh unfolding world_ok_def manager_ok_def hosters_ok_def player_ok_def sel by auto
  moreover have "w_socks ?w = w_socks w" by (simp add: alloc_def)
  ultimately show ?thesis using assms(1) by (simp add: world_ok_def sel socks_ok_def)
qed

lemma world_ok_add_hoster:
  assumes "world_ok R L w" "w_heap w r = Some e" "e_kind e = KHoster h" "L r = Suc n"
  shows "world_ok R (L(r := n)) (w\<lparr>w_hosters := w_hosters w @ [r]\<rparr>)"
  using assms by (auto simp: world_ok_defs owners_def entity_ok_def)

text \<open>The global player is replaced: the old one becomes a local owner.\<close>

lemma world_ok_set_player:
  assumes "world_ok R L w" "w_heap w r = Some e" "e_kind e = KPlayer p" "L r = Suc n" "w_player w \<noteq> Some r"
  shows "world_ok R (\<lambda>x. if x = r then n else L x + of_bool (w_player w = Some x)) (w\<lparr>w_player := Some r\<rparr>)"
  using assms by (auto simp: world_ok_defs owners_def entity_ok_def)

lemma world_ok_less_refs:
  assumes "world_ok R L w" "w_heap w r = Some e" "L r = Suc n"
  shows "world_ok R (L(r := n)) (w\<lparr>w_refs := (w_refs w)(r := w_refs w r - 1)\<rparr>)"
  using assms by (auto simp: world_ok_defs owners_def entity_ok_def)

lemma Erase_keeps:
  assumes "world_ok R L w"
  shows "keeps R L (EntityManager_Erase i w)"
proof (cases "w_entities w i")
  case (Some r)
  obtain e where e: "w_heap w r = Some e" "e_ID e = i" using world_okD(5) [OF assms Some] by blast
  let ?w = "w\<lparr>w_entities := (w_entities w)(i := None), w_refs := (w_refs w)(r := w_refs w r - 1)\<rparr>"
  have own: "owners ?w r' e' = owners w r' e' - of_bool (r' = r)" if "w_heap w r' = Some e'" for r' e'
    using that e Some assms by (auto simp: owners_def world_ok_defs)
  have pos: "0 < owners w r e" using e Some by (simp add: owners_def)
  have ent: "entity_ok R ?w = entity_ok R w" by (intro ext) (simp add: entity_ok_def)
  have "heap_ok R L ?w"
    using assms own pos e unfolding world_ok_def heap_ok_def ent by auto
  moreover have "manager_ok ?w" "hosters_ok ?w" "player_ok ?w"
    using assms by (auto simp: world_ok_defs)
  ultimately have "world_ok R L ?w" using assms by (simp add: world_ok_def socks_ok_def)
  with Some show ?thesis by (simp add: EntityManager_Erase_def)
qed (use assms in \<open>simp add: EntityManager_Erase_def\<close>)

lemma Erase_sel:
  "EntityManager_Erase i w = Inr w' \<Longrightarrow> w_heap w' = w_heap w \<and> w_hosters w' = w_hosters w \<and> w_player w' = w_player w"
  by (auto simp: EntityManager_Erase_def split: option.splits if_splits)

text \<open>An object nobody owns can go.\<close>

lemma world_ok_delete:
  assumes "world_ok R L w" "w_refs w r = 0" "w_heap w r \<noteq> None"
  shows "world_ok R L (w\<lparr>w_heap := (w_heap w)(r := None)\<rparr>)"
proof -
  obtain e where e: "w_heap w r = Some e" using assms(3) by blast
  then have "owners w r e = 0" using assms(1,2) by (simp add: world_ok_def heap_ok_def)
  then have no: "w_entities w (e_ID e) \<noteq> Some r" "r \<notin> set (w_hosters w)" "w_player w \<noteq> Some r"
    by (auto simp: owners_def count_list_0_iff)
  have "w_entities w i \<noteq> Some r" for i
    using world_okD(5) [OF assms(1), of i r] e no(1) by auto
  then show ?thesis using assms(1) no
    by (auto simp: world_ok_defs entity_ok_def owners_def)
qed

text \<open>A local owner lets go.\<close>

lemma release_keeps:
  assumes "world_ok R L w" "w_heap w r \<noteq> None" "L r = Suc n"
  shows "keeps R (L(r := n)) (release r w)"
proof -
  obtain e where e: "w_heap w r = Some e" using assms(2) by blast
  let ?w = "w\<lparr>w_refs := (w_refs w)(r := w_refs w r - 1)\<rparr>"
  have ok: "world_ok R (L(r := n)) ?w" by (rule world_ok_less_refs [OF assms(1) e assms(3)])
  show ?thesis
  proof (cases "w_refs w r \<le> 1")
    case True
    have er: "keeps R (L(r := n)) (EntityManager_Erase (e_ID e) ?w)" by (rule Erase_keeps [OF ok])
    have at: "w_refs w' r = 0 \<and> w_heap w' r = Some e" if "EntityManager_Erase (e_ID e) ?w = Inr w'" for w'
      using that True e by (auto simp: EntityManager_Erase_def split: option.splits if_splits)
    have "keeps R (L(r := n)) (Entity_destruct r ?w)"
    proof (cases "EntityManager_Erase (e_ID e) ?w")
      case (Inl u)
      with er e show ?thesis by (simp add: Entity_destruct_def)
    next
      case (Inr w')
      have "world_ok R (L(r := n)) w'" "w_refs w' r = 0" "w_heap w' r \<noteq> None"
        using er at [OF Inr] Inr by simp_all
      from world_ok_delete [OF this] Inr e show ?thesis by (simp add: Entity_destruct_def)
    qed
    with True show ?thesis by (simp add: release_def)
  qed (use ok in \<open>simp add: release_def\<close>)
qed

section \<open>Players\<close>

abbreviation player_at :: "'d world \<Rightarrow> nat \<Rightarrow> bool" where
  "player_at w r \<equiv> \<exists>e p. w_heap w r = Some e \<and> e_kind e = KPlayer p"

lemma player_at_session:
  assumes "world_ok R L w" "player_at w r"
  obtains e p i where "w_heap w r = Some e" "e_kind e = KPlayer p" "pd_session p = Some i"
proof -
  obtain e p where e: "w_heap w r = Some e" "e_kind e = KPlayer p" using assms(2) by blast
  have "entity_ok R w e" using world_okD(1) [OF assms(1) e(1)] .
  with e that show thesis by (auto simp: entity_ok_def)
qed

text \<open>Writing a player back.\<close>

lemma world_ok_put_player:
  assumes "world_ok R L w" "w_heap w r = Some e" "e_kind e = KPlayer p" "pd_session q = pd_session p"
  shows "world_ok R L (put_entity r (e\<lparr>e_kind := KPlayer q\<rparr>) w)"
    "world_ok R L (put_entity r (e\<lparr>e_common := c, e_kind := KPlayer q\<rparr>) w)"
  using world_okD(1) [OF assms(1,2)] assms(3,4)
  by (auto intro!: world_ok_put_entity [OF assms(1,2)] simp: same_class_def entity_ok_def)

lemma SendProtocol_keeps:
  assumes "world_ok R L w" "player_at w r"
  shows "keeps R L (Player_SendProtocol E r m w)"
proof -
  obtain e p i where "w_heap w r = Some e" "e_kind e = KPlayer p" "pd_session p = Some i"
    using assms by (rule player_at_session)
  moreover have "world_ok R L (w\<lparr>w_socks := (w_socks w)(i := Socket_AsyncSend c (w_socks w i))\<rparr>)" for c
    using assms(1) by (intro world_ok_sessions [OF assms(1)]) (auto simp: world_ok_def socks_ok_def Socket_AsyncSend_def)
  ultimately show ?thesis using assms(1) by (simp add: Player_SendProtocol_def Let_def split: option.split)
qed

lemma SendPlayer_keeps:
  assumes "world_ok R L w" "player_at w r"
  shows "keeps R L (Player_SendPlayer E r w)"
proof -
  obtain e p where "w_heap w r = Some e" "e_kind e = KPlayer p" using assms(2) by blast
  with SendProtocol_keeps [OF assms] show ?thesis by (simp add: Player_SendPlayer_def)
qed

lemma Load_keeps:
  assumes "world_ok R L w" "player_at w r"
  shows "post known_failure (\<lambda>(rc, w'). rc = 0 \<and> world_ok R L w' \<and> player_at w' r) (Player_Load E r w)"
proof -
  obtain e p where e: "w_heap w r = Some e" "e_kind e = KPlayer p" using assms(2) by blast
  obtain stuff d where g: "Redis_GetPlayer (en_redis E) (e_ID e) (w_db w) = (stuff, d)" by (rule prod.exhaust)
  have "world_ok R L (w\<lparr>w_db := d\<rparr>)" using assms(1) by simp
  from world_ok_put_player(2) [OF this, of r e p] e assms(1) g show ?thesis
    by (auto simp: Player_Load_def Let_def)
qed

lemma Save_keeps:
  assumes "world_ok R L w" "player_at w r"
  shows "post known_failure (\<lambda>(rc, w'). world_ok R L w' \<and> player_at w' r) (Player_Save E r w)"
proof -
  obtain e p where e: "w_heap w r = Some e" "e_kind e = KPlayer p" using assms(2) by blast
  with world_ok_put_player [OF assms(1) e] show ?thesis
    by (simp add: Player_Save_def Let_def split: prod.split)
qed

lemma OnEnterGame_keeps:
  assumes "world_ok R L w" "player_at w r"
  shows "keeps2 R L (Player_OnEnterGame E r w)" "keeps2 R L (Player_CmdLogin E r m w)"
proof -
  have "keeps2 R L (bind_res (Player_Load E r w) (\<lambda>(rc, w1).
       if rc \<noteq> 0 then Inr (1, w1) else bind_res (Player_SendPlayer E r w1) (\<lambda>w2. Inr (0, w2))))"
    by (rule post_seq [OF Load_keeps [OF assms]]) (auto simp: SendPlayer_keeps)
  then show "keeps2 R L (Player_OnEnterGame E r w)" "keeps2 R L (Player_CmdLogin E r m w)"
    by (simp_all add: Player_OnEnterGame_def Player_CmdLogin_def)
qed

lemma Logout_keeps:
  assumes "world_ok R L w" "player_at w r"
  shows "keeps2 R L (Player_Logout E r w)"
proof -
  obtain e p where e: "w_heap w r = Some e" "e_kind e = KPlayer p" using assms(2) by blast
  let ?w = "put_entity r (e\<lparr>e_kind := KPlayer (p\<lparr>pd_stuff := (pd_stuff p)\<lparr>ps_sight_distance := Some None\<rparr>\<rparr>)\<rparr>) w"
  have "world_ok R L ?w" "player_at ?w r" by (rule world_ok_put_player(1) [OF assms(1) e], simp_all)
  from Save_keeps [OF this] have "keeps2 R L (bind_res (Player_Save E r ?w) (\<lambda>(_, w2).
      bind_res (Entity_OnLeaveScene E r w2) (\<lambda>w3. Inr (0, w3))))"
    by (rule post_seq) (auto simp: OnLeaveScene_keeps)
  with e show ?thesis by (simp add: Player_Logout_def Let_def)
qed

lemma run_handler_keeps:
  assumes "world_ok R L w" "player_at w r"
  shows "keeps2 R L (run_handler E r h m w)"
proof -
  have alive: "w_heap w r \<noteq> None" using assms(2) by auto
  show ?thesis
    using OnEnterGame_keeps(2) [OF assms] OnEnterScene_keeps [OF assms(1) alive] StepMove_keeps [OF assms(1) alive] assms(1)
    by (cases h) (simp_all add: Player_CmdEnterScene_def Player_CmdMove_def Let_def split: proto_msg.split)
qed

lemma HandleProtocol_keeps:
  "world_ok R L w \<Longrightarrow> player_at w r \<Longrightarrow> keeps2 R L (Player_HandleProtocol E r t m w)"
  unfolding Player_HandleProtocol_def by (rule post_seq [OF run_handler_keeps]) auto

lemma Player_HandleMessage_keeps:
  assumes "world_ok R L w" "player_at w r"
  shows "keeps2 R L (Player_HandleMessage E r item w)"
proof -
  obtain e where "w_heap w r = Some e" using assms(2) by blast
  with SendProtocol_keeps [OF assms] assms(1) show ?thesis
    by (simp add: Player_HandleMessage_def split: option.split)
qed

lemma SendNearbyProtocol_each_keeps:
  assumes "world_ok R L w"
  shows "keeps R L (send_protocol_each E m is w)"
  using assms
proof (induction "is" arbitrary: w)
  case (Cons i "is")
  show ?case
  proof (cases "w_entities w i")
    case (Some r)
    then obtain e where e: "w_heap w r = Some e" using world_okD(5) [OF Cons.prems] by blast
    have "keeps R L (SendProtocol_virtual E r m w)"
      using e Cons.prems SendProtocol_keeps [OF Cons.prems, of r] by (simp add: SendProtocol_virtual_def split: entity_kind.split)
    then have "keeps R L (bind_res (SendProtocol_virtual E r m w) (send_protocol_each E m is))"
      by (rule post_seq) (rule Cons.IH)
    with Some show ?thesis by (simp add: EntityManager_GetEntity_def)
  qed (use Cons in \<open>simp add: EntityManager_GetEntity_def\<close>)
qed simp

lemma WorldSession_Update_keeps:
  assumes "world_ok R L w"
  shows "post known_failure (\<lambda>(b, w'). b \<and> world_ok R L w') (WorldSession_Update w)"
proof (cases "w_player w")
  case (Some r)
  then obtain e p where e: "w_heap w r = Some e" "e_kind e = KPlayer p" using world_okD(3) [OF assms] by blast
  with Some world_ok_put_player(1) [OF assms e] show ?thesis
    by (simp add: WorldSession_Update_def Player_Update_def)
qed (use assms in \<open>simp add: WorldSession_Update_def\<close>)

section \<open>Sessions\<close>

lemma release_sel:
  "release r w = Inr w' \<Longrightarrow> w_player w' = w_player w"
  by (auto simp: release_def Entity_destruct_def Let_def bind_res_Inr_iff dest: Erase_sel split: if_splits)

lemma set_g_player_keeps:
  assumes "world_ok R no_locals w" "R i \<noteq> None"
  shows "post known_failure (\<lambda>(r, w'). world_ok R no_locals w' \<and> player_at w' r) (set_g_player player_id i w)"
proof -
  let ?e = "Player_new player_id (Some i)" and ?r = "w_next w"
  let ?w1 = "snd (alloc ?e w)" and ?w2 = "(snd (alloc ?e w))\<lparr>w_player := Some (w_next w)\<rparr>"
  have new: "entity_ok R w ?e" using assms(2) by (simp add: entity_ok_def Player_new_def Entity_SetID_def Entity_new_def)
  have sel: "w_heap ?w1 ?r = Some ?e" "w_player ?w1 = w_player w" by (simp_all add: alloc_def)
  obtain p where p: "e_kind ?e = KPlayer p" by (simp add: Player_new_def Entity_SetID_def Entity_new_def)
  have al: "world_ok R (no_locals(?r := 1)) ?w1" by (rule world_ok_alloc [OF assms(1) new])
  have ok: "world_ok R (\<lambda>x. if x = ?r then 0 else (no_locals(?r := 1)) x + of_bool (w_player w = Some x)) ?w2"
    by (rule world_ok_set_player [OF al sel(1) p, unfolded sel(2)]) (simp, rule world_ok_fresh(4) [OF assms(1)])
  show ?thesis
  proof (cases "w_player w")
    case None
    have "(\<lambda>x. if x = ?r then 0 else (no_locals(?r := 1)) x + of_bool (w_player w = Some x)) = no_locals"
      using None by auto
    with ok None sel p show ?thesis by (simp add: set_g_player_def alloc_def)
  next
    case (Some old)
    have ne: "old \<noteq> ?r" using Some world_ok_fresh(4) [OF assms(1)] by simp
    have "(\<lambda>x. if x = ?r then 0 else (no_locals(?r := 1)) x + of_bool (w_player w = Some x)) = no_locals(old := 1)"
      using Some ne by auto
    with ok have ok': "world_ok R (no_locals(old := 1)) ?w2" by simp
    have "w_heap ?w2 old \<noteq> None"
      using world_okD(3) [OF assms(1) Some] ne by (auto simp: alloc_def)
    moreover have "(no_locals(old := 1))(old := 0) = no_locals" by auto
    ultimately have rel: "keeps R no_locals (release old ?w2)"
      using release_keeps [OF ok', of old 0] by (simp only: fun_upd_same One_nat_def simp_thms)
    have "player_at w' ?r" if "release old ?w2 = Inr w'" for w'
    proof -
      have "w_player w' = Some ?r" using release_sel [OF that] by simp
      moreover have "world_ok R no_locals w'" using rel that by simp
      ultimately show ?thesis using world_okD(3) by blast
    qed
    with rel have "post known_failure (\<lambda>(r, w'). world_ok R no_locals w' \<and> player_at w' r)
        (bind_res (release old ?w2) (\<lambda>w3. Inr (?r, w3)))"
      by (cases "release old ?w2") simp_all
    then show ?thesis using Some by (simp add: set_g_player_def alloc_def)
  qed
qed

lemma reads_of: "world_ok R L w \<Longrightarrow> R i = Some n \<Longrightarrow> sk_reads (w_socks w i) = n"
  by (simp add: world_ok_def socks_ok_def)

lemma world_ok_on_sock:
  assumes "world_ok R L w"
  shows "world_ok R L (on_sock i (Socket_AsyncSend c) w)" "world_ok R L (on_sock i Socket_Close w)"
    "R i = Some n \<Longrightarrow> world_ok (R(i \<mapsto> Suc n)) L (on_sock i Socket_AsyncReceive w)"
  unfolding on_sock_def using reads_of [OF assms] assms
  by (auto intro!: world_ok_sessions [OF assms] simp: Socket_AsyncSend_def Socket_Close_def Socket_AsyncReceive_def
      split: if_splits)

lemma session_logic_keeps:
  assumes "world_ok R no_locals w" "R i \<noteq> None"
  shows "keeps2 R no_locals (session_logic E i t m w)"
proof -
  have create: "keeps2 R no_locals (let (player_id, d) = Redis_CreatePlayer (en_redis E) (w_db w); w1 = w\<lparr>w_db := d\<rparr>
      in if player_id = 0 then Inr (False, w1)
         else bind_res (set_g_player player_id i w1) (\<lambda>(r, w2).
                bind_res (Player_Save E r w2) (\<lambda>(_, w3). Inr (True, w3))))"
  proof -
    obtain player_id d where c: "Redis_CreatePlayer (en_redis E) (w_db w) = (player_id, d)" by (rule prod.exhaust)
    have "keeps2 R no_locals (bind_res (Player_Save E r w2) (\<lambda>(_, w3). Inr (True, w3)))"
      if "world_ok R no_locals w2" "player_at w2 r" for r w2
      by (rule post_seq [OF Save_keeps [OF that]]) auto
    then have "keeps2 R no_locals (bind_res (set_g_player player_id i (w\<lparr>w_db := d\<rparr>)) (\<lambda>(r, w2).
                bind_res (Player_Save E r w2) (\<lambda>(_, w3). Inr (True, w3))))"
      using assms by (intro post_seq [OF set_g_player_keeps]) (simp, simp, auto)
    with c assms show ?thesis by (simp add: Let_def split_def)
  qed
  have enter: "keeps2 R no_locals (bind_res (set_g_player n i w) (\<lambda>(r, w1).
      bind_res (Player_OnEnterGame E r w1) (\<lambda>(_, w2). Inr (True, w2))))" for n
  proof -
    have "keeps2 R no_locals (bind_res (Player_OnEnterGame E r w1) (\<lambda>(_, w2). Inr (True, w2)))"
      if "world_ok R no_locals w1" "player_at w1 r" for r w1
      by (rule post_seq [OF OnEnterGame_keeps(1) [OF that]]) auto
    then show ?thesis using assms by (intro post_seq [OF set_g_player_keeps]) auto
  qed
  have other: "keeps2 R no_locals (case w_player w of None \<Rightarrow> Inr (False, w)
      | Some r \<Rightarrow> bind_res (Player_HandleProtocol E r n m w) (\<lambda>(_, w1). Inr (True, w1)))" for n
  proof (cases "w_player w")
    case (Some r)
    have "keeps2 R no_locals (bind_res (Player_HandleProtocol E r n m w) (\<lambda>(_, w1). Inr (True, w1)))"
      by (rule post_seq [OF HandleProtocol_keeps [OF assms(1) world_okD(3) [OF assms(1) Some]]]) auto
    with Some show ?thesis by simp
  qed (use assms(1) in simp)
  consider "t = META_TYPE_C2S_CREATE_PLAYER" | "t = META_TYPE_C2S_ENTER_GAME"
    | "t \<noteq> META_TYPE_C2S_CREATE_PLAYER" "t \<noteq> META_TYPE_C2S_ENTER_GAME" by blast
  then show ?thesis
  proof cases
    case 1
    with create assms show ?thesis by (cases m) (simp_all add: session_logic_def)
  next
    case 2
    with enter assms show ?thesis by (cases m) (simp_all add: session_logic_def)
  qed (use other in \<open>simp add: session_logic_def\<close>)
qed

text \<open>What protobuf promises of \<open>ParseFromString\<close>: it fills the object and leaves its class.\<close>

definition parses_in_class :: "codec \<Rightarrow> bool" where
  "parses_in_class C \<longleftrightarrow> (\<forall>d b m. parse_proto C d b = Some m \<longrightarrow> proto_type_t m = proto_type_t d)"

lemma world_ok_protos:
  assumes "world_ok R L w" "w_protos w (meta_type_number t) = Some d" "proto_type_t m = proto_type_t d"
  shows "world_ok R L (w\<lparr>w_protos := (w_protos w)(meta_type_number t \<mapsto> m)\<rparr>)"
  using assms by (auto simp: world_ok_defs entity_ok_def owners_def protos_ok_def)

text \<open>One read was answered by at most one new read.\<close>

definition answered :: "(nat \<Rightarrow> nat option) \<Rightarrow> nat \<Rightarrow> 'd world \<Rightarrow> bool" where
  "answered R i w \<longleftrightarrow> world_ok R no_locals w \<or> (\<exists>n. R i = Some n \<and> world_ok (R(i \<mapsto> Suc n)) no_locals w)"

lemma InitializeHandler_keeps:
  assumes "world_ok R no_locals w" "R i \<noteq> None" "parses_in_class (en_codec E)"
  shows "post known_failure (answered R i) (InitializeHandler E i error buffer w)"
proof -
  let ?w1 = "on_sock i (Socket_AsyncSend (greeting (en_codec E))) w"
  have w1: "world_ok R no_locals ?w1" using assms(1) by (rule world_ok_on_sock)
  have go: "post known_failure (answered R i)
      (bind_res (session_logic E i t m (?w1\<lparr>w_protos := (w_protos ?w1)(meta_type_number t \<mapsto> m)\<rparr>))
      (\<lambda>(again, w3). Inr (if again then on_sock i Socket_AsyncReceive w3 else w3)))"
    if "w_protos w (meta_type_number t) = Some d" "parse_proto (en_codec E) d b = Some m" for t m d b
  proof (rule post_seq [OF session_logic_keeps])
    show "world_ok R no_locals (?w1\<lparr>w_protos := (w_protos ?w1)(meta_type_number t \<mapsto> m)\<rparr>)"
      using that assms(3) w1 by (intro world_ok_protos [of _ _ _ _ d]) (auto simp: parses_in_class_def)
  qed (use assms(2) in \<open>auto simp: answered_def intro: world_ok_on_sock(3)\<close>)
  show ?thesis
    using assms(1) go w1
    by (auto simp: InitializeHandler_def Let_def ProtocolManager_GetMessage_def registry_get_def answered_def
        world_ok_on_sock split: option.split simp del: meta_type_number.simps post_bind)
qed

section \<open>Hosters\<close>

abbreviation hoster_at :: "'d world \<Rightarrow> nat \<Rightarrow> bool" where
  "hoster_at w r \<equiv> \<exists>e h. w_heap w r = Some e \<and> e_kind e = KHoster h"

lemma stable_hoster: "stable w w' \<Longrightarrow> hoster_at w r \<Longrightarrow> hoster_at w' r"
  unfolding stable_def same_class_def by (force split: entity_kind.splits)

lemma draw_mild: "post known_failure (\<lambda>(x, w'). \<exists>n. w' = w\<lparr>w_draws := n\<rparr>) (draw E lo hi w)"
  by (auto simp: draw_def CommonUtil_Random_def Let_def)

lemma Hoster_Update_keeps:
  assumes "world_ok R L w" "hoster_at w r"
  shows "keeps2 R L (Hoster_Update E h r w)"
proof -
  obtain e a where e: "w_heap w r = Some e" "e_kind e = KHoster a" using assms(2) by blast
  have step: "keeps2 R L (bind_res (draw E lo hi w) (\<lambda>(x, w1). bind_res (draw E lo hi w1) (\<lambda>(z, w2).
      bind_res (Entity_StepMove E r (f x z) w2) (\<lambda>w3. Inr (True, w3)))))" for lo hi f
  proof (rule post_seq [OF draw_mild], clarify)
    fix x n
    show "keeps2 R L (bind_res (draw E lo hi (w\<lparr>w_draws := n\<rparr>)) (\<lambda>(z, w2).
      bind_res (Entity_StepMove E r (f x z) w2) (\<lambda>w3. Inr (True, w3))))"
    proof (rule post_seq [OF draw_mild], clarify)
      fix z m
      show "keeps2 R L (bind_res (Entity_StepMove E r (f x z) (w\<lparr>w_draws := n, w_draws := m\<rparr>)) (\<lambda>w3. Inr (True, w3)))"
        by (rule post_seq [OF StepMove_keeps]) (use assms(1) e in auto)
    qed
  qed
  then show ?thesis using e assms(1) by (simp add: Hoster_Update_def Let_def)
qed

lemma Hoster_Update_steady: "post (\<lambda>_. True) (\<lambda>(_, w'). stable w w') (Hoster_Update E h r w)"
proof -
  have step: "post (\<lambda>_. True) (\<lambda>(_, w'). stable w w') (bind_res (draw E lo hi w) (\<lambda>(x, w1). bind_res (draw E lo hi w1) (\<lambda>(z, w2).
      bind_res (Entity_StepMove E r (f x z) w2) (\<lambda>w3. Inr (True, w3)))))" for lo hi f
  proof (rule post_seq [of _ "\<lambda>(x, w'). \<exists>n. w' = w\<lparr>w_draws := n\<rparr>"], goal_cases)
    case 1 show ?case using draw_mild [of w E lo hi] by (cases "draw E lo hi w") simp_all
  next
    case (2 xw)
    then obtain x n where xw: "xw = (x, w\<lparr>w_draws := n\<rparr>)" by auto
    show ?case unfolding xw prod.case
    proof (rule post_seq [of _ "\<lambda>(x, w'). \<exists>n. w' = w\<lparr>w_draws := n\<rparr>"], goal_cases)
      case 1 show ?case using draw_mild [of "w\<lparr>w_draws := n\<rparr>" E lo hi]
        by (cases "draw E lo hi (w\<lparr>w_draws := n\<rparr>)") auto
    next
      case (2 zw)
      then obtain z m where zw: "zw = (z, w\<lparr>w_draws := m\<rparr>)" by auto
      have "stable w (w\<lparr>w_draws := m\<rparr>)" by (simp add: stable_def)
      then have "steady w (Entity_StepMove E r (f x z) (w\<lparr>w_draws := m\<rparr>))"
        by (rule steady_trans [OF _ StepMove_steady])
      then show ?case unfolding zw by (cases "Entity_StepMove E r (f x z) (w\<lparr>w_draws := m\<rparr>)") simp_all
    qed
  qed
  show ?thesis unfolding Hoster_Update_def post_bind
    by (rule post_deref) (auto simp: Let_def step split: entity_kind.split simp del: post_bind)
qed

lemma update_hosters_keeps:
  assumes "world_ok R L w" "\<forall>r \<in> set rs. hoster_at w r"
  shows "keeps R L (update_hosters E h rs w)"
  using assms
proof (induction rs arbitrary: w)
  case (Cons r rs)
  have "post known_failure (\<lambda>x. (case x of (_, w') \<Rightarrow> world_ok R L w') \<and> (case x of (_, w') \<Rightarrow> stable w w'))
      (Hoster_Update E h r w)"
    using Cons.prems by (intro post_both [OF Hoster_Update_keeps Hoster_Update_steady]) auto
  then have "keeps R L (bind_res (Hoster_Update E h r w) (\<lambda>(_, w'). update_hosters E h rs w'))"
  proof (rule post_seq, clarify)
    fix b w' assume "world_ok R L w'" "stable w w'"
    moreover have "\<forall>r \<in> set rs. hoster_at w' r"
      using Cons.prems(2) stable_hoster [OF \<open>stable w w'\<close>] by (metis list.set_intros(2))
    ultimately show "keeps R L (update_hosters E h rs w')" by (intro Cons.IH)
  qed
  then show ?case by simp
qed simp

lemma World_Update_keeps:
  assumes "world_ok R L w"
  shows "post known_failure (\<lambda>(wo', w'). wo_stopped wo' = wo_stopped wo \<and> world_ok R L w') (World_Update E wo w)"
proof -
  have "keeps R L (update_hosters E h (w_hosters w) w)" for h
    using world_okD(4) [OF assms] by (intro update_hosters_keeps [OF assms]) blast
  then have "keeps2 R L (HosterManager_Update E h w)" for h
    unfolding HosterManager_Update_def by (rule post_seq) simp
  then have "post known_failure (\<lambda>(wo', w'). wo_stopped wo' = wo_stopped wo \<and> world_ok R L w')
      (bind_res (HosterManager_Update E h w) (\<lambda>(_, w'). Inr (wo\<lparr>wo_heart_count := n\<rparr>, w')))" for h n
    by (rule post_seq) auto
  then show ?thesis by (simp add: World_Update_def Let_def del: post_bind)
qed

section \<open>The dispatcher\<close>

lemma Discharge_keeps:
  assumes "world_ok R L w"
  shows "keeps2 R L (MessageDispatcher_Discharge E i m w)"
proof (cases "w_entities w i")
  case (Some r)
  then obtain e where e: "w_heap w r = Some e" using world_okD(5) [OF assms] by blast
  have "keeps2 R L (HandleMessage_virtual E r m w)"
    using e assms Player_HandleMessage_keeps [OF assms, of r] by (simp add: HandleMessage_virtual_def split: entity_kind.split)
  then have "keeps2 R L (bind_res (HandleMessage_virtual E r m w) (\<lambda>(_, w'). Inr (True, w')))"
    by (rule post_seq) auto
  with Some show ?thesis by (simp add: MessageDispatcher_Discharge_def EntityManager_GetEntity_def)
qed (use assms in \<open>simp add: MessageDispatcher_Discharge_def EntityManager_GetEntity_def\<close>)

lemma GetNext_mild: "q \<noteq> [] \<Longrightarrow> mild (PriorityQueue_GetNext q)"
  by (cases q; cases "tl q") auto

lemma round_keeps:
  assumes "world_ok R L w"
  shows "keeps R L (MessageDispatcher_round E now w)"
proof (cases "w_queue w = []")
  case False
  have "keeps R L (bind_res (MessageDispatcher_Discharge E i m (w\<lparr>w_queue := q\<rparr>)) (\<lambda>(_, w2). Inr w2))" for i m q
    by (rule post_seq [OF Discharge_keeps]) (use assms in auto)
  then have "keeps R L (bind_res (PriorityQueue_GetNext (w_queue w)) (\<lambda>(message, q).
        let w1 = w\<lparr>w_queue := q\<rparr>
        in if MsgItem_delay message > 0 \<and> now < MsgItem_time message + MsgItem_delay message then Inr w1
           else bind_res (MessageDispatcher_Discharge E (MsgItem_receiver message) message w1) (\<lambda>(_, w2). Inr w2)))"
    using assms by (intro post_seq [OF GetNext_mild [OF False]]) (simp add: Let_def split_def del: post_bind)
  with assms show ?thesis by (simp add: MessageDispatcher_round_def del: post_bind)
qed (use assms in \<open>simp add: MessageDispatcher_round_def MessageDispatcher_Empty_def PriorityQueue_Empty_def\<close>)

section \<open>Loading\<close>

text \<open>
  What loading relies on: the generated pool holds the repository's protocol file, and the factory
  makes an object of the class it is asked for.
\<close>

definition boot_ok :: "boot \<Rightarrow> bool" where
  "boot_ok b \<longleftrightarrow> (\<exists>find_file. bt_pool b = Some find_file \<and> find_file ''P_Protocol.proto'' = Some P_Protocol_file) \<and>
     proto_type_t (bt_proto b ''Login'') = Some META_TYPE_C2S_LOGIN \<and>
     proto_type_t (bt_proto b ''CreatePlayer'') = Some META_TYPE_C2S_CREATE_PLAYER \<and>
     proto_type_t (bt_proto b ''EnterGame'') = Some META_TYPE_C2S_ENTER_GAME \<and>
     proto_type_t (bt_proto b ''EnterScene'') = Some META_TYPE_C2S_ENTER_SCENE \<and>
     proto_type_t (bt_proto b ''Move'') = Some META_TYPE_C2S_MOVE"

text \<open>The state before loading: no object, no scene, no prototype.\<close>

definition world_empty :: "'d world \<Rightarrow> bool" where
  "world_empty w \<longleftrightarrow> w_heap w = Map.empty \<and> w_entities w = Map.empty \<and> w_scenes w = Map.empty \<and>
     w_hosters w = [] \<and> w_player w = None \<and> w_protos w = Map.empty"

lemma load_hosters_keeps:
  assumes "world_ok R no_locals w"
  shows "keeps2 R no_locals (load_hosters E ms w)"
  using assms
proof (induction ms arbitrary: w)
  case (Cons m ms)
  have hoster: "keeps2 R no_locals (case SceneManager_Get w k of None \<Rightarrow> load_hosters E ms w
      | Some _ \<Rightarrow> (let (r, w1) = alloc (Hoster_of_asset h) w; e = Entity_SetID i (Hoster_of_asset h)
         in bind_res (Entity_OnBirth E r k (put_entity r e w1)) (\<lambda>w2. load_hosters E ms (w2\<lparr>w_hosters := w_hosters w2 @ [r]\<rparr>))))"
    for h k i
  proof -
    let ?e = "Hoster_of_asset h" and ?r = "w_next w"
    let ?w1 = "snd (alloc ?e w)" and ?e' = "Entity_SetID i (Hoster_of_asset h)"
    let ?w2 = "put_entity ?r ?e' ?w1"
    have kind: "e_kind ?e' = KHoster h" "e_scene ?e = None" "e_kind ?e = KHoster h"
      by (simp_all add: Entity_SetID_def Hoster_of_asset_def Entity_new_def)
    have sc: "e_scene ?e' = None" by (simp add: Entity_SetID_def Hoster_of_asset_def Entity_new_def)
    have w2: "?w2 = snd (alloc ?e' w)" by (simp add: alloc_def put_entity_def)
    have "world_ok R (no_locals(?r := 1)) (snd (alloc ?e' w))"
      using kind sc by (intro world_ok_alloc [OF Cons.prems]) (simp add: entity_ok_def)
    then have ok: "world_ok R (no_locals(?r := 1)) ?w2" by (simp only: w2)
    have "post known_failure (\<lambda>w'. world_ok R (no_locals(?r := 1)) w' \<and> stable ?w2 w') (Entity_OnBirth E ?r k ?w2)"
      unfolding Entity_OnBirth_def by (rule post_both [OF OnEnterScene_keeps [OF ok] OnEnterScene_steady]) simp
    then have "keeps2 R no_locals (bind_res (Entity_OnBirth E ?r k ?w2) (\<lambda>w2. load_hosters E ms (w2\<lparr>w_hosters := w_hosters w2 @ [?r]\<rparr>)))"
    proof (rule post_seq, elim conjE)
      fix w' assume w': "world_ok R (no_locals(?r := 1)) w'" "stable ?w2 w'"
      then have "hoster_at w' ?r" by (elim stable_hoster) (simp add: kind)
      then obtain e a where "w_heap w' ?r = Some e" "e_kind e = KHoster a" by blast
      from world_ok_add_hoster [OF w'(1) this, of 0]
      have "world_ok R ((no_locals(?r := 1))(?r := 0)) (w'\<lparr>w_hosters := w_hosters w' @ [?r]\<rparr>)" by simp
      moreover have "(no_locals(?r := 1))(?r := 0) = no_locals" by auto
      ultimately show "keeps2 R no_locals (load_hosters E ms (w'\<lparr>w_hosters := w_hosters w' @ [?r]\<rparr>))"
        by (intro Cons.IH) (simp only:)
    qed
    then show ?thesis using Cons.IH [OF Cons.prems]
      by (simp add: alloc_def split: option.split del: post_bind)
  qed
  show ?case using hoster Cons.prems by (simp add: Let_def split: asset_msg.split del: post_bind)
qed simp

lemma world_ok_start:
  assumes "w_heap w = Map.empty" "w_entities w = Map.empty" "w_hosters w = []" "w_player w = None" "protos_ok (w_protos w)"
  shows "world_ok Map.empty no_locals w"
  using assms by (simp add: world_ok_defs)

lemma World_Load_ok:
  assumes "world_empty w" "boot_ok b" "World_Load E b w = Inr (True, w')"
  shows "world_ok Map.empty no_locals w'"
proof -
  obtain find_file where pool: "bt_pool b = Some find_file" "find_file ''P_Protocol.proto'' = Some P_Protocol_file"
    using assms(2) by (auto simp: boot_ok_def)
  define P :: "proto_msg registry" where "P = [2 \<mapsto> bt_proto b ''Login'', 4 \<mapsto> bt_proto b ''CreatePlayer'', 5 \<mapsto> bt_proto b ''EnterGame'',
    6 \<mapsto> bt_proto b ''EnterScene'', 7 \<mapsto> bt_proto b ''Move'']"
  have load: "ProtocolManager_Load (bt_proto b) (bt_pool b) (w_protos w) = Inr (True, P)"
    using ProtocolManager_Load_own_file [of find_file "bt_proto b"] pool(2) assms(1) pool(1) by (simp add: world_empty_def P_def)
  have P: "protos_ok P"
    using assms(2) by (auto simp: protos_ok_def P_def boot_ok_def split: if_splits)
  obtain am where am: "AssetManager_Load (bt_asset b) (bt_parse b) (bt_pool b) (bt_root b) (w_assets w) = Inr (True, am)"
    using assms(3) load by (auto simp: World_Load_def Let_def bind_res_Inr_iff split: if_splits prod.splits)
  obtain w3 where w3: "SceneManager_Load E (w\<lparr>w_protos := P, w_assets := am\<rparr>) = (True, w3)"
    using assms(3) load am by (auto simp: World_Load_def Let_def bind_res_Inr_iff split: if_splits prod.splits)
  have "HosterManager_Load E w3 = Inr (True, w')"
    using assms(3) load am w3 by (auto simp: World_Load_def Let_def bind_res_Inr_iff split: if_splits)
  moreover have "world_ok Map.empty no_locals w3"
    using w3 assms(1) P
    by (intro world_ok_start) (auto simp: SceneManager_Load_def Let_def world_empty_def split: prod.splits)
  then have "keeps2 Map.empty no_locals (HosterManager_Load E w3)"
    by (simp add: HosterManager_Load_def load_hosters_keeps split: prod.split)
  ultimately show ?thesis by simp
qed

end
