(* ===== verification/Game_Main.thy ===== *)
theory Game_Main
  imports World_Loop World_Session
begin

text \<open>
  The program of Main.cpp: start-up, the pool of I/O threads and the loop of the world, with the
  ways in which \<open>main\<close> can end.
\<close>

section \<open>The pool of I/O threads\<close>

text \<open>\<open>io_threads\<close>: for each thread of the pool, whether it is joinable.\<close>

record io_pool =
  io_work :: bool
  io_stopped :: bool
  io_threads :: "bool list"

definition io_pool_start :: "nat \<Rightarrow> io_pool" where
  "io_pool_start n = \<lparr>io_work = True, io_stopped = False, io_threads = replicate n True\<rparr>"

text \<open>\<open>join\<close> of a thread that is not joinable throws.\<close>

definition ShutdownThreadPool :: "io_pool \<Rightarrow> io_pool res" where
  "ShutdownThreadPool p =
     (if False \<in> set (io_threads p) then Inl (Thrown ''join'')
      else Inr (p\<lparr>io_stopped := True, io_threads := map (\<lambda>_. False) (io_threads p)\<rparr>))"

section \<open>The loop and main\<close>

text \<open>
  \<open>WorldUpdateLoop\<close> over the readings of the clock at the start of each iteration. The boolean says
  that the loop has been left; otherwise the readings given are used up and it still runs.
\<close>

fun WorldUpdateLoop ::
  "'d env \<Rightarrow> int list \<Rightarrow> pace \<Rightarrow> world_object \<Rightarrow> 'd world \<Rightarrow> (bool \<times> pace \<times> world_object \<times> 'd world) res" where
  "WorldUpdateLoop E [] p wo w = Inr (World_IsStopped wo, p, wo, w)"
| "WorldUpdateLoop E (t # ts) p wo w =
     (if World_IsStopped wo then Inr (True, p, wo, w)
      else bind_res (WorldUpdateLoop_step E t p wo w) (\<lambda>(p', wo', w'). WorldUpdateLoop E ts p' wo' w'))"

datatype 'd outcome = Exited int | Running world_object "'d world" acceptor socket_manager io_pool

text \<open>
  \<open>main\<close>: \<open>bound\<close> says whether the port can be bound, \<open>t0\<close> and \<open>ts\<close> are the readings of the clock. The
  result of \<open>StartNetwork\<close> is dropped. An exception is caught; one that passes the joinable threads
  of the pool ends the program in their destructor.
\<close>

definition game_main ::
  "'d env \<Rightarrow> boot \<Rightarrow> bool \<Rightarrow> int \<Rightarrow> int list \<Rightarrow> acceptor \<Rightarrow> socket_manager \<Rightarrow> 'd world \<Rightarrow> 'd outcome res" where
  "game_main E b bound t0 ts a m w =
     (case World_Load E b w of
        Inl (Thrown _) \<Rightarrow> Inr (Exited 0)
      | Inl (UB u) \<Rightarrow> Inl (UB u)
      | Inr (False, _) \<Rightarrow> Inr (Exited 1)
      | Inr (True, w1) \<Rightarrow>
          let pool = io_pool_start 5 in
          (case bind_res (WorldSessionManager_StartNetwork bound 5 a m) (\<lambda>(_, a', m').
                  bind_res (WorldUpdateLoop E ts \<lparr>pc_prev_time = t0, pc_prev_sleep = 0\<rparr> World_init w1)
                    (\<lambda>(left, _, wo, w2).
                      if left then bind_res (ShutdownThreadPool pool) (\<lambda>_. Inr (Exited 0))
                      else Inr (Running wo w2 a' m' pool))) of
             Inl (Thrown _) \<Rightarrow> Inl (UB ''joinable thread destroyed'')
           | r \<Rightarrow> r))"

section \<open>Lemmas\<close>

lemma World_Update_beats:
  "World_Update E wo w = Inr (wo', w') \<Longrightarrow>
     wo_stopped wo' = wo_stopped wo \<and> wo_heart_count wo' = wo_heart_count wo + 1"
  by (auto simp: World_Update_def Let_def bind_res_Inr_iff split: if_splits)

lemma step_beats:
  "WorldUpdateLoop_step E t p wo w = Inr (p', wo', w') \<Longrightarrow> \<not> World_IsStopped wo \<Longrightarrow>
     wo_stopped wo' = wo_stopped wo \<and> wo_heart_count wo' = wo_heart_count wo + 1"
  by (auto simp: WorldUpdateLoop_step_def bind_res_Inr_iff dest!: World_Update_beats)

lemma loop_runs:
  "WorldUpdateLoop E ts p wo w = Inr (left, p', wo', w') \<Longrightarrow> \<not> wo_stopped wo \<Longrightarrow>
     \<not> left \<and> \<not> wo_stopped wo' \<and> wo_heart_count wo' = wo_heart_count wo + int (length ts)"
proof (induction ts arbitrary: p wo w)
  case (Cons t ts)
  from Cons.prems obtain p1 wo1 w1
    where s: "WorldUpdateLoop_step E t p wo w = Inr (p1, wo1, w1)"
      and r: "WorldUpdateLoop E ts p1 wo1 w1 = Inr (left, p', wo', w')"
    by (auto simp: World_IsStopped_def bind_res_Inr_iff)
  from step_beats [OF s] Cons.prems(2) have "\<not> wo_stopped wo1" "wo_heart_count wo1 = wo_heart_count wo + 1"
    by (simp_all add: World_IsStopped_def)
  with Cons.IH [OF r] show ?case by simp
qed (simp add: World_IsStopped_def)

lemma StartNetwork_unbound:
  "WorldSessionManager_StartNetwork False n a m = Inr (False, a, m)"
  by (simp add: WorldSessionManager_StartNetwork_def SocketManager_StartNetwork_def)

lemma main_running:
  assumes "game_main E b bound t0 ts a m w = Inr out" "World_Load E b w = Inr (True, w1)"
  shows "\<exists>wo w' a' m'. out = Running wo w' a' m' (io_pool_start 5) \<and> \<not> World_IsStopped wo \<and>
     wo_heart_count wo = int (length ts) \<and> (\<not> bound \<longrightarrow> a' = a \<and> m' = m)"
proof -
  let ?p = "\<lparr>pc_prev_time = t0, pc_prev_sleep = 0\<rparr>"
  from assms obtain ok a' m' left p' wo w'
    where sn: "WorldSessionManager_StartNetwork bound 5 a m = Inr (ok, a', m')"
      and lp: "WorldUpdateLoop E ts ?p World_init w1 = Inr (left, p', wo, w')"
      and out: "(if left then bind_res (ShutdownThreadPool (io_pool_start 5)) (\<lambda>_. Inr (Exited 0))
        else Inr (Running wo w' a' m' (io_pool_start 5))) = Inr out"
    by (auto simp: game_main_def Let_def bind_res_Inr_iff split: sum.splits err.splits)
  from loop_runs [OF lp] have "\<not> left" "\<not> wo_stopped wo" "wo_heart_count wo = int (length ts)"
    by (simp_all add: World_init_def)
  moreover have "\<not> bound \<longrightarrow> a' = a \<and> m' = m"
    using sn StartNetwork_unbound [of 5 a m] by (cases bound) auto
  ultimately show ?thesis using out by (auto simp: World_IsStopped_def)
qed

lemma main_fails:
  assumes "game_main E b bound t0 ts a m w = Inl e" "World_Load E b w = Inr (True, w1)"
  shows "(\<exists>u. e = UB u) \<and>
    ((\<exists>e'. WorldSessionManager_StartNetwork bound 5 a m = Inl e') \<or>
     (\<exists>e'. WorldUpdateLoop E ts \<lparr>pc_prev_time = t0, pc_prev_sleep = 0\<rparr> World_init w1 = Inl e'))"
proof -
  let ?p = "\<lparr>pc_prev_time = t0, pc_prev_sleep = 0\<rparr>"
  have left: "\<not> left" if "WorldUpdateLoop E ts ?p World_init w1 = Inr (left, p', wo, w')" for left p' wo w'
    using loop_runs [OF that] by (simp add: World_init_def)
  show ?thesis
  proof (cases "WorldUpdateLoop E ts ?p World_init w1")
    case (Inr r)
    then obtain p' wo w' where "WorldUpdateLoop E ts ?p World_init w1 = Inr (False, p', wo, w')"
      using left by (cases r) auto
    with assms show ?thesis
      by (cases "WorldSessionManager_StartNetwork bound 5 a m") (auto simp: game_main_def Let_def split: err.splits)
  qed (use assms in \<open>cases "WorldSessionManager_StartNetwork bound 5 a m"; auto simp: game_main_def Let_def split: err.splits\<close>)
qed

section \<open>Properties\<close>

text \<open>
  C33. \<open>main\<close> returns only when loading fails: with 1 exactly when loading reports a failure and with 0 exactly when
  loading throws. Otherwise, whatever the clock readings and also when the port could not be bound, it is still running
  after any number of iterations, one heart beat each, with its five I/O threads unjoined; or it has run into
  undefined behaviour, in loading, in the start of the network or in the loop (where also an exception ends the program,
  in the destructors of the joinable threads). It does not return in any other way.
\<close>

theorem game_main_returns_only_if_loading_fails:
  "case game_main E b bound t0 ts a m w of
      Inl e \<Rightarrow> (\<exists>u. e = UB u) \<and>
        (World_Load E b w = Inl e \<or>
         (\<exists>w1. World_Load E b w = Inr (True, w1) \<and>
            ((\<exists>e'. WorldSessionManager_StartNetwork bound 5 a m = Inl e') \<or>
             (\<exists>e'. WorldUpdateLoop E ts \<lparr>pc_prev_time = t0, pc_prev_sleep = 0\<rparr> World_init w1 = Inl e'))))
    | Inr (Exited rc) \<Rightarrow>
        (rc = 1 \<and> (\<exists>w1. World_Load E b w = Inr (False, w1))) \<or> (rc = 0 \<and> (\<exists>u. World_Load E b w = Inl (Thrown u)))
    | Inr (Running wo w' a' m' pool) \<Rightarrow>
        (\<exists>w1. World_Load E b w = Inr (True, w1)) \<and> \<not> World_IsStopped wo \<and>
        wo_heart_count wo = int (length ts) \<and> io_threads pool = replicate 5 True \<and>
        (bound \<or> a' = a \<and> m' = m)"
proof (cases "World_Load E b w")
  case (Inl u)
  then show ?thesis by (cases u) (auto simp: game_main_def)
next
  case (Inr r)
  obtain ok w1 where r: "r = (ok, w1)" by (cases r)
  show ?thesis
  proof (cases ok)
    case False
    with Inr r show ?thesis by (auto simp: game_main_def)
  next
    case True
    with Inr r have load: "World_Load E b w = Inr (True, w1)" by simp
    show ?thesis
    proof (cases "game_main E b bound t0 ts a m w")
      case (Inl e)
      with main_fails [OF this load] load show ?thesis by simp
    next
      case (Inr out)
      from main_running [OF this load] load Inr show ?thesis by (auto simp: io_pool_start_def)
    qed
  qed
qed

text \<open>The empty configuration: nothing to register and no assets.\<close>

definition empty_boot :: boot where
  "empty_boot = \<lparr>bt_pool = Some (\<lambda>_. Some \<lparr>fd_enums = [''META_TYPE'', ''ASSET_TYPE''], fd_messages = []\<rparr>),
     bt_proto = (\<lambda>_. PM_CreatePlayer), bt_asset = (\<lambda>_. AM_Plant None), bt_parse = (\<lambda>_ _. AM_Plant None),
     bt_root = None\<rparr>"

theorem game_main_returns_only_if_loading_fails_witness:
  "\<exists>wo w' a' m' pool. game_main demo_env empty_boot False 0 [60, 100] AsyncAcceptor_init SocketManager_init demo_world =
     Inr (Running wo w' a' m' pool) \<and> wo_heart_count wo = 2"
proof -
  have load: "\<exists>w1. World_Load demo_env empty_boot demo_world = Inr (True, w1) \<and> w_hosters w1 = []"
    by (simp add: World_Load_def empty_boot_def demo_world_def demo_env_def ProtocolManager_Load_def
        AssetManager_Load_def FindEnumTypeByName_def AssetManager_init_def AssetManager_GetMessagesByType_def
        SceneManager_Load_def HosterManager_Load_def)
  from load have "\<exists>out. game_main demo_env empty_boot False 0 [60, 100] AsyncAcceptor_init SocketManager_init demo_world = Inr out"
    by (auto simp: game_main_def StartNetwork_unbound World_init_def World_IsStopped_def WorldUpdateLoop_step_def
        World_Update_def HosterManager_Update_def GetTimeDiff_def WorldUpdateLoop_pace_def const_world_sleep_def
        in_int32_def in_int64_def Let_def)
  then obtain out where "game_main demo_env empty_boot False 0 [60, 100] AsyncAcceptor_init SocketManager_init demo_world = Inr out"
    by blast
  with game_main_returns_only_if_loading_fails [where E = demo_env and b = empty_boot and bound = False and ?t0.0 = 0
      and ts = "[60, 100]" and a = AsyncAcceptor_init and m = SocketManager_init and w = demo_world] load
  show ?thesis
    by (auto split: outcome.splits)
qed

end
