(* ===== verification/Game_System.thy ===== *)
theory Game_System
  imports World_Safe Game_Main
begin

text \<open>
  The running game server as one state machine: the world, the loop of the main thread, the acceptor,
  the network threads and the sessions, with the events that drive them (Main.cpp, WorldSession.cpp,
  NetThread.h, AsyncAcceptor.h, MessageDispatcher.cpp). Each event is one step, so steps of several
  threads interleave but never overlap.
\<close>

section \<open>The state and the events\<close>

text \<open>
  \<open>sy_accept_thread\<close>: the index of the thread whose socket the pending accept uses; \<open>sy_next\<close>: the
  number of the next session; \<open>sy_done i\<close>: the reads of session \<open>i\<close> that have completed; \<open>sy_dead i\<close>: the
  destructor of session \<open>i\<close> has run.
\<close>

record 'd system =
  sy_world :: "'d world"
  sy_object :: world_object
  sy_pace :: pace
  sy_acceptor :: acceptor
  sy_accept_thread :: nat
  sy_manager :: socket_manager
  sy_next :: nat
  sy_done :: "nat \<Rightarrow> nat"
  sy_dead :: "nat \<Rightarrow> bool"

text \<open>The outcomes of an accept: an error, an exception in \<open>non_blocking\<close>, or a connection.\<close>

datatype accepted = Accept_error | Accept_throws | Accept_ok bool

text \<open>
  \<open>Packet i error buffer\<close>: a read of session \<open>i\<close> completes; \<open>Sent i ok\<close>: its oldest write goes on or fails; \<open>Drained i n\<close>:
  the kernel's send buffer now takes \<open>n\<close> bytes; \<open>Disconnect i\<close>: the peer is gone.
\<close>

datatype event =
    Accepted accepted
  | Tick nat
  | Packet nat bool bytes
  | Dispatch int
  | Iterate int
  | Disconnect nat
  | Sent nat bool
  | Drained nat nat

definition system_threads :: "'d system \<Rightarrow> net_thread list" where
  "system_threads s = (case sm_threads (sy_manager s) of None \<Rightarrow> [] | Some ts \<Rightarrow> ts)"

text \<open>When an event can happen: a completion needs the operation that was started.\<close>

fun enabled :: "event \<Rightarrow> 'd system \<Rightarrow> bool" where
  "enabled (Accepted _) s = (0 < ac_pending (sy_acceptor s))"
| "enabled (Tick k) s = (k < length (system_threads s) \<and> nt_timer (system_threads s ! k))"
| "enabled (Packet i _ _) s = (i < sy_next s \<and> sy_done s i < sk_reads (w_socks (sy_world s) i))"
| "enabled (Disconnect i) s = (i < sy_next s)"
| "enabled (Sent i ok) s = (i < sy_next s \<and> sk_sending (w_socks (sy_world s) i) \<noteq> [])"
| "enabled (Drained i n) s = (i < sy_next s)"
| "enabled _ s = True"

section \<open>The steps\<close>

text \<open>The \<open>Update\<close> of the sessions of a list.\<close>

fun update_each :: "nat list \<Rightarrow> 'd world \<Rightarrow> 'd world res" where
  "update_each [] w = Inr w"
| "update_each (i # is) w = bind_res (WorldSession_Update w) (\<lambda>(_, w'). update_each is w')"

text \<open>
  A tick of network thread \<open>k\<close>: the fresh sessions join, and the sweep calls \<open>Update\<close> of every session,
  which is always true, and so removes none.
\<close>

definition system_tick :: "nat \<Rightarrow> 'd system \<Rightarrow> 'd system res" where
  "system_tick k s =
     (let w = sy_world s; t = system_threads s ! k;
          (S, t') = NetworkThread_Update (\<lambda>_. True) (w_socks w) t;
          updated = (if nt_stopped t then []
                     else nt_socket_list (NetworkThread_AddSockets (w_socks w) (t\<lparr>nt_timer := True\<rparr>)))
      in bind_res (update_each updated (w\<lparr>w_socks := S\<rparr>)) (\<lambda>w'.
           Inr (s\<lparr>sy_world := w', sy_manager := (sy_manager s)\<lparr>sm_threads := Some ((system_threads s)[k := t'])\<rparr>\<rparr>)))"

text \<open>The completion of the pending accept.\<close>

definition system_accept :: "accepted \<Rightarrow> 'd system \<Rightarrow> 'd system res" where
  "system_accept outcome s =
     (let w = sy_world s;
          callback = (\<lambda>k (S, ts). case outcome of
             Accept_ok connected \<Rightarrow> WorldSessionManager_OnSocketAccept (sy_next s) (Socket_init connected) k S ts
           | _ \<Rightarrow> Inl (Thrown ''non_blocking''))
      in bind_res
           (AsyncAcceptor_OnAccept (\<lambda>(S, ts). SocketManager_GetSocketForAccept ts) callback
             (outcome = Accept_error) (sy_accept_thread s) (sy_acceptor s) (w_socks w, system_threads s))
           (\<lambda>(next, a, S, ts).
              Inr (s\<lparr>sy_world := w\<lparr>w_socks := S\<rparr>, sy_acceptor := a,
                     sy_accept_thread := opt_get (sy_accept_thread s) next,
                     sy_manager := (sy_manager s)\<lparr>sm_threads := Some ts\<rparr>,
                     sy_next := (case outcome of Accept_ok _ \<Rightarrow> Suc (sy_next s) | _ \<Rightarrow> sy_next s)\<rparr>)))"

fun system_event :: "'d env \<Rightarrow> event \<Rightarrow> 'd system \<Rightarrow> 'd system res" where
  "system_event E (Accepted outcome) s = system_accept outcome s"
| "system_event E (Tick k) s = system_tick k s"
| "system_event E (Packet i error buffer) s =
     bind_res (InitializeHandler E i error buffer (sy_world s)) (\<lambda>w.
       Inr (s\<lparr>sy_world := w, sy_done := (sy_done s)(i := Suc (sy_done s i))\<rparr>))"
| "system_event E (Dispatch now) s =
     bind_res (MessageDispatcher_round E now (sy_world s)) (\<lambda>w. Inr (s\<lparr>sy_world := w\<rparr>))"
| "system_event E (Iterate now) s =
     bind_res (WorldUpdateLoop_step E now (sy_pace s) (sy_object s) (sy_world s)) (\<lambda>(p, wo, w).
       Inr (s\<lparr>sy_pace := p, sy_object := wo, sy_world := w\<rparr>))"
| "system_event E (Disconnect i) s =
     Inr (s\<lparr>sy_world := on_sock i (\<lambda>k. k\<lparr>sk_connected := False\<rparr>) (sy_world s)\<rparr>)"
| "system_event E (Sent i ok) s =
     bind_res (Socket_sent (\<not> sy_dead s i) ok (w_socks (sy_world s) i)) (\<lambda>k.
       Inr (s\<lparr>sy_world := on_sock i (\<lambda>_. k) (sy_world s)\<rparr>))"
| "system_event E (Drained i n) s =
     Inr (s\<lparr>sy_world := on_sock i (\<lambda>k. k\<lparr>sk_room := n\<rparr>) (sy_world s)\<rparr>)"

text \<open>
  A session is held by shared pointers only: in the lists of the network threads, in the handler of the read that is
  pending, and in the player objects. When an event has taken away the last of them (a tick that drops a fresh session
  which is closed, a handler that starts no new read, the end of a player), the destructor of the session runs.
\<close>

definition session_held :: "'d system \<Rightarrow> nat \<Rightarrow> bool" where
  "session_held s i \<longleftrightarrow>
     (let w = sy_world s
      in i \<in> set (concat (map (\<lambda>t. nt_socket_list t @ nt_fresh_list t) (system_threads s))) \<or>
         sy_done s i < sk_reads (w_socks w i) \<or>
         (\<exists>r \<in> set [0..<w_next w]. case w_heap w r of
            None \<Rightarrow> False
          | Some e \<Rightarrow> (case e_kind e of KPlayer p \<Rightarrow> pd_session p = Some i | _ \<Rightarrow> False)))"

fun destroy_sessions :: "nat list \<Rightarrow> socks \<Rightarrow> socks res" where
  "destroy_sessions [] S = Inr S"
| "destroy_sessions (i # is) S = bind_res (Socket_destruct (S i)) (\<lambda>k. destroy_sessions is (S(i := k)))"

definition lost_sessions :: "'d system \<Rightarrow> 'd system \<Rightarrow> nat list" where
  "lost_sessions s s' = filter (\<lambda>i. session_held s i \<and> \<not> session_held s' i) [0..<sy_next s]"

definition release_sessions :: "'d system \<Rightarrow> 'd system \<Rightarrow> 'd system res" where
  "release_sessions s s' =
     bind_res (destroy_sessions (lost_sessions s s') (w_socks (sy_world s'))) (\<lambda>S.
       Inr (s'\<lparr>sy_world := (sy_world s')\<lparr>w_socks := S\<rparr>, sy_dead := (\<lambda>i. sy_dead s' i \<or> i \<in> set (lost_sessions s s'))\<rparr>))"

text \<open>A step: the event, and the end of the sessions that nobody holds any more.\<close>

definition system_step :: "'d env \<Rightarrow> event \<Rightarrow> 'd system \<Rightarrow> 'd system res" where
  "system_step E ev s = bind_res (system_event E ev s) (release_sessions s)"

text \<open>
  The start of \<open>main\<close>: loading, then the network. \<open>None\<close>: loading failed and \<open>main\<close> has returned.
\<close>

definition system_start :: "'d env \<Rightarrow> boot \<Rightarrow> bool \<Rightarrow> int \<Rightarrow> 'd world \<Rightarrow> 'd system option res" where
  "system_start E b bound t0 w =
     bind_res (World_Load E b w) (\<lambda>(ok, w1).
       if \<not> ok then Inr None
       else bind_res (WorldSessionManager_StartNetwork bound 5 AsyncAcceptor_init SocketManager_init) (\<lambda>(_, a, m).
         Inr (Some \<lparr>sy_world = w1, sy_object = World_init, sy_pace = \<lparr>pc_prev_time = t0, pc_prev_sleep = 0\<rparr>,
           sy_acceptor = a,
           sy_accept_thread = SelectThreadWithMinConnections (case sm_threads m of None \<Rightarrow> [] | Some ts \<Rightarrow> ts),
           sy_manager = m, sy_next = 0, sy_done = (\<lambda>_. 0), sy_dead = (\<lambda>_. False)\<rparr>)))"

text \<open>
  The states the server can be in. Clock, random draws and the iteration orders may differ from step
  to step; the codec \<open>C\<close> is one.
\<close>

inductive system_reach :: "codec \<Rightarrow> 'd system \<Rightarrow> bool" for C where
  start: "system_reach C s"
    if "world_empty w" "boot_ok b" "en_codec E = C" "system_start E b bound t0 w = Inr (Some s)"
| step: "system_reach C s'"
    if "system_reach C s" "en_codec E = C" "enabled ev s" "system_step E ev s = Inr s'"

section \<open>The invariant\<close>

definition session_view :: "'d system \<Rightarrow> nat \<Rightarrow> nat option" where
  "session_view s i = (if i < sy_next s then Some (sk_reads (w_socks (sy_world s) i)) else None)"

text \<open>The same of the sessions whose destructor has not run.\<close>

definition live_view :: "'d system \<Rightarrow> nat \<Rightarrow> nat option" where
  "live_view s i = (if i < sy_next s \<and> \<not> sy_dead s i then Some (sk_reads (w_socks (sy_world s) i)) else None)"

definition thread_sessions :: "net_thread \<Rightarrow> nat list" where
  "thread_sessions t = nt_socket_list t @ nt_fresh_list t"

text \<open>The acceptor and the threads: absent if the port could not be bound, else all running.\<close>

definition network_ok :: "'d system \<Rightarrow> bool" where
  "network_ok s \<longleftrightarrow>
     (case sm_threads (sy_manager s) of
        None \<Rightarrow> ac_pending (sy_acceptor s) = 0
      | Some ts \<Rightarrow> length ts = 5 \<and> ac_pending (sy_acceptor s) = 1 \<and> \<not> ac_closed (sy_acceptor s) \<and>
          sy_accept_thread s < 5 \<and> (\<forall>t \<in> set ts. \<not> nt_stopped t \<and> nt_timer t \<and> count_ok t) \<and>
          distinct (concat (map thread_sessions ts)) \<and> set (concat (map thread_sessions ts)) \<subseteq> {..<sy_next s})"

definition reads_ok :: "'d system \<Rightarrow> bool" where
  "reads_ok s \<longleftrightarrow> (\<forall>i. if i < sy_next s then sk_reads (w_socks (sy_world s) i) \<le> Suc (sy_done s i) else sy_done s i = 0)"

text \<open>A session that has ended is on no list of a thread and has no read pending.\<close>

definition alive_ok :: "'d system \<Rightarrow> bool" where
  "alive_ok s \<longleftrightarrow> (\<forall>i. sy_dead s i \<longrightarrow> i < sy_next s \<and> sk_reads (w_socks (sy_world s) i) \<le> sy_done s i \<and>
     i \<notin> set (concat (map thread_sessions (system_threads s))))"

text \<open>The players' sessions are accepted ones, and ones that have not ended.\<close>

definition views_ok :: "'d system \<Rightarrow> 'd world \<Rightarrow> bool" where
  "views_ok s w \<longleftrightarrow> world_ok (session_view s) no_locals w \<and> world_ok (live_view s) no_locals w"

definition system_ok :: "'d system \<Rightarrow> bool" where
  "system_ok s \<longleftrightarrow> views_ok s (sy_world s) \<and> \<not> wo_stopped (sy_object s) \<and>
     network_ok s \<and> reads_ok s \<and> alive_ok s"

abbreviation safe :: "'d system res \<Rightarrow> bool" where
  "safe m \<equiv> post known_failure system_ok m"

section \<open>Each step keeps it\<close>

lemma keeps_views:
  assumes "views_ok s w" "\<And>R. world_ok R no_locals w \<Longrightarrow> keeps R no_locals m"
  shows "post known_failure (views_ok s) m"
  unfolding views_ok_def [abs_def] by (rule post_both) (use assms in \<open>auto simp: views_ok_def\<close>)

lemma views_reads:
  assumes "views_ok s w" "i < sy_next s"
  shows "sk_reads (w_socks w i) = sk_reads (w_socks (sy_world s) i)"
  using assms by (auto simp: views_ok_def session_view_def world_ok_def socks_ok_def)

lemma views_same:
  assumes "views_ok s w"
  shows "session_view (s\<lparr>sy_world := w\<rparr>) = session_view s" "live_view (s\<lparr>sy_world := w\<rparr>) = live_view s"
  using views_reads [OF assms] by (auto simp: session_view_def live_view_def)

lemma views_sessions:
  assumes "views_ok s w" "\<And>i. sk_reads (f i) = sk_reads (w_socks w i)"
  shows "views_ok s (w\<lparr>w_socks := f\<rparr>)"
proof -
  have "world_ok R no_locals (w\<lparr>w_socks := f\<rparr>)" if "world_ok R no_locals w" for R
    by (rule world_ok_sessions [OF that]) (simp_all add: assms(2) reads_of [OF that])
  with assms(1) show ?thesis by (simp add: views_ok_def)
qed

text \<open>A step that changes only the world, and starts no read.\<close>

lemma system_ok_world:
  assumes "system_ok s" "views_ok s w"
  shows "system_ok (s\<lparr>sy_world := w\<rparr>)"
proof -
  have "reads_ok (s\<lparr>sy_world := w\<rparr>)"
    using assms views_reads [OF assms(2)] by (simp add: system_ok_def reads_ok_def)
  moreover have "alive_ok (s\<lparr>sy_world := w\<rparr>)"
    using assms(1) views_reads [OF assms(2)] by (auto simp: system_ok_def alive_ok_def system_threads_def)
  ultimately show ?thesis
    using assms views_same [OF assms(2)] by (simp add: system_ok_def views_ok_def network_ok_def split: option.splits)
qed

lemma system_ok_update:
  "system_ok (s\<lparr>sy_pace := p\<rparr>) = system_ok s" "\<not> wo_stopped wo \<Longrightarrow> system_ok s \<Longrightarrow> system_ok (s\<lparr>sy_object := wo\<rparr>)"
proof -
  have "session_view (s\<lparr>sy_pace := p\<rparr>) = session_view s" "session_view (s\<lparr>sy_object := wo\<rparr>) = session_view s"
    "live_view (s\<lparr>sy_pace := p\<rparr>) = live_view s" "live_view (s\<lparr>sy_object := wo\<rparr>) = live_view s"
    by (intro ext, simp add: session_view_def live_view_def)+
  moreover have "network_ok (s\<lparr>sy_pace := p\<rparr>) = network_ok s" "network_ok (s\<lparr>sy_object := wo\<rparr>) = network_ok s"
    by (simp_all add: network_ok_def split: option.split)
  ultimately show "system_ok (s\<lparr>sy_pace := p\<rparr>) = system_ok s"
    "\<not> wo_stopped wo \<Longrightarrow> system_ok s \<Longrightarrow> system_ok (s\<lparr>sy_object := wo\<rparr>)"
    by (simp_all add: system_ok_def views_ok_def reads_ok_def alive_ok_def system_threads_def)
qed

lemma dispatch_safe:
  assumes "system_ok s"
  shows "safe (system_event E (Dispatch now) s)"
proof -
  have "post known_failure (views_ok s) (MessageDispatcher_round E now (sy_world s))"
    using assms by (intro keeps_views [where w = "sy_world s"] round_keeps) (simp_all add: system_ok_def)
  then show ?thesis unfolding system_event.simps
    by (rule post_seq) (simp add: system_ok_world [OF assms])
qed

lemma GetTimeDiff_mild: "mild (GetTimeDiff a b)"
  by (simp add: GetTimeDiff_def)

lemma pace_mild: "mild (WorldUpdateLoop_pace t p)"
  unfolding WorldUpdateLoop_pace_def by (rule post_seq [OF GetTimeDiff_mild]) simp

lemma loop_step_keeps:
  assumes "world_ok R no_locals w" "\<not> wo_stopped wo"
  shows "post known_failure (\<lambda>(p, wo, w). \<not> wo_stopped wo \<and> world_ok R no_locals w) (WorldUpdateLoop_step E now p wo w)"
proof -
  have "post known_failure (\<lambda>(p, wo, w). \<not> wo_stopped wo \<and> world_ok R no_locals w)
    (bind_res (WorldUpdateLoop_pace now p) (\<lambda>p'. Inr (p', wo', w')))"
    if "\<not> wo_stopped wo'" "world_ok R no_locals w'" for wo' w'
    by (rule post_seq [OF pace_mild]) (simp add: that)
  then have "post known_failure (\<lambda>(p, wo, w). \<not> wo_stopped wo \<and> world_ok R no_locals w)
    (bind_res (World_Update E wo w) (\<lambda>(wo', w'). bind_res (WorldUpdateLoop_pace now p) (\<lambda>p'. Inr (p', wo', w'))))"
    using assms by (intro post_seq [OF World_Update_keeps [OF assms(1)]]) (auto simp del: post_bind)
  then have "post known_failure (\<lambda>(p, wo, w). \<not> wo_stopped wo \<and> world_ok R no_locals w)
    (bind_res (GetTimeDiff (pc_prev_time p) now) (\<lambda>_. bind_res (World_Update E wo w) (\<lambda>(wo', w').
        bind_res (WorldUpdateLoop_pace now p) (\<lambda>p'. Inr (p', wo', w')))))"
    by (intro post_seq [OF GetTimeDiff_mild])
  with assms(2) show ?thesis by (simp add: WorldUpdateLoop_step_def World_IsStopped_def del: post_bind)
qed

lemma iterate_safe:
  fixes s :: "'d system"
  assumes "system_ok s"
  shows "safe (system_event E (Iterate now) s)"
proof -
  have w: "world_ok (session_view s) no_locals (sy_world s)" "world_ok (live_view s) no_locals (sy_world s)"
    and run: "\<not> wo_stopped (sy_object s)"
    using assms by (simp_all add: system_ok_def views_ok_def)
  show ?thesis unfolding system_event.simps
  proof (rule post_seq [OF post_both [OF loop_step_keeps [OF w(1) run] loop_step_keeps [OF w(2) run]]], clarify)
    fix p and wo :: world_object and w' :: "'d world"
    assume wo: "\<not> wo_stopped wo" and "world_ok (session_view s) no_locals w'" "world_ok (live_view s) no_locals w'"
    then have "views_ok s w'" by (simp add: views_ok_def)
    from system_ok_update(2) [OF wo system_ok_world [OF assms this]]
    have "system_ok (s\<lparr>sy_world := w', sy_object := wo, sy_pace := p\<rparr>)" by (simp only: system_ok_update(1))
    moreover have "s\<lparr>sy_world := w', sy_object := wo, sy_pace := p\<rparr> = s\<lparr>sy_pace := p, sy_object := wo, sy_world := w'\<rparr>"
      by simp
    ultimately show "safe (Inr (s\<lparr>sy_pace := p, sy_object := wo, sy_world := w'\<rparr>))" by simp
  qed
qed

lemma packet_safe:
  assumes "system_ok s" "enabled (Packet i error buffer) s" "parses_in_class (en_codec E)"
  shows "safe (system_event E (Packet i error buffer) s)"
proof -
  let ?R = "session_view s" and ?V = "live_view s" and ?d = "(sy_done s)(i := Suc (sy_done s i))" and ?n = "sk_reads (w_socks (sy_world s) i)"
  have w: "world_ok ?R no_locals (sy_world s)" "world_ok ?V no_locals (sy_world s)"
    using assms by (simp_all add: system_ok_def views_ok_def)
  have alive: "\<not> sy_dead s i"
    using assms(1,2) by (auto simp: system_ok_def alive_ok_def)
  have i: "i < sy_next s" "?R i = Some ?n" "?V i = Some ?n" "sy_done s i < ?n"
    using assms(2) alive by (simp_all add: session_view_def live_view_def)
  have ready: "?n = Suc (sy_done s i)"
    using assms(1) i by (auto simp: system_ok_def reads_ok_def dest: spec [of _ i])
  have "system_ok (s\<lparr>sy_world := w', sy_done := ?d\<rparr>)" if ans: "answered ?R i w' \<and> answered ?V i w'" for w'
  proof -
    obtain R' where R: "world_ok R' no_locals w'" and R': "R' = ?R \<or> R' = ?R(i \<mapsto> Suc ?n)"
      using ans i(2) unfolding answered_def by fastforce
    obtain V' where V: "world_ok V' no_locals w'" and V': "V' = ?V \<or> V' = ?V(i \<mapsto> Suc ?n)"
      using ans i(3) unfolding answered_def by fastforce
    have reads: "R' j = Some (sk_reads (w_socks w' j))" if "j < sy_next s" for j
    proof -
      have "R' j \<noteq> None" using R' that by (auto simp: session_view_def)
      then show ?thesis using reads_of [OF R, of j] by auto
    qed
    have lives: "V' j = Some (sk_reads (w_socks w' j))" if "j < sy_next s" "\<not> sy_dead s j" for j
    proof -
      have "V' j \<noteq> None" using V' that by (auto simp: live_view_def)
      then show ?thesis using reads_of [OF V, of j] by auto
    qed
    have none: "R' j = None" if "\<not> j < sy_next s" for j using R' that i(1) by (auto simp: session_view_def)
    have dead: "V' j = None" if "\<not> (j < sy_next s \<and> \<not> sy_dead s j)" for j
      using V' that i(1) alive by (auto simp: live_view_def)
    let ?s = "s\<lparr>sy_world := w', sy_done := ?d\<rparr>"
    have view: "session_view ?s = R'" "live_view ?s = V'"
      using reads none lives dead by (auto simp: session_view_def live_view_def fun_eq_iff)
    have same: "sk_reads (w_socks w' j) = sk_reads (w_socks (sy_world s) j)" if "j < sy_next s" "j \<noteq> i" for j
      using R' reads [OF that(1)] that by (auto simp: session_view_def)
    have own: "sk_reads (w_socks w' i) \<le> Suc ?n"
      using R' reads [OF i(1)] i(1) by (auto simp: session_view_def)
    have old: "sk_reads (w_socks (sy_world s) j) \<le> Suc (sy_done s j)" if "j < sy_next s" for j
      using assms(1) that by (simp add: system_ok_def reads_ok_def)
    have le: "sk_reads (w_socks w' j) \<le> Suc (?d j)" if "j < sy_next s" for j
      using own ready same [OF that] old [OF that] by (cases "j = i") simp_all
    have "reads_ok ?s" using assms(1) le i(1) by (auto simp: system_ok_def reads_ok_def)
    moreover have "alive_ok ?s"
      using assms(1) same alive by (auto simp: system_ok_def alive_ok_def system_threads_def)
    ultimately show ?thesis
      using assms(1) R V by (simp add: system_ok_def views_ok_def view network_ok_def split: option.splits)
  qed
  moreover have "post known_failure (\<lambda>w'. answered ?R i w' \<and> answered ?V i w') (InitializeHandler E i error buffer (sy_world s))"
    by (rule post_both; rule InitializeHandler_keeps [OF _ _ assms(3)]) (use w i in auto)
  ultimately show ?thesis by (auto elim: post_conseq)
qed

text \<open>What happens to a connection without a handler of the game.\<close>

lemma sock_event_safe:
  assumes "system_ok s" "\<And>k. sk_reads (f k) = sk_reads k"
  shows "safe (Inr (s\<lparr>sy_world := on_sock i f (sy_world s)\<rparr>))"
proof -
  have "views_ok s (on_sock i f (sy_world s))"
    unfolding on_sock_def using assms by (intro views_sessions) (simp_all add: system_ok_def)
  then show ?thesis using system_ok_world [OF assms(1)] by simp
qed

lemma sent_safe:
  assumes "system_ok s"
  shows "safe (system_event E (Sent i ok) s)"
proof (cases "sk_sending (w_socks (sy_world s) i)")
  case Nil
  have "on_sock i (\<lambda>_. w_socks (sy_world s) i) (sy_world s) = on_sock i (\<lambda>k. k) (sy_world s)" by (simp add: on_sock_def)
  with Nil sock_event_safe [OF assms, of "\<lambda>k. k" i] show ?thesis by (simp add: Socket_sent_def)
next
  case (Cons whole ws)
  let ?k = "(w_socks (sy_world s) i)\<lparr>sk_sending := ws\<rparr>"
  have "on_sock i (\<lambda>_. ?k) (sy_world s) = on_sock i (\<lambda>k. k\<lparr>sk_sending := ws\<rparr>) (sy_world s)" by (simp add: on_sock_def)
  with Cons sock_event_safe [OF assms, of "\<lambda>k. k\<lparr>sk_sending := ws\<rparr>" i] show ?thesis
    by (simp add: Socket_sent_def Socket_OnSend_def)
qed

text \<open>The end of sessions.\<close>

lemma destroy_sessions_post:
  "post known_failure (\<lambda>S'. \<forall>i. sk_reads (S' i) = sk_reads (S i)) (destroy_sessions is S)"
proof (induction "is" arbitrary: S)
  case (Cons i "is")
  show ?case
  proof (cases "sk_connected (S i)")
    case True
    have "post known_failure (\<lambda>S'. \<forall>j. sk_reads (S' j) = sk_reads ((S(i := (S i)\<lparr>sk_is_open := False\<rparr>)) j))
        (destroy_sessions is (S(i := (S i)\<lparr>sk_is_open := False\<rparr>)))" by (rule Cons.IH)
    then show ?thesis
      using True by (auto simp: Socket_destruct_def Socket_GetRemoteEndPoint_def elim!: post_conseq)
  qed (simp add: Socket_destruct_def Socket_GetRemoteEndPoint_def)
qed simp

lemma held_simp:
  "session_held s i \<longleftrightarrow> i \<in> set (concat (map thread_sessions (system_threads s))) \<or>
     sy_done s i < sk_reads (w_socks (sy_world s) i) \<or>
     (\<exists>r e p. r < w_next (sy_world s) \<and> w_heap (sy_world s) r = Some e \<and> e_kind e = KPlayer p \<and> pd_session p = Some i)"
proof -
  have "(case w_heap w r of None \<Rightarrow> False | Some e \<Rightarrow> (case e_kind e of KPlayer p \<Rightarrow> pd_session p = Some i | _ \<Rightarrow> False)) \<longleftrightarrow>
      (\<exists>e p. w_heap w r = Some e \<and> e_kind e = KPlayer p \<and> pd_session p = Some i)" for w :: "'a world" and r
    by (auto split: option.splits entity_kind.splits)
  then show ?thesis
    unfolding session_held_def Let_def thread_sessions_def [abs_def, symmetric] Bex_def set_upt atLeastLessThan_iff
    by blast
qed

lemma release_safe:
  assumes "system_ok s'" "sy_next s \<le> sy_next s'"
  shows "safe (release_sessions s s')"
  unfolding release_sessions_def
proof (rule post_seq [OF destroy_sessions_post])
  fix S :: socks assume S: "\<forall>i. sk_reads (S i) = sk_reads (w_socks (sy_world s') i)"
  let ?w = "(sy_world s')\<lparr>w_socks := S\<rparr>"
  let ?s = "s'\<lparr>sy_world := ?w, sy_dead := (\<lambda>i. sy_dead s' i \<or> i \<in> set (lost_sessions s s'))\<rparr>"
  have lost: "i \<in> set (lost_sessions s s') \<Longrightarrow> i < sy_next s' \<and> \<not> session_held s' i" for i
    using assms(2) by (auto simp: lost_sessions_def)
  have w: "world_ok (session_view s') no_locals (sy_world s')" "world_ok (live_view s') no_locals (sy_world s')"
    using assms(1) by (simp_all add: system_ok_def views_ok_def)
  have "session_view ?s = session_view s'" by (intro ext) (simp add: session_view_def S)
  moreover have "world_ok (session_view s') no_locals ?w"
    using S by (intro world_ok_sessions [OF w(1)]) (auto simp: reads_of [OF w(1)])
  ultimately have 1: "world_ok (session_view ?s) no_locals ?w" by simp
  have 2: "world_ok (live_view ?s) no_locals ?w"
  proof (rule world_ok_fewer [OF w(2)])
    fix r e p i
    assume e: "w_heap (sy_world s') r = Some e" "e_kind e = KPlayer p" "pd_session p = Some i"
    have "r < w_next (sy_world s')" using w(2) e(1) by (auto simp: world_ok_def heap_ok_def)
    with e have "session_held s' i" unfolding held_simp by blast
    moreover have "live_view s' i \<noteq> None"
      using world_okD(1) [OF w(2) e(1)] e(2,3) by (auto simp: entity_ok_def)
    ultimately show "live_view ?s i \<noteq> None" using lost by (auto simp: live_view_def split: if_splits)
  qed (auto simp: live_view_def split: if_splits)
  have "alive_ok ?s"
    unfolding alive_ok_def
  proof (intro allI impI)
    fix i assume "sy_dead ?s i"
    then have "i < sy_next s' \<and> sk_reads (w_socks (sy_world s') i) \<le> sy_done s' i \<and>
        i \<notin> set (concat (map thread_sessions (system_threads s')))"
      using assms(1) lost [of i] unfolding held_simp not_less [symmetric]
      by (auto simp: system_ok_def alive_ok_def not_less simp del: set_concat)
    then show "i < sy_next ?s \<and> sk_reads (w_socks (sy_world ?s) i) \<le> sy_done ?s i \<and>
        i \<notin> set (concat (map thread_sessions (system_threads ?s)))"
      using S by (simp add: system_threads_def)
  qed
  moreover have "reads_ok ?s" using assms(1) S by (simp add: system_ok_def reads_ok_def)
  ultimately show "safe (Inr ?s)"
    using assms(1) 1 2 by (simp add: system_ok_def views_ok_def network_ok_def split: option.splits)
qed

lemma release_none:
  assumes "\<And>i. i < sy_next s \<Longrightarrow> session_held s' i"
  shows "release_sessions s s' = Inr s'"
proof -
  have "lost_sessions s s' = []" using assms by (simp add: lost_sessions_def filter_empty_conv)
  then show ?thesis by (simp add: release_sessions_def)
qed

text \<open>The network threads.\<close>

lemma sweep_all: "sweep (\<lambda>_. True) is S n = (is, S, n)"
  by (induction "is") simp_all

lemma tick_eq:
  "\<not> nt_stopped t \<Longrightarrow> NetworkThread_Update (\<lambda>_. True) S t = (S, NetworkThread_AddSockets S (t\<lparr>nt_timer := True\<rparr>))"
  by (simp add: NetworkThread_Update_def sweep_all Let_def)

lemma mset_concat_update:
  "k < length ts \<Longrightarrow> mset (f t) \<subseteq># mset (f (ts ! k)) + M \<Longrightarrow>
     mset (concat (map f (ts[k := t]))) \<subseteq># mset (concat (map f ts)) + M"
proof (induction ts arbitrary: k)
  case (Cons u ts)
  show ?case
  proof (cases k)
    case 0
    with Cons.prems show ?thesis by (simp add: union_assoc union_commute [of _ M] flip: union_assoc)
  next
    case (Suc j)
    with Cons show ?thesis by (simp add: union_assoc)
  qed
qed simp

lemma distinct_submset:
  assumes "distinct ys" "mset xs \<subseteq># mset ys"
  shows "distinct xs"
  unfolding distinct_count_atmost_1
proof
  fix a
  have le: "count (mset xs) a \<le> count (mset ys) a" by (rule mset_subset_eq_count [OF assms(2)])
  have "count (mset ys) a \<le> 1" using assms(1) by (simp add: distinct_count_atmost_1)
  with le show "count (mset xs) a = (if a \<in> set xs then 1 else 0)"
    by (metis One_nat_def Suc_leI count_greater_zero_iff le_antisym le_trans not_gr_zero set_mset_mset)
qed

lemma AddSockets_thread:
  fixes S :: socks
  assumes "count_ok t" "\<not> nt_stopped t"
  defines "t' \<equiv> NetworkThread_AddSockets S (t\<lparr>nt_timer := True\<rparr>)"
  shows "count_ok t'" "\<not> nt_stopped t'" "nt_timer t'" "mset (thread_sessions t') \<subseteq># mset (thread_sessions t)"
proof -
  have ok: "count_ok (t\<lparr>nt_timer := True\<rparr>)" using assms(1) by (simp add: count_ok_def)
  show "count_ok t'" "\<not> nt_stopped t'" "nt_timer t'" "mset (thread_sessions t') \<subseteq># mset (thread_sessions t)"
    unfolding t'_def AddSockets_eq [OF ok]
    using assms(2) by (simp_all add: count_ok_def thread_sessions_def multiset_filter_subset)
qed

lemma update_each_keeps: "world_ok R L w \<Longrightarrow> keeps R L (update_each is w)"
proof (induction "is" arbitrary: w)
  case (Cons i "is")
  have "keeps R L (bind_res (WorldSession_Update w) (\<lambda>(_, w'). update_each is w'))"
    by (rule post_seq [OF WorldSession_Update_keeps [OF Cons.prems]]) (auto intro: Cons.IH)
  then show ?case by simp
qed simp

lemma tick_safe:
  fixes s :: "'d system"
  assumes "system_ok s" "enabled (Tick k) s"
  shows "safe (system_event E (Tick k) s)"
proof -
  have w: "views_ok s (sy_world s)" using assms by (simp add: system_ok_def)
  let ?t = "system_threads s ! k" and ?S = "w_socks (sy_world s)"
  let ?t' = "NetworkThread_AddSockets ?S (?t\<lparr>nt_timer := True\<rparr>)"
  obtain ts where ts: "sm_threads (sy_manager s) = Some ts" "system_threads s = ts" and k: "k < length ts"
    using assms(2) by (cases "sm_threads (sy_manager s)") (simp_all add: system_threads_def)
  have net: "length ts = 5" "ac_pending (sy_acceptor s) = 1" "\<not> ac_closed (sy_acceptor s)" "sy_accept_thread s < 5"
    "\<forall>t \<in> set ts. \<not> nt_stopped t \<and> nt_timer t \<and> count_ok t" "distinct (concat (map thread_sessions ts))"
    "set (concat (map thread_sessions ts)) \<subseteq> {..<sy_next s}"
    using assms(1) ts(1) by (simp_all add: system_ok_def network_ok_def)
  have t: "count_ok ?t" "\<not> nt_stopped ?t" using net(5) k ts(2) by simp_all
  note t' = AddSockets_thread [OF t, of ?S]
  let ?ts' = "ts[k := ?t']"
  have sub: "mset (concat (map thread_sessions ?ts')) \<subseteq># mset (concat (map thread_sessions ts))"
    using mset_concat_update [OF k, of thread_sessions ?t' "{#}"] t'(4) ts(2) by simp
  have net': "\<forall>t \<in> set ?ts'. \<not> nt_stopped t \<and> nt_timer t \<and> count_ok t"
    using net(5) t'(1-3) by (auto dest!: set_update_subset_insert [THEN subsetD])
  let ?s = "s\<lparr>sy_manager := (sy_manager s)\<lparr>sm_threads := Some ?ts'\<rparr>\<rparr>"
  have same: "session_view ?s = session_view s" "live_view ?s = live_view s"
    by (intro ext, simp add: session_view_def live_view_def)+
  then have view: "views_ok ?s = views_ok s" unfolding views_ok_def [abs_def] by simp
  have "alive_ok ?s"
    using assms(1) ts set_mset_mono [OF sub] by (auto simp: system_ok_def alive_ok_def system_threads_def)
  moreover have "network_ok ?s"
    using net net' distinct_submset [OF net(6) sub] set_mset_mono [OF sub] by (auto simp: network_ok_def)
  moreover have "reads_ok ?s" using assms(1) by (simp add: system_ok_def reads_ok_def)
  ultimately have ok: "system_ok ?s" using assms(1) by (simp add: system_ok_def view)
  have upd: "post known_failure (views_ok s) (update_each is (sy_world s))" for "is"
    by (rule keeps_views [OF w]) (rule update_each_keeps)
  have "safe (bind_res (update_each is (sy_world s)) (\<lambda>w'.
      Inr (s\<lparr>sy_world := w', sy_manager := (sy_manager s)\<lparr>sm_threads := Some ?ts'\<rparr>\<rparr>)))" for "is"
  proof (rule post_seq [OF upd])
    fix w' :: "'d world" assume "views_ok s w'"
    then have "system_ok (?s\<lparr>sy_world := w'\<rparr>)" by (intro system_ok_world [OF ok]) (simp add: view)
    moreover have "?s\<lparr>sy_world := w'\<rparr> = s\<lparr>sy_world := w', sy_manager := (sy_manager s)\<lparr>sm_threads := Some ?ts'\<rparr>\<rparr>" by simp
    ultimately show "safe (Inr (s\<lparr>sy_world := w', sy_manager := (sy_manager s)\<lparr>sm_threads := Some ?ts'\<rparr>\<rparr>))" by simp
  qed
  then show ?thesis using t(2) by (simp add: system_tick_def tick_eq ts(2) Let_def del: post_bind)
qed

lemma AddSocket_thread:
  "count_ok t \<Longrightarrow> count_ok (NetworkThread_AddSocket i t)"
  "nt_stopped (NetworkThread_AddSocket i t) = nt_stopped t" "nt_timer (NetworkThread_AddSocket i t) = nt_timer t"
  "mset (thread_sessions (NetworkThread_AddSocket i t)) = mset (thread_sessions t) + {#i#}"
  by (simp_all add: NetworkThread_AddSocket_def count_ok_def to_int32_pm1 algebra_simps thread_sessions_def)

text \<open>An accept that completes, and the one started after it.\<close>

definition accept_result :: "accepted \<Rightarrow> 'd system \<Rightarrow> net_thread list \<Rightarrow> socks \<times> net_thread list" where
  "accept_result outcome s ts =
     (case outcome of
        Accept_ok connected \<Rightarrow>
          ((w_socks (sy_world s))(sy_next s := Socket_AsyncReceive (Socket_init connected)),
           ts[sy_accept_thread s := NetworkThread_AddSocket (sy_next s) (ts ! sy_accept_thread s)])
      | _ \<Rightarrow> (w_socks (sy_world s), ts))"

lemma system_accept_eq:
  assumes "system_ok s" "sm_threads (sy_manager s) = Some ts"
  shows "system_accept outcome s = Inr (s\<lparr>sy_world := (sy_world s)\<lparr>w_socks := fst (accept_result outcome s ts)\<rparr>,
    sy_accept_thread := SelectThreadWithMinConnections (snd (accept_result outcome s ts)),
    sy_manager := (sy_manager s)\<lparr>sm_threads := Some (snd (accept_result outcome s ts))\<rparr>,
    sy_next := (case outcome of Accept_ok _ \<Rightarrow> Suc (sy_next s) | _ \<Rightarrow> sy_next s)\<rparr>)"
proof -
  have net: "length ts = 5" "ac_pending (sy_acceptor s) = 1" "\<not> ac_closed (sy_acceptor s)" "sy_accept_thread s < 5"
    using assms by (simp_all add: system_ok_def network_ok_def)
  have "ts \<noteq> []" using net(1) by auto
  moreover have "(sy_acceptor s)\<lparr>ac_pending := Suc 0\<rparr> = sy_acceptor s" using net(2) by simp
  ultimately show ?thesis using net assms(2)
    by (cases outcome) (simp_all add: system_accept_def system_threads_def AsyncAcceptor_OnAccept_def swallow_def
      WorldSessionManager_OnSocketAccept_def SocketManager_OnSocketOpen_def SocketManager_GetSocketForAccept_def
      AsyncAcceptor_AsyncAcceptWithCallback_def accept_result_def Let_def)
qed

lemma accept_lists:
  assumes "accept_result outcome s ts = (S', ts')" "sy_accept_thread s < length ts"
  shows "set (concat (map thread_sessions ts')) \<subseteq> insert (sy_next s) (set (concat (map thread_sessions ts)))"
proof (cases outcome)
  case (Accept_ok c)
  let ?u = "NetworkThread_AddSocket (sy_next s) (ts ! sy_accept_thread s)"
  have "mset (concat (map thread_sessions (ts[sy_accept_thread s := ?u]))) \<subseteq># mset (sy_next s # concat (map thread_sessions ts))"
    using mset_concat_update [OF assms(2), of thread_sessions ?u "{#sy_next s#}"] by (simp add: AddSocket_thread)
  from set_mset_mono [OF this] Accept_ok assms(1) show ?thesis
    by (auto simp: accept_result_def simp del: set_concat)
qed (use assms in \<open>auto simp: accept_result_def\<close>)

lemma accept_safe:
  fixes s :: "'d system"
  assumes "system_ok s" "enabled (Accepted outcome) s"
  shows "safe (system_event E (Accepted outcome) s)"
proof -
  have w: "world_ok (session_view s) no_locals (sy_world s)" "world_ok (live_view s) no_locals (sy_world s)"
    using assms by (simp_all add: system_ok_def views_ok_def)
  obtain ts where ts: "sm_threads (sy_manager s) = Some ts"
    using assms by (cases "sm_threads (sy_manager s)") (simp_all add: system_ok_def network_ok_def)
  have net: "length ts = 5" "ac_pending (sy_acceptor s) = 1" "\<not> ac_closed (sy_acceptor s)" "sy_accept_thread s < 5"
    "\<forall>t \<in> set ts. \<not> nt_stopped t \<and> nt_timer t \<and> count_ok t" "distinct (concat (map thread_sessions ts))"
    "set (concat (map thread_sessions ts)) \<subseteq> {..<sy_next s}"
    using assms(1) ts(1) by (simp_all add: system_ok_def network_ok_def)
  obtain S' ts' where res: "accept_result outcome s ts = (S', ts')" by (rule prod.exhaust)
  define n' where "n' = (case outcome of Accept_ok _ \<Rightarrow> Suc (sy_next s) | _ \<Rightarrow> sy_next s)"
  let ?s = "s\<lparr>sy_world := (sy_world s)\<lparr>w_socks := S'\<rparr>, sy_accept_thread := SelectThreadWithMinConnections ts',
    sy_manager := (sy_manager s)\<lparr>sm_threads := Some ts'\<rparr>, sy_next := n'\<rparr>"
  have reads: "i < sy_next s \<Longrightarrow> sk_reads (S' i) = sk_reads (w_socks (sy_world s) i)"
    and fresh: "i < n' \<Longrightarrow> i < sy_next s \<or> i = sy_next s \<and> sk_reads (S' i) = 1" and grows: "sy_next s \<le> n'" for i
    using res by (auto simp: accept_result_def n'_def Socket_AsyncReceive_def Socket_init_def split: accepted.splits)
  have len: "length ts' = 5" using res net(1) by (auto simp: accept_result_def split: accepted.splits)
  have thr: "\<forall>t \<in> set ts'. \<not> nt_stopped t \<and> nt_timer t \<and> count_ok t"
    using res net by (auto simp: accept_result_def AddSocket_thread split: accepted.splits
        dest!: set_update_subset_insert [THEN subsetD])
  have dis: "distinct (concat (map thread_sessions ts')) \<and> set (concat (map thread_sessions ts')) \<subseteq> {..<n'}"
  proof (cases outcome)
    case (Accept_ok c)
    let ?u = "NetworkThread_AddSocket (sy_next s) (ts ! sy_accept_thread s)"
    have ts': "ts' = ts[sy_accept_thread s := ?u]" and n': "n' = Suc (sy_next s)"
      using res Accept_ok by (auto simp: accept_result_def n'_def)
    have sub: "mset (concat (map thread_sessions ts')) \<subseteq># mset (sy_next s # concat (map thread_sessions ts))"
      using mset_concat_update [of "sy_accept_thread s" ts thread_sessions ?u "{#sy_next s#}"] net(1,4)
      by (simp add: ts' AddSocket_thread)
    have "distinct (sy_next s # concat (map thread_sessions ts))" using net(6,7) by auto
    from distinct_submset [OF this sub] show ?thesis
    proof
      have "set (concat (map thread_sessions ts')) \<subseteq> insert (sy_next s) {..<sy_next s}"
        using set_mset_mono [OF sub] net(7) by (simp only: set_mset_mset) auto
      then show "set (concat (map thread_sessions ts')) \<subseteq> {..<n'}" by (simp only: n' lessThan_Suc)
    qed
  qed (use res net in \<open>auto simp: accept_result_def n'_def\<close>)
  have threads: "i \<in> set (concat (map thread_sessions ts')) \<Longrightarrow> i < sy_next s \<Longrightarrow> i \<in> set (concat (map thread_sessions ts))" for i
  proof -
    assume i: "i \<in> set (concat (map thread_sessions ts'))" "i < sy_next s"
    have "sy_accept_thread s < length ts" using net(1,4) by simp
    from subsetD [OF accept_lists [OF res this] i(1)] i(2) show ?thesis by blast
  qed
  have "SelectThreadWithMinConnections ts' < 5" using select_thread_spec [of ts'] len by fastforce
  then have "network_ok ?s" using net len thr dis by (simp add: network_ok_def)
  moreover have "reads_ok ?s"
    unfolding reads_ok_def
  proof
    fix i
    have old: "if i < sy_next s then sk_reads (w_socks (sy_world s) i) \<le> Suc (sy_done s i) else sy_done s i = 0"
      using assms(1) by (simp add: system_ok_def reads_ok_def)
    show "if i < sy_next ?s then sk_reads (w_socks (sy_world ?s) i) \<le> Suc (sy_done ?s i) else sy_done ?s i = 0"
      using old reads [of i] fresh [of i] grows by auto
  qed
  moreover have "world_ok (session_view ?s) no_locals (sy_world ?s)" "world_ok (live_view ?s) no_locals (sy_world ?s)"
  proof -
    have "world_ok (session_view ?s) no_locals ((sy_world s)\<lparr>w_socks := S'\<rparr>)"
      using grows by (intro world_ok_sessions [OF w(1)]) (auto simp: session_view_def split: if_splits)
    then show "world_ok (session_view ?s) no_locals (sy_world ?s)" by simp
    have "world_ok (live_view ?s) no_locals ((sy_world s)\<lparr>w_socks := S'\<rparr>)"
      using grows by (intro world_ok_sessions [OF w(2)]) (auto simp: live_view_def split: if_splits)
    then show "world_ok (live_view ?s) no_locals (sy_world ?s)" by simp
  qed
  moreover have "alive_ok ?s"
    unfolding alive_ok_def
  proof (intro allI impI)
    fix i assume dead: "sy_dead ?s i"
    then have i: "i < sy_next s" "sk_reads (w_socks (sy_world s) i) \<le> sy_done s i" "i \<notin> set (concat (map thread_sessions ts))"
      using assms(1) ts by (auto simp: system_ok_def alive_ok_def system_threads_def)
    then have "i \<notin> set (concat (map thread_sessions ts'))" using threads by blast
    then show "i < sy_next ?s \<and> sk_reads (w_socks (sy_world ?s) i) \<le> sy_done ?s i \<and>
        i \<notin> set (concat (map thread_sessions (system_threads ?s)))"
      using i(1,2) grows reads by (simp add: system_threads_def)
  qed
  ultimately have "system_ok ?s" using assms(1) by (simp add: system_ok_def views_ok_def)
  then show ?thesis using system_accept_eq [OF assms(1) ts, of outcome] res by (simp add: n'_def)
qed

lemma event_safe:
  assumes "system_ok s" "enabled ev s" "parses_in_class (en_codec E)"
  shows "safe (system_event E ev s)"
proof (cases ev)
  case (Accepted outcome)
  with accept_safe assms show ?thesis by blast
next
  case (Tick k)
  with tick_safe assms show ?thesis by blast
next
  case (Packet i error buffer)
  with packet_safe assms show ?thesis by blast
next
  case (Disconnect i)
  with sock_event_safe [OF assms(1)] show ?thesis by simp
next
  case (Drained i n)
  with sock_event_safe [OF assms(1)] show ?thesis by simp
qed (use dispatch_safe iterate_safe sent_safe assms in blast)+

lemma system_event_next: "system_event E ev s = Inr s' \<Longrightarrow> sy_next s \<le> sy_next s'"
  by (cases ev) (auto simp: system_accept_def system_tick_def Let_def bind_res_Inr_iff split: prod.splits accepted.splits)

lemma step_safe:
  assumes "system_ok s" "enabled ev s" "parses_in_class (en_codec E)"
  shows "safe (system_step E ev s)"
proof (cases "system_event E ev s")
  case (Inl e)
  with event_safe [OF assms] show ?thesis by (simp add: system_step_def)
next
  case (Inr s')
  with event_safe [OF assms] release_safe [OF _ system_event_next [OF Inr]] show ?thesis
    by (simp add: system_step_def)
qed

section \<open>The start\<close>

definition started_threads :: "net_thread list" where
  "started_threads = replicate 5 (snd (NetworkThread_Start NetworkThread_init))"

lemma StartNetwork_eq:
  "WorldSessionManager_StartNetwork bound 5 AsyncAcceptor_init SocketManager_init =
    (if bound then Inr (True, AsyncAcceptor_init\<lparr>ac_pending := 1\<rparr>,
       SocketManager_init\<lparr>sm_acceptor := True, sm_thread_count := 5, sm_threads := Some started_threads\<rparr>)
     else Inr (False, AsyncAcceptor_init, SocketManager_init))"
  by (simp add: WorldSessionManager_StartNetwork_def SocketManager_StartNetwork_def WorldSessionManager_CreateThreads_def
      AsyncAcceptor_AsyncAcceptWithCallback_def SocketManager_GetSocketForAccept_def AsyncAcceptor_init_def started_threads_def)

lemma started_threads_ok:
  "\<forall>t \<in> set started_threads. \<not> nt_stopped t \<and> nt_timer t \<and> count_ok t"
  "concat (map thread_sessions started_threads) = []" "length started_threads = 5"
  by (simp_all add: started_threads_def count_ok_def NetworkThread_Start_def NetworkThread_init_def to_int32_def thread_sessions_def)

lemma system_start_ok:
  assumes "world_empty w" "boot_ok b" "system_start E b bound t0 w = Inr (Some s)"
  shows "system_ok s"
proof -
  obtain w1 where w1: "World_Load E b w = Inr (True, w1)"
    using assms(3) by (auto simp: system_start_def bind_res_Inr_iff split: if_splits)
  note ok = World_Load_ok [OF assms(1,2) w1]
  have "started_threads \<noteq> []" using started_threads_ok(3) by auto
  then have sel: "SelectThreadWithMinConnections started_threads < 5"
    using select_thread_spec started_threads_ok(3) by fastforce
  have s: "sy_world s = w1" "sy_object s = World_init" "sy_next s = 0" "sy_done s = (\<lambda>_. 0)" "sy_dead s = (\<lambda>_. False)"
    using assms(3) w1 by (auto simp: system_start_def StartNetwork_eq split: if_splits)
  have "network_ok s"
  proof (cases bound)
    case True
    then have "sm_threads (sy_manager s) = Some started_threads" "sy_acceptor s = AsyncAcceptor_init\<lparr>ac_pending := 1\<rparr>"
      "sy_accept_thread s = SelectThreadWithMinConnections started_threads"
      using assms(3) w1 by (auto simp: system_start_def StartNetwork_eq)
    then show ?thesis using started_threads_ok(1,3) sel
      by (simp add: network_ok_def AsyncAcceptor_init_def started_threads_ok(2) del: set_concat)
  next
    case False
    then have "sm_threads (sy_manager s) = None" "sy_acceptor s = AsyncAcceptor_init"
      using assms(3) w1 by (auto simp: system_start_def StartNetwork_eq) (simp add: SocketManager_init_def)
    then show ?thesis by (simp add: network_ok_def AsyncAcceptor_init_def)
  qed
  moreover have "session_view s = Map.empty" "live_view s = Map.empty"
    by (intro ext, simp add: session_view_def live_view_def s)+
  ultimately show ?thesis using ok s by (simp add: system_ok_def views_ok_def alive_ok_def reads_ok_def World_init_def)
qed

lemma reach_ok: "system_reach C s \<Longrightarrow> parses_in_class C \<Longrightarrow> system_ok s"
proof (induction rule: system_reach.induct)
  case (start w b E bound t0 s)
  then show ?case by (intro system_start_ok)
next
  case (step s E ev s')
  with step_safe [of s ev E] show ?case by simp
qed

lemma Load_code: "Player_Load E r w = Inr (rc, w') \<Longrightarrow> rc = 0"
  by (cases "deref_player r w") (auto simp: Player_Load_def Let_def split: prod.splits if_splits)

lemma reach_worldD:
  assumes "system_reach C s" "parses_in_class C"
  shows "world_ok (session_view s) no_locals (sy_world s)" "network_ok s" "reads_ok s"
  using reach_ok [OF assms] by (simp_all add: system_ok_def views_ok_def)

section \<open>A small run\<close>

text \<open>
  For the witnesses: the repository's protocol file, no assets, and a codec that reads every packet as an
  empty message of type \<open>ty\<close>.
\<close>

definition demo_proto :: "string \<Rightarrow> proto_msg" where
  "demo_proto name =
     (if name = ''Login'' then PM_Login None else if name = ''EnterGame'' then PM_EnterGame None None
      else if name = ''EnterScene'' then PM_EnterScene None else if name = ''Move'' then PM_Move None
      else PM_CreatePlayer)"

definition demo_boot :: boot where
  "demo_boot = \<lparr>bt_pool = Some (\<lambda>n. if n = ''P_Protocol.proto'' then Some P_Protocol_file
       else if n = ''P_Asset.proto'' then Some \<lparr>fd_enums = [''ASSET_TYPE''], fd_messages = []\<rparr> else None),
     bt_proto = demo_proto, bt_asset = (\<lambda>_. AM_Plant None), bt_parse = (\<lambda>_ _. AM_Plant None), bt_root = None\<rparr>"

abbreviation demo_reading :: "meta_type \<Rightarrow> codec" where
  "demo_reading ty \<equiv> en_codec (demo_session_env ty)"

lemma demo_reading_class: "parses_in_class (demo_reading ty)"
  by (simp add: parses_in_class_def demo_session_env_def demo_env_def demo_codec_def)

lemma demo_boot_ok: "boot_ok demo_boot" "world_empty demo_world"
  by (simp_all add: boot_ok_def demo_boot_def demo_proto_def world_empty_def demo_world_def)

lemma demo_load:
  "\<exists>w. World_Load (demo_session_env ty) demo_boot demo_world = Inr (True, w) \<and> w_player w = None \<and> w_heap w = Map.empty \<and>
     w_protos w = [2 \<mapsto> PM_Login None, 4 \<mapsto> PM_CreatePlayer, 5 \<mapsto> PM_EnterGame None None, 6 \<mapsto> PM_EnterScene None, 7 \<mapsto> PM_Move None]"
proof -
  have "ProtocolManager_Load (bt_proto demo_boot) (bt_pool demo_boot) (w_protos demo_world) =
    Inr (True, [2 \<mapsto> PM_Login None, 4 \<mapsto> PM_CreatePlayer, 5 \<mapsto> PM_EnterGame None None, 6 \<mapsto> PM_EnterScene None, 7 \<mapsto> PM_Move None])"
    using ProtocolManager_Load_own_file [of "the (bt_pool demo_boot)" demo_proto]
    by (simp add: demo_boot_def demo_world_def) (simp add: demo_proto_def)
  then show ?thesis
    by (simp add: World_Load_def AssetManager_Load_def FindEnumTypeByName_def AssetManager_init_def
        AssetManager_GetMessagesByType_def SceneManager_Load_def HosterManager_Load_def)
      (simp add: demo_boot_def demo_world_def demo_env_def demo_session_env_def AssetManager_init_def
        SceneManager_Load_def HosterManager_Load_def AssetManager_GetMessagesByType_def)
qed

text \<open>The first session goes to the first thread.\<close>

definition demo_thread :: net_thread where
  "demo_thread = NetworkThread_AddSocket 0 (snd (NetworkThread_Start NetworkThread_init))"

definition demo_at :: "meta_type \<Rightarrow> nat \<Rightarrow> mem_db system \<Rightarrow> bool" where
  "demo_at ty n s \<longleftrightarrow> system_reach (demo_reading ty) s \<and> sy_next s = n \<and> sy_done s 0 = 0 \<and>
     w_player (sy_world s) = None \<and> sm_threads (sy_manager s) \<noteq> None \<and>
     system_threads s = (if n = 0 then started_threads else started_threads[0 := demo_thread]) \<and>
     (n = 0 \<longrightarrow> sy_accept_thread s = 0) \<and> w_heap (sy_world s) = Map.empty \<and> sy_dead s = (\<lambda>_. False) \<and>
     w_protos (sy_world s) =
       [2 \<mapsto> PM_Login None, 4 \<mapsto> PM_CreatePlayer, 5 \<mapsto> PM_EnterGame None None, 6 \<mapsto> PM_EnterScene None, 7 \<mapsto> PM_Move None]"

lemma demo_listed: "demo_at ty 1 s \<Longrightarrow> thread_sessions (system_threads s ! 0) = [0] \<and> 0 < length (system_threads s)"
  by (simp add: demo_at_def started_threads_def demo_thread_def thread_sessions_def NetworkThread_AddSocket_def
      NetworkThread_Start_def NetworkThread_init_def)

lemma demo_held:
  assumes "demo_at ty 1 s" "system_threads s' = system_threads s"
  shows "i < sy_next s \<Longrightarrow> session_held s' i"
proof -
  assume "i < sy_next s"
  then have "i = 0" using assms(1) by (simp add: demo_at_def)
  have "system_threads s ! 0 \<in> set (system_threads s)" using demo_listed [OF assms(1)] by (intro nth_mem) blast
  then have "0 \<in> set (concat (map thread_sessions (system_threads s)))" 
  proof -
    have "0 \<in> set (thread_sessions (system_threads s ! 0))" using demo_listed [OF assms(1)] by simp
    with \<open>system_threads s ! 0 \<in> set (system_threads s)\<close> show ?thesis
      unfolding set_concat set_map by blast
  qed
  with \<open>i = 0\<close> assms(2) show "session_held s' i" by (simp add: held_simp del: set_concat)
qed

lemma select_started: "SelectThreadWithMinConnections started_threads = 0"
  by (simp add: SelectThreadWithMinConnections_def started_threads_def NetworkThread_GetConnectionCount_def
      NetworkThread_Start_def NetworkThread_init_def eval_nat_numeral)

lemma demo_started: "\<exists>s. demo_at ty 0 s"
proof -
  obtain w where w: "World_Load (demo_session_env ty) demo_boot demo_world = Inr (True, w)" "w_player w = None" "w_heap w = Map.empty"
    "w_protos w = [2 \<mapsto> PM_Login None, 4 \<mapsto> PM_CreatePlayer, 5 \<mapsto> PM_EnterGame None None, 6 \<mapsto> PM_EnterScene None, 7 \<mapsto> PM_Move None]"
    using demo_load by blast
  obtain s where s: "system_start (demo_session_env ty) demo_boot True 0 demo_world = Inr (Some s)"
    "sy_next s = 0" "sy_done s 0 = 0" "sy_world s = w" "sm_threads (sy_manager s) \<noteq> None"
    "system_threads s = started_threads" "sy_accept_thread s = 0" "sy_dead s = (\<lambda>_. False)"
    using w(1) by (simp add: system_start_def StartNetwork_eq select_started system_threads_def)
  from system_reach.start [OF demo_boot_ok(2,1) refl s(1)] s w show ?thesis
    by (auto simp: demo_at_def)
qed

lemma demo_connected: "\<exists>s. demo_at ty 1 s \<and> w_socks (sy_world s) 0 = Socket_AsyncReceive (Socket_init True)"
proof -
  obtain s where s: "demo_at ty 0 s" using demo_started by blast
  then have r: "system_reach (demo_reading ty) s" by (simp add: demo_at_def)
  have ok: "system_ok s" by (rule reach_ok [OF r demo_reading_class])
  obtain ts where ts: "sm_threads (sy_manager s) = Some ts" using s by (auto simp: demo_at_def)
  have en: "enabled (Accepted (Accept_ok True)) s" using ok ts by (simp add: system_ok_def network_ok_def)
  have thr: "ts = started_threads" "sy_accept_thread s = 0" "sy_next s = 0" "w_heap (sy_world s) = Map.empty" "sy_dead s = (\<lambda>_. False)"
    using s ts by (simp_all add: demo_at_def system_threads_def)
  have "started_threads ! 0 = snd (NetworkThread_Start NetworkThread_init)" by (simp add: started_threads_def)
  then obtain s' where e: "system_event (demo_session_env ty) (Accepted (Accept_ok True)) s = Inr s'"
    "sy_next s' = 1" "sy_done s' 0 = 0" "w_player (sy_world s') = None" "sm_threads (sy_manager s') \<noteq> None"
    "system_threads s' = started_threads[0 := demo_thread]" "w_heap (sy_world s') = Map.empty" "sy_dead s' = (\<lambda>_. False)"
    "w_protos (sy_world s') = w_protos (sy_world s)" "w_socks (sy_world s') 0 = Socket_AsyncReceive (Socket_init True)"
    using system_accept_eq [OF ok ts, of "Accept_ok True"] s thr
    by (simp add: demo_at_def accept_result_def system_threads_def demo_thread_def)
  have "release_sessions s s' = Inr s'" using thr(3) by (intro release_none) simp
  with e(1) have s': "system_step (demo_session_env ty) (Accepted (Accept_ok True)) s = Inr s'" by (simp add: system_step_def)
  from system_reach.step [OF r refl en s'] s e show ?thesis by (auto simp: demo_at_def)
qed

lemma demo_packet: "demo_at ty 1 s \<Longrightarrow> w_socks (sy_world s) 0 = Socket_AsyncReceive (Socket_init True) \<Longrightarrow> enabled (Packet 0 e b) s"
  by (simp add: demo_at_def Socket_AsyncReceive_def Socket_init_def)

lemma demo_enters:
  assumes "demo_at META_TYPE_C2S_ENTER_GAME 1 s" "w_socks (sy_world s) 0 = Socket_AsyncReceive (Socket_init True)"
  shows "\<exists>s'. system_step (demo_session_env META_TYPE_C2S_ENTER_GAME) (Packet 0 False []) s = Inr s' \<and>
    w_player (sy_world s') \<noteq> None"
proof -
  let ?E = "demo_session_env META_TYPE_C2S_ENTER_GAME" and ?ty = "META_TYPE_C2S_ENTER_GAME"
  have rc: "received ?E (sy_world s) [] ?ty (PM_EnterGame None None)"
    using assms(1) by (simp add: demo_at_def received_def demo_session_env_def demo_env_def demo_codec_def Meta_type_t_def Meta_stuff_def)
  have con: "sk_connected (w_socks (sy_world s) 0)" using assms(2) by (simp add: Socket_AsyncReceive_def Socket_init_def)
  have none: "w_player (after_parse ?E 0 ?ty (PM_EnterGame None None) (sy_world s)) = None"
    using assms(1) by (simp add: demo_at_def after_parse_def Let_def)
  obtain r w1 where g: "set_g_player 0 0 (after_parse ?E 0 ?ty (PM_EnterGame None None) (sy_world s)) = Inr (r, w1)"
    "w_heap w1 r = Some (Player_new 0 (Some 0))" "w_player w1 = Some r"
    using none by (simp add: set_g_player_def alloc_def)
  obtain p where p: "e_kind (Player_new 0 (Some 0)) = KPlayer p" "pd_session p = Some 0"
    by (simp add: Player_new_def Entity_SetID_def Entity_new_def)
  obtain stuff d where gp: "Redis_GetPlayer (en_redis ?E) (e_ID (Player_new 0 (Some 0))) (w_db w1) = (stuff, d)"
    by (rule prod.exhaust)
  obtain w2 e2 p2 where load: "Player_Load ?E r w1 = Inr (0, w2)" "w_heap w2 r = Some e2" "e_kind e2 = KPlayer p2"
    "pd_session p2 = Some 0" "w_player w2 = Some r"
    using g(2,3) p gp by (cases "stuff = []") (simp_all add: Player_Load_def Let_def)
  have "\<exists>w3. Player_SendPlayer ?E r w2 = Inr w3 \<and> w_player w3 = Some r"
    using load(2-5) by (simp add: Player_SendPlayer_def Player_SendProtocol_def Let_def)
  with load(1) have "\<exists>rc w2. Player_OnEnterGame ?E r w1 = Inr (rc, w2) \<and> w_player w2 = Some r"
    by (auto simp: Player_OnEnterGame_def)
  then obtain w3 where w3: "InitializeHandler ?E 0 False [] (sy_world s) = Inr w3" "w_player w3 \<noteq> None"
    using none g(1) by (auto simp: InitializeHandler_received [OF rc con] session_logic_def)
  let ?s = "s\<lparr>sy_world := w3, sy_done := (sy_done s)(0 := Suc (sy_done s 0))\<rparr>"
  have "system_threads ?s = system_threads s" by (simp add: system_threads_def)
  then have "release_sessions s ?s = Inr ?s" using demo_held [OF assms(1)] by (intro release_none) blast
  with w3 show ?thesis by (simp add: system_step_def)
qed










section \<open>Properties\<close>

text \<open>
  C1. The server, with a codec that gives messages of the class they are parsed as, fails only in known ways: from every state it can reach, every event that can happen either leads to a
  reachable state again or fails in one of ten ways. Four use something after its end or leave a destructor: the
  dispatcher's reference to an element it has popped; a write, which the kernel did not take whole at once, that goes on
  from the local string it was started with; the handler of a write that is called on a session whose destructor has
  run; and the exception of \<open>remote_endpoint()\<close> that leaves the destructor of a session without a peer. The others are a
  coordinate outside \<open>int32_t\<close>, a cell, counter or clock difference that overflows, a random draw from an empty range,
  and a mutex locked twice. Besides those four no pointer or reference dangles: there is no failure by a null or dangling
  pointer, an index out of range, or an object of the wrong class.
\<close>

theorem server_fails_only_in_known_ways:
  assumes "system_reach C s" "parses_in_class C" "en_codec E = C" "enabled ev s"
  shows "case system_step E ev s of
      Inl e \<Rightarrow> e \<in> UB ` {''float to int32_t'', ''int32_t overflow'', ''int64_t overflow'',
        ''mutex locked twice by one thread'', ''reference to a destroyed element'',
        ''uniform_int_distribution'', ''GetTimeDiff'', ''write from a destroyed buffer'',
        ''member call on a destroyed session'', ''exception leaves a destructor''}
    | Inr s' \<Rightarrow> system_reach C s'"
proof (cases "system_step E ev s")
  case (Inl e)
  with step_safe [OF reach_ok [OF assms(1,2)] assms(4), of E] assms(2,3)
  show ?thesis by (simp add: known_failure_def)
next
  case (Inr s')
  with system_reach.step [OF assms(1,3,4) Inr] show ?thesis by simp
qed

theorem server_fails_only_in_known_ways_witness:
  "\<exists>s. system_reach (demo_reading META_TYPE_C2S_ENTER_GAME) s \<and>
     (case system_step (demo_session_env META_TYPE_C2S_ENTER_GAME) (Packet 0 False [1]) s of
        Inl e \<Rightarrow> e \<in> range UB
      | Inr s' \<Rightarrow> system_reach (demo_reading META_TYPE_C2S_ENTER_GAME) s')"
proof -
  obtain s where s: "demo_at META_TYPE_C2S_ENTER_GAME 1 s" "w_socks (sy_world s) 0 = Socket_AsyncReceive (Socket_init True)"
    using demo_connected by blast
  then have r: "system_reach (demo_reading META_TYPE_C2S_ENTER_GAME) s" by (simp add: demo_at_def)
  from server_fails_only_in_known_ways [OF r demo_reading_class refl demo_packet [OF s], of False "[1]"] r
  show ?thesis by (auto split: sum.splits)
qed

text \<open>
  C36. With such a codec, sessions outlive those who hold them: in every reachable state, a session that is on the list of a network
  thread, whose read is pending, or that is the session of a living player object is an accepted one whose destructor has
  not run; and the destructor runs only for accepted sessions. So ticks, reads and the packets of the game never
  meet a destroyed session; only the handlers of its writes can.
\<close>

theorem server_sessions_outlive_their_holders:
  assumes "system_reach C s" "parses_in_class C"
  shows "(\<forall>t \<in> set (system_threads s). \<forall>i \<in> set (nt_socket_list t @ nt_fresh_list t). i < sy_next s \<and> \<not> sy_dead s i) \<and>
    (\<forall>i < sy_next s. sy_done s i < sk_reads (w_socks (sy_world s) i) \<longrightarrow> \<not> sy_dead s i) \<and>
    (\<forall>r e p i. w_heap (sy_world s) r = Some e \<and> e_kind e = KPlayer p \<and> pd_session p = Some i \<longrightarrow>
       i < sy_next s \<and> \<not> sy_dead s i) \<and>
    (\<forall>i. sy_dead s i \<longrightarrow> i < sy_next s)"
proof -
  have ok: "system_ok s" by (rule reach_ok [OF assms])
  then have w: "world_ok (live_view s) no_locals (sy_world s)" and a: "alive_ok s" and n: "network_ok s"
    by (simp_all add: system_ok_def views_ok_def)
  have "i < sy_next s \<and> \<not> sy_dead s i"
    if "w_heap (sy_world s) r = Some e" "e_kind e = KPlayer p" "pd_session p = Some i" for r e p i
    using world_okD(1) [OF w that(1)] that(2,3) by (auto simp: entity_ok_def live_view_def split: if_splits)
  moreover have "i < sy_next s \<and> \<not> sy_dead s i"
    if "t \<in> set (system_threads s)" "i \<in> set (nt_socket_list t @ nt_fresh_list t)" for t i
  proof -
    have i: "i \<in> set (concat (map thread_sessions (system_threads s)))"
      using that unfolding set_concat set_map thread_sessions_def by blast
    moreover have "set (concat (map thread_sessions (system_threads s))) \<subseteq> {..<sy_next s}"
      using n that(1) by (auto simp: network_ok_def system_threads_def split: option.splits)
    ultimately show ?thesis using a unfolding alive_ok_def by blast
  qed
  moreover have "\<not> sy_dead s i" if "sy_done s i < sk_reads (w_socks (sy_world s) i)" for i
    using a that unfolding alive_ok_def by (metis not_less)
  ultimately show ?thesis using a unfolding alive_ok_def by blast
qed

theorem server_sessions_outlive_their_holders_witness:
  "\<exists>s :: mem_db system. system_reach (demo_reading META_TYPE_C2S_MOVE) s \<and> sy_next s = 1 \<and>
     sk_reads (w_socks (sy_world s) 0) = 1 \<and> \<not> sy_dead s 0"
proof -
  obtain s where s: "demo_at META_TYPE_C2S_MOVE 1 s" "w_socks (sy_world s) 0 = Socket_AsyncReceive (Socket_init True)"
    using demo_connected by blast
  then have r: "system_reach (demo_reading META_TYPE_C2S_MOVE) s" and n: "sy_next s = 1" "sy_done s 0 = 0"
    by (simp_all add: demo_at_def)
  have k: "sk_reads (w_socks (sy_world s) 0) = 1" using s(2) by (simp add: Socket_AsyncReceive_def Socket_init_def)
  from server_sessions_outlive_their_holders [OF r demo_reading_class] n k have "\<not> sy_dead s 0" by simp
  with r n k show ?thesis by blast
qed


text \<open>
  C5. In every reachable state the objects are exactly accounted for: the manager files a live object under
  its own ID, the hosters and the global player are live objects of their class, the player's session
  is one that was accepted, and the count of owners of every live object is the number of places that
  hold it, so the count does not reach zero while somebody holds the object.
\<close>

theorem server_objects_are_accounted_for:
  assumes "system_reach C s" "parses_in_class C" "w = sy_world s"
  shows "(\<forall>i r. w_entities w i = Some r \<longrightarrow> (\<exists>e. w_heap w r = Some e \<and> e_ID e = i)) \<and>
    (\<forall>r \<in> set (w_hosters w). \<exists>e h. w_heap w r = Some e \<and> e_kind e = KHoster h) \<and>
    (\<forall>r. w_player w = Some r \<longrightarrow>
       (\<exists>e p i. w_heap w r = Some e \<and> e_kind e = KPlayer p \<and> pd_session p = Some i \<and> i < sy_next s)) \<and>
    (\<forall>r e. w_heap w r = Some e \<longrightarrow>
       w_refs w r = of_bool (w_entities w (e_ID e) = Some r) + count_list (w_hosters w) r + of_bool (w_player w = Some r))"
proof -
  note ok = reach_worldD(1) [OF assms(1,2), folded assms(3)]
  have "w_player w = Some r \<Longrightarrow>
       \<exists>e p i. w_heap w r = Some e \<and> e_kind e = KPlayer p \<and> pd_session p = Some i \<and> i < sy_next s" for r
    using world_okD(3) [OF ok, of r] player_at_session [OF ok, of r] world_okD(1) [OF ok, of r]
    by (auto simp: entity_ok_def session_view_def split: if_splits)
  moreover have "w_heap w r = Some e \<Longrightarrow> w_refs w r = owners w r e" for r e
    using ok by (simp add: world_ok_def heap_ok_def)
  ultimately show ?thesis
    using world_okD(4,5) [OF ok] by (simp add: owners_def)
qed

theorem server_objects_are_accounted_for_witness:
  "\<exists>(s :: mem_db system) r. system_reach (demo_reading META_TYPE_C2S_ENTER_GAME) s \<and> w_player (sy_world s) = Some r \<and>
     w_heap (sy_world s) r \<noteq> None \<and> 0 < w_refs (sy_world s) r"
proof -
  let ?E = "demo_session_env META_TYPE_C2S_ENTER_GAME"
  obtain s where s: "demo_at META_TYPE_C2S_ENTER_GAME 1 s" "w_socks (sy_world s) 0 = Socket_AsyncReceive (Socket_init True)"
    using demo_connected by blast
  then have r: "system_reach (en_codec ?E) s" by (simp add: demo_at_def)
  obtain s' where s': "system_step ?E (Packet 0 False []) s = Inr s'" "w_player (sy_world s') \<noteq> None"
    using demo_enters [OF s] by blast
  have r': "system_reach (en_codec ?E) s'" by (rule system_reach.step [OF r refl demo_packet [OF s] s'(1)])
  obtain p where p: "w_player (sy_world s') = Some p" using s'(2) by blast
  note acc = server_objects_are_accounted_for [OF r' demo_reading_class refl]
  from acc p obtain e where e: "w_heap (sy_world s') p = Some e" by blast
  with acc p have "0 < w_refs (sy_world s') p" by simp
  with r' p e show ?thesis by blast
qed

text \<open>
  C16. Networking: a session never has two reads outstanding, so its one buffer is never written while a
  handler's read may still be pending; no session is on two network threads or twice on one; each counter of
  connections is exact; and if the port was bound, five threads run with their timers armed and exactly
  one accept is pending, whatever clients do.
\<close>

theorem server_network_discipline:
  assumes "system_reach C s" "parses_in_class C"
  shows "(\<forall>i < sy_next s. sk_reads (w_socks (sy_world s) i) \<le> Suc (sy_done s i)) \<and>
    (case sm_threads (sy_manager s) of
       None \<Rightarrow> ac_pending (sy_acceptor s) = 0
     | Some ts \<Rightarrow> ac_pending (sy_acceptor s) = 1 \<and> length ts = 5 \<and>
         (\<forall>t \<in> set ts. nt_timer t \<and> \<not> nt_stopped t \<and>
            NetworkThread_GetConnectionCount t = to_int32 (int (length (thread_sessions t)))) \<and>
         distinct (concat (map thread_sessions ts)))"
  using reach_worldD(2,3) [OF assms]
  by (auto simp: reads_ok_def network_ok_def NetworkThread_GetConnectionCount_def count_ok_def thread_sessions_def
      split: option.splits)

theorem server_network_discipline_witness:
  "\<exists>s :: mem_db system. system_reach (demo_reading META_TYPE_C2S_MOVE) s \<and> sy_next s = 1 \<and>
     sk_reads (w_socks (sy_world s) 0) \<le> 1 \<and> ac_pending (sy_acceptor s) = 1"
proof -
  obtain s where s: "demo_at META_TYPE_C2S_MOVE 1 s" using demo_connected by blast
  then have r: "system_reach (demo_reading META_TYPE_C2S_MOVE) s" by (simp add: demo_at_def)
  have "sy_next s = 1" "sy_done s 0 = 0" "sm_threads (sy_manager s) \<noteq> None" using s by (simp_all add: demo_at_def)
  with server_network_discipline [OF r demo_reading_class] r
  have "sy_next s = 1 \<and> sk_reads (w_socks (sy_world s) 0) \<le> 1 \<and> ac_pending (sy_acceptor s) = 1"
    by auto
  with r show ?thesis by blast
qed

text \<open>
  C17. A handler is always given a message of the class it casts to: whatever a client sends, a message that
  was parsed for type \<open>ty\<close> is an object of the class of \<open>ty\<close>, so no \<open>dynamic_cast\<close> of a handler of the
  table fails and its result code is never an error.
\<close>

theorem handlers_get_their_class:
  assumes "system_reach C s" "parses_in_class C" "en_codec E = C" "received E (sy_world s) buffer ty msg"
    and "run_handler E r (Player_GetMethod Player_callbacks (meta_type_number ty)) msg w = Inr (code, w')"
  shows "proto_type_t msg = Some ty \<and> code = 0"
proof -
  have "protos_ok (w_protos (sy_world s))" using reach_worldD(1) [OF assms(1,2)] by (simp add: world_ok_def)
  then have ty: "proto_type_t msg = Some ty"
    using assms(2-4) by (force simp: received_def protos_ok_def parses_in_class_def dest: meta_type_number_inj)
  have "Player_GetMethod Player_callbacks (meta_type_number ty) =
      (case ty of META_TYPE_C2S_LOGIN \<Rightarrow> H_CmdLogin | META_TYPE_C2S_ENTER_SCENE \<Rightarrow> H_CmdEnterScene
       | META_TYPE_C2S_MOVE \<Rightarrow> H_CmdMove | _ \<Rightarrow> H_Default)"
    by (cases ty) (simp_all add: Player_GetMethod_def Player_callbacks_def Player_AddHandler_def reg_simps)
  with ty assms(5) have "code = 0"
    by (cases msg) (auto simp: Player_CmdLogin_def Player_CmdEnterScene_def Player_CmdMove_def Player_DefaultMethod_def
        Let_def bind_res_Inr_iff dest: Load_code split: if_splits)
  with ty show ?thesis by simp
qed

theorem handlers_get_their_class_witness:
  "\<exists>(s :: mem_db system) w'. received (demo_session_env META_TYPE_C2S_MOVE) (sy_world s) [] META_TYPE_C2S_MOVE (PM_Move None) \<and>
     run_handler (demo_session_env META_TYPE_C2S_MOVE) 0 H_CmdMove (PM_Move None) demo_session_world = Inr (0, w')"
proof -
  let ?E = "demo_session_env META_TYPE_C2S_MOVE"
  obtain s where s: "demo_at META_TYPE_C2S_MOVE 1 s" using demo_connected by blast
  then have r: "system_reach (en_codec ?E) s" by (simp add: demo_at_def)
  have rc: "received ?E (sy_world s) [] META_TYPE_C2S_MOVE (PM_Move None)"
    using s by (simp add: demo_at_def received_def demo_session_env_def demo_env_def demo_codec_def Meta_type_t_def Meta_stuff_def)
  have h: "Player_GetMethod Player_callbacks (meta_type_number META_TYPE_C2S_MOVE) = H_CmdMove"
    by (simp add: Player_GetMethod_def Player_callbacks_def Player_AddHandler_def reg_simps)
  obtain code w' where run: "run_handler ?E 0 H_CmdMove (PM_Move None) demo_session_world = Inr (code, w')"
    by (simp add: Player_CmdMove_def Entity_StepMove_def demo_session_world_def demo_world_def Player_new_def
        Entity_SetID_def Entity_new_def)
  from handlers_get_their_class [OF r demo_reading_class refl rc, unfolded h, OF run] have "code = 0" by simp
  with run rc show ?thesis by blast
qed

end
