(* ===== verification/Aoi_Flow.thy ===== *)
theory Aoi_Flow
  imports Dispatcher World_Session
begin

text \<open>
  How the components work together when an entity enters a scene: Scene finds who is near, Entity queues
  a message for each, the dispatcher hands it to the receiver, and a Player sends a packet to its
  client (Scene.cpp, Entity.cpp, MessageDispatcher.cpp, Player.cpp). And the way back: what a client's
  packet can reach in the scene (WorldSession.cpp).
\<close>

section \<open>From a message to a packet\<close>

definition enter_message :: "'d env \<Rightarrow> int \<Rightarrow> common_prop \<Rightarrow> int \<Rightarrow> msg_item" where
  "enter_message E sender common receiver =
     to_receiver (default_msg_item\<lparr>mi_type := Some MSG_TYPE_AOI_ENTER, mi_sender := Some sender,
       mi_content := Some (ser_common (en_codec E) common)\<rparr>) receiver"

text \<open>The bytes a client gets when it is told of an entity that has entered.\<close>

definition enter_packet :: "'d env \<Rightarrow> common_prop \<Rightarrow> bytes" where
  "enter_packet E common = ser_meta (en_codec E)
     \<lparr>me_type_t = Some META_TYPE_S2C_SURROUNDINGS_CHANGED,
      me_stuff = Some (ser_proto (en_codec E)
        (PM_SurroundingsChanged (Some ACTION_TYPE_ENTER) (Some (CommonProp_entity_id common))
          (Some (ser_common (en_codec E) common))))\<rparr>"

lemma enter_message_sel [simp]:
  "MsgItem_type (enter_message E a c i) = MSG_TYPE_AOI_ENTER" "MsgItem_receiver (enter_message E a c i) = i"
  "MsgItem_content (enter_message E a c i) = ser_common (en_codec E) c"
  by (simp_all add: enter_message_def to_receiver_def MsgItem_type_def MsgItem_receiver_def MsgItem_content_def)

lemma enter_message_inj: "enter_message E a c i = enter_message E a c j \<longleftrightarrow> i = j"
  by (metis enter_message_sel(2))

lemma Discharge_enter:
  assumes "w_entities w i = Some r" "w_heap w r = Some e" "e_kind e = KPlayer p" "pd_session p = Some j"
    and "parse_common (en_codec E) (ser_common (en_codec E) common) = Some common"
  shows "MessageDispatcher_Discharge E i (enter_message E a common i) w =
    Inr (True, if Entity_IsInSight (CommonProp_position common) e
      then w\<lparr>w_socks := (w_socks w)(j := Socket_AsyncSend (enter_packet E common) (w_socks w j))\<rparr> else w)"
  using assms
  by (simp add: MessageDispatcher_Discharge_def EntityManager_GetEntity_def HandleMessage_virtual_def
      Player_HandleMessage_def Player_SendProtocol_def enter_packet_def Let_def)

section \<open>Properties\<close>

lemma count_messages:
  assumes "distinct ids" "w_entities w i \<noteq> None"
  shows "count (mset (messages_for w (attributes_item E MSG_TYPE_AOI_ENTER a common) ids)) (enter_message E a common i) =
    (if i \<in> set ids then 1 else 0)"
proof -
  have eq: "to_receiver (attributes_item E MSG_TYPE_AOI_ENTER a common) = enter_message E a common"
    by (intro ext) (simp add: enter_message_def attributes_item_def)
  show ?thesis
    using assms by (induction ids) (auto simp: messages_for_def eq enter_message_inj)
qed

text \<open>
  From scene to client: when an entity enters a scene, every registered player among the IDs that the query
  returns has exactly one message more in the queue for it, and every other registered entity none; and handing that
  message over starts the write of exactly one packet with the attributes of the newcomer on the session of that player
  and on no other, provided the newcomer counts as in sight; otherwise nothing is written.
\<close>

theorem enter_reaches_the_client:
  assumes "manager_ok w" "\<And>A. distinct (en_ex E A)" "w_heap w r = Some e" "w_entities w (e_ID e) = None"
    and "w_scenes w k = Some s" "Scene_EnterScene (e_ID e) (Entity_GetX e) (Entity_GetZ e) s = Inr s1"
    and "Scene_GetNearByEntities (en_ex E) (en_ez E) (Entity_GetX e) (Entity_GetZ e) s1 = Inr (n, ids, s')"
    and "length ids < 2 ^ 31" "common = (e_common e)\<lparr>cp_scene_id := Some k\<rparr>"
    and "w_entities w i = Some b" "w_heap w b = Some eb" "e_kind eb = KPlayer p" "pd_session p = Some j"
    and "parse_common (en_codec E) (ser_common (en_codec E) common) = Some common"
  shows "\<exists>w'. Entity_OnEnterScene E r k w = Inr w' \<and>
    count (mset (w_queue w')) (enter_message E (e_ID e) common i) =
      count (mset (w_queue w)) (enter_message E (e_ID e) common i) + (if i \<in> set ids then 1 else 0) \<and>
    MessageDispatcher_Discharge E i (enter_message E (e_ID e) common i) w' =
      Inr (True, if Entity_IsInSight (CommonProp_position common) eb
        then w'\<lparr>w_socks := (w_socks w')(j := Socket_AsyncSend (enter_packet E common) (w_socks w' j))\<rparr> else w')"
proof -
  have q: "near_ids E e s1 = Inr (n, ids, s')" using assms(7) by (simp add: near_ids_def)
  obtain w' where w': "Entity_OnEnterScene E r k w = Inr w'" "w_heap w' = (w_heap w)(r \<mapsto> e\<lparr>e_scene := Some k, e_common := common\<rparr>)"
    "w_entities w' = (w_entities w)(e_ID e \<mapsto> r)"
    "mset (w_queue w') = mset (w_queue w) + mset (messages_for w' (attributes_item E MSG_TYPE_AOI_ENTER (e_ID e) common) ids)"
    using OnEnterScene_run [OF assms(1,3,4,5,6) q assms(9)] assms(8) by blast
  have "e_ID eb = i" using assms(1,10,11) unfolding manager_ok_def by fastforce
  then have i: "i \<noteq> e_ID e" "b \<noteq> r" using assms(3,4,10,11) by auto
  have heap: "w_heap w' b = Some eb" using w'(2) i(2) assms(11) by simp
  have ent: "w_entities w' i = Some b" using w'(3) i(1) assms(10) by simp
  then have "count (mset (messages_for w' (attributes_item E MSG_TYPE_AOI_ENTER (e_ID e) common) ids))
      (enter_message E (e_ID e) common i) = (if i \<in> set ids then 1 else 0)"
    using near_ids_facts(4) [OF q assms(2)] by (intro count_messages) simp_all
  with w'(1,4) Discharge_enter [OF ent heap assms(12-14), of "e_ID e"] show ?thesis by auto
qed

text \<open>A newcomer at \<open>x = 1\<close> and a player at the origin whose session is connection 3.\<close>

definition demo_newcomer :: entity where
  "demo_newcomer = (Entity_SetID 7 (Entity_new KEntity))\<lparr>e_common := default_common_prop\<lparr>
     cp_position := Some (default_vector3\<lparr>v3_x := Some (flt_whole 1)\<rparr>)\<rparr>\<rparr>"

definition demo_meeting :: "mem_db world" where
  "demo_meeting = demo_world\<lparr>w_heap := [0 \<mapsto> demo_newcomer, 1 \<mapsto> (Player_new 8 (Some 3))\<lparr>e_scene := Some 5\<rparr>],
     w_refs := (\<lambda>_. 1), w_entities := [8 \<mapsto> 1], w_scenes := [5 \<mapsto> scene_of [(8, 0, 0)]], w_next := 2\<rparr>"

definition demo_common :: common_prop where
  "demo_common = (e_common demo_newcomer)\<lparr>cp_scene_id := Some 5\<rparr>"

definition demo_meeting_env :: "mem_db env" where
  "demo_meeting_env = demo_env\<lparr>en_codec := demo_codec\<lparr>parse_common := (\<lambda>_. Some demo_common), ser_meta := (\<lambda>_. [1])\<rparr>\<rparr>"

definition demo_crowd :: scene where
  "demo_crowd = scene_of [(7, 1, 0), (8, 0, 0)]"

lemma demo_meeting_facts:
  defines "b \<equiv> (Player_new 8 (Some 3))\<lparr>e_scene := Some 5\<rparr>"
  shows "manager_ok demo_meeting" "w_heap demo_meeting 0 = Some demo_newcomer" "w_entities demo_meeting (e_ID demo_newcomer) = None"
    "w_scenes demo_meeting 5 = Some (scene_of [(8, 0, 0)])" "e_ID demo_newcomer = 7"
    "Scene_EnterScene 7 (Entity_GetX demo_newcomer) (Entity_GetZ demo_newcomer) (scene_of [(8, 0, 0)]) = Inr demo_crowd"
    "w_entities demo_meeting 8 = Some 1" "w_heap demo_meeting 1 = Some b"
    "e_kind b = KPlayer \<lparr>pd_session = Some 3, pd_stuff = default_player_stuff, pd_heart_count = 0\<rparr>"
    "Entity_IsInSight (CommonProp_position demo_common) b"
    "\<exists>s'. Scene_GetNearByEntities sorted_list_of_set sorted_list_of_set (Entity_GetX demo_newcomer) (Entity_GetZ demo_newcomer)
      demo_crowd = Inr (2, [7, 8], s')"
proof -
  show "manager_ok demo_meeting" "w_heap demo_meeting 0 = Some demo_newcomer" "w_entities demo_meeting (e_ID demo_newcomer) = None"
    "w_scenes demo_meeting 5 = Some (scene_of [(8, 0, 0)])" "e_ID demo_newcomer = 7" "w_entities demo_meeting 8 = Some 1"
    "w_heap demo_meeting 1 = Some b" "e_kind b = KPlayer \<lparr>pd_session = Some 3, pd_stuff = default_player_stuff, pd_heart_count = 0\<rparr>"
    by (auto simp: manager_ok_def demo_meeting_def demo_world_def demo_newcomer_def Player_new_def Entity_SetID_def Entity_new_def b_def)
  have "Entity_GetX demo_newcomer = flt_whole 1" "Entity_GetZ demo_newcomer = flt_whole 0"
    by (simp_all add: demo_newcomer_def Entity_GetX_def Entity_GetZ_def CommonProp_position_def Vector3_x_def
        Vector3_z_def default_vector3_def flt_whole_def)
  then have at: "flt_to_int32 (Entity_GetX demo_newcomer) = Some 1" "flt_to_int32 (Entity_GetZ demo_newcomer) = Some 0"
    by (simp_all add: flt_to_int32_whole in_int32_def)
  then show "Scene_EnterScene 7 (Entity_GetX demo_newcomer) (Entity_GetZ demo_newcomer) (scene_of [(8, 0, 0)]) = Inr demo_crowd"
    by (simp add: Scene_EnterScene_def on_axes_Inr demo_crowd_def)
  have g: "grid_repr demo_crowd [8 \<mapsto> (0, 0), 7 \<mapsto> (1, 0)]"
    using scene_of_repr [of "[(7, 1, 0), (8, 0, 0)]"] by (simp add: demo_crowd_def)
  have safe: "query_safe 1" "query_safe 0" by (simp_all add: query_safe_def MAX_SIGHT_DISTANCE_def in_int32_def)
  have "near_by [8 \<mapsto> (0, 0), 7 \<mapsto> (1, 0)] 1 0 = {7, 8}"
    by (auto simp: near_by_def MAX_SIGHT_DISTANCE_def split: if_splits)
  with GetNearBy_exact [OF g at safe]
  show "\<exists>s'. Scene_GetNearByEntities sorted_list_of_set sorted_list_of_set (Entity_GetX demo_newcomer) (Entity_GetZ demo_newcomer)
      demo_crowd = Inr (2, [7, 8], s')"
    by (auto simp: to_int32_def)
  show "Entity_IsInSight (CommonProp_position demo_common) b"
    by (simp add: Entity_IsInSight_def demo_common_def demo_newcomer_def Player_new_def Entity_SetID_def Entity_new_def
        CommonProp_position_def Vector3_x_def Vector3_z_def Entity_GetSightDistance_def default_vector3_def
        default_common_prop_def flt_whole_def flt_less_zero_abs_sub Let_def b_def)
qed

theorem enter_reaches_the_client_witness:
  "\<exists>w'. Entity_OnEnterScene demo_meeting_env 0 5 demo_meeting = Inr w' \<and>
     (\<exists>w''. MessageDispatcher_Discharge demo_meeting_env 8 (enter_message demo_meeting_env 7 demo_common 8) w' = Inr (True, w'') \<and>
        sk_writes (w_socks w'' 3) = sk_writes (w_socks w' 3) @ [[1]])"
proof -
  note f = demo_meeting_facts
  have env: "en_ex demo_meeting_env = sorted_list_of_set" "en_ez demo_meeting_env = sorted_list_of_set"
    "parse_common (en_codec demo_meeting_env) (ser_common (en_codec demo_meeting_env) demo_common) = Some demo_common"
    by (simp_all add: demo_meeting_env_def demo_env_def demo_codec_def)
  obtain s' where q: "Scene_GetNearByEntities (en_ex demo_meeting_env) (en_ez demo_meeting_env) (Entity_GetX demo_newcomer)
      (Entity_GetZ demo_newcomer) demo_crowd = Inr (2, [7, 8], s')" unfolding env(1,2) using f(11) by blast
  have enter: "Scene_EnterScene (e_ID demo_newcomer) (Entity_GetX demo_newcomer) (Entity_GetZ demo_newcomer) (scene_of [(8, 0, 0)]) =
      Inr demo_crowd" using f(5,6) by simp
  have d: "distinct (en_ex demo_meeting_env A)" for A by (simp add: env(1))
  obtain w' where w': "Entity_OnEnterScene demo_meeting_env 0 5 demo_meeting = Inr w'"
    "MessageDispatcher_Discharge demo_meeting_env 8 (enter_message demo_meeting_env 7 demo_common 8) w' =
      Inr (True, w'\<lparr>w_socks := (w_socks w')(3 := Socket_AsyncSend (enter_packet demo_meeting_env demo_common) (w_socks w' 3))\<rparr>)"
    using enter_reaches_the_client [OF f(1) d f(2,3,4) enter q _ demo_common_def f(7,8,9) _ env(3)] f(5,10) by auto
  then show ?thesis
    by (auto simp: Socket_AsyncSend_def enter_packet_def demo_meeting_env_def)
qed

text \<open>
  One packet of a client is enough to run the server into undefined behaviour: a \<open>Move\<close> to a coordinate
  that has no value in \<open>int32_t\<close> (not a number, infinite or too large), sent on any open session while the
  global player is in a scene, always ends in the conversion of that coordinate; nothing on the way
  checks it.
\<close>

theorem client_move_is_unchecked:
  assumes "received E w buffer META_TYPE_C2S_MOVE (PM_Move (Some v))" "sk_connected (w_socks w i)"
    and "w_player w = Some r" "w_heap w r = Some e" "e_scene e = Some k" "w_scenes w k = Some s"
    and "flt_to_int32 (Vector3_x v) = None \<or> flt_to_int32 (Vector3_z v) = None"
  shows "InitializeHandler E i False buffer w = Inl (UB ''float to int32_t'')"
proof -
  let ?w = "after_parse E i META_TYPE_C2S_MOVE (PM_Move (Some v)) w"
  have w: "w_player ?w = Some r" "w_heap ?w r = Some e" "w_scenes ?w k = Some s"
    using assms(3,4,6) by (simp_all add: after_parse_def Let_def on_sock_def)
  let ?e = "Entity_UpdatePosition v e"
  have "Entity_GetX ?e = Vector3_x v" "Entity_GetZ ?e = Vector3_z v"
    by (simp_all add: Entity_GetX_def Entity_GetZ_def Entity_UpdatePosition_def CommonProp_position_def)
  then have "on_axes f (Entity_GetX ?e) (Entity_GetZ ?e) s = Inl (UB ''float to int32_t'')" for f
    using assms(7) by (cases "flt_to_int32 (Vector3_x v)") (auto simp: on_axes_def cell_of_def)
  then have "Entity_StepMove E r v ?w = Inl (UB ''float to int32_t'')"
    using w assms(5) by (simp add: Entity_StepMove_def Let_def Scene_UpdatePosition_def)
  moreover have "Player_GetMethod Player_callbacks (meta_type_number META_TYPE_C2S_MOVE) = H_CmdMove"
    by (simp add: Player_GetMethod_def Player_callbacks_def Player_AddHandler_def reg_simps)
  ultimately show ?thesis
    using w(1) by (simp add: InitializeHandler_received [OF assms(1,2)] session_logic_def Player_HandleProtocol_def
        Player_CmdMove_def del: meta_type_number.simps)
qed

theorem client_move_is_unchecked_witness:
  "InitializeHandler (demo_env\<lparr>en_codec := demo_codec\<lparr>
       parse_meta := (\<lambda>_. Some \<lparr>me_type_t = Some META_TYPE_C2S_MOVE, me_stuff = Some []\<rparr>)\<rparr>\<rparr>) 3 False []
     (demo_world\<lparr>w_heap := [0 \<mapsto> (Player_new 7 (Some 3))\<lparr>e_scene := Some 5\<rparr>], w_player := Some 0,
        w_scenes := [5 \<mapsto> Scene_empty], w_protos := [7 \<mapsto> PM_Move (Some (default_vector3\<lparr>v3_z := Some NaN\<rparr>))]\<rparr>) =
   Inl (UB ''float to int32_t'')"
  by (rule client_move_is_unchecked [where v = "default_vector3\<lparr>v3_z := Some NaN\<rparr>" and r = 0 and k = 5
        and e = "(Player_new 7 (Some 3))\<lparr>e_scene := Some 5\<rparr>" and s = Scene_empty])
    (simp_all add: received_def demo_env_def demo_codec_def Meta_type_t_def Meta_stuff_def demo_world_def Socket_init_def
      Vector3_z_def)

end
