(* ===== verification/Game_Log.thy ===== *)
theory Game_Log
  imports Base
begin

text \<open>
  Log.h and Log.cpp: the log level, the installed handler, and the macros \<open>LOG\<close> and \<open>LOG_IF\<close>.
  A formatted message is its bytes; what a handler does is a list of events.
\<close>

section \<open>The code\<close>

text \<open>\<open>LogLevel\<close> is an enum of numbers; \<open>NOTICE\<close> and \<open>INFO\<close> share one.\<close>

definition LOG_LEVEL_FATAL :: nat where "LOG_LEVEL_FATAL = 0"
definition LOG_LEVEL_ERROR :: nat where "LOG_LEVEL_ERROR = 1"
definition LOG_LEVEL_WARNING :: nat where "LOG_LEVEL_WARNING = 2"
definition LOG_LEVEL_NOTICE :: nat where "LOG_LEVEL_NOTICE = 3"
definition LOG_LEVEL_INFO :: nat where "LOG_LEVEL_INFO = 3"
definition LOG_LEVEL_TRACE :: nat where "LOG_LEVEL_TRACE = 4"
definition LOG_LEVEL_DEBUG :: nat where "LOG_LEVEL_DEBUG = 5"

lemmas log_level_defs =
  LOG_LEVEL_FATAL_def LOG_LEVEL_ERROR_def LOG_LEVEL_WARNING_def LOG_LEVEL_NOTICE_def
  LOG_LEVEL_INFO_def LOG_LEVEL_TRACE_def LOG_LEVEL_DEBUG_def

text \<open>A handler of the program: the default one, \<open>null_log_handler\<close>, or one of the caller's.\<close>

datatype log_handler_fn = DefaultLogHandler | null_log_handler | UserLogHandler nat

datatype log_event = LogLine string bytes | LogAbort | LogUser nat nat bytes

record log_state =
  s_log_level :: nat
  s_log_handler :: log_handler_fn

definition log_initial :: log_state where
  "log_initial = \<lparr>s_log_level = LOG_LEVEL_ERROR, s_log_handler = DefaultLogHandler\<rparr>"

definition GetLevel :: "log_state \<Rightarrow> nat" where
  "GetLevel s = s_log_level s"

definition SetLevel :: "nat \<Rightarrow> log_state \<Rightarrow> log_state" where
  "SetLevel level s = s\<lparr>s_log_level := level\<rparr>"

definition level_names :: "string list" where
  "level_names = [''FATAL'', ''ERROR'', ''WARNNING'', ''INFO'', ''TRACE'', ''DEBUG'']"

text \<open>
  \<open>vsnprintf\<close> keeps 1023 bytes of the formatted text. A level outside the table is an
  out-of-bounds read.
\<close>

definition DefaultLogHandler_run :: "nat \<Rightarrow> bytes \<Rightarrow> log_event list res" where
  "DefaultLogHandler_run level text =
     (if level < length level_names
      then Inr (LogLine (level_names ! level) (take 1023 (c_str text)) #
                (if level = LOG_LEVEL_FATAL then [LogAbort] else []))
      else Inl (UB ''level_names''))"

fun run_log_handler :: "log_handler_fn \<Rightarrow> nat \<Rightarrow> bytes \<Rightarrow> log_event list res" where
  "run_log_handler DefaultLogHandler level text = DefaultLogHandler_run level text"
| "run_log_handler null_log_handler level text = Inr []"
| "run_log_handler (UserLogHandler h) level text = Inr [LogUser h level text]"

definition log_handler :: "log_state \<Rightarrow> nat \<Rightarrow> bytes \<Rightarrow> log_event list res" where
  "log_handler s level text = run_log_handler (s_log_handler s) level text"

text \<open>\<open>SetLogHandler\<close>: \<open>NULL\<close> is \<open>None\<close>, both as the argument and as the result.\<close>

definition SetLogHandler :: "log_handler_fn option \<Rightarrow> log_state \<Rightarrow> log_handler_fn option \<times> log_state" where
  "SetLogHandler new_func s =
     ((if s_log_handler s = null_log_handler then None else Some (s_log_handler s)),
      s\<lparr>s_log_handler := (case new_func of None \<Rightarrow> null_log_handler | Some f \<Rightarrow> f)\<rparr>)"

definition LOG :: "log_state \<Rightarrow> nat \<Rightarrow> bytes \<Rightarrow> log_event list res" where
  "LOG s level text = (if level > GetLevel s then Inr [] else log_handler s level text)"

definition LOG_IF :: "log_state \<Rightarrow> bool \<Rightarrow> nat \<Rightarrow> bytes \<Rightarrow> log_event list res" where
  "LOG_IF s condition level text = (if \<not> condition then Inr [] else log_handler s level text)"

section \<open>Properties\<close>

text \<open>
  \<open>SetLogHandler\<close> is undone by its own result: installing what it returned restores the
  handler that was there before, the null handler included, and returns the handler in between.
\<close>

theorem SetLogHandler_restore:
  "SetLogHandler (fst (SetLogHandler h s)) (snd (SetLogHandler h s)) =
     ((if h = Some null_log_handler then None else h), s)"
  by (cases h) (auto simp: SetLogHandler_def)

text \<open>
  What reaches the log: with the default handler and any level of the enum, \<open>LOG\<close> prints one
  line exactly when the message's level does not exceed the threshold, and a \<open>FATAL\<close> message is
  always printed and followed by \<open>abort\<close>; \<open>LOG_IF\<close> ignores the threshold.
\<close>

theorem LOG_default:
  assumes "s_log_handler s = DefaultLogHandler" and "level \<le> LOG_LEVEL_DEBUG"
  shows "\<exists>name. level_names ! level = name \<and>
    LOG s level text =
      Inr (if level = 0 then [LogLine name (take 1023 (c_str text)), LogAbort]
           else if level \<le> s_log_level s then [LogLine name (take 1023 (c_str text))] else []) \<and>
    LOG_IF s c level text =
      (if c then LOG (SetLevel LOG_LEVEL_DEBUG s) level text else Inr [])"
  using assms
  by (auto simp: LOG_def LOG_IF_def GetLevel_def SetLevel_def log_handler_def
      DefaultLogHandler_run_def level_names_def log_level_defs)

theorem LOG_default_witness:
  "LOG log_initial LOG_LEVEL_WARNING [65] = Inr [] \<and>
   LOG log_initial LOG_LEVEL_FATAL [65] = Inr [LogLine ''FATAL'' [65], LogAbort]"
  using LOG_default [of log_initial LOG_LEVEL_WARNING "[65]" True]
    LOG_default [of log_initial LOG_LEVEL_FATAL "[65]" True]
  by (simp add: log_initial_def log_level_defs level_names_def c_str_def)

end
