(* ===== verification/Net_Work.thy ===== *)
theory Net_Work
  imports Net_Socket
begin

text \<open>
  The directory NetWork/ holds a second copy of the network layer, which the authentication server is
  built with: Socket.h, NetThread.h and AsyncAcceptor.h. The copies differ from the files at the top
  only in what they print (\<open>OnSend\<close> and \<open>OnSocketOpen\<close> trace their errors, \<open>Run\<close> its start), so each
  operation of the copy is the operation of theory Net_Socket.
\<close>

section \<open>A connection\<close>

definition NetWork_Socket_init :: "bool \<Rightarrow> sock" where
  "NetWork_Socket_init = Socket_init"

definition NetWork_Socket_GetRemoteEndPoint :: "sock \<Rightarrow> unit res" where
  "NetWork_Socket_GetRemoteEndPoint = Socket_GetRemoteEndPoint"

definition NetWork_Socket_destruct :: "sock \<Rightarrow> sock res" where
  "NetWork_Socket_destruct = Socket_destruct"

definition NetWork_Socket_Update :: "sock \<Rightarrow> bool" where
  "NetWork_Socket_Update = Socket_Update"

definition NetWork_Socket_Close :: "sock \<Rightarrow> sock" where
  "NetWork_Socket_Close = Socket_Close"

definition NetWork_Socket_DelayedClose :: "sock \<Rightarrow> sock" where
  "NetWork_Socket_DelayedClose = Socket_DelayedClose"

definition NetWork_Socket_IsConnect :: "sock \<Rightarrow> bool" where
  "NetWork_Socket_IsConnect = Socket_IsConnect"

definition NetWork_Socket_IsOpen :: "sock \<Rightarrow> bool" where
  "NetWork_Socket_IsOpen = Socket_IsOpen"

definition NetWork_Socket_AsyncReceive :: "sock \<Rightarrow> sock" where
  "NetWork_Socket_AsyncReceive = Socket_AsyncReceive"

definition NetWork_Socket_OnReceive :: "sock \<Rightarrow> sock" where
  "NetWork_Socket_OnReceive = Socket_OnReceive"

definition NetWork_Socket_AsyncSend :: "bytes \<Rightarrow> sock \<Rightarrow> sock" where
  "NetWork_Socket_AsyncSend = Socket_AsyncSend"

lemmas network_Socket_defs =
  NetWork_Socket_init_def
  NetWork_Socket_GetRemoteEndPoint_def
  NetWork_Socket_destruct_def
  NetWork_Socket_Update_def
  NetWork_Socket_Close_def
  NetWork_Socket_DelayedClose_def
  NetWork_Socket_IsConnect_def
  NetWork_Socket_IsOpen_def
  NetWork_Socket_AsyncReceive_def
  NetWork_Socket_OnReceive_def
  NetWork_Socket_AsyncSend_def

interpretation nw_sock: managed_socket NetWork_Socket_Update NetWork_Socket_IsOpen NetWork_Socket_Close
  unfolding network_Socket_defs by (rule sock.managed_socket_axioms)

section \<open>A network thread\<close>

definition NetWork_NetworkThread_init :: "net_thread" where
  "NetWork_NetworkThread_init = NetworkThread_init"

definition NetWork_NetworkThread_destruct :: "net_thread \<Rightarrow> net_thread res" where
  "NetWork_NetworkThread_destruct = NetworkThread_destruct"

definition NetWork_NetworkThread_Stop :: "net_thread \<Rightarrow> net_thread" where
  "NetWork_NetworkThread_Stop = NetworkThread_Stop"

definition NetWork_NetworkThread_Start :: "net_thread \<Rightarrow> bool \<times> net_thread" where
  "NetWork_NetworkThread_Start = NetworkThread_Start"

definition NetWork_NetworkThread_Wait :: "net_thread \<Rightarrow> net_thread res" where
  "NetWork_NetworkThread_Wait = NetworkThread_Wait"

definition NetWork_NetworkThread_GetConnectionCount :: "net_thread \<Rightarrow> int" where
  "NetWork_NetworkThread_GetConnectionCount = NetworkThread_GetConnectionCount"

definition NetWork_NetworkThread_AddSocket :: "nat \<Rightarrow> net_thread \<Rightarrow> net_thread" where
  "NetWork_NetworkThread_AddSocket = NetworkThread_AddSocket"

definition NetWork_NetworkThread_AddSockets :: "socks \<Rightarrow> net_thread \<Rightarrow> net_thread" where
  "NetWork_NetworkThread_AddSockets = NetworkThread_AddSockets"

definition NetWork_NetworkThread_Update :: "(sock \<Rightarrow> bool) \<Rightarrow> socks \<Rightarrow> net_thread \<Rightarrow> socks \<times> net_thread" where
  "NetWork_NetworkThread_Update = NetworkThread_Update"

lemmas network_NetworkThread_defs =
  NetWork_NetworkThread_init_def
  NetWork_NetworkThread_destruct_def
  NetWork_NetworkThread_Stop_def
  NetWork_NetworkThread_Start_def
  NetWork_NetworkThread_Wait_def
  NetWork_NetworkThread_GetConnectionCount_def
  NetWork_NetworkThread_AddSocket_def
  NetWork_NetworkThread_AddSockets_def
  NetWork_NetworkThread_Update_def

section \<open>The manager of the threads\<close>

definition NetWork_SocketManager_init :: "socket_manager" where
  "NetWork_SocketManager_init = SocketManager_init"

definition NetWork_SocketManager_StartNetwork :: "bool \<Rightarrow> net_thread list \<Rightarrow> int \<Rightarrow> socket_manager \<Rightarrow> (bool \<times> socket_manager) res" where
  "NetWork_SocketManager_StartNetwork = SocketManager_StartNetwork"

definition NetWork_SocketManager_StopNetwork :: "socket_manager \<Rightarrow> socket_manager res" where
  "NetWork_SocketManager_StopNetwork = SocketManager_StopNetwork"

definition NetWork_SocketManager_Wait :: "net_thread list \<Rightarrow> int \<Rightarrow> net_thread list res" where
  "NetWork_SocketManager_Wait = SocketManager_Wait"

definition NetWork_SocketManager_OnSocketOpen :: "nat \<Rightarrow> sock option \<Rightarrow> nat \<Rightarrow> socks \<Rightarrow> net_thread list \<Rightarrow> (socks \<times> net_thread list) res" where
  "NetWork_SocketManager_OnSocketOpen = SocketManager_OnSocketOpen"

definition NetWork_SocketManager_GetSocketForAccept :: "net_thread list \<Rightarrow> nat res" where
  "NetWork_SocketManager_GetSocketForAccept = SocketManager_GetSocketForAccept"

definition NetWork_SelectThreadWithMinConnections :: "net_thread list \<Rightarrow> nat" where
  "NetWork_SelectThreadWithMinConnections = SelectThreadWithMinConnections"

lemmas network_SocketManager_defs =
  NetWork_SocketManager_init_def
  NetWork_SocketManager_StartNetwork_def
  NetWork_SocketManager_StopNetwork_def
  NetWork_SocketManager_Wait_def
  NetWork_SocketManager_OnSocketOpen_def
  NetWork_SocketManager_GetSocketForAccept_def

section \<open>The acceptor\<close>

definition NetWork_AsyncAcceptor_init :: "acceptor" where
  "NetWork_AsyncAcceptor_init = AsyncAcceptor_init"

definition NetWork_AsyncAcceptor_Close :: "acceptor \<Rightarrow> acceptor" where
  "NetWork_AsyncAcceptor_Close = AsyncAcceptor_Close"

definition NetWork_AsyncAcceptor_AsyncAccept :: "acceptor \<Rightarrow> acceptor" where
  "NetWork_AsyncAcceptor_AsyncAccept = AsyncAcceptor_AsyncAccept"

definition NetWork_AsyncAcceptor_AsyncAcceptWithCallback :: "(unit \<Rightarrow> nat res) \<Rightarrow> acceptor \<Rightarrow> (nat \<times> acceptor) res" where
  "NetWork_AsyncAcceptor_AsyncAcceptWithCallback = AsyncAcceptor_AsyncAcceptWithCallback"

lemmas network_AsyncAcceptor_defs =
  NetWork_AsyncAcceptor_init_def
  NetWork_AsyncAcceptor_Close_def
  NetWork_AsyncAcceptor_AsyncAccept_def
  NetWork_AsyncAcceptor_AsyncAcceptWithCallback_def

end
