(* ===== verification/Auth_Server.thy ===== *)
theory Auth_Server
  imports Net_Work Redis_Client Common_Util
begin

text \<open>
  The authentication server: AuthServer/AuthServer.h and .cpp (login tickets and their cleaning),
  AuthServer/Session.h and .cpp (its client session), and the older server of AuthServer.h and
  AuthServer.cpp at the top of the repository.
\<close>

section \<open>Tickets\<close>

text \<open>
  \<open>_valid_tickets\<close> is a hash map; \<open>au_tickets\<close> lists its entries (ticket and expiry time of the
  account) in the order of iteration. \<open>au_thread\<close>: the thread object is joinable; \<open>au_timer\<close>: the
  clean-up timer is armed (\<open>None\<close> before \<open>Start\<close> has created it).
\<close>

record auth_server =
  au_tickets :: "(bytes \<times> int) list"
  au_stopped :: bool
  au_thread :: bool
  au_timer :: "bool option"

definition AuthServer_init :: auth_server where
  "AuthServer_init = \<lparr>au_tickets = [], au_stopped = False, au_thread = False, au_timer = None\<rparr>"

text \<open>\<open>place\<close>: where the hash map puts a new entry in its iteration.\<close>

definition AuthServer_AddTicket ::
  "(nat \<Rightarrow> nat) \<Rightarrow> int \<Rightarrow> bytes \<Rightarrow> auth_server \<Rightarrow> auth_server" where
  "AuthServer_AddTicket place now ticket a =
     (let expiry = now + 10; ts = au_tickets a; k = place (length ts)
      in if ticket \<in> fst ` set ts then a
         else a\<lparr>au_tickets := take k ts @ (ticket, expiry) # drop k ts\<rparr>)"

definition AuthServer_CheckAccount :: bool where
  "AuthServer_CheckAccount = True"

text \<open>
  The loop of \<open>CleanLoginTickets\<close>: the body leaves \<open>it\<close> at the next entry, by \<open>erase\<close> or by \<open>++it\<close>, and
  the header increments it once more. Incrementing the end iterator is undefined.
\<close>

fun clean_loop :: "int \<Rightarrow> (bytes \<times> int) list \<Rightarrow> (bytes \<times> int) list res" where
  "clean_loop now [] = Inr []"
| "clean_loop now [t] = Inl (UB ''increment of the end iterator'')"
| "clean_loop now (t # x # ts) =
     bind_res (clean_loop now ts) (\<lambda>r. Inr ((if snd t < now then [] else [t]) @ x # r))"

definition AuthServer_CleanLoginTickets :: "bool \<Rightarrow> int \<Rightarrow> auth_server \<Rightarrow> auth_server res" where
  "AuthServer_CleanLoginTickets error now a =
     (if error then Inr (a\<lparr>au_timer := Some False\<rparr>)
      else bind_res (clean_loop now (au_tickets a)) (\<lambda>ts. Inr (a\<lparr>au_tickets := ts, au_timer := Some True\<rparr>)))"

definition AuthServer_Start :: "auth_server \<Rightarrow> (bool \<times> auth_server) res" where
  "AuthServer_Start a =
     (if au_thread a then Inl (UB ''assignment to a joinable thread'')
      else Inr (True, a\<lparr>au_timer := Some True, au_thread := True\<rparr>))"

text \<open>\<open>join\<close> of a thread that is not joinable throws.\<close>

definition AuthServer_Stop :: "auth_server \<Rightarrow> auth_server res" where
  "AuthServer_Stop a =
     (if \<not> au_thread a then Inl (Thrown ''join'')
      else if au_timer a = None then Inl (UB ''null timer pointer'')
      else Inr (a\<lparr>au_stopped := True, au_thread := False, au_timer := Some False\<rparr>))"

definition AuthServer_destruct :: "auth_server \<Rightarrow> auth_server res" where
  "AuthServer_destruct a =
     (case AuthServer_Stop a of Inl (Thrown _) \<Rightarrow> Inl (UB ''exception leaves a destructor'') | r \<Rightarrow> r)"

section \<open>The session of the authentication server\<close>

text \<open>
  \<open>ProtocolHandler\<close>: \<open>login\<close> is the packet it sends back; its message types are generated from a
  file that is not in the repository, so the packet and the parser of \<open>Auth::Meta\<close> are parameters.
\<close>

definition AuthSession_Start :: "sock \<Rightarrow> sock" where
  "AuthSession_Start s = NetWork_Socket_AsyncReceive s"

definition AuthSession_Update :: "sock \<Rightarrow> bool" where
  "AuthSession_Update s = True"

definition AuthSession_ProtocolHandler ::
  "bytes \<Rightarrow> (bytes \<Rightarrow> bool) \<Rightarrow> bool \<Rightarrow> bytes \<Rightarrow> sock \<Rightarrow> sock" where
  "AuthSession_ProtocolHandler login meta_parses error buffer s =
     (if error then s
      else
        let s1 = NetWork_Socket_AsyncSend login s
        in if \<not> meta_parses buffer then s1 else NetWork_Socket_AsyncReceive s1)"

definition AuthSessionManager_CreateThreads :: "int \<Rightarrow> net_thread list" where
  "AuthSessionManager_CreateThreads n = replicate (nat n) NetWork_NetworkThread_init"

definition AuthSessionManager_OnSocketAccept ::
  "nat \<Rightarrow> sock \<Rightarrow> nat \<Rightarrow> socks \<Rightarrow> net_thread list \<Rightarrow> (socks \<times> net_thread list) res" where
  "AuthSessionManager_OnSocketAccept i s thread_index S threads =
     NetWork_SocketManager_OnSocketOpen i (Some (AuthSession_Start s)) thread_index S threads"

definition AuthSessionManager_StartNetwork ::
  "bool \<Rightarrow> int \<Rightarrow> acceptor \<Rightarrow> socket_manager \<Rightarrow> (bool \<times> acceptor \<times> socket_manager) res" where
  "AuthSessionManager_StartNetwork bound thread_count a m =
     bind_res (NetWork_SocketManager_StartNetwork bound (AuthSessionManager_CreateThreads thread_count) thread_count m)
       (\<lambda>(ok, m').
          if \<not> ok then Inr (False, a, m')
          else bind_res
            (NetWork_AsyncAcceptor_AsyncAcceptWithCallback
              (\<lambda>_. NetWork_SocketManager_GetSocketForAccept (case sm_threads m' of None \<Rightarrow> [] | Some ts \<Rightarrow> ts)) a)
            (\<lambda>(_, a'). Inr (True, a', m')))"

text \<open>
  \<open>main\<close> up to \<open>_io_service->run()\<close>: the exit code if it ends before (\<open>None\<close>: it is in \<open>run\<close>). The
  results of \<open>StartNetwork\<close> are dropped; one network thread is the default.
\<close>

definition auth_main ::
  "bool \<Rightarrow> acceptor \<Rightarrow> socket_manager \<Rightarrow> auth_server \<Rightarrow> (int option \<times> acceptor \<times> socket_manager \<times> auth_server) res" where
  "auth_main bound a m au =
     (case AuthServer_Start au of
        Inl (Thrown _) \<Rightarrow> Inr (Some 0, a, m, au)
      | Inl (UB u) \<Rightarrow> Inl (UB u)
      | Inr (ok, au1) \<Rightarrow>
          if \<not> ok then Inr (Some 1, a, m, au1)
          else (case AuthSessionManager_StartNetwork bound 1 a m of
                  Inl (Thrown _) \<Rightarrow> Inr (Some 0, a, m, au1)
                | Inl (UB u) \<Rightarrow> Inl (UB u)
                | Inr (_, a', m') \<Rightarrow> Inr (None, a', m', au1)))"

section \<open>The older server\<close>

text \<open>
  Its tickets map to raw pointers; \<open>ga_live\<close> is the set of accounts that exist, with their expiry
  times. \<open>gen1\<close> and \<open>gen2\<close> are the two draws of the generator, the inner one first.
\<close>

record gnet_auth =
  ga_tickets :: "bytes \<Rightarrow> nat option"
  ga_live :: "nat \<Rightarrow> int option"
  ga_next :: nat
  ga_server_sessions :: nat
  ga_accepting :: nat

text \<open>
  \<open>OnAccept\<close>: \<open>ec\<close> is the error of the accept, \<open>throws\<close> that making or starting the session throws (the
  session is then in the list only if it was \<open>Start\<close> that threw); the base class \<open>Service\<close>, whose
  \<open>StartAccept\<close> starts the next accept, is not in the repository.
\<close>

datatype accept_outcome = Started | Make_throws | Start_throws

definition GnetAuth_OnAccept :: "bool \<Rightarrow> accept_outcome \<Rightarrow> gnet_auth \<Rightarrow> gnet_auth" where
  "GnetAuth_OnAccept ec start g =
     (let g1 = g\<lparr>ga_accepting := ga_accepting g - 1\<rparr>;
          g2 = (if \<not> ec \<and> start \<noteq> Make_throws
                then g1\<lparr>ga_server_sessions := Suc (ga_server_sessions g1)\<rparr> else g1)
      in g2\<lparr>ga_accepting := Suc (ga_accepting g2)\<rparr>)"

definition GnetAuth_AddTicket :: "int \<Rightarrow> bytes \<Rightarrow> nat \<Rightarrow> gnet_auth \<Rightarrow> gnet_auth" where
  "GnetAuth_AddTicket now ticket account g =
     g\<lparr>ga_live := (ga_live g)(account \<mapsto> now + 10), ga_tickets := emplace ticket account (ga_tickets g)\<rparr>"

definition ticket_of :: "int \<Rightarrow> bytes" where
  "ticket_of tocken = ascii ''REAL-'' @ to_string tocken"

definition GnetAuth_HandleLogin ::
  "(int \<Rightarrow> int \<Rightarrow> int) \<Rightarrow> (int \<Rightarrow> int \<Rightarrow> int) \<Rightarrow> int \<Rightarrow> gnet_auth \<Rightarrow> (bytes option \<times> gnet_auth) res" where
  "GnetAuth_HandleLogin gen1 gen2 now g =
     (if AuthServer_CheckAccount then
        bind_res (CommonUtil_Random gen1 100000 50000000) (\<lambda>hi.
          bind_res (CommonUtil_Random gen2 100000 hi) (\<lambda>tocken.
            let account = ga_next g; g1 = g\<lparr>ga_next := Suc (ga_next g), ga_live := (ga_live g)(account \<mapsto> 0)\<rparr>;
                g2 = GnetAuth_AddTicket now (ticket_of tocken) account g1
            in Inr (Some (ticket_of tocken), g2\<lparr>ga_live := (ga_live g2)(account := None)\<rparr>)))
      else Inr (None, g))"

text \<open>
  \<open>main\<close>: \<open>start\<close> is what \<open>Start\<close> of the base class gives; true counts as a failure. \<open>None\<close>: it
  sleeps forever.
\<close>

definition gnet_main :: "bool res \<Rightarrow> int option res" where
  "gnet_main start =
     (case start of
        Inl (Thrown _) \<Rightarrow> Inr (Some 0)
      | Inl (UB u) \<Rightarrow> Inl (UB u)
      | Inr failed \<Rightarrow> Inr (if failed then Some 1 else None))"

interpretation gnet_tickets: first_wins "\<lambda>k v g. GnetAuth_AddTicket now k v g" ga_tickets for now
  by unfold_locales (simp add: GnetAuth_AddTicket_def reg_simps)

section \<open>Lemmas\<close>

lemma clean_loop_odd: "odd (length ts) \<Longrightarrow> clean_loop now ts = Inl (UB ''increment of the end iterator'')"
  by (induction now ts rule: clean_loop.induct) auto

lemma clean_loop_even:
  "even (length ts) \<Longrightarrow> even n \<Longrightarrow>
     clean_loop now ts = Inr (map snd (filter (\<lambda>(i, t). odd i \<or> \<not> snd t < now) (enumerate n ts)))"
proof (induction now ts arbitrary: n rule: clean_loop.induct)
  case (3 now t x ts)
  from "3.IH" [of "Suc (Suc n)"] "3.prems" show ?case by simp
qed simp_all

section \<open>Properties\<close>

text \<open>
  \<open>CleanLoginTickets\<close> does not remove the expired tickets: with an odd number of tickets it runs
  over the end of the table, with an even number it looks at every second one only, so an expired
  ticket in between stays.
\<close>

theorem CleanLoginTickets_skips:
  "AuthServer_CleanLoginTickets False now a =
     (if odd (length (au_tickets a)) then Inl (UB ''increment of the end iterator'')
      else Inr (a\<lparr>au_tickets := map snd (filter (\<lambda>(i, t). odd i \<or> \<not> snd t < now) (enumerate 0 (au_tickets a))),
                  au_timer := Some True\<rparr>))"
  by (simp add: AuthServer_CleanLoginTickets_def clean_loop_odd clean_loop_even [of _ 0])

theorem CleanLoginTickets_skips_witness:
  "AuthServer_CleanLoginTickets False 100 (AuthServer_init\<lparr>au_tickets := [([7], 3), ([8], 4)]\<rparr>) =
     Inr (AuthServer_init\<lparr>au_tickets := [([8], 4)], au_timer := Some True\<rparr>)"
  using CleanLoginTickets_skips [of 100 "AuthServer_init\<lparr>au_tickets := [([7], 3), ([8], 4)]\<rparr>"] by simp

text \<open>
  A ticket that is added is valid for ten seconds from then; adding a ticket that is there already
  changes nothing, in particular not its expiry time, and no other ticket is touched.
\<close>

theorem AddTicket_spec:
  assumes "distinct (map fst (au_tickets a))"
  shows "map_of (au_tickets (AuthServer_AddTicket place now ticket a)) t =
      (if t = ticket \<and> map_of (au_tickets a) t = None then Some (now + 10) else map_of (au_tickets a) t) \<and>
    distinct (map fst (au_tickets (AuthServer_AddTicket place now ticket a)))"
proof (cases "ticket \<in> fst ` set (au_tickets a)")
  case True
  then show ?thesis using assms by (auto simp: AuthServer_AddTicket_def Let_def map_of_eq_None_iff)
next
  case False
  let ?k = "place (length (au_tickets a))"
  have split: "au_tickets a = take ?k (au_tickets a) @ drop ?k (au_tickets a)" by simp
  have m: "map_of (au_tickets a) = map_of (drop ?k (au_tickets a)) ++ map_of (take ?k (au_tickets a))"
    using map_of_append [of "take ?k (au_tickets a)" "drop ?k (au_tickets a)"] by simp
  have d: "distinct (map fst (take ?k (au_tickets a)) @ map fst (drop ?k (au_tickets a)))"
    using assms by (simp flip: map_append)
  have n: "map_of (take ?k (au_tickets a)) ticket = None" "map_of (drop ?k (au_tickets a)) ticket = None"
    using False by (auto simp: map_of_eq_None_iff dest: in_set_takeD in_set_dropD)
  have "ticket \<notin> fst ` set (take ?k (au_tickets a))" "ticket \<notin> fst ` set (drop ?k (au_tickets a))"
    using False by (auto dest: in_set_takeD in_set_dropD)
  with d have "distinct (map fst (take ?k (au_tickets a) @ (ticket, now + 10) # drop ?k (au_tickets a)))"
    by auto
  moreover have "map_of (take ?k (au_tickets a) @ (ticket, now + 10) # drop ?k (au_tickets a)) t =
      (if t = ticket \<and> map_of (au_tickets a) t = None then Some (now + 10) else map_of (au_tickets a) t)"
    unfolding m using n by (auto simp: map_add_def split: option.splits)
  ultimately show ?thesis using False by (simp add: AuthServer_AddTicket_def Let_def)
qed

theorem AddTicket_spec_witness:
  "map_of (au_tickets (AuthServer_AddTicket (\<lambda>_. 0) 100 [7] (AuthServer_init\<lparr>au_tickets := [([8], 3)]\<rparr>))) [7] = Some 110"
  using AddTicket_spec [of "AuthServer_init\<lparr>au_tickets := [([8], 3)]\<rparr>" "\<lambda>_. 0" 100 "[7]" "[7]"] by simp

text \<open>
  \<open>Start\<close>, \<open>Stop\<close> and the destructor do not fit together: after \<open>Stop\<close> the destructor joins the
  thread a second time, and the exception leaves the destructor.
\<close>

theorem AuthServer_Stop_then_destruct:
  "\<exists>a1 a2. AuthServer_Start AuthServer_init = Inr (True, a1) \<and> AuthServer_Stop a1 = Inr a2 \<and> au_stopped a2 \<and>
     AuthServer_destruct a2 = Inl (UB ''exception leaves a destructor'') \<and>
     AuthServer_destruct AuthServer_init = Inl (UB ''exception leaves a destructor'')"
  by (simp add: AuthServer_Start_def AuthServer_Stop_def AuthServer_destruct_def AuthServer_init_def)

text \<open>
  The session of the authentication server never closes its connection: a packet that does not
  parse and a read error leave it open without a read, and a good packet starts exactly one.
\<close>

theorem AuthSession_never_closes:
  "sk_closed (AuthSession_ProtocolHandler login ok error buffer s) = sk_closed s \<and>
   sk_reads (AuthSession_ProtocolHandler login ok error buffer s) =
     sk_reads s + (if \<not> error \<and> ok buffer then 1 else 0)"
  by (simp add: AuthSession_ProtocolHandler_def network_Socket_defs Socket_AsyncSend_def Socket_AsyncReceive_def Let_def)

text \<open>
  The older server hands out a ticket between 100000 and 50000000 and stores it with a pointer
  to an account that is destroyed before \<open>HandleLogin\<close> returns.
\<close>

theorem GnetAuth_HandleLogin_dangles:
  assumes "\<And>lo hi. lo \<le> hi \<Longrightarrow> lo \<le> gen1 lo hi \<and> gen1 lo hi \<le> hi"
    and "\<And>lo hi. lo \<le> hi \<Longrightarrow> lo \<le> gen2 lo hi \<and> gen2 lo hi \<le> hi"
    and "\<And>t. ga_tickets g t = None"
  shows "\<exists>tocken g' account. GnetAuth_HandleLogin gen1 gen2 now g = Inr (Some (ticket_of tocken), g') \<and>
    100000 \<le> tocken \<and> tocken \<le> 50000000 \<and>
    ga_tickets g' (ticket_of tocken) = Some account \<and> ga_live g' account = None"
proof -
  let ?hi = "gen1 100000 50000000"
  have hi: "100000 \<le> ?hi" "?hi \<le> 50000000" using assms(1) [of 100000 50000000] by simp_all
  moreover have "100000 \<le> gen2 100000 ?hi" "gen2 100000 ?hi \<le> ?hi" using assms(2) [OF hi(1)] by simp_all
  ultimately show ?thesis
    using assms(3)
    by (auto simp: GnetAuth_HandleLogin_def AuthServer_CheckAccount_def CommonUtil_Random_def
        GnetAuth_AddTicket_def Let_def reg_simps)
qed

theorem GnetAuth_HandleLogin_dangles_witness:
  "\<exists>tocken g' account. GnetAuth_HandleLogin (\<lambda>lo hi. hi) (\<lambda>lo hi. lo) 5
      \<lparr>ga_tickets = Map.empty, ga_live = Map.empty, ga_next = 0, ga_server_sessions = 0, ga_accepting = 1\<rparr> = Inr (Some (ticket_of tocken), g') \<and>
     ga_tickets g' (ticket_of tocken) = Some account \<and> ga_live g' account = None"
  using GnetAuth_HandleLogin_dangles [of "\<lambda>lo hi. hi" "\<lambda>lo hi. lo"
      "\<lparr>ga_tickets = Map.empty, ga_live = Map.empty, ga_next = 0, ga_server_sessions = 0, ga_accepting = 1\<rparr>" 5] by auto

end
