(* ===== verification/Chat_Message.thy ===== *)
theory Chat_Message
  imports Redis_Client
begin

text \<open>
  Sample/chat_message.hpp: a message of the sample chat, a header of four characters with the
  length of the body, and the framing it gives to a stream of bytes.
\<close>

section \<open>The message\<close>

definition header_length :: nat where
  "header_length = 4"

definition max_body_length :: nat where
  "max_body_length = 512"

text \<open>\<open>cm_data\<close> is the array of \<open>header_length + max_body_length\<close> bytes.\<close>

record chat_message =
  cm_data :: bytes
  cm_body_length :: nat

definition chat_message_new :: "bytes \<Rightarrow> chat_message" where
  "chat_message_new raw = \<lparr>cm_data = raw, cm_body_length = 0\<rparr>"

definition chat_message_ok :: "chat_message \<Rightarrow> bool" where
  "chat_message_ok m \<longleftrightarrow> length (cm_data m) = header_length + max_body_length \<and>
     cm_body_length m \<le> max_body_length"

definition chat_message_length :: "chat_message \<Rightarrow> nat" where
  "chat_message_length m = header_length + cm_body_length m"

definition chat_message_body :: "chat_message \<Rightarrow> bytes" where
  "chat_message_body m = take (cm_body_length m) (drop header_length (cm_data m))"

definition set_body_length :: "nat \<Rightarrow> chat_message \<Rightarrow> chat_message" where
  "set_body_length new_length m =
     (if max_body_length < new_length then m\<lparr>cm_body_length := max_body_length\<rparr>
      else m\<lparr>cm_body_length := new_length\<rparr>)"

text \<open>\<open>memcpy(msg.body(), line, n)\<close>.\<close>

definition write_body :: "bytes \<Rightarrow> chat_message \<Rightarrow> chat_message" where
  "write_body line m = m\<lparr>cm_data := take header_length (cm_data m) @ line @
     drop (header_length + length line) (cm_data m)\<rparr>"

text \<open>
  \<open>decode_header\<close>: \<open>strncat\<close> stops at a NUL byte; \<open>atoi\<close> skips white space and takes a sign and the
  digits; a negative number becomes a huge \<open>size_t\<close>.
\<close>

definition atoi :: "bytes \<Rightarrow> int" where
  "atoi s = fst (read_int32 s)"

definition decode_header :: "chat_message \<Rightarrow> bool \<times> chat_message" where
  "decode_header m =
     (let n = atoi (c_str (take header_length (cm_data m)))
      in if n < 0 \<or> int max_body_length < n then (False, m\<lparr>cm_body_length := 0\<rparr>)
         else (True, m\<lparr>cm_body_length := nat n\<rparr>))"

text \<open>\<open>encode_header\<close>: \<open>sprintf\<close> with \<open>"%4d"\<close>, then the first four characters are copied.\<close>

definition pad4 :: "nat \<Rightarrow> bytes" where
  "pad4 n = replicate (4 - length (dec_nat n)) 32 @ dec_nat n"

definition encode_header :: "chat_message \<Rightarrow> chat_message" where
  "encode_header m = m\<lparr>cm_data := take header_length (pad4 (cm_body_length m)) @ drop header_length (cm_data m)\<rparr>"

text \<open>The bytes that are sent: \<open>length()\<close> bytes from \<open>data()\<close>.\<close>

definition chat_message_wire :: "chat_message \<Rightarrow> bytes" where
  "chat_message_wire m = take (chat_message_length m) (cm_data m)"

text \<open>What the client's main loop builds from an input line, on an uninitialised array \<open>raw\<close>.\<close>

definition message_of_line :: "bytes \<Rightarrow> bytes \<Rightarrow> chat_message" where
  "message_of_line raw line =
     (let m = set_body_length (length line) (chat_message_new raw)
      in encode_header (write_body (take (cm_body_length m) line) m))"

section \<open>Lemmas\<close>

lemma dec_nat_length: "n < 10 ^ k \<Longrightarrow> 0 < k \<Longrightarrow> length (dec_nat n) \<le> k"
proof (induction k arbitrary: n)
  case (Suc k)
  show ?case
  proof (cases "n < 10")
    case True
    then show ?thesis by (simp add: dec_nat.simps [of n])
  next
    case False
    with Suc.prems have "0 < k" by (cases k) auto
    moreover have "n div 10 < 10 ^ k" using Suc.prems by (simp add: less_mult_imp_div_less mult.commute)
    ultimately have "length (dec_nat (n div 10)) \<le> k" by (intro Suc.IH)
    with False show ?thesis by (simp add: dec_nat.simps [of n])
  qed
qed simp

lemma dec_nat_is_digit: "b \<in> set (dec_nat n) \<Longrightarrow> is_digit b"
  using dec_nat_digits [of b n] by (simp add: is_digit_def word_le_def)

lemma digit_not_space: "is_digit b \<Longrightarrow> \<not> is_space b"
  by (auto simp: is_digit_def is_space_def word_le_def)

lemma dec_nat_not_Nil: "dec_nat n \<noteq> []"
  by (simp add: dec_nat.simps [of n])

lemma read_int32_padded:
  assumes "n < 2 ^ 31"
  shows "read_int32 (replicate k 32 @ dec_nat n) = (int n, [])"
proof -
  obtain b bs where b: "dec_nat n = b # bs" using dec_nat_not_Nil by (cases "dec_nat n") auto
  have d: "is_digit b" using dec_nat_is_digit [of b n] b by simp
  have sp: "dropWhile is_space (replicate k 32 @ dec_nat n) = dec_nat n"
    using b digit_not_space [OF d] by (induction k) (auto simp: is_space_def)
  have tw: "takeWhile is_digit (dec_nat n) = dec_nat n" "dropWhile is_digit (dec_nat n) = []"
    by (auto intro: dec_nat_is_digit)
  have "hd (dec_nat n) \<noteq> 45" "hd (dec_nat n) \<noteq> 43" using d b by (auto simp: is_digit_def word_le_def)
  moreover have "clamp32 (int n) = int n" using assms by (simp add: clamp32_def)
  ultimately show ?thesis by (simp add: read_int32_def sp tw Let_def digits_value_dec_nat)
qed

lemma atoi_pad4:
  assumes "n \<le> max_body_length"
  shows "length (pad4 n) = 4" "atoi (c_str (pad4 n)) = int n"
proof -
  show "length (pad4 n) = 4"
    using dec_nat_length [of n 4] assms by (simp add: pad4_def max_body_length_def)
  have "0 \<notin> set (dec_nat n)" using dec_nat_digits [of 0 n] by auto
  then have "c_str (pad4 n) = pad4 n" by (simp add: c_str_id_iff pad4_def)
  then show "atoi (c_str (pad4 n)) = int n"
    using assms read_int32_padded [of n] by (simp add: atoi_def pad4_def max_body_length_def)
qed

lemma line_message:
  assumes "length raw = header_length + max_body_length" "length line \<le> max_body_length"
  shows "chat_message_wire (message_of_line raw line) = pad4 (length line) @ line"
    and "cm_body_length (message_of_line raw line) = length line"
proof -
  have m: "set_body_length (length line) (chat_message_new raw) = \<lparr>cm_data = raw, cm_body_length = length line\<rparr>"
    using assms(2) by (simp add: set_body_length_def chat_message_new_def)
  show "cm_body_length (message_of_line raw line) = length line"
    by (simp add: message_of_line_def m encode_header_def write_body_def)
  show "chat_message_wire (message_of_line raw line) = pad4 (length line) @ line"
    using assms atoi_pad4(1) [OF assms(2)]
    by (simp add: message_of_line_def m encode_header_def write_body_def chat_message_wire_def
        chat_message_length_def header_length_def max_body_length_def)
qed

section \<open>Properties\<close>

text \<open>
  \<open>decode_header\<close> reads back what \<open>encode_header\<close> wrote, for every body length the class allows; a
  length that is set too large is cut to 512 first.
\<close>

theorem chat_header_roundtrip:
  assumes "length (cm_data m) = header_length + max_body_length"
  shows "decode_header (encode_header (set_body_length n m)) =
    (True, encode_header (set_body_length n m)) \<and>
    chat_message_ok (encode_header (set_body_length n m)) \<and>
    cm_body_length (encode_header (set_body_length n m)) = min n 512"
proof -
  let ?m = "set_body_length n m"
  have le: "cm_body_length ?m \<le> max_body_length" "cm_body_length ?m = min n 512"
    "length (cm_data ?m) = header_length + max_body_length"
    using assms by (simp_all add: set_body_length_def max_body_length_def)
  have "decode_header (encode_header ?m) = (True, encode_header ?m)"
    using atoi_pad4 [OF le(1)] le(1) by (simp add: decode_header_def encode_header_def header_length_def)
  moreover have "chat_message_ok (encode_header ?m)"
    using atoi_pad4(1) [OF le(1)] le by (simp add: chat_message_ok_def encode_header_def header_length_def)
  ultimately show ?thesis using le(2) by (simp add: encode_header_def)
qed

theorem chat_header_roundtrip_witness:
  "fst (decode_header (encode_header (set_body_length 700 (chat_message_new (replicate 516 1)))))"
  using chat_header_roundtrip [of "chat_message_new (replicate 516 1)" 700]
  by (simp add: chat_message_new_def header_length_def max_body_length_def)

end
