(* ===== verification/Chat_Room.thy ===== *)
theory Chat_Room
  imports Chat_Message
begin

text \<open>
  Sample/chat_server.cpp and Sample/chat_client.cpp: the chat room with its history, the sessions
  of the server, and the client. Each keeps a queue of outgoing messages of which the first one is
  being written. Handlers run one at a time (one thread runs the \<open>io_service\<close>).
\<close>

section \<open>The interface of an outgoing queue\<close>

text \<open>
  \<open>put\<close> queues a message and \<open>done\<close> is the completion of a write, with or without an error. \<open>queued\<close> and
  \<open>sent\<close> are the messages waiting and written; \<open>busy\<close> are the messages of the writes that have been started
  and whose completion has not run yet, so that writes that overlap are expressible.
\<close>

datatype 'm writer_event = Put 'm | Done bool

definition puts :: "'m writer_event list \<Rightarrow> 'm list" where
  "puts evs = List.map_filter (\<lambda>ev. case ev of Put m \<Rightarrow> Some m | Done _ \<Rightarrow> None) evs"

lemma puts_simps [simp]: "puts [] = []" "puts (Put m # evs) = m # puts evs" "puts (Done ec # evs) = puts evs"
  by (simp_all add: puts_def map_filter_simps)

locale fifo_writer =
  fixes put :: "'m \<Rightarrow> 's \<Rightarrow> 's"
    and "done" :: "bool \<Rightarrow> 's \<Rightarrow> 's"
    and queued :: "'s \<Rightarrow> 'm list"
    and sent :: "'s \<Rightarrow> 'm list"
    and busy :: "'s \<Rightarrow> 'm list"
  assumes put_queued: "queued (put m s) = queued s @ [m]"
    and put_sent: "sent (put m s) = sent s"
    and put_busy: "busy (put m s) = busy s @ (if queued s = [] then [m] else [])"
    and done_ok: "\<lbrakk>busy s = [m]; queued s = m # q\<rbrakk> \<Longrightarrow>
      queued (done False s) = q \<and> sent (done False s) = sent s @ [m] \<and> busy (done False s) = take 1 q"
    and done_failed: "queued (done True s) = queued s \<and> sent (done True s) = sent s \<and> busy (done True s) = tl (busy s)"
begin

text \<open>A completion runs only when a write is outstanding.\<close>

definition turn :: "'m writer_event \<Rightarrow> 's \<Rightarrow> 's" where
  "turn ev s = (case ev of Put m \<Rightarrow> put m s | Done ec \<Rightarrow> if busy s = [] then s else done ec s)"

text \<open>\<open>ok\<close>: no write has failed, and then the first message of the queue is being written.\<close>

definition wf :: "bool \<Rightarrow> 's \<Rightarrow> bool" where
  "wf ok s \<longleftrightarrow> busy s = take 1 (queued s) \<or> \<not> ok \<and> busy s = []"

lemma turn_fifo:
  assumes "wf ok s"
  shows "wf (ok \<and> ev \<noteq> Done True) (turn ev s)"
    and "sent (turn ev s) @ queued (turn ev s) = sent s @ queued s @ puts [ev]"
proof -
  have "wf (ok \<and> ev \<noteq> Done True) (turn ev s) \<and> sent (turn ev s) @ queued (turn ev s) = sent s @ queued s @ puts [ev]"
  proof (cases ev)
    case (Put m)
    with assms show ?thesis by (cases "queued s") (auto simp: turn_def wf_def put_queued put_sent put_busy)
  next
    case (Done ec)
    show ?thesis
    proof (cases "busy s = []")
      case False
      with assms obtain m q where "busy s = [m]" "queued s = m # q" by (cases "queued s") (auto simp: wf_def)
      with Done False done_ok [of s m q] done_failed [of s] show ?thesis
        by (cases ec) (simp_all add: turn_def wf_def)
    qed (use assms Done in \<open>auto simp: turn_def wf_def\<close>)
  qed
  then show "wf (ok \<and> ev \<noteq> Done True) (turn ev s)" "sent (turn ev s) @ queued (turn ev s) = sent s @ queued s @ puts [ev]"
    by blast+
qed

lemma run_fifo:
  assumes "wf ok s"
  shows "wf (ok \<and> Done True \<notin> set evs) (fold turn evs s)"
    and "sent (fold turn evs s) @ queued (fold turn evs s) = sent s @ queued s @ puts evs"
proof -
  have "wf (ok \<and> Done True \<notin> set evs) (fold turn evs s) \<and>
      sent (fold turn evs s) @ queued (fold turn evs s) = sent s @ queued s @ puts evs"
    using assms
  proof (induction evs arbitrary: s ok)
    case (Cons ev evs)
    have "puts (ev # evs) = puts [ev] @ puts evs" by (cases ev) simp_all
    with Cons.IH [OF turn_fifo(1) [OF Cons.prems, of ev]] turn_fifo(2) [OF Cons.prems, of ev]
    show ?case by (simp add: conj_assoc eq_commute [of "Done True"])
  qed simp
  then show "wf (ok \<and> Done True \<notin> set evs) (fold turn evs s)"
    "sent (fold turn evs s) @ queued (fold turn evs s) = sent s @ queued s @ puts evs" by blast+
qed

lemma wf_bound: "wf ok s \<Longrightarrow> length (busy s) \<le> 1 \<and> (ok \<longrightarrow> busy s = take 1 (queued s))"
  by (auto simp: wf_def)

end

section \<open>A session of the server\<close>

text \<open>
  \<open>cs_read\<close>: what the session waits for next. \<open>cs_writing\<close>: the messages of the \<open>async_write\<close>s that have been
  started and whose handler has not run yet.
\<close>

datatype read_state = RS_None | RS_Header | RS_Body nat

record chat_session =
  cs_queue :: "chat_message list"
  cs_writing :: "chat_message list"
  cs_sent :: "chat_message list"
  cs_read_msg :: chat_message
  cs_read :: read_state

definition chat_session_new :: "bytes \<Rightarrow> chat_session" where
  "chat_session_new raw = \<lparr>cs_queue = [], cs_writing = [], cs_sent = [],
     cs_read_msg = chat_message_new raw, cs_read = RS_None\<rparr>"

definition session_do_write :: "chat_session \<Rightarrow> chat_session" where
  "session_do_write s = s\<lparr>cs_writing := cs_writing s @ [hd (cs_queue s)]\<rparr>"

definition session_deliver :: "chat_message \<Rightarrow> chat_session \<Rightarrow> chat_session" where
  "session_deliver msg s =
     (let write_in_progress = (cs_queue s \<noteq> []); s1 = s\<lparr>cs_queue := cs_queue s @ [msg]\<rparr>
      in if \<not> write_in_progress then session_do_write s1 else s1)"

text \<open>
  The completion of a write: without an error the front of the queue is popped and the next one is written.
  With an error the session leaves the room (\<open>session_on_write\<close>); its queue stays as it is.
\<close>

definition session_written :: "bool \<Rightarrow> chat_session \<Rightarrow> chat_session" where
  "session_written ec s =
     (let s0 = s\<lparr>cs_writing := tl (cs_writing s)\<rparr>
      in if \<not> ec
         then let s1 = s0\<lparr>cs_sent := cs_sent s @ [hd (cs_writing s)], cs_queue := tl (cs_queue s)\<rparr>
              in if cs_queue s1 \<noteq> [] then session_do_write s1 else s1
         else s0)"

interpretation srv: fifo_writer session_deliver session_written cs_queue cs_sent cs_writing
  by unfold_locales
    (auto simp: session_deliver_def session_written_def session_do_write_def Let_def take_Suc)

section \<open>The room\<close>

text \<open>
  Participants are named by numbers; \<open>std::set\<close> keeps them in ascending order. \<open>cr_sessions\<close> holds the
  session objects.
\<close>

record chat_room =
  cr_participants :: "nat list"
  cr_recent :: "chat_message list"
  cr_sessions :: "nat \<Rightarrow> chat_session"

definition max_recent_msgs :: nat where
  "max_recent_msgs = 100"

definition deliver_to :: "nat \<Rightarrow> chat_message \<Rightarrow> chat_room \<Rightarrow> chat_room" where
  "deliver_to p msg r = r\<lparr>cr_sessions := (cr_sessions r)(p := session_deliver msg (cr_sessions r p))\<rparr>"

definition chat_room_join :: "nat \<Rightarrow> chat_room \<Rightarrow> chat_room" where
  "chat_room_join p r =
     (let r1 = r\<lparr>cr_participants := insort_key (\<lambda>x. x) p (remove1 p (cr_participants r))\<rparr>
      in fold (deliver_to p) (cr_recent r1) r1)"

definition chat_room_leave :: "nat \<Rightarrow> chat_room \<Rightarrow> chat_room" where
  "chat_room_leave p r = r\<lparr>cr_participants := remove1 p (cr_participants r)\<rparr>"

fun trim_recent :: "chat_message list \<Rightarrow> chat_message list" where
  "trim_recent [] = []"
| "trim_recent (m # ms) = (if max_recent_msgs < length (m # ms) then trim_recent ms else m # ms)"

definition chat_room_deliver :: "chat_message \<Rightarrow> chat_room \<Rightarrow> chat_room" where
  "chat_room_deliver msg r =
     (let r1 = r\<lparr>cr_recent := trim_recent (cr_recent r @ [msg])\<rparr>
      in fold (\<lambda>p. deliver_to p msg) (cr_participants r1) r1)"

text \<open>The reads of a session: \<open>start\<close>, then a header, then a body, and again.\<close>

definition upd_session :: "nat \<Rightarrow> (chat_session \<Rightarrow> chat_session) \<Rightarrow> chat_room \<Rightarrow> chat_room" where
  "upd_session p f r = r\<lparr>cr_sessions := (cr_sessions r)(p := f (cr_sessions r p))\<rparr>"

definition session_do_read_header :: "chat_session \<Rightarrow> chat_session" where
  "session_do_read_header s = s\<lparr>cs_read := RS_Header\<rparr>"

definition session_start :: "nat \<Rightarrow> chat_room \<Rightarrow> chat_room" where
  "session_start p r = upd_session p session_do_read_header (chat_room_join p r)"

definition session_on_header :: "nat \<Rightarrow> bool \<Rightarrow> bytes \<Rightarrow> chat_room \<Rightarrow> chat_room" where
  "session_on_header p ec header r =
     (let s = cr_sessions r p;
          m = (cs_read_msg s)\<lparr>cm_data := header @ drop header_length (cm_data (cs_read_msg s))\<rparr>;
          (ok, m') = decode_header m
      in if \<not> ec \<and> ok
         then upd_session p (\<lambda>s. s\<lparr>cs_read_msg := m', cs_read := RS_Body (cm_body_length m')\<rparr>) r
         else chat_room_leave p (upd_session p (\<lambda>s. s\<lparr>cs_read := RS_None\<rparr>) r))"

definition session_on_body :: "nat \<Rightarrow> bool \<Rightarrow> bytes \<Rightarrow> chat_room \<Rightarrow> chat_room" where
  "session_on_body p ec body r =
     (if \<not> ec then
        let m = write_body body (cs_read_msg (cr_sessions r p));
            r1 = chat_room_deliver m (upd_session p (\<lambda>s. s\<lparr>cs_read_msg := m\<rparr>) r)
        in upd_session p session_do_read_header r1
      else chat_room_leave p (upd_session p (\<lambda>s. s\<lparr>cs_read := RS_None\<rparr>) r))"

definition session_on_write :: "nat \<Rightarrow> bool \<Rightarrow> chat_room \<Rightarrow> chat_room" where
  "session_on_write p ec r =
     (let r1 = upd_session p (session_written ec) r in if \<not> ec then r1 else chat_room_leave p r1)"

section \<open>The client\<close>

record chat_client =
  cc_open :: bool
  cc_queue :: "chat_message list"
  cc_writing :: "chat_message list"
  cc_sent :: "chat_message list"
  cc_read_msg :: chat_message
  cc_read :: read_state
  cc_output :: bytes

definition chat_client_new :: "bytes \<Rightarrow> chat_client" where
  "chat_client_new raw = \<lparr>cc_open = True, cc_queue = [], cc_writing = [], cc_sent = [],
     cc_read_msg = chat_message_new raw, cc_read = RS_None, cc_output = []\<rparr>"

definition client_do_write :: "chat_client \<Rightarrow> chat_client" where
  "client_do_write c = c\<lparr>cc_writing := cc_writing c @ [hd (cc_queue c)]\<rparr>"

text \<open>The handler that \<open>write\<close> posts.\<close>

definition client_write :: "chat_message \<Rightarrow> chat_client \<Rightarrow> chat_client" where
  "client_write msg c =
     (let write_in_progress = (cc_queue c \<noteq> []); c1 = c\<lparr>cc_queue := cc_queue c @ [msg]\<rparr>
      in if \<not> write_in_progress then client_do_write c1 else c1)"

definition client_close :: "chat_client \<Rightarrow> chat_client" where
  "client_close c = c\<lparr>cc_open := False\<rparr>"

definition client_on_connect :: "bool \<Rightarrow> chat_client \<Rightarrow> chat_client" where
  "client_on_connect ec c = (if \<not> ec then c\<lparr>cc_read := RS_Header\<rparr> else c)"

definition client_on_header :: "bool \<Rightarrow> bytes \<Rightarrow> chat_client \<Rightarrow> chat_client" where
  "client_on_header ec header c =
     (let (ok, m) = decode_header ((cc_read_msg c)\<lparr>cm_data := header @ drop header_length (cm_data (cc_read_msg c))\<rparr>)
      in if \<not> ec \<and> ok then c\<lparr>cc_read_msg := m, cc_read := RS_Body (cm_body_length m)\<rparr>
         else client_close (c\<lparr>cc_read := RS_None\<rparr>))"

definition client_on_body :: "bool \<Rightarrow> bytes \<Rightarrow> chat_client \<Rightarrow> chat_client" where
  "client_on_body ec body c =
     (if \<not> ec then c\<lparr>cc_read_msg := write_body body (cc_read_msg c), cc_output := cc_output c @ body @ [10], cc_read := RS_Header\<rparr>
      else client_close (c\<lparr>cc_read := RS_None\<rparr>))"

definition client_on_write :: "bool \<Rightarrow> chat_client \<Rightarrow> chat_client" where
  "client_on_write ec c =
     (let c0 = c\<lparr>cc_writing := tl (cc_writing c)\<rparr>
      in if \<not> ec
         then let c1 = c0\<lparr>cc_sent := cc_sent c @ [hd (cc_writing c)], cc_queue := tl (cc_queue c)\<rparr>
              in if cc_queue c1 \<noteq> [] then client_do_write c1 else c1
         else client_close c0)"

interpretation cli: fifo_writer client_write client_on_write cc_queue cc_sent cc_writing
  by unfold_locales
    (auto simp: client_write_def client_on_write_def client_do_write_def client_close_def Let_def take_Suc)

section \<open>Lemmas\<close>

lemma trim_recent_eq: "trim_recent ms = drop (length ms - max_recent_msgs) ms"
  by (induction ms) (auto simp: Suc_diff_le not_le)

lemma trim_recent_append: "trim_recent (trim_recent xs @ ys) = trim_recent (xs @ ys)"
  by (simp add: trim_recent_eq) (cases "length xs \<le> max_recent_msgs"; simp add: add.commute)

lemma deliver_to_sel [simp]:
  "cr_participants (deliver_to p m r) = cr_participants r" "cr_recent (deliver_to p m r) = cr_recent r"
  "cr_sessions (deliver_to p m r) q = (if q = p then session_deliver m (cr_sessions r p) else cr_sessions r q)"
  by (simp_all add: deliver_to_def)

lemma fold_deliver_to:
  "distinct ps \<Longrightarrow>
     cr_sessions (fold (\<lambda>p. deliver_to p m) ps r) q =
       (if q \<in> set ps then session_deliver m (cr_sessions r q) else cr_sessions r q) \<and>
     cr_participants (fold (\<lambda>p. deliver_to p m) ps r) = cr_participants r \<and>
     cr_recent (fold (\<lambda>p. deliver_to p m) ps r) = cr_recent r"
  by (induction ps arbitrary: r) auto

lemma fold_deliver_msgs:
  "cr_sessions (fold (deliver_to p) ms r) q =
       (if q = p then fold session_deliver ms (cr_sessions r p) else cr_sessions r q) \<and>
     cr_participants (fold (deliver_to p) ms r) = cr_participants r \<and>
     cr_recent (fold (deliver_to p) ms r) = cr_recent r"
  by (induction ms arbitrary: r) auto

lemma room_deliver_eq:
  assumes "distinct (cr_participants r)"
  shows "cr_sessions (chat_room_deliver m r) q =
      (if q \<in> set (cr_participants r) then session_deliver m (cr_sessions r q) else cr_sessions r q)"
    and "cr_participants (chat_room_deliver m r) = cr_participants r"
    and "cr_recent (chat_room_deliver m r) = trim_recent (cr_recent r @ [m])"
  using fold_deliver_to [OF assms, of m "r\<lparr>cr_recent := trim_recent (cr_recent r @ [m])\<rparr>"]
  by (simp_all add: chat_room_deliver_def)

lemma session_deliver_many:
  "cs_sent (fold session_deliver ms s) @ cs_queue (fold session_deliver ms s) = cs_sent s @ cs_queue s @ ms"
  by (induction ms arbitrary: s) (simp_all add: srv.put_queued srv.put_sent)

section \<open>Properties\<close>

text \<open>
  C22. The history of the room is the last 100 messages ever delivered, and every participant is handed
  every message in that order; nobody else is handed any.
\<close>

theorem chat_room_history:
  assumes "distinct (cr_participants r)" "length (cr_recent r) \<le> 100"
    and "r' = fold chat_room_deliver ms r"
  shows "cr_recent r' = drop (length (cr_recent r @ ms) - 100) (cr_recent r @ ms) \<and>
    cr_participants r' = cr_participants r \<and>
    cs_sent (cr_sessions r' p) @ cs_queue (cr_sessions r' p) =
      cs_sent (cr_sessions r p) @ cs_queue (cr_sessions r p) @ (if p \<in> set (cr_participants r) then ms else [])"
proof -
  have "cr_recent (fold chat_room_deliver ms r) = trim_recent (cr_recent r @ ms) \<and>
      cr_participants (fold chat_room_deliver ms r) = cr_participants r \<and>
      cr_sessions (fold chat_room_deliver ms r) p =
        (if p \<in> set (cr_participants r) then fold session_deliver ms (cr_sessions r p) else cr_sessions r p)"
    if "cr_recent r = trim_recent (cr_recent r)" "distinct (cr_participants r)"
    using that
  proof (induction ms arbitrary: r)
    case Nil
    then show ?case by simp
  next
    case (Cons m ms)
    let ?r = "chat_room_deliver m r"
    have "cr_recent ?r = trim_recent (cr_recent ?r)" "distinct (cr_participants ?r)"
      using Cons.prems trim_recent_append [of "cr_recent r @ [m]" "[]"] by (simp_all add: room_deliver_eq)
    from Cons.IH [OF this] Cons.prems show ?case
      using trim_recent_append [of "cr_recent r @ [m]" ms] by (simp add: room_deliver_eq)
  qed
  moreover have "cr_recent r = trim_recent (cr_recent r)"
    using assms(2) by (simp add: trim_recent_eq max_recent_msgs_def)
  ultimately show ?thesis
    using assms(1,3) by (simp add: trim_recent_eq max_recent_msgs_def session_deliver_many)
qed

definition demo_room :: chat_room where
  "demo_room = \<lparr>cr_participants = [1, 2], cr_recent = [], cr_sessions = (\<lambda>_. chat_session_new [])\<rparr>"

theorem chat_room_history_witness:
  "length (cr_recent (fold chat_room_deliver (replicate 250 (chat_message_new [])) demo_room)) = 100"
  using chat_room_history [of demo_room "fold chat_room_deliver (replicate 250 (chat_message_new [])) demo_room"
      "replicate 250 (chat_message_new [])" 1]
  by (simp add: demo_room_def)

text \<open>
  A participant that joins is handed the whole history, in order, before anything delivered later;
  leaving takes it off the list of participants and changes no session.
\<close>

theorem chat_room_join_leave:
  assumes "distinct (cr_participants r)" "p \<notin> set (cr_participants r)"
  shows "set (cr_participants (chat_room_join p r)) = insert p (set (cr_participants r)) \<and>
    cs_sent (cr_sessions (chat_room_join p r) p) @ cs_queue (cr_sessions (chat_room_join p r) p) =
      cs_sent (cr_sessions r p) @ cs_queue (cr_sessions r p) @ cr_recent r \<and>
    p \<notin> set (cr_participants (chat_room_leave p (chat_room_join p r))) \<and>
    cr_sessions (chat_room_leave p r) = cr_sessions r"
proof -
  have "p \<notin> set (remove1 p (insort p (cr_participants r)))"
    using assms by (simp add: set_remove1_eq distinct_insort)
  then show ?thesis
    using assms by (simp add: chat_room_join_def chat_room_leave_def fold_deliver_msgs session_deliver_many set_insort_key)
qed

theorem chat_room_join_leave_witness:
  "cs_queue (cr_sessions (chat_room_join 7 (demo_room\<lparr>cr_recent := [chat_message_new []]\<rparr>)) 7) = [chat_message_new []] \<or>
   cs_sent (cr_sessions (chat_room_join 7 (demo_room\<lparr>cr_recent := [chat_message_new []]\<rparr>)) 7) = [chat_message_new []]"
  using chat_room_join_leave [of "demo_room\<lparr>cr_recent := [chat_message_new []]\<rparr>" 7]
  by (auto simp: demo_room_def chat_session_new_def append_eq_Cons_conv)

text \<open>
  C23. The outgoing queues of a session and of the client are written one message at a time, in order and
  without loss: from a state as it is at the start, with the first queued message, if any, being written, and whatever the interleaving of new messages and of writes that complete, with or without an
  error, what was sent followed by what is queued is what was put in; never are two writes outstanding;
  and as long as no write has failed, the outstanding write is that of the first queued message, so one is
  outstanding exactly when the queue is not empty.
\<close>

theorem chat_writers_fifo:
  assumes "cs_writing s = take 1 (cs_queue s)" "cc_writing c = take 1 (cc_queue c)"
    and "s' = fold (\<lambda>ev s. case ev of Put m \<Rightarrow> session_deliver m s | Done ec \<Rightarrow> if cs_writing s = [] then s else session_written ec s) evs s"
    and "c' = fold (\<lambda>ev c. case ev of Put m \<Rightarrow> client_write m c | Done ec \<Rightarrow> if cc_writing c = [] then c else client_on_write ec c) evs c"
  shows "cs_sent s' @ cs_queue s' = cs_sent s @ cs_queue s @ puts evs \<and> length (cs_writing s') \<le> 1 \<and>
    (Done True \<notin> set evs \<longrightarrow> cs_writing s' = take 1 (cs_queue s')) \<and>
    cc_sent c' @ cc_queue c' = cc_sent c @ cc_queue c @ puts evs \<and> length (cc_writing c') \<le> 1 \<and>
    (Done True \<notin> set evs \<longrightarrow> cc_writing c' = take 1 (cc_queue c'))"
proof -
  have s: "s' = fold srv.turn evs s" unfolding assms(3) srv.turn_def ..
  have c: "c' = fold cli.turn evs c" unfolding assms(4) cli.turn_def ..
  have "srv.wf True s" "cli.wf True c" using assms(1,2) by (simp_all add: srv.wf_def cli.wf_def)
  from srv.run_fifo [OF this(1), of evs] cli.run_fifo [OF this(2), of evs] show ?thesis
    unfolding s c using srv.wf_bound cli.wf_bound by blast
qed

theorem chat_writers_fifo_witness:
  "cs_writing (fold (\<lambda>ev s. case ev of Put m \<Rightarrow> session_deliver m s | Done ec \<Rightarrow> if cs_writing s = [] then s else session_written ec s)
      [Put (chat_message_new [1]), Done False, Put (chat_message_new [2]), Put (chat_message_new [3])] (chat_session_new [])) =
   [chat_message_new [2]]"
proof -
  let ?evs = "[Put (chat_message_new [1]), Done False, Put (chat_message_new [2]), Put (chat_message_new [3])]"
  have "cs_writing (chat_session_new []) = take 1 (cs_queue (chat_session_new []))"
    "cc_writing (chat_client_new []) = take 1 (cc_queue (chat_client_new []))"
    by (simp_all add: chat_session_new_def chat_client_new_def)
  from chat_writers_fifo [OF this refl refl, of ?evs] show ?thesis
    by (simp add: session_deliver_def session_written_def session_do_write_def chat_session_new_def Let_def)
qed

end
