(* ===== verification/Chat_System.thy ===== *)
theory Chat_System
  imports Chat_Room
begin

text \<open>
  The sample chat as a whole: the server with its accept loop and its \<open>main\<close> (Sample/chat_server.cpp), the
  \<open>main\<close> of the client (Sample/chat_client.cpp), and the streams of bytes between them.
\<close>

section \<open>The server\<close>

text \<open>\<open>sv_next\<close>: the number of the next session; \<open>raw\<close>: what an uninitialised array holds.\<close>

record chat_server =
  sv_room :: chat_room
  sv_accepting :: nat
  sv_next :: nat

definition chat_room_new :: "bytes \<Rightarrow> chat_room" where
  "chat_room_new raw = \<lparr>cr_participants = [], cr_recent = [], cr_sessions = (\<lambda>_. chat_session_new raw)\<rparr>"

definition chat_do_accept :: "chat_server \<Rightarrow> chat_server" where
  "chat_do_accept v = v\<lparr>sv_accepting := Suc (sv_accepting v)\<rparr>"

definition chat_server_new :: "bytes \<Rightarrow> chat_server" where
  "chat_server_new raw = chat_do_accept \<lparr>sv_room = chat_room_new raw, sv_accepting = 0, sv_next = 0\<rparr>"

text \<open>The completion of an accept: without an error a new session starts; then the next accept.\<close>

definition chat_on_accept :: "bool \<Rightarrow> bytes \<Rightarrow> chat_server \<Rightarrow> chat_server" where
  "chat_on_accept ec raw v =
     (let v1 = v\<lparr>sv_accepting := sv_accepting v - 1\<rparr>;
          v2 = (if \<not> ec
                then v1\<lparr>sv_room := session_start (sv_next v1) (upd_session (sv_next v1) (\<lambda>_. chat_session_new raw) (sv_room v1)),
                        sv_next := Suc (sv_next v1)\<rparr>
                else v1)
      in chat_do_accept v2)"

text \<open>How a program ends, or that it is still serving.\<close>

datatype 'a program = Exits int | Serves 'a

text \<open>
  \<open>main\<close>: one server per argument; the port is the low 16 bits of what \<open>atoi\<close> reads. \<open>bind\<close> says whether
  a port can be bound; a failure is an exception, which is caught, and all servers are gone.
\<close>

fun chat_servers :: "(int \<Rightarrow> bool) \<Rightarrow> bytes \<Rightarrow> bytes list \<Rightarrow> chat_server list res" where
  "chat_servers bind raw [] = Inr []"
| "chat_servers bind raw (arg # args) =
     (if \<not> bind (atoi arg mod 2 ^ 16) then Inl (Thrown ''bind'')
      else bind_res (chat_servers bind raw args) (\<lambda>vs. Inr (chat_server_new raw # vs)))"

definition chat_server_main :: "(int \<Rightarrow> bool) \<Rightarrow> bytes \<Rightarrow> bytes list \<Rightarrow> chat_server list program" where
  "chat_server_main bind raw args =
     (if args = [] then Exits 1
      else case chat_servers bind raw args of Inl _ \<Rightarrow> Exits 0 | Inr vs \<Rightarrow> Serves vs)"

section \<open>Streams\<close>

text \<open>
  \<open>async_read\<close> completes when it has all the bytes it was asked for. What a session of the server does with
  the bytes \<open>s\<close> that arrive, and the bytes it still waits to complete.
\<close>

lemma cs_read_after_body: "cs_read (cr_sessions (session_on_body p False b r) p) = RS_Header"
  by (simp add: session_on_body_def Let_def upd_session_def session_do_read_header_def)

function server_receive :: "nat \<Rightarrow> bytes \<Rightarrow> chat_room \<Rightarrow> bytes \<times> chat_room" where
  "server_receive p s r =
     (case cs_read (cr_sessions r p) of
        RS_None \<Rightarrow> (s, r)
      | RS_Header \<Rightarrow>
          if length s < header_length then (s, r)
          else server_receive p (drop header_length s) (session_on_header p False (take header_length s) r)
      | RS_Body n \<Rightarrow>
          if length s < n then (s, r)
          else server_receive p (drop n s) (session_on_body p False (take n s) r))"
  by pat_completeness auto
termination
  by (relation "measure (\<lambda>(p, s, r). 2 * length s + (case cs_read (cr_sessions r p) of RS_Body _ \<Rightarrow> 1 | _ \<Rightarrow> 0))")
    (auto simp: header_length_def cs_read_after_body split: read_state.split)

declare server_receive.simps [simp del]

text \<open>The same for the client.\<close>

lemma cc_read_after_body: "cc_read (client_on_body False b c) = RS_Header"
  by (simp add: client_on_body_def)

function client_receive :: "bytes \<Rightarrow> chat_client \<Rightarrow> bytes \<times> chat_client" where
  "client_receive s c =
     (case cc_read c of
        RS_None \<Rightarrow> (s, c)
      | RS_Header \<Rightarrow>
          if length s < header_length then (s, c)
          else client_receive (drop header_length s) (client_on_header False (take header_length s) c)
      | RS_Body n \<Rightarrow>
          if length s < n then (s, c)
          else client_receive (drop n s) (client_on_body False (take n s) c))"
  by pat_completeness auto
termination
  by (relation "measure (\<lambda>(s, c). 2 * length s + (case cc_read c of RS_Body _ \<Rightarrow> 1 | _ \<Rightarrow> 0))")
    (auto simp: header_length_def cc_read_after_body split: read_state.split)

declare client_receive.simps [simp del]

section \<open>The client's main\<close>

text \<open>
  Two threads: that of \<open>main\<close>, which reads lines and posts handlers, and that which runs the \<open>io_service\<close>.
  \<open>cp_input\<close>: the lines of the input that are left; \<open>cp_reading\<close>: \<open>main\<close> is in its loop; \<open>cp_posted\<close>: the handlers
  posted and not run yet, \<open>Some m\<close> of \<open>write\<close> and \<open>None\<close> of \<open>close\<close>; \<open>cp_connecting\<close>: the connect is pending;
  \<open>cp_connected\<close>: it has succeeded.
\<close>

record client_program =
  cp_input :: "bytes list"
  cp_reading :: bool
  cp_posted :: "chat_message option list"
  cp_connecting :: bool
  cp_connected :: bool
  cp_client :: chat_client

definition client_program_new :: "bytes \<Rightarrow> bytes list \<Rightarrow> client_program" where
  "client_program_new raw input = \<lparr>cp_input = input, cp_reading = True, cp_posted = [],
     cp_connecting = True, cp_connected = False, cp_client = chat_client_new raw\<rparr>"

text \<open>
  One iteration of the loop of \<open>main\<close>. \<open>getline\<close> fails at the end of the input and on a line of more than 512
  characters; then the loop ends and \<open>close\<close> posts its handler. \<open>strlen\<close> cuts a line at a NUL.
\<close>

definition client_main_step :: "bytes \<Rightarrow> client_program \<Rightarrow> client_program" where
  "client_main_step raw p =
     (case cp_input p of
        [] \<Rightarrow> p\<lparr>cp_reading := False, cp_posted := cp_posted p @ [None]\<rparr>
      | line # rest \<Rightarrow>
          if length line \<le> max_body_length
          then p\<lparr>cp_input := rest, cp_posted := cp_posted p @ [Some (message_of_line raw (c_str line))]\<rparr>
          else p\<lparr>cp_reading := False, cp_posted := cp_posted p @ [None]\<rparr>)"

text \<open>
  What can happen next: an iteration of the loop, the next posted handler, or the completion of the connect,
  of a read or of a write, each only while it is outstanding; a write succeeds only on a connected socket.
\<close>

datatype client_event = Reads | Posted | Connected bool | Header bool bytes | Body bool bytes | Written bool

fun client_step :: "bytes \<Rightarrow> client_event \<Rightarrow> client_program \<Rightarrow> client_program" where
  "client_step raw Reads p = (if cp_reading p then client_main_step raw p else p)"
| "client_step raw Posted p =
     (case cp_posted p of
        [] \<Rightarrow> p
      | Some m # hs \<Rightarrow> p\<lparr>cp_posted := hs, cp_client := client_write m (cp_client p)\<rparr>
      | None # hs \<Rightarrow> p\<lparr>cp_posted := hs, cp_client := client_close (cp_client p)\<rparr>)"
| "client_step raw (Connected ec) p =
     (if cp_connecting p
      then p\<lparr>cp_connecting := False, cp_connected := \<not> ec, cp_client := client_on_connect ec (cp_client p)\<rparr> else p)"
| "client_step raw (Header ec b) p =
     (if cc_read (cp_client p) = RS_Header \<and> length b = header_length
      then p\<lparr>cp_client := client_on_header ec b (cp_client p)\<rparr> else p)"
| "client_step raw (Body ec b) p =
     (if cc_read (cp_client p) = RS_Body (length b)
      then p\<lparr>cp_client := client_on_body ec b (cp_client p)\<rparr> else p)"
| "client_step raw (Written ec) p =
     (if cc_writing (cp_client p) \<noteq> [] \<and> (ec \<or> cp_connected p)
      then p\<lparr>cp_client := client_on_write ec (cp_client p)\<rparr> else p)"

text \<open>The \<open>io_service\<close> has nothing left to do and \<open>main\<close> waits in \<open>join\<close>: the program returns.\<close>

definition client_over :: "client_program \<Rightarrow> bool" where
  "client_over p \<longleftrightarrow> \<not> cp_reading p \<and> cp_posted p = [] \<and> \<not> cp_connecting p \<and>
     cc_writing (cp_client p) = [] \<and> cc_read (cp_client p) = RS_None"

text \<open>
  \<open>main\<close>: the exit code, or \<open>None\<close> while it runs, and its state if it came to its loop. \<open>resolved\<close>: the name of
  the host is known; if not, an exception is caught.
\<close>

definition chat_client_main ::
  "nat \<Rightarrow> bool \<Rightarrow> bytes \<Rightarrow> bytes list \<Rightarrow> client_event list \<Rightarrow> int option \<times> client_program option" where
  "chat_client_main argc resolved raw input evs =
     (if argc \<noteq> 3 then (Some 1, None)
      else if \<not> resolved then (Some 0, None)
      else let p = fold (client_step raw) evs (client_program_new raw input)
           in (if client_over p then Some 0 else None, Some p))"

section \<open>Lemmas\<close>

definition frame :: "bytes \<Rightarrow> bytes" where
  "frame line = pad4 (length line) @ line"

text \<open>A session or a client that waits for a header, with a buffer of the right size.\<close>

definition session_ready :: "nat \<Rightarrow> chat_room \<Rightarrow> bool" where
  "session_ready p r \<longleftrightarrow> cs_read (cr_sessions r p) = RS_Header \<and>
     length (cm_data (cs_read_msg (cr_sessions r p))) = header_length + max_body_length"

definition client_ready :: "chat_client \<Rightarrow> bool" where
  "client_ready c \<longleftrightarrow> cc_read c = RS_Header \<and> length (cm_data (cc_read_msg c)) = header_length + max_body_length"

definition handed :: "chat_session \<Rightarrow> chat_message list" where
  "handed s = cs_sent s @ cs_queue s"

lemma pad4_length: "n \<le> max_body_length \<Longrightarrow> length (pad4 n) = header_length"
  by (simp add: atoi_pad4(1) header_length_def)

lemma decode_frame:
  "n \<le> max_body_length \<Longrightarrow> decode_header (m\<lparr>cm_data := pad4 n @ d\<rparr>) = (True, m\<lparr>cm_data := pad4 n @ d, cm_body_length := n\<rparr>)"
  using atoi_pad4 [of n] by (simp add: decode_header_def header_length_def)

lemma wire_of_body:
  assumes "length l \<le> max_body_length" "length d = max_body_length"
  shows "chat_message_wire (write_body l (m\<lparr>cm_data := pad4 (length l) @ d, cm_body_length := length l\<rparr>)) = frame l"
    and "length (cm_data (write_body l (m\<lparr>cm_data := pad4 (length l) @ d, cm_body_length := length l\<rparr>))) = header_length + max_body_length"
  using assms pad4_length [OF assms(1)]
  by (simp_all add: write_body_def chat_message_wire_def chat_message_length_def frame_def)

lemma upd_session_sel:
  "cr_sessions (upd_session p f r) q = (if q = p then f (cr_sessions r p) else cr_sessions r q)"
  "cr_participants (upd_session p f r) = cr_participants r" "cr_recent (upd_session p f r) = cr_recent r"
  by (simp_all add: upd_session_def)

lemma session_deliver_read:
  "cs_read_msg (session_deliver m s) = cs_read_msg s" "handed (session_deliver m s) = handed s @ [m]"
  by (simp_all add: session_deliver_def session_do_write_def Let_def handed_def)

text \<open>One frame: a header read and a body read.\<close>

lemma server_receive_frame:
  assumes "session_ready p r" "distinct (cr_participants r)" "length l \<le> max_body_length"
  shows "\<exists>r' m. server_receive p (frame l @ s) r = server_receive p s r' \<and> session_ready p r' \<and>
    chat_message_wire m = frame l \<and> cr_participants r' = cr_participants r \<and>
    (\<forall>q. handed (cr_sessions r' q) = handed (cr_sessions r q) @ (if q \<in> set (cr_participants r) then [m] else []))"
proof -
  let ?n = "length l" and ?s = "cr_sessions r p"
  define d where "d = drop header_length (cm_data (cs_read_msg ?s))"
  have d: "length d = max_body_length" using assms(1) by (simp add: d_def session_ready_def)
  let ?m1 = "(cs_read_msg ?s)\<lparr>cm_data := pad4 ?n @ d, cm_body_length := ?n\<rparr>"
  let ?r1 = "upd_session p (\<lambda>s. s\<lparr>cs_read_msg := ?m1, cs_read := RS_Body ?n\<rparr>) r"
  let ?m = "write_body l ?m1"
  let ?r2 = "session_on_body p False l ?r1"
  have h: "session_on_header p False (pad4 ?n) r = ?r1"
    by (simp add: session_on_header_def decode_frame [OF assms(3)] flip: d_def)
  have r1: "cs_read (cr_sessions ?r1 p) = RS_Body ?n" by (simp add: upd_session_sel)
  have "server_receive p (frame l @ s) r = server_receive p (l @ s) ?r1"
    using assms(1) pad4_length [OF assms(3)] h
    by (subst server_receive.simps) (simp add: session_ready_def frame_def)
  also have "\<dots> = server_receive p s ?r2"
    using r1 by (subst server_receive.simps) simp
  finally have step: "server_receive p (frame l @ s) r = server_receive p s ?r2" .
  let ?r0 = "upd_session p (\<lambda>s. s\<lparr>cs_read_msg := ?m\<rparr>) ?r1"
  have body: "?r2 = upd_session p session_do_read_header (chat_room_deliver ?m ?r0)"
    by (simp add: session_on_body_def Let_def upd_session_sel)
  have dist: "distinct (cr_participants ?r0)" using assms(2) by (simp add: upd_session_sel)
  have q: "handed (cr_sessions ?r2 q) = handed (cr_sessions r q) @ (if q \<in> set (cr_participants r) then [?m] else [])" for q
    unfolding body upd_session_sel room_deliver_eq [OF dist]
    by (simp add: session_do_read_header_def session_deliver_read handed_def upd_session_sel)
      (simp add: session_deliver_def session_do_write_def Let_def)
  have "session_ready p ?r2"
    unfolding session_ready_def body upd_session_sel room_deliver_eq [OF dist]
    using wire_of_body(2) [OF assms(3) d]
    by (simp add: session_do_read_header_def session_deliver_read upd_session_sel)
  moreover have "cr_participants ?r2 = cr_participants r"
    unfolding body upd_session_sel room_deliver_eq [OF dist] by simp
  ultimately show ?thesis using step q wire_of_body(1) [OF assms(3) d] by blast
qed

lemma client_receive_frame:
  assumes "client_ready c" "length l \<le> max_body_length"
  shows "\<exists>c'. client_receive (frame l @ s) c = client_receive s c' \<and> client_ready c' \<and>
    cc_output c' = cc_output c @ l @ [10]"
proof -
  define d where "d = drop header_length (cm_data (cc_read_msg c))"
  have d: "length d = max_body_length" using assms(1) by (simp add: d_def client_ready_def)
  let ?m1 = "(cc_read_msg c)\<lparr>cm_data := pad4 (length l) @ d, cm_body_length := length l\<rparr>"
  let ?c1 = "c\<lparr>cc_read_msg := ?m1, cc_read := RS_Body (length l)\<rparr>"
  have "client_on_header False (pad4 (length l)) c = ?c1"
    by (simp add: client_on_header_def decode_frame [OF assms(2)] flip: d_def)
  then have "client_receive (frame l @ s) c = client_receive (l @ s) ?c1"
    using assms(1) pad4_length [OF assms(2)] by (subst client_receive.simps) (simp add: client_ready_def frame_def)
  also have "\<dots> = client_receive s (client_on_body False l ?c1)"
    by (subst client_receive.simps) simp
  finally show ?thesis
    using wire_of_body(2) [OF assms(2) d] by (auto simp: client_ready_def client_on_body_def)
qed

lemma server_receive_frames:
  "\<lbrakk>session_ready p r; distinct (cr_participants r); \<forall>l \<in> set lines. length l \<le> max_body_length\<rbrakk> \<Longrightarrow>
   \<exists>r' ms. server_receive p (concat (map frame lines)) r = ([], r') \<and> map chat_message_wire ms = map frame lines \<and>
     cr_participants r' = cr_participants r \<and>
     (\<forall>q. handed (cr_sessions r' q) = handed (cr_sessions r q) @ (if q \<in> set (cr_participants r) then ms else []))"
proof (induction lines arbitrary: r)
  case Nil
  then show ?case
    by (subst server_receive.simps) (auto simp: session_ready_def header_length_def)
next
  case (Cons l lines)
  obtain r1 m where r1: "server_receive p (frame l @ concat (map frame lines)) r = server_receive p (concat (map frame lines)) r1"
    "session_ready p r1" "chat_message_wire m = frame l" "cr_participants r1 = cr_participants r"
    "\<forall>q. handed (cr_sessions r1 q) = handed (cr_sessions r q) @ (if q \<in> set (cr_participants r) then [m] else [])"
    using server_receive_frame [OF Cons.prems(1,2), of l "concat (map frame lines)"] Cons.prems(3) by auto
  have "distinct (cr_participants r1)" "\<forall>l \<in> set lines. length l \<le> max_body_length"
    using Cons.prems(2,3) r1(4) by simp_all
  from Cons.IH [OF r1(2) this] obtain r' ms where "server_receive p (concat (map frame lines)) r1 = ([], r')"
    "map chat_message_wire ms = map frame lines" "cr_participants r' = cr_participants r1"
    "\<forall>q. handed (cr_sessions r' q) = handed (cr_sessions r1 q) @ (if q \<in> set (cr_participants r1) then ms else [])"
    by blast
  with r1 show ?case by (intro exI [of _ r'] exI [of _ "m # ms"]) simp
qed

lemma client_receive_frames:
  "\<lbrakk>client_ready c; \<forall>l \<in> set lines. length l \<le> max_body_length\<rbrakk> \<Longrightarrow>
   \<exists>c'. client_receive (concat (map frame lines)) c = ([], c') \<and> cc_output c' = cc_output c @ concat (map (\<lambda>l. l @ [10]) lines)"
proof (induction lines arbitrary: c)
  case Nil
  then show ?case by (subst client_receive.simps) (auto simp: client_ready_def header_length_def)
next
  case (Cons l lines)
  obtain c1 where "client_receive (frame l @ concat (map frame lines)) c = client_receive (concat (map frame lines)) c1"
    "client_ready c1" "cc_output c1 = cc_output c @ l @ [10]"
    using client_receive_frame [OF Cons.prems(1), of l "concat (map frame lines)"] Cons.prems(2) by auto
  with Cons.IH [of c1] Cons.prems(2) show ?case by auto
qed

text \<open>The messages that the loop posts for an input, and where they are in a state of the program.\<close>

definition console_messages :: "bytes \<Rightarrow> bytes list \<Rightarrow> chat_message list" where
  "console_messages raw input = map (\<lambda>l. message_of_line raw (c_str l)) (takeWhile (\<lambda>l. length l \<le> max_body_length) input)"

definition client_messages :: "bytes \<Rightarrow> client_program \<Rightarrow> chat_message list" where
  "client_messages raw p = cc_sent (cp_client p) @ cc_queue (cp_client p) @ List.map_filter id (cp_posted p) @
     (if cp_reading p then console_messages raw (cp_input p) else [])"

definition client_writes_ok :: "client_program \<Rightarrow> bool" where
  "client_writes_ok p \<longleftrightarrow> cc_writing (cp_client p) = take 1 (cc_queue (cp_client p)) \<or> cc_writing (cp_client p) = []"

lemmas client_handler_defs = client_write_def client_on_write_def client_do_write_def client_close_def
  client_on_connect_def client_on_header_def client_on_body_def Let_def

lemma client_step_messages:
  assumes "client_writes_ok p"
  shows "client_writes_ok (client_step raw ev p) \<and> client_messages raw (client_step raw ev p) = client_messages raw p"
proof (cases ev)
  case Reads
  with assms show ?thesis
    by (cases "cp_input p") (auto simp: client_main_step_def client_messages_def console_messages_def
        client_writes_ok_def List.map_filter_def)
next
  case Posted
  with assms show ?thesis
    by (cases "cc_queue (cp_client p)")
      (auto simp: client_handler_defs client_messages_def client_writes_ok_def map_filter_simps split: list.split option.split)
next
  case (Written ec)
  with assms show ?thesis
    by (cases "cc_queue (cp_client p)")
      (auto simp: client_handler_defs client_messages_def client_writes_ok_def take_Suc)
qed (use assms in \<open>auto simp: client_handler_defs client_messages_def client_writes_ok_def split: prod.split\<close>)

lemma client_run_messages:
  "client_writes_ok p \<Longrightarrow> client_writes_ok (fold (client_step raw) evs p) \<and>
     client_messages raw (fold (client_step raw) evs p) = client_messages raw p"
  by (induction evs arbitrary: p) (simp_all add: client_step_messages)

text \<open>A run in which the first \<open>k\<close> lines are written before the next one is read.\<close>

fun client_schedule :: "nat \<Rightarrow> nat \<Rightarrow> client_event list" where
  "client_schedule k 0 = [Reads, Posted, Header True (replicate header_length 0), Written True]"
| "client_schedule 0 (Suc n) = [Reads, Posted] @ client_schedule 0 n"
| "client_schedule (Suc k) (Suc n) = [Reads, Posted, Written False] @ client_schedule k n"

lemma client_schedule_run:
  assumes "cp_reading p" "cp_posted p = []" "\<not> cp_connecting p" "cp_connected p" "cc_read (cp_client p) = RS_Header"
    and "cc_writing (cp_client p) = take 1 (cc_queue (cp_client p))" "k = 0 \<or> cc_queue (cp_client p) = []"
    and "n = length (console_messages raw (cp_input p))"
  shows "client_over (fold (client_step raw) (client_schedule k n) p) \<and>
    cc_sent (cp_client (fold (client_step raw) (client_schedule k n) p)) =
      cc_sent (cp_client p) @ take k (console_messages raw (cp_input p))"
  using assms
proof (induction k n arbitrary: p rule: client_schedule.induct)
  case (1 k)
  then have "cp_input p = [] \<or> (\<exists>l ls. cp_input p = l # ls \<and> \<not> length l \<le> max_body_length)"
    by (cases "cp_input p") (auto simp: console_messages_def split: if_splits)
  with 1 show ?case
    by (cases "cc_queue (cp_client p)")
      (auto simp: client_main_step_def client_handler_defs client_over_def console_messages_def split: prod.split)
next
  case (2 n)
  obtain l ls where l: "cp_input p = l # ls" "length l \<le> max_body_length" "n = length (console_messages raw ls)"
    using "2.prems"(8) by (cases "cp_input p") (auto simp: console_messages_def split: if_splits)
  let ?p = "fold (client_step raw) [Reads, Posted] p"
  have "cp_reading ?p" "cp_posted ?p = []" "\<not> cp_connecting ?p" "cp_connected ?p" "cc_read (cp_client ?p) = RS_Header"
    "cc_writing (cp_client ?p) = take 1 (cc_queue (cp_client ?p))" "n = length (console_messages raw (cp_input ?p))"
    "cc_sent (cp_client ?p) = cc_sent (cp_client p)"
    using "2.prems"(1-6) l
    by (cases "cc_queue (cp_client p)"; auto simp: client_main_step_def client_handler_defs)+
  with "2.IH" [of ?p] show ?case by simp
next
  case (3 k n)
  obtain l ls where l: "cp_input p = l # ls" "length l \<le> max_body_length" "n = length (console_messages raw ls)"
    using "3.prems"(8) by (cases "cp_input p") (auto simp: console_messages_def split: if_splits)
  let ?p = "fold (client_step raw) [Reads, Posted, Written False] p"
  have p: "cp_reading ?p" "cp_posted ?p = []" "\<not> cp_connecting ?p" "cp_connected ?p" "cc_read (cp_client ?p) = RS_Header"
    "cc_writing (cp_client ?p) = take 1 (cc_queue (cp_client ?p))" "k = 0 \<or> cc_queue (cp_client ?p) = []"
    "n = length (console_messages raw (cp_input ?p))" "cp_input ?p = ls"
    "cc_sent (cp_client ?p) = cc_sent (cp_client p) @ [message_of_line raw (c_str l)]"
    using "3.prems"(1-7) l by (auto simp: client_main_step_def client_handler_defs)
  have "take (Suc k) (console_messages raw (cp_input p)) = message_of_line raw (c_str l) # take k (console_messages raw ls)"
    using l by (simp add: console_messages_def)
  with "3.IH" [OF p(1-8)] p(9,10) show ?case by simp
qed

lemma accepts_run:
  "sv_accepting v = 1 \<Longrightarrow> sv_accepting (fold (\<lambda>(ec, raw). chat_on_accept ec raw) as v) = 1 \<and>
     sv_next (fold (\<lambda>(ec, raw). chat_on_accept ec raw) as v) = sv_next v + length (filter (\<lambda>a. \<not> fst a) as)"
proof (induction as arbitrary: v)
  case (Cons a as)
  obtain ec raw where a: "a = (ec, raw)" by (cases a)
  have "sv_accepting (chat_on_accept ec raw v) = 1" "sv_next (chat_on_accept ec raw v) = sv_next v + (if ec then 0 else 1)"
    using Cons.prems by (simp_all add: chat_on_accept_def chat_do_accept_def Let_def)
  with Cons.IH [of "chat_on_accept ec raw v"] show ?case by (simp add: a)
qed simp

section \<open>Properties\<close>

text \<open>
  C18. The chat works end to end: the bytes that a client sends for its lines, of at most 512 bytes each, are
  consumed to the last one by its session on the server, which hands every participant of the room the same sequence of
  messages and nobody else any; and the client of a participant that receives what is written of them
  shows exactly the lines, in order, and has no byte left over.
\<close>

theorem chat_end_to_end:
  assumes "session_ready p r" "distinct (cr_participants r)" "\<forall>l \<in> set lines. length l \<le> 512" "length raw = 516"
    and "client_ready c"
  shows "\<exists>r' ms c'. server_receive p (concat (map (\<lambda>l. chat_message_wire (message_of_line raw l)) lines)) r = ([], r') \<and>
    (\<forall>q. handed (cr_sessions r' q) = handed (cr_sessions r q) @ (if q \<in> set (cr_participants r) then ms else [])) \<and>
    client_receive (concat (map chat_message_wire ms)) c = ([], c') \<and>
    cc_output c' = cc_output c @ concat (map (\<lambda>l. l @ [10]) lines)"
proof -
  have len: "\<forall>l \<in> set lines. length l \<le> max_body_length" using assms(3) by (simp add: max_body_length_def)
  have wires: "map (\<lambda>l. chat_message_wire (message_of_line raw l)) lines = map frame lines"
    using len assms(4) by (simp add: line_message(1) frame_def header_length_def max_body_length_def)
  from server_receive_frames [OF assms(1,2) len] client_receive_frames [OF assms(5) len] wires
  show ?thesis by metis
qed

definition demo_chat :: chat_room where
  "demo_chat = sv_room (fold (\<lambda>(ec, raw). chat_on_accept ec raw) [(False, replicate 516 0), (False, replicate 516 0)]
     (chat_server_new (replicate 516 0)))"

lemma demo_chat_ready:
  "session_ready 0 demo_chat" "cr_participants demo_chat = [0, 1]"
  "client_ready (client_on_connect False (chat_client_new (replicate 516 0)))"
  by (simp_all add: demo_chat_def chat_on_accept_def chat_do_accept_def chat_server_new_def chat_room_new_def Let_def
      session_start_def upd_session_def chat_room_join_def session_do_read_header_def session_ready_def
      chat_session_new_def chat_message_new_def header_length_def max_body_length_def client_ready_def
      client_on_connect_def chat_client_new_def)

theorem chat_end_to_end_witness:
  "\<exists>r' ms c'. server_receive 0 (concat (map (\<lambda>l. chat_message_wire (message_of_line (replicate 516 0) l)) [[104, 105], []])) demo_chat = ([], r') \<and>
     handed (cr_sessions r' 1) = handed (cr_sessions demo_chat 1) @ ms \<and>
     client_receive (concat (map chat_message_wire ms)) (client_on_connect False (chat_client_new (replicate 516 0))) = ([], c') \<and>
     cc_output c' = [104, 105, 10, 10]"
proof -
  have "cc_output (client_on_connect False (chat_client_new (replicate 516 0))) = []"
    by (simp add: client_on_connect_def chat_client_new_def)
  with chat_end_to_end [OF demo_chat_ready(1) _ _ _ demo_chat_ready(3), of "[[104, 105], []]" "replicate 516 0"]
    demo_chat_ready(2) show ?thesis
    by auto
qed

text \<open>
  C24. The client, started with a host and a port that resolve, gives up what it has not written when its input ends. In every interleaving of the loop of
  \<open>main\<close> with the handlers and with the outcomes of the connect, the reads and the writes, the messages sent, queued,
  posted and still to be read are, in this order, those of the lines up to the first one of more than 512
  characters (if there is one, it and all later lines are dropped); and when the program has returned, what was
  not sent is still in the queue. That can be any number of them: for every \<open>k\<close>, if the connect succeeds and
  then each of the first \<open>k\<close> lines is written before the next one is read and no further write completes until
  \<open>close\<close> ends the reads and writes outstanding (\<open>client_schedule\<close>), the program returns 0 and just the first \<open>k\<close>
  lines have been sent.
\<close>

theorem chat_client_loses_unsent:
  assumes "chat_client_main 3 True raw input evs = (rc, Some p)"
  shows "cc_sent (cp_client p) @ cc_queue (cp_client p) @ List.map_filter id (cp_posted p) @
      (if cp_reading p then console_messages raw (cp_input p) else []) = console_messages raw input \<and>
    (rc = None \<or> rc = Some 0 \<and> cc_sent (cp_client p) @ cc_queue (cp_client p) = console_messages raw input) \<and>
    (\<exists>p'. chat_client_main 3 True raw input
        (Connected False # client_schedule k (length (console_messages raw input))) = (Some 0, Some p') \<and>
      cc_sent (cp_client p') = take k (console_messages raw input))"
proof -
  let ?p0 = "client_program_new raw input"
  have p: "p = fold (client_step raw) evs ?p0" "rc = (if client_over p then Some 0 else None)"
    using assms by (auto simp: chat_client_main_def Let_def)
  have init: "client_writes_ok ?p0" "client_messages raw ?p0 = console_messages raw input"
    by (simp_all add: client_program_new_def client_writes_ok_def client_messages_def chat_client_new_def map_filter_simps)
  have all: "client_messages raw p = console_messages raw input"
    using client_run_messages [OF init(1)] init(2) p(1) by simp
  let ?p1 = "client_step raw (Connected False) ?p0" and ?n = "length (console_messages raw input)"
  let ?evs = "Connected False # client_schedule k ?n"
  have "client_over (fold (client_step raw) (client_schedule k ?n) ?p1) \<and>
      cc_sent (cp_client (fold (client_step raw) (client_schedule k ?n) ?p1)) = take k (console_messages raw input)"
    by (subst client_schedule_run)
      (simp_all add: client_program_new_def client_on_connect_def chat_client_new_def client_schedule_run)
  then have "\<exists>p'. chat_client_main 3 True raw input ?evs = (Some 0, Some p') \<and>
      cc_sent (cp_client p') = take k (console_messages raw input)"
    by (simp add: chat_client_main_def Let_def)
  moreover have "rc = None \<or> rc = Some 0 \<and> cc_sent (cp_client p) @ cc_queue (cp_client p) = console_messages raw input"
    using all by (auto simp: p(2) client_over_def client_messages_def map_filter_simps)
  ultimately show ?thesis using all by (simp add: client_messages_def)
qed

theorem chat_client_loses_unsent_witness:
  "\<exists>evs p. chat_client_main 3 True (replicate 516 0) [[104], [105], replicate 600 1, [106]] evs = (Some 0, Some p) \<and>
     cc_sent (cp_client p) = [message_of_line (replicate 516 0) [104]]"
proof -
  let ?in = "[[104], [105], replicate 600 1, [106]] :: bytes list"
  obtain p where "chat_client_main 3 True (replicate 516 0) ?in [] = (None, Some p)"
    by (simp add: chat_client_main_def client_over_def client_program_new_def)
  from chat_client_loses_unsent [OF this, of 1] obtain p' where
    "chat_client_main 3 True (replicate 516 0) ?in (Connected False # client_schedule 1 (length (console_messages (replicate 516 0) ?in))) = (Some 0, Some p')"
    "cc_sent (cp_client p') = take 1 (console_messages (replicate 516 0) ?in)"
    by blast
  then show ?thesis
    by (intro exI conjI) (assumption, simp add: console_messages_def max_body_length_def c_str_def)
qed

text \<open>
  \<open>main\<close> of the server: 1 without arguments; 0 if one of the ports cannot be bound, also when others could;
  otherwise it serves forever one room per argument, and each room always has exactly one accept pending,
  whatever the outcomes of accepts, and one session for every connection.
\<close>

theorem chat_server_main_spec:
  assumes "chat_server_main bind raw args = out"
  shows "case out of
      Exits rc \<Rightarrow> (args = [] \<and> rc = 1) \<or> (rc = 0 \<and> (\<exists>a \<in> set args. \<not> bind (atoi a mod 2 ^ 16)))
    | Serves vs \<Rightarrow> length vs = length args \<and> (\<forall>v \<in> set vs. \<forall>as.
        sv_accepting (fold (\<lambda>(ec, raw). chat_on_accept ec raw) as v) = 1 \<and>
        sv_next (fold (\<lambda>(ec, raw). chat_on_accept ec raw) as v) = length (filter (\<lambda>a. \<not> fst a) as))"
proof (cases "args = []")
  case False
  have new: "sv_accepting (chat_server_new raw) = 1" "sv_next (chat_server_new raw) = 0"
    by (simp_all add: chat_server_new_def chat_do_accept_def)
  have "(\<exists>a \<in> set args. \<not> bind (atoi a mod 2 ^ 16)) \<and> chat_servers bind raw args = Inl (Thrown ''bind'') \<or>
      chat_servers bind raw args = Inr (replicate (length args) (chat_server_new raw))"
    by (induction args) auto
  with False assms accepts_run [OF new(1)] new(2) show ?thesis by (auto simp: chat_server_main_def)
qed (use assms in \<open>auto simp: chat_server_main_def\<close>)

theorem chat_server_main_spec_witness:
  "\<exists>v. chat_server_main (\<lambda>_. True) [] [[53]] = Serves [v] \<and> sv_next (fold (\<lambda>(ec, raw). chat_on_accept ec raw) [(False, []), (True, [])] v) = 1"
proof -
  have s: "chat_server_main (\<lambda>_. True) [] [[53]] = Serves [chat_server_new []]" by (simp add: chat_server_main_def)
  have "\<forall>as. sv_next (fold (\<lambda>(ec, raw). chat_on_accept ec raw) as (chat_server_new [])) = length (filter (\<lambda>a. \<not> fst a) as)"
    using chat_server_main_spec [OF s] by simp
  from spec [OF this, of "[(False, []), (True, [])]"]
  have "sv_next (fold (\<lambda>(ec, raw). chat_on_accept ec raw) [(False, []), (True, [])] (chat_server_new [])) = 1"
    by (simp only: filter.simps fst_conv not_False_eq_True not_True_eq_False if_True if_False list.size One_nat_def add_0 add_Suc plus_nat.add_0)
  with s show ?thesis by blast
qed

end
