(* ===== verification/Old_Session.thy ===== *)
theory Old_Session
  imports World_Session
begin

text \<open>
  The session class that \<open>WorldSession\<close> replaced (Session.h, Session.cpp). The Makefile does not build it: it
  calls members of Player, SceneManager and ProtocolManager that are gone. Those are parameters here.
\<close>

section \<open>What is gone\<close>

text \<open>
  \<open>os_parse_meta\<close>: the result of parsing, and type and content of the \<open>Meta\<close>, also when it is false;
  \<open>os_message\<close>, \<open>os_method\<close>: \<open>ProtocolInstance.GetMessage\<close> and \<open>GetMethod\<close>; \<open>os_is_login\<close>: the
  \<open>dynamic_cast\<close>; \<open>os_login\<close>: \<open>SetScene\<close> and \<open>Login\<close> of the player object, \<open>None\<close> if they throw; the boolean of
  \<open>os_method\<close> is false if the callback throws.
\<close>

record ('m, 'd) old_api =
  os_greeting :: bytes
  os_parse_meta :: "bytes \<Rightarrow> bool \<times> int \<times> bytes"
  os_message :: "int \<Rightarrow> 'm option"
  os_parse :: "'m \<Rightarrow> bytes \<Rightarrow> bool \<times> 'm"
  os_is_login :: "'m \<Rightarrow> bool"
  os_login :: "nat \<Rightarrow> 'd world \<Rightarrow> (int option \<times> 'd world) res"
  os_method :: "int \<Rightarrow> 'm \<Rightarrow> 'd world \<Rightarrow> (bool \<times> 'd world) res"

section \<open>The session\<close>

definition Session_Start :: "nat \<Rightarrow> 'd world \<Rightarrow> 'd world" where
  "Session_Start i w = on_sock i Socket_AsyncReceive w"

definition Session_Update :: "sock \<Rightarrow> bool" where
  "Session_Update s = True"

text \<open>
  The simulated login: a player object that lives as long as the local pointer, or the entity manager if
  \<open>Login\<close> returns 0, holds it. The boolean is false if an exception passes.
\<close>

definition Session_login :: "('m, 'd) old_api \<Rightarrow> nat \<Rightarrow> 'd world \<Rightarrow> (bool \<times> 'd world) res" where
  "Session_login A i w =
     (let (player, w1) = alloc (Player_new 10001 (Some i)) w
      in bind_res (os_login A player w1) (\<lambda>(rc, w2).
           bind_res (if rc = Some 0 then EntityManager_Emplace 10001 player w2 else Inr w2) (\<lambda>w3.
             bind_res (release player w3) (\<lambda>w4. Inr (rc \<noteq> None, w4)))))"

text \<open>
  \<open>InitializeHandler\<close>; neither of the two results of parsing ends it. An exception is caught and ends it
  without a new read.
\<close>

definition old_again :: "nat \<Rightarrow> bool \<times> 'd world \<Rightarrow> 'd world" where
  "old_again i = (\<lambda>(ok, w). if ok then on_sock i Socket_AsyncReceive w else w)"

definition Session_InitializeHandler ::
  "('m, 'd) old_api \<Rightarrow> nat \<Rightarrow> bool \<Rightarrow> bytes \<Rightarrow> 'd world \<Rightarrow> 'd world res" where
  "Session_InitializeHandler A i error buffer w =
     (if error then Inr w
      else
        let w1 = on_sock i (Socket_AsyncSend (os_greeting A)) w;
            (result, type_t, stuff) = os_parse_meta A buffer
        in case os_message A type_t of
             None \<Rightarrow> Inr w1
           | Some prototype \<Rightarrow>
               (let (result, message) = os_parse A prototype stuff
                in if type_t = meta_type_number META_TYPE_C2S_LOGIN then
                     (if \<not> os_is_login A message then Inr w1
                      else bind_res (Session_login A i w1) (\<lambda>r. Inr (old_again i r)))
                   else bind_res (os_method A type_t message w1) (\<lambda>r. Inr (old_again i r))))"

section \<open>The manager of the sessions\<close>

definition SessionManager_Add :: "nat \<Rightarrow> session_manager \<Rightarrow> session_manager" where
  "SessionManager_Add session m = m\<lparr>ws_list := ws_list m @ [session]\<rparr>"

definition SessionManager_Emplace :: "int \<Rightarrow> nat \<Rightarrow> session_manager \<Rightarrow> session_manager" where
  "SessionManager_Emplace player_id session m =
     (case ws_sessions m player_id of
        None \<Rightarrow> m\<lparr>ws_sessions := (ws_sessions m)(player_id \<mapsto> session)\<rparr>
      | Some _ \<Rightarrow> m)"

definition SessionManager_GetCount :: "session_manager \<Rightarrow> nat" where
  "SessionManager_GetCount m = length (ws_list m)"

interpretation old_sessions: first_wins SessionManager_Emplace ws_sessions
  by unfold_locales (simp add: SessionManager_Emplace_def split: option.splits)

definition SessionManager_CreateThreads :: "int \<Rightarrow> net_thread list" where
  "SessionManager_CreateThreads n = replicate (nat n) NetworkThread_init"

definition SessionManager_OnSocketAccept ::
  "nat \<Rightarrow> sock \<Rightarrow> nat \<Rightarrow> socks \<Rightarrow> net_thread list \<Rightarrow> (socks \<times> net_thread list) res" where
  "SessionManager_OnSocketAccept i s thread_index S threads =
     SocketManager_OnSocketOpen i (Some (Socket_AsyncReceive s)) thread_index S threads"

definition SessionManager_StartNetwork ::
  "bool \<Rightarrow> int \<Rightarrow> acceptor \<Rightarrow> socket_manager \<Rightarrow> (bool \<times> acceptor \<times> socket_manager) res" where
  "SessionManager_StartNetwork bound thread_count a m =
     bind_res (SocketManager_StartNetwork bound (SessionManager_CreateThreads thread_count) thread_count m)
       (\<lambda>(ok, m').
          if \<not> ok then Inr (False, a, m')
          else bind_res
            (AsyncAcceptor_AsyncAcceptWithCallback
              (\<lambda>_. SocketManager_GetSocketForAccept (case sm_threads m' of None \<Rightarrow> [] | Some ts \<Rightarrow> ts)) a)
            (\<lambda>(_, a'). Inr (True, a', m')))"

lemma same_manager:
  "SessionManager_StartNetwork = WorldSessionManager_StartNetwork" "SessionManager_Emplace = WorldSessionManager_Emplace"
  "SessionManager_OnSocketAccept = WorldSessionManager_OnSocketAccept" "SessionManager_CreateThreads = WorldSessionManager_CreateThreads"
  by (intro ext; simp add: SessionManager_StartNetwork_def WorldSessionManager_StartNetwork_def SessionManager_Emplace_def
      WorldSessionManager_Emplace_def SessionManager_OnSocketAccept_def WorldSessionManager_OnSocketAccept_def
      SessionManager_CreateThreads_def WorldSessionManager_CreateThreads_def)+

section \<open>Properties\<close>

text \<open>
  A login works once per server: the first one leaves its player with the entity manager; the second one makes
  another object with the same ID, which the manager refuses, and whose end then erases the first
  player, the last owner of which is the manager, while the manager's mutex is held.
\<close>

theorem Session_login_works_once:
  assumes "w_entities w 10001 = None" "\<And>r w. os_login A r w = Inr (Some 0, w)"
  shows "\<exists>w'. Session_login A i w = Inr (True, w') \<and> w_entities w' = (w_entities w)(10001 \<mapsto> w_next w) \<and> w_refs w' (w_next w) = 1 \<and>
    Session_login A j w' = Inl (UB ''mutex locked twice by one thread'')"
proof -
  let ?e = "Player_new 10001 (Some i)" and ?r = "w_next w"
  have id: "e_ID (Player_new 10001 k) = 10001" for k by (simp add: Player_new_def Entity_SetID_def)
  let ?w1 = "snd (alloc ?e w)"
  let ?w2 = "manager_put 10001 ?r ?w1"
  let ?w' = "?w2\<lparr>w_refs := (w_refs ?w2)(?r := w_refs ?w2 ?r - 1)\<rparr>"
  have w2: "w_heap ?w2 = (w_heap w)(?r \<mapsto> ?e)" "w_refs ?w2 = (w_refs w)(?r := 2)" "w_next ?w2 = Suc ?r"
    "w_entities ?w2 = (w_entities w)(10001 \<mapsto> ?r)"
    using assms(1) by (simp_all add: manager_put_def alloc_def fun_eq_iff)
  have first: "Session_login A i w = Inr (True, ?w')"
    using assms(1) w2 by (simp add: Session_login_def assms(2) EntityManager_Emplace_def release_def Let_def alloc_def)
  have sel: "w_entities ?w' 10001 = Some ?r" "w_refs ?w' ?r = 1" "w_next ?w' = Suc ?r"
    using w2 by simp_all
  have "Session_login A j ?w' = Inl (UB ''mutex locked twice by one thread'')"
    using sel by (simp add: Session_login_def assms(2) EntityManager_Emplace_def manager_put_def alloc_def release_def
        Entity_destruct_def EntityManager_Erase_def id Let_def)
  with first w2 show ?thesis by (intro exI [of _ ?w']) simp
qed

text \<open>
  A read error, an unknown type and a login message of the wrong class leave the session open and deaf.
\<close>

theorem Session_handler_leaves_deaf:
  assumes "error \<or> (\<exists>result type_t stuff. os_parse_meta A buffer = (result, type_t, stuff) \<and> os_message A type_t = None)"
  shows "\<exists>w'. Session_InitializeHandler A i error buffer w = Inr w' \<and>
    sk_closed (w_socks w' i) = sk_closed (w_socks w i) \<and> sk_reads (w_socks w' i) = sk_reads (w_socks w i)"
  using assms by (auto simp: Session_InitializeHandler_def Socket_AsyncSend_def Let_def)

end
