(* ===== verification/Echo_Server.thy ===== *)
theory Echo_Server
  imports Base
begin

text \<open>
  The echo server of Sample/server.cpp: the allocator that keeps one block of memory inside the
  session for the handlers of asio, the session that writes back what it reads, and the accept loop.
  asio calls \<open>asio_handler_allocate\<close> with the size of an operation when the operation is started and
  \<open>asio_handler_deallocate\<close> before it invokes the handler; that size is a parameter.
\<close>

section \<open>handler_allocator\<close>

text \<open>\<open>Inline\<close> is \<open>&storage_\<close>; a block of \<open>operator new\<close> has a number; \<open>ha_heap\<close> are the live ones.\<close>

datatype block = Inline | Heap nat

record handler_allocator =
  ha_in_use :: bool
  ha_heap :: "nat list"
  ha_next :: nat

definition handler_allocator_new :: handler_allocator where
  "handler_allocator_new = \<lparr>ha_in_use = False, ha_heap = [], ha_next = 0\<rparr>"

definition storage_size :: nat where
  "storage_size = 1024"

definition allocate :: "nat \<Rightarrow> handler_allocator \<Rightarrow> block \<times> handler_allocator" where
  "allocate sz a =
     (if \<not> ha_in_use a \<and> sz < storage_size then (Inline, a\<lparr>ha_in_use := True\<rparr>)
      else (Heap (ha_next a), a\<lparr>ha_heap := ha_next a # ha_heap a, ha_next := Suc (ha_next a)\<rparr>))"

definition deallocate :: "block \<Rightarrow> handler_allocator \<Rightarrow> handler_allocator res" where
  "deallocate pointer a =
     (case pointer of
        Inline \<Rightarrow> Inr (a\<lparr>ha_in_use := False\<rparr>)
      | Heap n \<Rightarrow>
          if n \<in> set (ha_heap a) then Inr (a\<lparr>ha_heap := remove1 n (ha_heap a)\<rparr>)
          else Inl (UB ''operator delete of a dead block''))"

section \<open>session\<close>

text \<open>
  \<open>ec_op\<close> is the outstanding operation with the memory of its handler; \<open>ec_received\<close> and \<open>ec_sent\<close>
  record the bytes read from and written to the socket.
\<close>

datatype echo_op = Idle | Reading block | Writing nat block

record echo_session =
  ec_data :: bytes
  ec_alloc :: handler_allocator
  ec_op :: echo_op
  ec_received :: bytes
  ec_sent :: bytes

definition echo_session_new :: echo_session where
  "echo_session_new = \<lparr>ec_data = [], ec_alloc = handler_allocator_new, ec_op = Idle, ec_received = [], ec_sent = []\<rparr>"

definition echo_do_read :: "nat \<Rightarrow> echo_session \<Rightarrow> echo_session" where
  "echo_do_read sz s =
     (let (b, a) = allocate sz (ec_alloc s) in s\<lparr>ec_alloc := a, ec_op := Reading b\<rparr>)"

definition echo_do_write :: "nat \<Rightarrow> nat \<Rightarrow> echo_session \<Rightarrow> echo_session" where
  "echo_do_write sz len s =
     (let (b, a) = allocate sz (ec_alloc s) in s\<lparr>ec_alloc := a, ec_op := Writing len b\<rparr>)"

definition echo_start :: "nat \<Rightarrow> echo_session \<Rightarrow> echo_session" where
  "echo_start sz s = echo_do_read sz s"

text \<open>
  The completion of the outstanding operation: \<open>ec\<close> is the error, \<open>bs\<close> the bytes a read put into the
  1,024 bytes of \<open>data_\<close>, \<open>sz\<close> the size of the operation that is started next, if any.
\<close>

definition echo_complete :: "bool \<Rightarrow> bytes \<Rightarrow> nat \<Rightarrow> echo_session \<Rightarrow> echo_session res" where
  "echo_complete ec bs sz s =
     (case ec_op s of
        Idle \<Rightarrow> Inr s
      | Reading b \<Rightarrow>
          bind_res (deallocate b (ec_alloc s)) (\<lambda>a.
            let s1 = s\<lparr>ec_alloc := a, ec_op := Idle\<rparr>; bs = take 1024 bs
            in Inr (if ec then s1
                    else echo_do_write sz (length bs)
                      (s1\<lparr>ec_data := bs @ drop (length bs) (ec_data s1), ec_received := ec_received s1 @ bs\<rparr>)))
      | Writing n b \<Rightarrow>
          bind_res (deallocate b (ec_alloc s)) (\<lambda>a.
            let s1 = s\<lparr>ec_alloc := a, ec_op := Idle\<rparr>
            in Inr (if ec then s1 else echo_do_read sz (s1\<lparr>ec_sent := ec_sent s1 @ take n (ec_data s1)\<rparr>))))"

fun echo_run :: "(bool \<times> bytes \<times> nat) list \<Rightarrow> echo_session \<Rightarrow> echo_session res" where
  "echo_run [] s = Inr s"
| "echo_run ((ec, bs, sz) # evs) s = bind_res (echo_complete ec bs sz s) (echo_run evs)"

section \<open>server\<close>

text \<open>\<open>es_accepting\<close>: accepts outstanding; the sessions started so far.\<close>

record echo_server =
  es_accepting :: nat
  es_sessions :: "echo_session list"

definition echo_do_accept :: "echo_server \<Rightarrow> echo_server" where
  "echo_do_accept v = v\<lparr>es_accepting := Suc (es_accepting v)\<rparr>"

definition echo_server_new :: echo_server where
  "echo_server_new = echo_do_accept \<lparr>es_accepting = 0, es_sessions = []\<rparr>"

definition echo_on_accept :: "bool \<Rightarrow> nat \<Rightarrow> echo_server \<Rightarrow> echo_server" where
  "echo_on_accept ec sz v =
     (let v1 = v\<lparr>es_accepting := es_accepting v - 1\<rparr>;
          v2 = (if \<not> ec then v1\<lparr>es_sessions := es_sessions v1 @ [echo_start sz echo_session_new]\<rparr> else v1)
      in echo_do_accept v2)"

text \<open>
  \<open>main\<close>: its result, or the server if it serves; \<open>bound\<close>: whether the port can be bound (if not, an
  exception is caught).
\<close>

definition echo_main :: "nat \<Rightarrow> bool \<Rightarrow> int option \<times> echo_server option" where
  "echo_main argc bound =
     (if argc \<noteq> 2 then (Some 1, None) else if \<not> bound then (Some 0, None) else (None, Some echo_server_new))"

section \<open>Lemmas\<close>

text \<open>The memory of the allocator is that of the outstanding operation, and nothing else.\<close>

fun op_block :: "echo_op \<Rightarrow> block option" where
  "op_block Idle = None"
| "op_block (Reading b) = Some b"
| "op_block (Writing n b) = Some b"

fun alloc_holds :: "block option \<Rightarrow> handler_allocator \<Rightarrow> bool" where
  "alloc_holds None a \<longleftrightarrow> \<not> ha_in_use a \<and> ha_heap a = []"
| "alloc_holds (Some Inline) a \<longleftrightarrow> ha_in_use a \<and> ha_heap a = []"
| "alloc_holds (Some (Heap n)) a \<longleftrightarrow> \<not> ha_in_use a \<and> ha_heap a = [n]"

definition echo_ok :: "echo_session \<Rightarrow> bool" where
  "echo_ok s \<longleftrightarrow> alloc_holds (op_block (ec_op s)) (ec_alloc s) \<and>
     (\<forall>n b. ec_op s = Writing n b \<longrightarrow> n \<le> length (ec_data s))"

definition echo_unsent :: "echo_session \<Rightarrow> bytes" where
  "echo_unsent s = (case ec_op s of Writing n b \<Rightarrow> take n (ec_data s) | _ \<Rightarrow> [])"

lemma allocate_holds:
  "alloc_holds None a \<Longrightarrow> alloc_holds (Some (fst (allocate sz a))) (snd (allocate sz a))"
  by (simp add: allocate_def)

lemma deallocate_holds:
  "alloc_holds (Some b) a \<Longrightarrow> \<exists>a'. deallocate b a = Inr a' \<and> alloc_holds None a'"
  by (cases b) (auto simp: deallocate_def)

lemma echo_complete_ok:
  assumes "echo_ok s"
  shows "\<exists>s'. echo_complete ec bs sz s = Inr s' \<and> echo_ok s' \<and>
    (ec_op s' \<noteq> Idle \<longrightarrow> ec_sent s @ echo_unsent s = ec_received s \<longrightarrow> ec_sent s' @ echo_unsent s' = ec_received s') \<and>
    (ec_op s = Idle \<longrightarrow> s' = s)"
proof (cases "ec_op s")
  case Idle
  with assms show ?thesis by (simp add: echo_complete_def)
next
  case (Reading b)
  with assms have "alloc_holds (Some b) (ec_alloc s)" by (simp add: echo_ok_def)
  then obtain a where "deallocate b (ec_alloc s) = Inr a" "alloc_holds None a"
    using deallocate_holds by blast
  with Reading allocate_holds [of a sz] show ?thesis
    by (auto simp: echo_complete_def echo_do_write_def echo_ok_def echo_unsent_def Let_def min_def split: prod.split)
next
  case (Writing n b)
  with assms have "alloc_holds (Some b) (ec_alloc s)" by (simp add: echo_ok_def)
  then obtain a where "deallocate b (ec_alloc s) = Inr a" "alloc_holds None a"
    using deallocate_holds by blast
  with Writing allocate_holds [of a sz] show ?thesis
    by (auto simp: echo_complete_def echo_do_read_def echo_ok_def echo_unsent_def Let_def split: prod.split)
qed

lemma echo_run_ok:
  assumes "echo_ok s" "ec_op s \<noteq> Idle \<longrightarrow> ec_sent s @ echo_unsent s = ec_received s"
  shows "\<exists>s'. echo_run evs s = Inr s' \<and> echo_ok s' \<and>
    (ec_op s' \<noteq> Idle \<longrightarrow> ec_sent s' @ echo_unsent s' = ec_received s')"
  using assms
proof (induction evs arbitrary: s)
  case (Cons ev evs)
  obtain ec bs sz where ev: "ev = (ec, bs, sz)" by (cases ev)
  from echo_complete_ok [OF Cons.prems(1), of ec bs sz] obtain s1
    where s1: "echo_complete ec bs sz s = Inr s1" "echo_ok s1" "ec_op s = Idle \<longrightarrow> s1 = s"
      "ec_op s1 \<noteq> Idle \<longrightarrow> ec_sent s @ echo_unsent s = ec_received s \<longrightarrow> ec_sent s1 @ echo_unsent s1 = ec_received s1"
    by blast
  have "ec_op s1 \<noteq> Idle \<longrightarrow> ec_sent s1 @ echo_unsent s1 = ec_received s1"
    using s1 Cons.prems(2) by metis
  from Cons.IH [OF s1(2) this] s1(1) show ?case by (simp add: ev)
qed simp

section \<open>Properties\<close>

text \<open>
  C28. Whatever the outcomes of its reads and writes, an echo session uses its inline block for at most
  one handler, leaks no block and frees none twice: the allocator holds exactly the memory of the
  outstanding operation. While it runs, what it wrote and still has to write is what it read.
\<close>

theorem echo_session_safe:
  "\<exists>s'. echo_run evs (echo_start sz echo_session_new) = Inr s' \<and>
     (ha_in_use (ec_alloc s') \<longleftrightarrow> op_block (ec_op s') = Some Inline) \<and>
     ha_heap (ec_alloc s') = (case op_block (ec_op s') of Some (Heap n) \<Rightarrow> [n] | _ \<Rightarrow> []) \<and>
     (ec_op s' \<noteq> Idle \<longrightarrow> ec_sent s' @ echo_unsent s' = ec_received s')"
proof -
  have "echo_ok (echo_start sz echo_session_new)"
    "ec_op (echo_start sz echo_session_new) \<noteq> Idle \<longrightarrow>
      ec_sent (echo_start sz echo_session_new) @ echo_unsent (echo_start sz echo_session_new) =
      ec_received (echo_start sz echo_session_new)"
    by (auto simp: echo_start_def echo_do_read_def echo_ok_def echo_session_new_def allocate_def
        handler_allocator_new_def echo_unsent_def split: prod.split)
  from echo_run_ok [OF this, of evs] obtain s'
    where "echo_run evs (echo_start sz echo_session_new) = Inr s'" "echo_ok s'"
      "ec_op s' \<noteq> Idle \<longrightarrow> ec_sent s' @ echo_unsent s' = ec_received s'" by blast
  moreover from \<open>echo_ok s'\<close> have "alloc_holds (op_block (ec_op s')) (ec_alloc s')"
    by (simp add: echo_ok_def)
  then have "ha_in_use (ec_alloc s') \<longleftrightarrow> op_block (ec_op s') = Some Inline"
    "ha_heap (ec_alloc s') = (case op_block (ec_op s') of Some (Heap n) \<Rightarrow> [n] | _ \<Rightarrow> [])"
    by (auto split: option.split block.split elim: alloc_holds.elims)
  ultimately show ?thesis by blast
qed

theorem echo_session_safe_witness:
  "\<exists>s'. echo_run [(False, [1, 2], 100), (False, [], 5000), (True, [], 0)] (echo_start 10 echo_session_new) = Inr s' \<and>
     ha_heap (ec_alloc s') = []"
  using echo_session_safe [of "[(False, [1, 2], 100), (False, [], 5000), (True, [], 0)]" 10]
  by (auto simp: echo_start_def echo_do_read_def echo_do_write_def echo_session_new_def allocate_def
        deallocate_def storage_size_def echo_complete_def handler_allocator_new_def)

end
