(* ===== verification/Thread_Sample.thy ===== *)
theory Thread_Sample
  imports Base "HOL-Library.Multiset"
begin

text \<open>
  Sample/muthasio.cpp: a service whose pool of threads runs one \<open>io_service\<close>, and whose connections
  send one hundred lines when they are accepted.
\<close>

section \<open>CMyTcpConnection\<close>

text \<open>
  \<open>tc_writes\<close> are the writes outstanding, each with the text it keeps alive and its index; \<open>tc_trace\<close>
  is what the handlers print: an index, or \<open>None\<close> for a lost connection.
\<close>

record tcp_connection =
  tc_writes :: "(bytes \<times> nat) list"
  tc_trace :: "nat option list"

definition CMyTcpConnection_CreateNew :: tcp_connection where
  "CMyTcpConnection_CreateNew = \<lparr>tc_writes = [], tc_trace = []\<rparr>"

definition CMyTcpConnection_start :: "bytes \<Rightarrow> tcp_connection \<Rightarrow> tcp_connection" where
  "CMyTcpConnection_start thread_id c =
     c\<lparr>tc_writes := tc_writes c @ map (\<lambda>i. (thread_id @ [13, 10], i)) [0..<100]\<rparr>"

text \<open>The completion of the write with index \<open>i\<close>.\<close>

definition CMyTcpConnection_HandleWrite :: "bool \<Rightarrow> nat \<Rightarrow> tcp_connection \<Rightarrow> tcp_connection" where
  "CMyTcpConnection_HandleWrite error i c =
     c\<lparr>tc_writes := filter (\<lambda>w. snd w \<noteq> i) (tc_writes c),
       tc_trace := tc_trace c @ [if \<not> error then Some i else None]\<rparr>"

section \<open>CMyService\<close>

record my_service =
  ms_accepting :: nat
  ms_connections :: "tcp_connection list"
  ms_io_stopped :: bool
  ms_threads :: nat
  ms_nThreads :: nat

definition CMyService_StartAccept :: "my_service \<Rightarrow> my_service" where
  "CMyService_StartAccept s = s\<lparr>ms_accepting := Suc (ms_accepting s)\<rparr>"

definition CMyService_new :: "nat \<Rightarrow> my_service" where
  "CMyService_new nThreads = CMyService_StartAccept
     \<lparr>ms_accepting = 0, ms_connections = [], ms_io_stopped = False, ms_threads = 0, ms_nThreads = nThreads\<rparr>"

text \<open>\<open>Stop\<close> stops the \<open>io_service\<close>; its loop over the threads does nothing (the \<open>join\<close> is a comment).\<close>

definition CMyService_Stop :: "my_service \<Rightarrow> my_service" where
  "CMyService_Stop s = s\<lparr>ms_io_stopped := True\<rparr>"

definition CMyService_Start :: "my_service \<Rightarrow> my_service" where
  "CMyService_Start s = s\<lparr>ms_threads := ms_threads s + ms_nThreads s\<rparr>"

definition CMyService_HandleAccept :: "bytes \<Rightarrow> bool \<Rightarrow> my_service \<Rightarrow> my_service" where
  "CMyService_HandleAccept thread_id error s =
     (let s1 = s\<lparr>ms_accepting := ms_accepting s - 1\<rparr>;
          s2 = (if \<not> error
                then s1\<lparr>ms_connections := ms_connections s1 @ [CMyTcpConnection_start thread_id CMyTcpConnection_CreateNew]\<rparr>
                else s1)
      in CMyService_StartAccept s2)"

text \<open>\<open>main\<close>: the arguments are counted, then the service runs until a key is pressed.\<close>

definition muthasio_main :: "nat \<Rightarrow> nat \<Rightarrow> (bytes \<times> bool) list \<Rightarrow> int \<times> my_service option" where
  "muthasio_main argc nThreads accepts =
     (if argc \<noteq> 4 then (1, None)
      else (0, Some (CMyService_Stop
        (fold (\<lambda>(thread_id, error). CMyService_HandleAccept thread_id error) accepts
          (CMyService_Start (CMyService_new nThreads))))))"

section \<open>Lemmas\<close>

lemma run_writes:
  "tc_writes (fold (CMyTcpConnection_HandleWrite False) is c) = filter (\<lambda>w. snd w \<notin> set is) (tc_writes c)"
  "tc_trace (fold (CMyTcpConnection_HandleWrite False) is c) = tc_trace c @ map Some is"
  by (induction "is" arbitrary: c) (auto simp: CMyTcpConnection_HandleWrite_def intro!: filter_cong)

lemma accepts_keep_one:
  "ms_accepting s = 1 \<Longrightarrow>
     ms_accepting (fold (\<lambda>(thread_id, error). CMyService_HandleAccept thread_id error) as s) = 1 \<and>
     ms_threads (fold (\<lambda>(thread_id, error). CMyService_HandleAccept thread_id error) as s) = ms_threads s \<and>
     length (ms_connections (fold (\<lambda>(thread_id, error). CMyService_HandleAccept thread_id error) as s)) =
       length (ms_connections s) + length (filter (\<lambda>a. \<not> snd a) as)"
proof (induction as arbitrary: s)
  case (Cons a as)
  obtain t e where a: "a = (t, e)" by (cases a)
  have "ms_accepting (CMyService_HandleAccept t e s) = 1" "ms_threads (CMyService_HandleAccept t e s) = ms_threads s"
    "length (ms_connections (CMyService_HandleAccept t e s)) = length (ms_connections s) + (if e then 0 else 1)"
    using Cons.prems by (simp_all add: CMyService_HandleAccept_def CMyService_StartAccept_def Let_def)
  with Cons.IH [of "CMyService_HandleAccept t e s"] show ?case by (simp add: a)
qed simp

section \<open>Properties\<close>

text \<open>
  A connection has one hundred writes outstanding at the same time, which asio forbids for one
  stream; if each of them completes once, in whatever order, none is left and each index is
  reported once, in that order.
\<close>

theorem CMyTcpConnection_overlapping_writes:
  assumes "c = CMyTcpConnection_start thread_id CMyTcpConnection_CreateNew" "mset order = mset [0..<100]"
  shows "length (tc_writes c) = 100 \<and>
    tc_writes (fold (CMyTcpConnection_HandleWrite False) order c) = [] \<and>
    tc_trace (fold (CMyTcpConnection_HandleWrite False) order c) = map Some order"
proof -
  have "set order = {0..<100}" using mset_eq_setD [OF assms(2)] by (simp only: set_upt)
  then show ?thesis
    by (simp add: run_writes assms(1) CMyTcpConnection_start_def CMyTcpConnection_CreateNew_def filter_empty_conv
        del: upt_rec_numeral)
qed

theorem CMyTcpConnection_overlapping_writes_witness:
  "tc_trace (fold (CMyTcpConnection_HandleWrite False) (rev [0..<100])
     (CMyTcpConnection_start [65] CMyTcpConnection_CreateNew)) = map Some (rev [0..<100])"
  using CMyTcpConnection_overlapping_writes [OF refl, of "rev [0..<100]" "[65]"]
  by (simp del: upt_rec_numeral)

text \<open>
  The service always has exactly one accept outstanding, makes one connection of every accept that
  succeeds, and ends with all its threads still unjoined.
\<close>

theorem muthasio_main_spec:
  "fst (muthasio_main 4 n accepts) = 0 \<and>
   ms_accepting (the (snd (muthasio_main 4 n accepts))) = 1 \<and>
   length (ms_connections (the (snd (muthasio_main 4 n accepts)))) = length (filter (\<lambda>a. \<not> snd a) accepts) \<and>
   ms_threads (the (snd (muthasio_main 4 n accepts))) = n"
  using accepts_keep_one [of "CMyService_Start (CMyService_new n)" accepts]
  by (simp add: muthasio_main_def CMyService_Stop_def CMyService_Start_def CMyService_new_def CMyService_StartAccept_def)

end
