(* ===== verification/Wire_Varint.thy ===== *)
theory Wire_Varint
  imports Base
begin

text \<open>
  The integers of the wire format of protobuf 2.6.0, the library the server is linked with
  (io/coded_stream.h, io/coded_stream.cc and the ZigZag functions of wire_format_lite.h, in
  ThirdParty/): variable-length integers, little-endian words, ZigZag. The unrolled code that reads
  and writes them is modelled as it is, on words of its width; \<open>varint\<close> and \<open>varint_bytes\<close> are the
  reference it is proved equal to. Reading past the end of an array is undefined behaviour.
\<close>

unbundle bit_operations_syntax

type_synonym uint32 = "32 word"
type_synonym uint64 = "64 word"

section \<open>Reading from an array\<close>

text \<open>\<open>*(ptr++)\<close>.\<close>

fun next_byte :: "bytes \<Rightarrow> (byte \<times> bytes) res" where
  "next_byte [] = Inl (UB ''read past the end of the array'')"
| "next_byte (b # ptr) = Inr (b, ptr)"

text \<open>
  \<open>n\<close> of the unrolled lines \<open>b = *(ptr++); result += b << k; if (!(b & 0x80)) goto done; result -= 0x80 << k;\<close>
  for \<open>k\<close>, \<open>k + 7\<close> and so on; the first component tells whether it went to \<open>done\<close>.
\<close>

fun varint_lines :: "nat \<Rightarrow> nat \<Rightarrow> uint32 \<Rightarrow> bytes \<Rightarrow> (bool \<times> uint32 \<times> bytes) res" where
  "varint_lines 0 k result ptr = Inr (False, result, ptr)"
| "varint_lines (Suc n) k result ptr =
     bind_res (next_byte ptr) (\<lambda>(b, ptr').
       let result' = result + push_bit k (ucast b)
       in if b AND 0x80 = 0 then Inr (True, result', ptr')
          else varint_lines n (k + 7) (result' - push_bit k 0x80) ptr')"

text \<open>The loop over the bytes that do not fit: \<open>b = *(ptr++); if (!(b & 0x80)) goto done;\<close>.\<close>

fun discard_lines :: "nat \<Rightarrow> bytes \<Rightarrow> (bool \<times> bytes) res" where
  "discard_lines 0 ptr = Inr (False, ptr)"
| "discard_lines (Suc n) ptr =
     bind_res (next_byte ptr) (\<lambda>(b, ptr'). if b AND 0x80 = 0 then Inr (True, ptr') else discard_lines n ptr')"

definition kMaxVarintBytes :: nat where "kMaxVarintBytes = 10"
definition kMaxVarint32Bytes :: nat where "kMaxVarint32Bytes = 5"

lemmas varint_limits = kMaxVarintBytes_def kMaxVarint32Bytes_def

text \<open>\<open>None\<close> is the result \<open>NULL\<close>.\<close>

definition ReadVarint32FromArray :: "bytes \<Rightarrow> (uint32 \<times> bytes) option res" where
  "ReadVarint32FromArray buffer =
     bind_res (varint_lines kMaxVarint32Bytes 0 0 buffer) (\<lambda>(finished, result, ptr).
       if finished then Inr (Some (result, ptr))
       else bind_res (discard_lines (kMaxVarintBytes - kMaxVarint32Bytes) ptr) (\<lambda>(finished, ptr').
              Inr (if finished then Some (result, ptr') else None)))"

text \<open>The fast path of \<open>ReadVarint64Fallback\<close>: three parts of 28, 28 and 8 bits.\<close>

definition join_parts :: "uint32 \<Rightarrow> uint32 \<Rightarrow> uint32 \<Rightarrow> uint64" where
  "join_parts part0 part1 part2 = ucast part0 OR push_bit 28 (ucast part1) OR push_bit 56 (ucast part2)"

definition ReadVarint64FromArray :: "bytes \<Rightarrow> (uint64 \<times> bytes) option res" where
  "ReadVarint64FromArray buffer =
     bind_res (varint_lines 4 0 0 buffer) (\<lambda>(finished, part0, ptr).
       if finished then Inr (Some (join_parts part0 0 0, ptr))
       else bind_res (varint_lines 4 0 0 ptr) (\<lambda>(finished, part1, ptr).
         if finished then Inr (Some (join_parts part0 part1 0, ptr))
         else bind_res (varint_lines 2 0 0 ptr) (\<lambda>(finished, part2, ptr).
           Inr (if finished then Some (join_parts part0 part1 part2, ptr) else None))))"

section \<open>The reference\<close>

text \<open>A varint of at most \<open>n\<close> bytes at the front of the input, as a number of any size, and the rest.\<close>

fun varint :: "nat \<Rightarrow> bytes \<Rightarrow> (nat \<times> bytes) option" where
  "varint 0 p = None"
| "varint (Suc n) [] = None"
| "varint (Suc n) (b # p) =
     (if b AND 0x80 = 0 then Some (unat b, p)
      else map_option (\<lambda>(v, r). (unat b - 128 + 128 * v, r)) (varint n p))"

text \<open>The input holds the end of a varint, or at least \<open>n\<close> bytes: what the fast paths require.\<close>

definition ends_within :: "nat \<Rightarrow> bytes \<Rightarrow> bool" where
  "ends_within n p \<longleftrightarrow> n \<le> length p \<or> (\<exists>b \<in> set p. b AND 0x80 = 0)"

lemma ends_within_Nil [simp]: "ends_within (Suc n) [] = False" "ends_within 0 p"
  by (simp_all add: ends_within_def)

lemma ends_within_Cons [simp]:
  "ends_within (Suc n) (b # p) \<longleftrightarrow> b AND 0x80 = 0 \<or> ends_within n p"
  by (auto simp: ends_within_def)

lemma ends_within_last: "p \<noteq> [] \<Longrightarrow> last p AND 0x80 = 0 \<Longrightarrow> ends_within n p"
  using last_in_set [of p] by (auto simp: ends_within_def)

text \<open>The bits that the first \<open>m\<close> bytes, none of which ends the varint, contribute.\<close>

fun low_groups :: "nat \<Rightarrow> bytes \<Rightarrow> nat" where
  "low_groups 0 p = 0"
| "low_groups (Suc m) [] = 0"
| "low_groups (Suc m) (b # p) = unat b - 128 + 128 * low_groups m p"

lemma byte_high_bit: "b AND 0x80 = 0 \<longleftrightarrow> unat b < 128" for b :: byte
proof -
  have "b AND 0x80 = 0 \<longleftrightarrow> \<not> bit b 7"
    by (simp add: bit_iff_and_push_bit_not_eq_0 push_bit_eq_mult)
  also have "\<dots> \<longleftrightarrow> unat b < 2 ^ 7"
  proof -
    have "bit b 7 \<longleftrightarrow> bit (unat b) 7"
      by (simp add: bit_unsigned_iff)
    also have "\<dots> \<longleftrightarrow> odd (unat b div 128)"
      by (simp add: bit_iff_odd)
    finally have "bit b 7 \<longleftrightarrow> odd (unat b div 128)" .
    moreover have "unat b < 256" using unsigned_less [of b] by simp
    moreover from this have "unat b div 128 < 2" by (simp add: less_mult_imp_div_less)
    ultimately show ?thesis by (cases "unat b < 128") (auto simp: less_2_cases_iff)
  qed
  finally show ?thesis by simp
qed

lemma ucast_minus_128: "128 \<le> unat b \<Longrightarrow> of_nat (unat b - 128) = (ucast b - 128 :: 'a::len word)" for b :: byte
  by (simp add: of_nat_diff)

lemma varint_lines_done:
  "varint m p = Some (v, r) \<Longrightarrow> varint_lines m k result p = Inr (True, result + of_nat v * 2 ^ k, r)"
proof (induction m p arbitrary: k result v r rule: varint.induct)
  case (3 n b p)
  show ?case
  proof (cases "b AND 0x80 = 0")
    case True
    with "3.prems" show ?thesis by (auto simp: push_bit_eq_mult)
  next
    case False
    with "3.prems" obtain v' where v: "varint n p = Some (v', r)" "v = unat b - 128 + 128 * v'"
      by auto
    from False have "128 \<le> unat b" by (simp add: byte_high_bit)
    with False v "3.IH" [OF False v(1), of "k + 7" "result + push_bit k (ucast b) - push_bit k 0x80"]
    show ?thesis
      by (simp add: push_bit_eq_mult ucast_minus_128 power_add algebra_simps)
  qed
qed simp_all

lemma varint_lines_more:
  "varint m p = None \<Longrightarrow> m \<le> length p \<Longrightarrow>
   varint_lines m k result p = Inr (False, result + of_nat (low_groups m p) * 2 ^ k, drop m p)"
proof (induction m p arbitrary: k result rule: varint.induct)
  case (3 n b p)
  then have b: "b AND 0x80 \<noteq> 0" "varint n p = None" "n \<le> length p"
    by (auto split: if_splits)
  then have "128 \<le> unat b" by (simp add: byte_high_bit)
  with b "3.IH" [OF b, of "k + 7" "result + push_bit k (ucast b) - push_bit k 0x80"] show ?case
    by (simp add: push_bit_eq_mult ucast_minus_128 power_add algebra_simps)
qed simp_all

lemma discard_lines_varint:
  "ends_within n p \<Longrightarrow> discard_lines n p =
   Inr (case varint n p of None \<Rightarrow> (False, drop n p) | Some (v, r) \<Rightarrow> (True, r))"
  by (induction n p rule: varint.induct) (auto split: option.splits)

lemma varint_add:
  "varint (m + n) p =
   (case varint m p of
      Some x \<Rightarrow> Some x
    | None \<Rightarrow> if length p < m then None
        else map_option (\<lambda>(v, r). (low_groups m p + 128 ^ m * v, r)) (varint n (drop m p)))"
  by (induction m p rule: varint.induct)
    (auto simp: option.map_comp option.map_ident case_prod_unfold comp_def algebra_simps split: option.splits if_splits)

lemma ends_within_drop:
  "ends_within (m + n) p \<Longrightarrow> varint m p = None \<Longrightarrow> m \<le> length p \<and> ends_within n (drop m p)"
  by (induction m p rule: varint.induct) (auto split: if_splits)

lemma varint_bound: "varint n p = Some (v, r) \<Longrightarrow> v < 128 ^ n"
proof (induction n p arbitrary: v r rule: varint.induct)
  case (3 n b p)
  show ?case
  proof (cases "b AND 0x80 = 0")
    case True
    with "3.prems" have "v < 128" by (simp add: byte_high_bit)
    also have "\<dots> \<le> 128 ^ Suc n" by simp
    finally show ?thesis .
  next
    case False
    with "3.prems" obtain v' where v: "varint n p = Some (v', r)" "v = unat b - 128 + 128 * v'"
      by auto
    have "v' < 128 ^ n" using 3 False v(1) by blast
    moreover have "unat b < 256" using unsigned_less [of b] by simp
    ultimately show ?thesis using v(2) by simp
  qed
qed simp_all

lemma low_groups_bound: "low_groups m p < 128 ^ m"
proof (induction m p rule: low_groups.induct)
  case (3 m b p)
  have "unat b < 256" using unsigned_less [of b] by simp
  with 3 show ?case by simp
qed simp_all

text \<open>The fast paths compute the reference, modulo their width, and stay within the array.\<close>

lemma ReadVarint32FromArray_varint:
  assumes "ends_within 10 p"
  shows "ReadVarint32FromArray p = Inr (map_option (\<lambda>(v, r). (of_nat v, r)) (varint 10 p))"
proof (cases "varint 5 p")
  case None
  with assms ends_within_drop [of 5 5 p] have p: "5 \<le> length p" "ends_within 5 (drop 5 p)"
    by simp_all
  have "(34359738368 :: uint32) = 0" by simp
  then have zero: "34359738368 * x = (0 :: uint32)" for x
    by (simp only: mult_zero_left)
  from None p show ?thesis
    using varint_add [of 5 5 p] zero
    by (auto simp: ReadVarint32FromArray_def varint_limits varint_lines_more discard_lines_varint
        option.map_comp comp_def case_prod_unfold split: option.splits)
next
  case (Some x)
  then show ?thesis
    using varint_add [of 5 5 p]
    by (cases x) (simp add: ReadVarint32FromArray_def varint_limits varint_lines_done)
qed

lemma or_eq_add:
  fixes a b :: "'a::len word"
  assumes "\<And>n. bit a n \<Longrightarrow> \<not> bit b n"
  shows "a OR b = a + b"
  by (rule disjunctive_add_eq_or [symmetric]) (use assms in \<open>auto simp: bit_eq_iff bit_simps\<close>)

lemma bit_of_small:
  fixes w :: "'a::len word"
  assumes "bit w n" "unat w < 2 ^ m"
  shows "n < m"
proof -
  from assms(1) have "bit (unat w) n" by (simp add: bit_unsigned_iff bit_imp_le_length)
  moreover from assms(2) have "take_bit m (unat w) = unat w" by (simp add: take_bit_nat_eq_self)
  ultimately have "bit (take_bit m (unat w)) n" by simp
  then show ?thesis by (simp add: bit_take_bit_iff)
qed

lemma unat_of_nat_small: "n < 2 ^ 28 \<Longrightarrow> unat (of_nat n :: uint32) = n"
  by (simp add: unat_of_nat take_bit_nat_eq_self)

lemma unat_ucast_32_64: "unat (ucast w :: uint64) = unat w" for w :: uint32
proof -
  have "unat w < 2 ^ 32" using unsigned_less [of w] by simp
  then show ?thesis by (simp add: unsigned_ucast_eq take_bit_nat_eq_self)
qed

text \<open>The three parts do not overlap, so \<open>OR\<close> adds them.\<close>

lemma wide_part:
  assumes "v < 2 ^ 28"
  shows "ucast (of_nat v :: uint32) = (of_nat v :: uint64)" "bit (ucast (of_nat v :: uint32) :: uint64) n \<Longrightarrow> n < 28"
proof -
  have u: "unat (ucast (of_nat v :: uint32) :: uint64) = v"
    by (simp only: unat_ucast_32_64 unat_of_nat_small [OF assms])
  then show "ucast (of_nat v :: uint32) = (of_nat v :: uint64)"
    by (metis of_nat_unat ucast_id)
  have "unat (ucast (of_nat v :: uint32) :: uint64) < 2 ^ 28"
    unfolding u by (rule assms)
  then show "bit (ucast (of_nat v :: uint32) :: uint64) n \<Longrightarrow> n < 28"
    by (rule bit_of_small [rotated])
qed

lemma join_parts_sum:
  assumes "v0 < 2 ^ 28" "v1 < 2 ^ 28" "v2 < 2 ^ 28"
  shows "join_parts (of_nat v0) (of_nat v1) (of_nat v2) = of_nat v0 + of_nat v1 * 2 ^ 28 + of_nat v2 * 2 ^ 56"
proof -
  let ?a = "of_nat v0 :: uint64" and ?b = "push_bit 28 (of_nat v1) :: uint64" and ?c = "push_bit 56 (of_nat v2) :: uint64"
  have a: "n < 28" if "bit ?a n" for n
    using wide_part(1) [OF assms(1)] wide_part(2) [OF assms(1)] that by simp
  have b: "28 \<le> n \<and> n < 56" if "bit ?b n" for n
    using wide_part(1) [OF assms(2)] wide_part(2) [OF assms(2), of "n - 28"] that by (auto simp: bit_push_bit_iff)
  have c: "56 \<le> n" if "bit ?c n" for n
    using that by (simp add: bit_push_bit_iff)
  have "?a OR ?b = ?a + ?b"
    by (rule or_eq_add) (use a b in fastforce)
  moreover have "(?a OR ?b) OR ?c = (?a OR ?b) + ?c"
    by (rule or_eq_add) (use a b c in \<open>fastforce simp only: bit_or_iff\<close>)
  ultimately have "?a OR ?b OR ?c = ?a + ?b + ?c" by (simp only: flip: or.assoc)
  then show ?thesis
    by (simp only: join_parts_def wide_part(1) [OF assms(1)] wide_part(1) [OF assms(2)] wide_part(1) [OF assms(3)] or.assoc push_bit_eq_mult)
qed

lemma ReadVarint64FromArray_varint:
  assumes "ends_within 10 p"
  shows "ReadVarint64FromArray p = Inr (map_option (\<lambda>(v, r). (of_nat v, r)) (varint 10 p))"
proof -
  have b: "v < 2 ^ 28" if "varint 4 q = Some (v, r)" for q v r
    using varint_bound [OF that] by simp
  have b2: "v < 2 ^ 28" if "varint 2 q = Some (v, r)" for q v r
    using varint_bound [OF that] by simp
  have l: "low_groups 4 q < 2 ^ 28" for q
    using low_groups_bound [of 4 q] by simp
  have j1: "join_parts (of_nat v0) 0 0 = of_nat v0" if "v0 < 2 ^ 28" for v0
    using join_parts_sum [OF that, of 0 0] by simp
  have j2: "join_parts (of_nat v0) (of_nat v1) 0 = of_nat v0 + of_nat v1 * 2 ^ 28"
    if "v0 < 2 ^ 28" "v1 < 2 ^ 28" for v0 v1
    using join_parts_sum [OF that, of 0] by simp
  have split1: "varint 10 p = (case varint 4 p of Some x \<Rightarrow> Some x
      | None \<Rightarrow> map_option (\<lambda>(v, r). (low_groups 4 p + 128 ^ 4 * v, r)) (varint 6 (drop 4 p)))"
    using varint_add [of 4 6 p] ends_within_drop [of 4 6 p] assms by (auto split: option.splits)
  show ?thesis
  proof (cases "varint 4 p")
    case (Some x)
    then show ?thesis
      using b j1 by (cases x) (simp add: ReadVarint64FromArray_def varint_lines_done split1)
  next
    case None
    let ?q = "drop 4 p"
    from None assms ends_within_drop [of 4 6 p] have q: "4 \<le> length p" "ends_within 6 ?q" by simp_all
    have split2: "varint 6 ?q = (case varint 4 ?q of Some x \<Rightarrow> Some x
        | None \<Rightarrow> map_option (\<lambda>(v, r). (low_groups 4 ?q + 128 ^ 4 * v, r)) (varint 2 (drop 4 ?q)))"
      using varint_add [of 4 2 ?q] ends_within_drop [of 4 2 ?q] q by (auto split: option.splits)
    show ?thesis
    proof (cases "varint 4 ?q")
      case (Some x)
      then show ?thesis
        using b l j2 None q
        by (cases x) (simp add: ReadVarint64FromArray_def varint_lines_done varint_lines_more split1 split2 mult.commute)
    next
      case None2: None
      let ?r = "drop 4 ?q"
      from None2 q ends_within_drop [of 4 2 ?q] have r: "4 \<le> length ?q" "ends_within 2 ?r" by simp_all
      show ?thesis
      proof (cases "varint 2 ?r")
        case None3: None
        with r have "2 \<le> length ?r" using ends_within_drop [of 2 0 ?r] by simp
        with None None2 None3 q r show ?thesis
          by (simp add: ReadVarint64FromArray_def varint_lines_more split1 split2 del: drop_drop)
      next
        case (Some x)
        then show ?thesis
          using b2 l None None2 q r
          by (cases x) (simp add: ReadVarint64FromArray_def varint_lines_done varint_lines_more split1 split2
            join_parts_sum algebra_simps del: drop_drop)
      qed
    qed
  qed
qed

section \<open>Writing\<close>

text \<open>The bytes that \<open>target\<close> points to; each function returns what it wrote.\<close>

definition low_byte :: "'a::len word \<Rightarrow> byte" where
  "low_byte w = ucast w"

definition WriteVarint32FallbackToArrayInline :: "uint32 \<Rightarrow> bytes" where
  "WriteVarint32FallbackToArrayInline v =
     (let t0 = low_byte (v OR 0x80) in
      if 0x80 \<le> v then
        (let t1 = low_byte (drop_bit 7 v OR 0x80) in
         if 0x4000 \<le> v then
           (let t2 = low_byte (drop_bit 14 v OR 0x80) in
            if 0x200000 \<le> v then
              (let t3 = low_byte (drop_bit 21 v OR 0x80) in
               if 0x10000000 \<le> v then [t0, t1, t2, t3, low_byte (drop_bit 28 v)]
               else [t0, t1, t2, t3 AND 0x7F])
            else [t0, t1, t2 AND 0x7F])
         else [t0, t1 AND 0x7F])
      else [t0 AND 0x7F])"

lemma unat_drop_bit_div: "unat (drop_bit n w) = unat w div 2 ^ n"
  by (simp only: unat_drop_bit_eq) (simp add: drop_bit_eq_div)

text \<open>The loop of the slow paths, over a value of either width.\<close>

function write_varint_loop :: "'a::len word \<Rightarrow> bytes" where
  "write_varint_loop v =
     (if 0x7F < unat v then ((low_byte v AND 0x7F) OR 0x80) # write_varint_loop (drop_bit 7 v)
      else [low_byte v AND 0x7F])"
  by pat_completeness auto
termination
  by (relation "measure unat") (simp_all only: unat_drop_bit_div in_measure wf_measure, simp)

declare write_varint_loop.simps [simp del]

definition varint64_parts_size :: "uint32 \<Rightarrow> uint32 \<Rightarrow> uint32 \<Rightarrow> nat" where
  "varint64_parts_size part0 part1 part2 =
     (if part2 = 0 then
        if part1 = 0 then
          if part0 < 0x4000 then if part0 < 0x80 then 1 else 2
          else if part0 < 0x200000 then 3 else 4
        else
          if part1 < 0x4000 then if part1 < 0x80 then 5 else 6
          else if part1 < 0x200000 then 7 else 8
      else if part2 < 0x80 then 9 else 10)"

definition WriteVarint64ToArrayInline :: "uint64 \<Rightarrow> bytes" where
  "WriteVarint64ToArrayInline v =
     (let part0 = ucast v; part1 = ucast (drop_bit 28 v); part2 = ucast (drop_bit 56 v);
        size = varint64_parts_size part0 part1 part2;
        target = take size
          [low_byte (part0 OR 0x80), low_byte (drop_bit 7 part0 OR 0x80), low_byte (drop_bit 14 part0 OR 0x80),
           low_byte (drop_bit 21 part0 OR 0x80), low_byte (part1 OR 0x80), low_byte (drop_bit 7 part1 OR 0x80),
           low_byte (drop_bit 14 part1 OR 0x80), low_byte (drop_bit 21 part1 OR 0x80), low_byte (part2 OR 0x80),
           low_byte (drop_bit 7 part2 OR 0x80)]
      in target[size - 1 := target ! (size - 1) AND 0x7F])"

subsection \<open>The reference\<close>

text \<open>A byte with seven bits of the number and the mark that more follow.\<close>

definition more_byte :: "nat \<Rightarrow> byte" where
  "more_byte n = of_nat (n mod 128 + 128)"

fun varint_bytes :: "nat \<Rightarrow> bytes" where
  "varint_bytes n = (if n < 128 then [of_nat n] else more_byte n # varint_bytes (n div 128))"

declare varint_bytes.simps [simp del]

lemma and_7F: "b AND 0x7F = of_nat (unat b mod 128)" for b :: byte
proof -
  have "b AND 0x7F = take_bit 7 b" by (simp add: take_bit_eq_mask mask_eq_exp_minus_1)
  also have "\<dots> = of_nat (take_bit 7 (unat b))" by (simp add: of_nat_take_bit ucast_id)
  finally show ?thesis by (simp add: take_bit_eq_mod)
qed

lemma unat_low_byte: "unat (low_byte w) = unat w mod 256" if "8 \<le> LENGTH('a)" for w :: "'a::len word"
  by (simp add: low_byte_def unsigned_ucast_eq take_bit_eq_mod)

lemma low_byte_and: "low_byte w AND 0x7F = of_nat (unat w mod 128)" if "8 \<le> LENGTH('a)" for w :: "'a::len word"
  using that by (simp add: and_7F unat_low_byte mod_mod_cancel)

lemma bit_80_7F: "bit (0x80 :: int) n \<longleftrightarrow> n = 7" "bit (0x7F :: int) n \<longleftrightarrow> n < 7"
proof -
  have "(0x80 :: int) = 2 ^ 7" by simp
  then show "bit (0x80 :: int) n \<longleftrightarrow> n = 7" by (simp only: bit_exp_iff) auto
  have "bit (mask 7 :: int) n \<longleftrightarrow> n < 7" by (simp add: bit_mask_iff)
  then show "bit (0x7F :: int) n \<longleftrightarrow> n < 7" by (simp add: mask_eq_exp_minus_1)
qed

lemma or_80: "b OR 0x80 = more_byte (unat b)" for b :: byte
proof -
  have "b OR 0x80 = (b AND 0x7F) OR 0x80"
    by (rule bit_word_eqI) (auto simp: bit_or_iff bit_and_iff bit_80_7F)
  also have "\<dots> = (b AND 0x7F) + 0x80"
    by (rule or_eq_add) (auto simp: bit_and_iff bit_80_7F)
  finally show ?thesis by (simp add: and_7F more_byte_def)
qed

lemma low_byte_or: "low_byte (w OR 0x80) = more_byte (unat w)" if "8 \<le> LENGTH('a)" for w :: "'a::len word"
proof -
  have "low_byte (w OR 0x80) = low_byte w OR 0x80"
    using that by (intro bit_word_eqI) (auto simp: low_byte_def bit_ucast_iff bit_or_iff bit_80_7F)
  with that show ?thesis by (simp add: or_80 more_byte_def unat_low_byte mod_mod_cancel)
qed

lemma write_varint_loop_bytes: "8 \<le> LENGTH('a) \<Longrightarrow> write_varint_loop w = varint_bytes (unat w)" for w :: "'a::len word"
proof (induction w rule: write_varint_loop.induct)
  case (1 v)
  show ?case
  proof (cases "0x7F < unat v")
    case True
    with 1 have "write_varint_loop (drop_bit 7 v) = varint_bytes (unat v div 128)"
      by (simp add: unat_drop_bit_div)
    with True 1 show ?thesis
      by (subst write_varint_loop.simps, subst varint_bytes.simps) (simp add: low_byte_and or_80 more_byte_def unat_of_nat)
  next
    case False
    with 1 show ?thesis
      by (subst write_varint_loop.simps, subst varint_bytes.simps) (simp add: low_byte_and)
  qed
qed

lemma varint_bytes_last: "n < 128 \<Longrightarrow> varint_bytes n = [of_nat n]"
  by (simp add: varint_bytes.simps)

lemma varint_bytes_more: "128 \<le> n \<Longrightarrow> varint_bytes n = more_byte n # varint_bytes (n div 128)"
  by (simp add: varint_bytes.simps [of n])

lemma unat_more_byte: "unat (more_byte n) = n mod 128 + 128"
  unfolding more_byte_def by (simp only: unat_of_nat) (simp add: take_bit_eq_mod)

lemma more_byte_and_7F [simp]: "more_byte n AND 0x7F = of_nat (n mod 128)"
  by (simp add: and_7F unat_more_byte)

lemma low_byte_of_nat: "unat w < 256 \<Longrightarrow> low_byte w = of_nat (unat w)"
  by (simp add: low_byte_def)

lemma WriteVarint32FallbackToArrayInline_bytes:
  "WriteVarint32FallbackToArrayInline v = varint_bytes (unat v)"
proof -
  let ?n = "unat v"
  have n: "?n < 2 ^ 32" using unsigned_less [of v] by simp
  have le: "0x80 \<le> v \<longleftrightarrow> 128 \<le> ?n" "0x4000 \<le> v \<longleftrightarrow> 128 \<le> ?n div 128"
    "0x200000 \<le> v \<longleftrightarrow> 128 \<le> ?n div 128 div 128" "0x10000000 \<le> v \<longleftrightarrow> 128 \<le> ?n div 128 div 128 div 128"
    by (auto simp: word_le_nat_alt)
  have d: "unat (drop_bit 7 v) = ?n div 128" "unat (drop_bit 14 v) = ?n div 128 div 128"
    "unat (drop_bit 21 v) = ?n div 128 div 128 div 128" "unat (drop_bit 28 v) = ?n div 128 div 128 div 128 div 128"
    by (simp_all only: unat_drop_bit_div, simp_all flip: div_mult2_eq)
  have top: "?n div 128 div 128 div 128 div 128 < 16"
    using n by (simp flip: div_mult2_eq)
  note bytes = low_byte_or [where 'a = 32, simplified] d
  show ?thesis
    using le top
    by (simp add: WriteVarint32FallbackToArrayInline_def Let_def bytes low_byte_of_nat varint_bytes_last
      varint_bytes_more not_le)
qed

lemma varint_bytes_groups:
  assumes "k = 0 \<or> 128 ^ k \<le> n" "n < 128 ^ Suc k"
  shows "varint_bytes n = map (\<lambda>i. more_byte (n div 128 ^ i)) [0..<k] @ [of_nat (n div 128 ^ k)]"
  using assms
proof (induction k arbitrary: n)
  case 0
  then show ?case by (simp add: varint_bytes_last)
next
  case (Suc k)
  have "128 \<le> 128 * (128::nat) ^ k" by simp
  moreover have "128 * 128 ^ k \<le> n" using Suc.prems by simp
  ultimately have n: "128 \<le> n" by (rule le_trans)
  have "k = 0 \<or> 128 ^ k \<le> n div 128" "n div 128 < 128 ^ Suc k"
    using Suc.prems by (auto simp: less_eq_div_iff_mult_less_eq div_less_iff_less_mult mult.commute)
  then have "varint_bytes (n div 128) = map (\<lambda>i. more_byte (n div 128 div 128 ^ i)) [0..<k] @ [of_nat (n div 128 div 128 ^ k)]"
    by (rule Suc.IH)
  with n show ?case
    by (simp add: varint_bytes_more map_upt_Suc div_mult2_eq del: upt_Suc)
qed

lemma more_byte_take_bit: "7 \<le> m \<Longrightarrow> more_byte (take_bit m n) = more_byte n"
  by (simp add: more_byte_def flip: take_bit_eq_mod [of 7, simplified])

lemma varint64_size:
  fixes v :: uint64
  assumes "sz = varint64_parts_size (ucast v) (ucast (drop_bit 28 v)) (ucast (drop_bit 56 v))"
  shows "1 \<le> sz \<and> sz \<le> 10 \<and> (sz - 1 = 0 \<or> 128 ^ (sz - 1) \<le> unat v) \<and> unat v < 128 ^ Suc (sz - 1)"
proof -
  define n where "n = unat v"
  have n: "n < 2 ^ 64" using unsigned_less [of v] by (simp add: n_def)
  have u: "unat (ucast w :: uint32) = unat w mod 2 ^ 32" for w :: uint64
    by (simp add: unsigned_ucast_eq take_bit_eq_mod)
  define x y z where "x = n mod 2 ^ 32" and "y = n div 2 ^ 28 mod 2 ^ 32" and "z = n div 2 ^ 56 mod 2 ^ 32"
  have p: "unat (ucast v :: uint32) = x" "unat (ucast (drop_bit 28 v) :: uint32) = y"
    "unat (ucast (drop_bit 56 v) :: uint32) = z"
    by (simp_all only: u unat_drop_bit_div n_def x_def y_def z_def)
  have z: "z = n div 2 ^ 56" using n by (simp add: z_def div_less_iff_less_mult)
  have y: "z = 0 \<Longrightarrow> y = n div 2 ^ 28" using z by (simp add: y_def div_less_iff_less_mult div_eq_0_iff)
  have x: "z = 0 \<Longrightarrow> y = 0 \<Longrightarrow> x = n" using y by (simp add: x_def div_eq_0_iff)
  have sz: "sz = (if z = 0 then
      if y = 0 then if x < 0x4000 then if x < 0x80 then 1 else 2 else if x < 0x200000 then 3 else 4
      else if y < 0x4000 then if y < 0x80 then 5 else 6 else if y < 0x200000 then 7 else 8
    else if z < 0x80 then 9 else 10)"
    unfolding assms varint64_parts_size_def word_less_nat_alt word_unat_eq_iff p by simp
  show ?thesis
  proof (cases "z = 0")
    case True
    show ?thesis
    proof (cases "y = 0")
      case y0: True
      with True y have "n < 2 ^ 28" by (simp add: div_eq_0_iff)
      with True y0 x show ?thesis unfolding sz n_def [symmetric] by simp
    next
      case False
      with True y have "2 ^ 28 \<le> n" by (simp add: div_eq_0_iff)
      moreover have "n < 2 ^ 56" using True z by (simp add: div_eq_0_iff)
      ultimately show ?thesis
        using True False y unfolding sz n_def [symmetric]
        by (simp add: div_less_iff_less_mult)
    qed
  next
    case False
    with z n have "2 ^ 56 \<le> n" by (simp add: div_eq_0_iff)
    with False z n show ?thesis unfolding sz n_def [symmetric]
      by (simp add: div_less_iff_less_mult)
  qed
qed

lemma WriteVarint64ToArrayInline_bytes: "WriteVarint64ToArrayInline v = varint_bytes (unat v)"
proof -
  define n where "n = unat v"
  define T where "T i = more_byte (n div 128 ^ i)" for i
  have u: "more_byte (unat (ucast w :: uint32)) = more_byte (unat w)" for w :: uint64
    by (simp add: unsigned_ucast_eq more_byte_take_bit)
  have ud: "more_byte (unat (drop_bit k (ucast w :: uint32))) = more_byte (unat (drop_bit k w))" if "k + 7 \<le> 32" for k and w :: uint64
  proof -
    have "unat (drop_bit k (ucast w :: uint32)) = take_bit (32 - k) (unat (drop_bit k w))"
      by (simp add: unat_drop_bit_eq unsigned_ucast_eq drop_bit_take_bit)
    with that show ?thesis by (simp add: more_byte_take_bit)
  qed
  have dd: "unat (drop_bit k (drop_bit l v)) = n div 2 ^ (k + l)" for k l
    by (simp only: unat_drop_bit_div n_def add.commute [of k l] power_add div_mult2_eq)
  let ?p0 = "ucast v :: uint32" and ?p1 = "ucast (drop_bit 28 v) :: uint32" and ?p2 = "ucast (drop_bit 56 v) :: uint32"
  have target: "[low_byte (?p0 OR 0x80), low_byte (drop_bit 7 ?p0 OR 0x80), low_byte (drop_bit 14 ?p0 OR 0x80),
      low_byte (drop_bit 21 ?p0 OR 0x80), low_byte (?p1 OR 0x80), low_byte (drop_bit 7 ?p1 OR 0x80),
      low_byte (drop_bit 14 ?p1 OR 0x80), low_byte (drop_bit 21 ?p1 OR 0x80), low_byte (?p2 OR 0x80),
      low_byte (drop_bit 7 ?p2 OR 0x80)] = map T [0..<10]"
  proof -
    have "[0..<10] = [0, 1, 2, 3, 4, 5, 6, 7, 8, 9]" by (simp add: upt_rec)
    then show ?thesis
      by (simp only: low_byte_or [where 'a = 32, simplified] u ud dd list.map T_def)
        (simp add: u ud dd [of 0, simplified] unat_drop_bit_div n_def)
  qed
  define sz where "sz = varint64_parts_size (ucast v) (ucast (drop_bit 28 v)) (ucast (drop_bit 56 v))"
  from varint64_size [OF sz_def] have sz: "1 \<le> sz" "sz \<le> 10" "sz - 1 = 0 \<or> 128 ^ (sz - 1) \<le> n" "n < 128 ^ Suc (sz - 1)"
    unfolding n_def by blast+
  have "n div 128 ^ (sz - 1) < 128"
    using sz(4) by (simp add: div_less_iff_less_mult mult.commute)
  then have last: "T (sz - 1) AND 0x7F = of_nat (n div 128 ^ (sz - 1))" by (simp add: T_def)
  have "WriteVarint64ToArrayInline v = (map T [0..<sz])[sz - 1 := map T [0..<sz] ! (sz - 1) AND 0x7F]"
    unfolding WriteVarint64ToArrayInline_def Let_def target sz_def [symmetric]
    using sz by (simp add: take_map)
  also have "\<dots> = map T [0..<sz - 1] @ [T (sz - 1) AND 0x7F]"
  proof -
    obtain k where k: "sz = Suc k" using sz(1) by (cases sz) auto
    show ?thesis unfolding k by (simp add: list_update_append nth_append)
  qed
  also have "\<dots> = varint_bytes n"
    unfolding last varint_bytes_groups [OF sz(3,4)] by (simp add: T_def)
  finally show ?thesis by (simp add: n_def)
qed

definition VarintSize32 :: "uint32 \<Rightarrow> nat" where
  "VarintSize32 v =
     (if v < 0x80 then 1 else if v < 0x4000 then 2 else if v < 0x200000 then 3 else if v < 0x10000000 then 4 else 5)"

definition VarintSize64 :: "uint64 \<Rightarrow> nat" where
  "VarintSize64 v =
     (if v < 0x800000000 then
        if v < 0x80 then 1 else if v < 0x4000 then 2 else if v < 0x200000 then 3 else if v < 0x10000000 then 4 else 5
      else
        if v < 0x40000000000 then 6 else if v < 0x2000000000000 then 7 else if v < 0x100000000000000 then 8
        else if v < 0x8000000000000000 then 9 else 10)"

lemma length_varint_bytes: "k = 0 \<or> 128 ^ k \<le> n \<Longrightarrow> n < 128 ^ Suc k \<Longrightarrow> length (varint_bytes n) = Suc k"
  by (simp add: varint_bytes_groups)

lemma VarintSize32_length: "VarintSize32 v = length (varint_bytes (unat v))"
proof -
  have n: "unat v < 2 ^ 32" using unsigned_less [of v] by simp
  have l: "length (varint_bytes (unat v)) = Suc k" if "k = 0 \<or> 128 ^ k \<le> unat v" "unat v < 128 ^ Suc k" for k
    using that by (rule length_varint_bytes)
  show ?thesis
    unfolding VarintSize32_def word_less_nat_alt
    using l [of 0] l [of 1] l [of 2] l [of 3] l [of 4] n by (auto simp: not_less)
qed

lemma VarintSize64_length: "VarintSize64 v = length (varint_bytes (unat v))"
proof -
  have n: "unat v < 2 ^ 64" using unsigned_less [of v] by simp
  have l: "length (varint_bytes (unat v)) = Suc k" if "k = 0 \<or> 128 ^ k \<le> unat v" "unat v < 128 ^ Suc k" for k
    using that by (rule length_varint_bytes)
  show ?thesis
    unfolding VarintSize64_def word_less_nat_alt
    using l [of 0] l [of 1] l [of 2] l [of 3] l [of 4] l [of 5] l [of 6] l [of 7] l [of 8] l [of 9] n
    by (auto simp: not_less)
qed

lemma varint_varint_bytes: "v < 128 ^ n \<Longrightarrow> 0 < n \<Longrightarrow> varint n (varint_bytes v @ rest) = Some (v, rest)"
proof (induction v arbitrary: n rule: varint_bytes.induct)
  case (1 v)
  then obtain m where n: "n = Suc m" by (cases n) auto
  show ?case
  proof (cases "v < 128")
    case True
    then have "unat (of_nat v :: byte) = v" by (simp add: unat_of_nat take_bit_eq_mod)
    with True n show ?thesis by (simp add: varint_bytes_last byte_high_bit)
  next
    case False
    with 1 n have "v div 128 < 128 ^ m" by (simp add: div_less_iff_less_mult mult.commute)
    moreover from False 1 n have "0 < m" by (cases m) auto
    ultimately have "varint m (varint_bytes (v div 128) @ rest) = Some (v div 128, rest)"
      using False by (intro "1.IH")
    with False n show ?thesis
      by (simp add: varint_bytes_more byte_high_bit unat_more_byte)
  qed
qed

lemma varint_bytes_not_Nil [simp]: "varint_bytes n \<noteq> []"
  by (subst varint_bytes.simps) simp

lemma varint_varint_bytes_64: "varint 10 (varint_bytes (unat (v :: uint64)) @ rest) = Some (unat v, rest)"
proof -
  have "unat v < 2 ^ 64" using unsigned_less [of v] by simp
  also have "\<dots> < 128 ^ 10" by simp
  finally show ?thesis by (rule varint_varint_bytes) simp
qed

lemma varint_varint_bytes_32: "varint 10 (varint_bytes (unat (v :: uint32)) @ rest) = Some (unat v, rest)"
proof -
  have "unat v < 2 ^ 32" using unsigned_less [of v] by simp
  also have "\<dots> < 128 ^ 10" by simp
  finally show ?thesis by (rule varint_varint_bytes) simp
qed

section \<open>Words of fixed width\<close>

definition WriteLittleEndian32ToArray :: "uint32 \<Rightarrow> bytes" where
  "WriteLittleEndian32ToArray v =
     [low_byte v, low_byte (drop_bit 8 v), low_byte (drop_bit 16 v), low_byte (drop_bit 24 v)]"

definition WriteLittleEndian64ToArray :: "uint64 \<Rightarrow> bytes" where
  "WriteLittleEndian64ToArray v =
     (let part0 = ucast v :: uint32; part1 = ucast (drop_bit 32 v) :: uint32
      in WriteLittleEndian32ToArray part0 @ WriteLittleEndian32ToArray part1)"

text \<open>The caller has made sure that the array holds the bytes.\<close>

definition ReadLittleEndian32FromArray :: "bytes \<Rightarrow> (uint32 \<times> bytes) res" where
  "ReadLittleEndian32FromArray buffer =
     bind_res (next_byte buffer) (\<lambda>(b0, p). bind_res (next_byte p) (\<lambda>(b1, p).
       bind_res (next_byte p) (\<lambda>(b2, p). bind_res (next_byte p) (\<lambda>(b3, p).
         Inr (ucast b0 OR push_bit 8 (ucast b1) OR push_bit 16 (ucast b2) OR push_bit 24 (ucast b3), p)))))"

definition ReadLittleEndian64FromArray :: "bytes \<Rightarrow> (uint64 \<times> bytes) res" where
  "ReadLittleEndian64FromArray buffer =
     bind_res (ReadLittleEndian32FromArray buffer) (\<lambda>(part0, p).
       bind_res (ReadLittleEndian32FromArray p) (\<lambda>(part1, p). Inr (ucast part0 OR push_bit 32 (ucast part1), p)))"

lemma length_WriteLittleEndian [simp]:
  "length (WriteLittleEndian32ToArray v) = 4" "length (WriteLittleEndian64ToArray w) = 8"
  by (simp_all add: WriteLittleEndian32ToArray_def WriteLittleEndian64ToArray_def Let_def)

lemma bit_nth_byte:
  "bit (push_bit k (ucast (low_byte (drop_bit k v)) :: uint32)) n \<longleftrightarrow> k \<le> n \<and> n < k + 8 \<and> n < 32 \<and> bit v n"
  for v :: uint32
  by (auto simp: low_byte_def bit_push_bit_iff bit_ucast_iff bit_drop_bit_eq)

lemma ReadLittleEndian32_write:
  "ReadLittleEndian32FromArray (WriteLittleEndian32ToArray v @ rest) = Inr (v, rest)"
proof -
  have "push_bit 0 (ucast (low_byte (drop_bit 0 v))) OR push_bit 8 (ucast (low_byte (drop_bit 8 v))) OR
      push_bit 16 (ucast (low_byte (drop_bit 16 v))) OR push_bit 24 (ucast (low_byte (drop_bit 24 v))) = v"
  proof (rule bit_word_eqI)
    fix n :: nat
    assume "n < LENGTH(32)"
    then have "n < 32" by simp
    moreover from this have "n < 8 \<or> 8 \<le> n \<and> n < 16 \<or> 16 \<le> n \<and> n < 24 \<or> 24 \<le> n" by arith
    ultimately show "bit (push_bit 0 (ucast (low_byte (drop_bit 0 v)) :: uint32) OR push_bit 8 (ucast (low_byte (drop_bit 8 v))) OR
        push_bit 16 (ucast (low_byte (drop_bit 16 v))) OR push_bit 24 (ucast (low_byte (drop_bit 24 v)))) n = bit v n"
      unfolding bit_or_iff bit_nth_byte by (elim disjE conjE) simp_all
  qed
  then show ?thesis by (simp add: ReadLittleEndian32FromArray_def WriteLittleEndian32ToArray_def)
qed

lemma ReadLittleEndian64_write:
  "ReadLittleEndian64FromArray (WriteLittleEndian64ToArray v @ rest) = Inr (v, rest)"
proof -
  have "ucast (ucast v :: uint32) OR push_bit 32 (ucast (ucast (drop_bit 32 v) :: uint32)) = v"
    by (rule bit_word_eqI) (auto simp: bit_or_iff bit_push_bit_iff bit_ucast_iff bit_drop_bit_eq)
  then show ?thesis
    by (simp add: ReadLittleEndian64FromArray_def WriteLittleEndian64ToArray_def Let_def ReadLittleEndian32_write)
qed

lemma ReadLittleEndian_total:
  "4 \<le> length p \<Longrightarrow> \<exists>v. ReadLittleEndian32FromArray p = Inr (v, drop 4 p)"
  "8 \<le> length p \<Longrightarrow> \<exists>w. ReadLittleEndian64FromArray p = Inr (w, drop 8 p)"
proof -
  have four: "\<exists>v. ReadLittleEndian32FromArray p = Inr (v, drop 4 p)" if l: "4 \<le> length p" for p
  proof -
    from l obtain a b c d q where "p = a # b # c # d # q"
      by (auto simp: numeral_eq_Suc Suc_le_length_iff)
    then show ?thesis by (simp add: ReadLittleEndian32FromArray_def)
  qed
  then show "4 \<le> length p \<Longrightarrow> \<exists>v. ReadLittleEndian32FromArray p = Inr (v, drop 4 p)" .
  show "\<exists>w. ReadLittleEndian64FromArray p = Inr (w, drop 8 p)" if l: "8 \<le> length p"
  proof -
    obtain v where v: "ReadLittleEndian32FromArray p = Inr (v, drop 4 p)" using four [of p] l by auto
    obtain w where "ReadLittleEndian32FromArray (drop 4 p) = Inr (w, drop 8 p)" using four [of "drop 4 p"] l
      by (auto simp: le_diff_conv2)
    with v show ?thesis by (simp add: ReadLittleEndian64FromArray_def)
  qed
qed

section \<open>ZigZag\<close>

text \<open>An \<open>int32\<close> or \<open>int64\<close> is its word; the right shift is arithmetic.\<close>

definition ZigZagEncode32 :: "uint32 \<Rightarrow> uint32" where
  "ZigZagEncode32 n = push_bit 1 n XOR signed_drop_bit 31 n"

definition ZigZagDecode32 :: "uint32 \<Rightarrow> uint32" where
  "ZigZagDecode32 n = drop_bit 1 n XOR - (n AND 1)"

definition ZigZagEncode64 :: "uint64 \<Rightarrow> uint64" where
  "ZigZagEncode64 n = push_bit 1 n XOR signed_drop_bit 63 n"

definition ZigZagDecode64 :: "uint64 \<Rightarrow> uint64" where
  "ZigZagDecode64 n = drop_bit 1 n XOR - (n AND 1)"

lemma bit_minus_and_1: "bit (- (n AND 1)) k \<longleftrightarrow> bit n 0 \<and> k < LENGTH('a)" for n :: "'a::len word"
  by (cases "even n") (simp_all add: and_one_eq mod2_eq_if bit_0)

lemma zigzag_bits:
  fixes n :: "'a::len word"
  shows "drop_bit 1 (push_bit 1 n XOR signed_drop_bit (LENGTH('a) - 1) n) XOR
    - ((push_bit 1 n XOR signed_drop_bit (LENGTH('a) - 1) n) AND 1) = n"
proof (rule bit_word_eqI)
  fix k :: nat
  assume k: "k < LENGTH('a)"
  let ?e = "push_bit 1 n XOR signed_drop_bit (LENGTH('a) - 1) n"
  have sign: "bit (signed_drop_bit (LENGTH('a) - 1) n) j \<longleftrightarrow> bit n (LENGTH('a) - 1)" if "j < LENGTH('a)" for j
    using that by (cases j) (auto simp: bit_signed_drop_bit_iff)
  have e: "bit ?e j \<longleftrightarrow> (1 \<le> j \<and> bit n (j - 1)) \<noteq> bit n (LENGTH('a) - 1)" if "j < LENGTH('a)" for j
    using that by (simp only: bit_xor_iff bit_push_bit_iff sign) auto
  have "bit (drop_bit 1 ?e XOR - (?e AND 1)) k \<longleftrightarrow> bit ?e (1 + k) \<noteq> bit ?e 0"
    using k by (simp only: bit_xor_iff bit_minus_and_1 bit_drop_bit_eq comp_def) auto
  also have "\<dots> \<longleftrightarrow> bit n k"
  proof (cases "Suc k < LENGTH('a)")
    case True
    then show ?thesis using e [of "1 + k"] e [of 0] by auto
  next
    case False
    with k have "k = LENGTH('a) - 1" by simp
    moreover from False have "\<not> bit ?e (1 + k)"
      using bit_imp_le_length [of ?e "1 + k"] by linarith
    ultimately show ?thesis using e [of 0] by auto
  qed
  finally show "bit (drop_bit 1 ?e XOR - (?e AND 1)) k = bit n k" .
qed

lemma ZigZag_roundtrip:
  "ZigZagDecode32 (ZigZagEncode32 m) = m" "ZigZagDecode64 (ZigZagEncode64 n) = n"
  using zigzag_bits [of m] zigzag_bits [of n]
  by (simp_all add: ZigZagDecode32_def ZigZagEncode32_def ZigZagDecode64_def ZigZagEncode64_def)

end
