(* ===== verification/Wire_Stream.thy ===== *)
theory Wire_Stream
  imports Wire_Varint
begin

text \<open>
  \<open>CodedInputStream\<close> of protobuf (io/coded_stream.h, io/coded_stream.cc) over an array, which is how
  \<open>ParseFromString\<close> and \<open>ParseFromArray\<close> read: \<open>input_\<close> is null and nothing can be fetched. The buffer
  from \<open>buffer_\<close> to \<open>buffer_end_\<close> is a list, and so are the bytes between \<open>buffer_end_\<close> and the end of
  the array (\<open>buffer_size_after_limit_\<close> is their number). \<open>overflow_bytes_\<close> stays \<open>0\<close>. The depth of
  the recursion is an argument of the parser (theory Wire_Format). A limit before the current position
  would put \<open>buffer_end_\<close> before \<open>buffer_\<close>; that, and a use of the null \<open>input_\<close>, is undefined.
\<close>

record coded_input =
  ci_buffer :: bytes
  ci_after :: bytes
  ci_total_bytes_read :: int
  ci_last_tag :: uint32
  ci_legitimate_message_end :: bool
  ci_current_limit :: int

definition total_bytes_limit :: int where "total_bytes_limit = 67108864"
definition INT_MAX :: int where "INT_MAX = 2147483647"

section \<open>The operations\<close>

definition CodedInputStream_init :: "bytes \<Rightarrow> coded_input" where
  "CodedInputStream_init data =
     \<lparr>ci_buffer = data, ci_after = [], ci_total_bytes_read = int (length data), ci_last_tag = 0,
      ci_legitimate_message_end = False, ci_current_limit = int (length data)\<rparr>"

definition BufferSize :: "coded_input \<Rightarrow> nat" where
  "BufferSize s = length (ci_buffer s)"

definition Advance :: "nat \<Rightarrow> coded_input \<Rightarrow> coded_input" where
  "Advance n s = s\<lparr>ci_buffer := drop n (ci_buffer s)\<rparr>"

definition CurrentPosition :: "coded_input \<Rightarrow> int" where
  "CurrentPosition s = ci_total_bytes_read s - int (BufferSize s + length (ci_after s))"

definition RecomputeBufferLimits :: "coded_input \<Rightarrow> coded_input res" where
  "RecomputeBufferLimits s =
     (let rest = ci_buffer s @ ci_after s; closest_limit = min (ci_current_limit s) total_bytes_limit
      in if closest_limit < ci_total_bytes_read s then
           let n = ci_total_bytes_read s - closest_limit
           in if int (length rest) < n then Inl (UB ''buffer_end_ before buffer_'')
              else Inr (s\<lparr>ci_buffer := take (length rest - nat n) rest, ci_after := drop (length rest - nat n) rest\<rparr>)
         else Inr (s\<lparr>ci_buffer := rest, ci_after := []\<rparr>))"

text \<open>\<open>PushLimit\<close> returns the old limit.\<close>

definition PushLimit :: "int \<Rightarrow> coded_input \<Rightarrow> (int \<times> coded_input) res" where
  "PushLimit byte_limit s =
     (let old_limit = ci_current_limit s;
          limit = (if 0 \<le> byte_limit \<and> byte_limit \<le> INT_MAX - CurrentPosition s
                   then CurrentPosition s + byte_limit else INT_MAX)
      in bind_res (RecomputeBufferLimits (s\<lparr>ci_current_limit := min limit old_limit\<rparr>)) (\<lambda>s'. Inr (old_limit, s')))"

definition PopLimit :: "int \<Rightarrow> coded_input \<Rightarrow> coded_input res" where
  "PopLimit limit s =
     bind_res (RecomputeBufferLimits (s\<lparr>ci_current_limit := limit\<rparr>))
       (\<lambda>s'. Inr (s'\<lparr>ci_legitimate_message_end := False\<rparr>))"

definition BytesUntilLimit :: "coded_input \<Rightarrow> int" where
  "BytesUntilLimit s = (if ci_current_limit s = INT_MAX then -1 else ci_current_limit s - CurrentPosition s)"

definition Refresh :: "coded_input \<Rightarrow> bool res" where
  "Refresh s =
     (if ci_after s \<noteq> [] \<or> ci_total_bytes_read s = ci_current_limit s then Inr False
      else Inl (UB ''null input stream''))"

definition ReadRaw :: "nat \<Rightarrow> coded_input \<Rightarrow> (bytes option \<times> coded_input) res" where
  "ReadRaw n s =
     (if BufferSize s < n then
        let s' = Advance (BufferSize s) s in bind_res (Refresh s') (\<lambda>_. Inr (None, s'))
      else Inr (Some (take n (ci_buffer s)), Advance n s))"

text \<open>
  \<open>InternalReadStringInline\<close> with \<open>ReadStringFallback\<close>: success, the string, the stream. A string that
  goes past the end keeps what there was.
\<close>

definition ReadStringInline :: "int \<Rightarrow> coded_input \<Rightarrow> (bool \<times> bytes \<times> coded_input) res" where
  "ReadStringInline size' s =
     (if size' < 0 then Inr (False, [], s)
      else if size' \<le> int (BufferSize s) then Inr (True, take (nat size') (ci_buffer s), Advance (nat size') s)
      else let s' = Advance (BufferSize s) s in bind_res (Refresh s') (\<lambda>_. Inr (False, ci_buffer s, s')))"

text \<open>An array function on the buffer.\<close>

definition on_buffer :: "(bytes \<Rightarrow> ('a \<times> bytes) option res) \<Rightarrow> coded_input \<Rightarrow> ('a option \<times> coded_input) res" where
  "on_buffer f s =
     bind_res (f (ci_buffer s)) (\<lambda>r. case r of
       None \<Rightarrow> Inr (None, s)
     | Some (v, rest) \<Rightarrow> Inr (Some v, s\<lparr>ci_buffer := rest\<rparr>))"

definition ReadLittleEndian32 :: "coded_input \<Rightarrow> (uint32 option \<times> coded_input) res" where
  "ReadLittleEndian32 s =
     (if 4 \<le> BufferSize s then on_buffer (\<lambda>p. bind_res (ReadLittleEndian32FromArray p) (\<lambda>x. Inr (Some x))) s
      else bind_res (ReadRaw 4 s) (\<lambda>(raw, s'). case raw of
        None \<Rightarrow> Inr (None, s')
      | Some p \<Rightarrow> bind_res (ReadLittleEndian32FromArray p) (\<lambda>(v, _). Inr (Some v, s'))))"

definition ReadLittleEndian64 :: "coded_input \<Rightarrow> (uint64 option \<times> coded_input) res" where
  "ReadLittleEndian64 s =
     (if 8 \<le> BufferSize s then on_buffer (\<lambda>p. bind_res (ReadLittleEndian64FromArray p) (\<lambda>x. Inr (Some x))) s
      else bind_res (ReadRaw 8 s) (\<lambda>(raw, s'). case raw of
        None \<Rightarrow> Inr (None, s')
      | Some p \<Rightarrow> bind_res (ReadLittleEndian64FromArray p) (\<lambda>(v, _). Inr (Some v, s'))))"

text \<open>
  Enough bytes for the fast paths: ten, or a last byte that ends a varint. \<open>n\<close> of the loop of
  \<open>ReadVarint64Slow\<close> is \<open>kMaxVarintBytes - count\<close>.
\<close>

definition fast_varint :: "coded_input \<Rightarrow> bool" where
  "fast_varint s \<longleftrightarrow> kMaxVarintBytes \<le> BufferSize s \<or> (ci_buffer s \<noteq> [] \<and> last (ci_buffer s) AND 0x80 = 0)"

fun ReadVarint64_loop :: "nat \<Rightarrow> uint64 \<Rightarrow> coded_input \<Rightarrow> (uint64 option \<times> coded_input) res" where
  "ReadVarint64_loop 0 result s = Inr (None, s)"
| "ReadVarint64_loop (Suc n) result s =
     (case ci_buffer s of
        [] \<Rightarrow> bind_res (Refresh s) (\<lambda>_. Inr (None, s))
      | b # _ \<Rightarrow>
          let result' = result OR push_bit (7 * (kMaxVarintBytes - Suc n)) (ucast (b AND 0x7F)); s' = Advance 1 s
          in if b AND 0x80 = 0 then Inr (Some result', s') else ReadVarint64_loop n result' s')"

definition ReadVarint64Slow :: "coded_input \<Rightarrow> (uint64 option \<times> coded_input) res" where
  "ReadVarint64Slow s = ReadVarint64_loop kMaxVarintBytes 0 s"

definition ReadVarint64Fallback :: "coded_input \<Rightarrow> (uint64 option \<times> coded_input) res" where
  "ReadVarint64Fallback s = (if fast_varint s then on_buffer ReadVarint64FromArray s else ReadVarint64Slow s)"

definition ReadVarint64 :: "coded_input \<Rightarrow> (uint64 option \<times> coded_input) res" where
  "ReadVarint64 s =
     (case ci_buffer s of
        b # _ \<Rightarrow> if b < 0x80 then Inr (Some (ucast b), Advance 1 s) else ReadVarint64Fallback s
      | [] \<Rightarrow> ReadVarint64Fallback s)"

definition ReadVarint32Slow :: "coded_input \<Rightarrow> (uint32 option \<times> coded_input) res" where
  "ReadVarint32Slow s = bind_res (ReadVarint64Fallback s) (\<lambda>(result, s'). Inr (map_option ucast result, s'))"

definition ReadVarint32Fallback :: "coded_input \<Rightarrow> (uint32 option \<times> coded_input) res" where
  "ReadVarint32Fallback s = (if fast_varint s then on_buffer ReadVarint32FromArray s else ReadVarint32Slow s)"

definition ReadVarint32 :: "coded_input \<Rightarrow> (uint32 option \<times> coded_input) res" where
  "ReadVarint32 s =
     (case ci_buffer s of
        b # _ \<Rightarrow> if b < 0x80 then Inr (Some (ucast b), Advance 1 s) else ReadVarint32Fallback s
      | [] \<Rightarrow> ReadVarint32Fallback s)"

text \<open>A tag, \<open>0\<close> at the end or on an error.\<close>

definition ReadTagSlow :: "coded_input \<Rightarrow> (uint32 \<times> coded_input) res" where
  "ReadTagSlow s =
     (if ci_buffer s = [] then
        bind_res (Refresh s) (\<lambda>_.
          let current_position = ci_total_bytes_read s - int (length (ci_after s))
          in Inr (0, s\<lparr>ci_legitimate_message_end :=
               (if total_bytes_limit \<le> current_position then ci_current_limit s = total_bytes_limit else True)\<rparr>))
      else bind_res (ReadVarint64 s) (\<lambda>(result, s'). Inr (case result of None \<Rightarrow> 0 | Some v \<Rightarrow> ucast v, s')))"

definition ReadTagFallback :: "coded_input \<Rightarrow> (uint32 \<times> coded_input) res" where
  "ReadTagFallback s =
     (if fast_varint s then
        bind_res (on_buffer ReadVarint32FromArray s) (\<lambda>(tag, s'). Inr (case tag of None \<Rightarrow> 0 | Some t \<Rightarrow> t, s'))
      else if BufferSize s = 0 \<and> (ci_after s \<noteq> [] \<or> ci_total_bytes_read s = ci_current_limit s) \<and>
        ci_total_bytes_read s - int (length (ci_after s)) < total_bytes_limit
      then Inr (0, s\<lparr>ci_legitimate_message_end := True\<rparr>)
      else ReadTagSlow s)"

definition ReadTag :: "coded_input \<Rightarrow> (uint32 \<times> coded_input) res" where
  "ReadTag s =
     bind_res
       (case ci_buffer s of
          b # _ \<Rightarrow> if b < 0x80 then Inr (ucast b, Advance 1 s) else ReadTagFallback s
        | [] \<Rightarrow> ReadTagFallback s)
       (\<lambda>(tag, s'). Inr (tag, s'\<lparr>ci_last_tag := tag\<rparr>))"

section \<open>The stream at work\<close>

text \<open>
  What holds of the stream at all times, if the array has at most \<open>total_bytes_limit\<close> bytes: the limit is the
  end of the buffer.
\<close>

definition stream_ok :: "coded_input \<Rightarrow> bool" where
  "stream_ok s \<longleftrightarrow> ci_total_bytes_read s \<le> total_bytes_limit \<and>
     ci_current_limit s = ci_total_bytes_read s - int (length (ci_after s)) \<and>
     int (length (ci_buffer s) + length (ci_after s)) \<le> ci_total_bytes_read s"

lemma stream_ok_init: "int (length data) \<le> total_bytes_limit \<Longrightarrow> stream_ok (CodedInputStream_init data)"
  by (simp add: stream_ok_def CodedInputStream_init_def)

lemma stream_ok_buffer: "stream_ok s \<Longrightarrow> length p \<le> length (ci_buffer s) \<Longrightarrow> stream_ok (s\<lparr>ci_buffer := p\<rparr>)"
  by (simp add: stream_ok_def)

lemma stream_ok_flags [simp]:
  "stream_ok (s\<lparr>ci_last_tag := t\<rparr>) = stream_ok s" "stream_ok (s\<lparr>ci_legitimate_message_end := b\<rparr>) = stream_ok s"
  by (simp_all add: stream_ok_def)

lemma Refresh_ok: "stream_ok s \<Longrightarrow> Refresh s = Inr False"
  by (auto simp: stream_ok_def Refresh_def)

lemma Refresh_drop: "stream_ok s \<Longrightarrow> Refresh (s\<lparr>ci_buffer := p\<rparr>) = Inr False"
  using Refresh_ok [of s] by (simp add: Refresh_def)

lemma fast_varint_ends: "fast_varint s \<Longrightarrow> ends_within 10 (ci_buffer s)"
  using ends_within_last [of "ci_buffer s" 10] by (auto simp: fast_varint_def varint_limits BufferSize_def ends_within_def)

text \<open>The stream after a varint of the reference, \<open>f\<close> being the conversion to the width.\<close>

definition reads_varint :: "(nat \<Rightarrow> 'a) \<Rightarrow> coded_input \<Rightarrow> ('a option \<times> coded_input) res \<Rightarrow> bool" where
  "reads_varint f s r \<longleftrightarrow>
     (case varint 10 (ci_buffer s) of
        Some (v, rest) \<Rightarrow> r = Inr (Some (f v), s\<lparr>ci_buffer := rest\<rparr>)
      | None \<Rightarrow> \<exists>k. r = Inr (None, s\<lparr>ci_buffer := drop k (ci_buffer s)\<rparr>))"

lemma reads_varint_fast:
  assumes "fast_varint s"
  shows "reads_varint of_nat s (on_buffer ReadVarint32FromArray s)" "reads_varint of_nat s (on_buffer ReadVarint64FromArray s)"
  using ReadVarint32FromArray_varint [OF fast_varint_ends [OF assms]] ReadVarint64FromArray_varint [OF fast_varint_ends [OF assms]]
  by (auto simp: reads_varint_def on_buffer_def split: option.splits intro: exI [of _ 0])

lemma ucast_and_7F: "ucast (b AND 0x7F) = (of_nat (unat b mod 128) :: uint64)" for b :: byte
proof -
  have "unat (b AND 0x7F) = unat b mod 128"
    unfolding and_7F by (simp only: unat_of_nat) (simp add: take_bit_eq_mod mod_less_eq_dividend)
  then show ?thesis by (metis of_nat_unat)
qed

lemma varint64_loop:
  assumes "stream_ok s" "n \<le> 10" "x < 128 ^ (10 - n)"
  shows "case varint n (ci_buffer s) of
      Some (v, rest) \<Rightarrow> ReadVarint64_loop n (of_nat x) s = Inr (Some (of_nat (x + 128 ^ (10 - n) * v)), s\<lparr>ci_buffer := rest\<rparr>)
    | None \<Rightarrow> \<exists>k. ReadVarint64_loop n (of_nat x) s = Inr (None, s\<lparr>ci_buffer := drop k (ci_buffer s)\<rparr>)"
  using assms
proof (induction n arbitrary: x s)
  case 0
  then show ?case by (auto intro: exI [of _ 0])
next
  case (Suc n)
  show ?case
  proof (cases "ci_buffer s")
    case Nil
    with Suc.prems(1) show ?thesis by (auto simp: Refresh_ok intro: exI [of _ 0])
  next
    case (Cons b p)
    let ?c = "9 - n" and ?s = "s\<lparr>ci_buffer := p\<rparr>"
    have ok: "stream_ok ?s" using Suc.prems(1) Cons by (intro stream_ok_buffer) simp_all
    have c: "10 - Suc n = ?c" "10 - n = Suc ?c" "?c \<le> 9" using Suc.prems(2) by simp_all
    have x: "x < 2 ^ (7 * ?c)" using Suc.prems(3) c by (simp add: power_mult)
    have wide: "(2::nat) ^ (7 * ?c) \<le> 2 ^ 63" by (rule power_increasing) (use c in simp_all)
    have ux: "unat (of_nat x :: uint64) = x"
    proof -
      have "x < 2 ^ 64" using x wide by simp
      then show ?thesis by (simp add: unat_of_nat take_bit_nat_eq_self)
    qed
    have or: "of_nat x OR push_bit (7 * ?c) w = of_nat x + w * 2 ^ (7 * ?c)" for w :: uint64
      unfolding push_bit_eq_mult [symmetric]
      by (rule or_eq_add) (use bit_of_small [of "of_nat x :: uint64" _ "7 * ?c"] ux x in \<open>force simp: bit_push_bit_iff\<close>)
    have b: "ucast (b AND 0x7F) = (of_nat (unat b mod 128) :: uint64)"
      by (rule ucast_and_7F)
    let ?y = "x + 128 ^ ?c * (unat b mod 128)"
    have step: "of_nat x OR push_bit (7 * (kMaxVarintBytes - Suc n)) (ucast (b AND 0x7F)) = (of_nat ?y :: uint64)"
      using c by (simp add: varint_limits or b power_mult)
    show ?thesis
    proof (cases "b AND 0x80 = 0")
      case True
      then have "unat b mod 128 = unat b" by (simp add: byte_high_bit)
      with True Cons step c show ?thesis by (simp add: Advance_def Let_def)
    next
      case False
      have "unat b < 256" using unsigned_less [of b] by simp
      with False have big: "unat b mod 128 = unat b - 128" by (simp add: byte_high_bit le_mod_geq)
      have "?y < 128 ^ Suc ?c"
      proof -
        have "unat b mod 128 \<le> 127" by simp
        then have "128 ^ ?c * (unat b mod 128) \<le> 128 ^ ?c * 127" by (rule mult_le_mono2)
        then show ?thesis using Suc.prems(3) [unfolded c(1)] unfolding power_Suc by linarith
      qed
      with Suc.IH [OF ok, of ?y] Suc.prems(2) c
      have ih: "case varint n p of
          Some (v, rest) \<Rightarrow> ReadVarint64_loop n (of_nat ?y) ?s = Inr (Some (of_nat (?y + 128 ^ Suc ?c * v)), s\<lparr>ci_buffer := rest\<rparr>)
        | None \<Rightarrow> \<exists>k. ReadVarint64_loop n (of_nat ?y) ?s = Inr (None, s\<lparr>ci_buffer := drop k p\<rparr>)"
        by (auto split: option.splits)
      have more: "ReadVarint64_loop (Suc n) (of_nat x) s = ReadVarint64_loop n (of_nat ?y) ?s"
        using False Cons step by (simp add: Advance_def Let_def)
      show ?thesis
      proof (cases "varint n p")
        case None
        with ih obtain k where "ReadVarint64_loop n (of_nat ?y) ?s = Inr (None, s\<lparr>ci_buffer := drop k p\<rparr>)" by auto
        with None False Cons more show ?thesis by (auto intro: exI [of _ "Suc k"])
      next
        case (Some vr)
        then obtain v rest where v: "varint n p = Some (v, rest)" by (cases vr) auto
        have "?y + 128 ^ Suc ?c * v = x + 128 ^ ?c * (unat b - 128 + 128 * v)"
          unfolding big power_Suc by (simp only: distrib_left add.assoc mult.assoc mult.left_commute)
        with v ih have "ReadVarint64_loop n (of_nat ?y) ?s =
            Inr (Some (of_nat (x + 128 ^ ?c * (unat b - 128 + 128 * v))), s\<lparr>ci_buffer := rest\<rparr>)"
          by (simp only: option.case prod.case)
        with v False Cons more c(1) show ?thesis by (simp only: varint.simps if_False option.map option.case prod.case)
      qed
    qed
  qed
qed

lemma ReadVarint64Fallback_ok: "stream_ok s \<Longrightarrow> reads_varint of_nat s (ReadVarint64Fallback s)"
  using varint64_loop [of s 10 0] reads_varint_fast(2) [of s]
  by (auto simp: ReadVarint64Fallback_def ReadVarint64Slow_def varint_limits reads_varint_def split: option.splits)

lemma ucast_of_nat_64_32: "ucast (of_nat v :: uint64) = (of_nat v :: uint32)"
  by (simp add: unsigned_of_nat of_nat_take_bit take_bit_word_eq_self)

lemma ReadVarint32Fallback_ok:
  assumes "stream_ok s"
  shows "reads_varint of_nat s (ReadVarint32Fallback s)"
proof (cases "fast_varint s")
  case True
  then show ?thesis using reads_varint_fast(1) [of s] by (simp add: ReadVarint32Fallback_def)
next
  case False
  show ?thesis
    using False ReadVarint64Fallback_ok [OF assms]
    by (auto simp: ReadVarint32Fallback_def ReadVarint32Slow_def reads_varint_def ucast_of_nat_64_32 split: option.splits)
qed

lemma one_byte_varint: "b < 0x80 \<Longrightarrow> varint 10 (b # p) = Some (unat b, p)"
  using varint.simps(3) [of 9 b p] by (simp add: byte_high_bit word_less_nat_alt)

lemma varint_Nil [simp]: "varint n [] = None"
  by (cases n) simp_all

text \<open>Every way through the code computes the reference varint and never leaves the buffer.\<close>

lemma ReadVarint64_ok: "stream_ok s \<Longrightarrow> reads_varint of_nat s (ReadVarint64 s)"
  using ReadVarint64Fallback_ok [of s]
  by (cases "ci_buffer s") (auto simp: ReadVarint64_def reads_varint_def one_byte_varint Advance_def)

lemma ReadVarint32_ok: "stream_ok s \<Longrightarrow> reads_varint of_nat s (ReadVarint32 s)"
  using ReadVarint32Fallback_ok [of s]
  by (cases "ci_buffer s") (auto simp: ReadVarint32_def reads_varint_def one_byte_varint Advance_def)

text \<open>What \<open>ReadTag\<close> gives: the tag read, or \<open>0\<close> with the mark that the end was a legitimate one.\<close>

lemma ReadTag_ok:
  assumes "stream_ok s"
  shows "case varint 10 (ci_buffer s) of
      Some (v, rest) \<Rightarrow> ReadTag s = Inr (of_nat v, s\<lparr>ci_buffer := rest, ci_last_tag := of_nat v\<rparr>)
    | None \<Rightarrow> \<exists>k. ReadTag s = Inr (0, s\<lparr>ci_buffer := drop k (ci_buffer s), ci_last_tag := 0,
        ci_legitimate_message_end := ci_legitimate_message_end s \<or> ci_buffer s = []\<rparr>)"
proof (cases "ci_buffer s")
  case Nil
  have "ci_current_limit s \<le> total_bytes_limit" "ci_total_bytes_read s - int (length (ci_after s)) = ci_current_limit s"
    using assms by (simp_all add: stream_ok_def)
  moreover have "\<not> fast_varint s" using Nil by (simp add: fast_varint_def varint_limits BufferSize_def)
  ultimately show ?thesis
    using Nil assms
    by (auto simp: ReadTag_def ReadTagFallback_def ReadTagSlow_def Refresh_ok BufferSize_def Let_def
        intro!: exI [of _ 0])
next
  case (Cons b p)
  show ?thesis
  proof (cases "b < 0x80")
    case True
    with Cons show ?thesis by (simp add: one_byte_varint ReadTag_def Advance_def)
  next
    case False
    show ?thesis
      using False Cons ReadVarint64_ok [OF assms] reads_varint_fast(1) [of s]
      by (auto simp: ReadTag_def ReadTagFallback_def ReadTagSlow_def BufferSize_def reads_varint_def ucast_of_nat_64_32
          split: option.splits; blast)
  qed
qed

section \<open>Moving ahead\<close>

text \<open>A later state of the same stream, within the same limit.\<close>

definition ahead :: "coded_input \<Rightarrow> coded_input \<Rightarrow> bool" where
  "ahead s s' \<longleftrightarrow> (\<exists>k. ci_buffer s' = drop k (ci_buffer s)) \<and> ci_after s' = ci_after s \<and>
     ci_total_bytes_read s' = ci_total_bytes_read s \<and> ci_current_limit s' = ci_current_limit s"

lemma ahead_refl [simp]: "ahead s s"
  by (auto simp: ahead_def intro: exI [of _ 0])

lemma ahead_trans [trans]: "ahead s s' \<Longrightarrow> ahead s' s'' \<Longrightarrow> ahead s s''"
  by (auto simp: ahead_def)

lemma ahead_drop [simp]:
  "ahead s (s\<lparr>ci_buffer := drop k (ci_buffer s)\<rparr>)" "ahead s (Advance k s)" "ahead s (s\<lparr>ci_buffer := []\<rparr>)"
  by (auto simp: ahead_def Advance_def intro: exI [of _ "length (ci_buffer s)"])

lemma ahead_flags [simp]:
  "ahead s (s'\<lparr>ci_last_tag := t\<rparr>) = ahead s s'" "ahead s (s'\<lparr>ci_legitimate_message_end := b\<rparr>) = ahead s s'"
  by (simp_all add: ahead_def)

lemma ahead_ok: "ahead s s' \<Longrightarrow> stream_ok s \<Longrightarrow> stream_ok s'"
  by (auto simp: ahead_def stream_ok_def)

lemma ahead_length: "ahead s s' \<Longrightarrow> length (ci_buffer s') \<le> length (ci_buffer s)"
  by (auto simp: ahead_def)

lemma varint_rest: "varint n p = Some (v, rest) \<Longrightarrow> \<exists>k. 0 < k \<and> k \<le> length p \<and> rest = drop k p"
proof (induction n p arbitrary: v rest rule: varint.induct)
  case (3 n b p)
  show ?case
  proof (cases "b AND 0x80 = 0")
    case True
    with "3.prems" show ?thesis by (auto intro: exI [of _ 1])
  next
    case False
    with "3.prems" obtain v' where "varint n p = Some (v', rest)" by auto
    with "3.IH" [OF False] obtain k where "k \<le> length p" "rest = drop k p" by blast
    then show ?thesis by (auto intro: exI [of _ "Suc k"])
  qed
qed simp_all

text \<open>Each reader returns, and the stream has moved ahead.\<close>

definition reads :: "coded_input \<Rightarrow> ('a option \<times> coded_input) res \<Rightarrow> bool" where
  "reads s r \<longleftrightarrow> (\<exists>v s'. r = Inr (v, s') \<and> ahead s s')"

lemma reads_varint_reads: "reads_varint f s r \<Longrightarrow> reads s r"
  by (auto simp: reads_varint_def reads_def dest!: varint_rest split: option.splits)

lemma ReadRaw_reads: "stream_ok s \<Longrightarrow> reads s (ReadRaw n s)"
  by (simp add: reads_def ReadRaw_def Advance_def Refresh_drop)

lemma ReadLittleEndian_reads:
  assumes "stream_ok s"
  shows "reads s (ReadLittleEndian32 s)" "reads s (ReadLittleEndian64 s)"
  using assms ReadLittleEndian_total [of "ci_buffer s"]
  by (auto simp: reads_def ReadLittleEndian32_def ReadLittleEndian64_def on_buffer_def BufferSize_def ReadRaw_def
      Advance_def Refresh_drop)

lemma ReadStringInline_ahead: "stream_ok s \<Longrightarrow> \<exists>ok v s'. ReadStringInline n s = Inr (ok, v, s') \<and> ahead s s'"
  by (auto simp: ReadStringInline_def Advance_def Refresh_drop Let_def)

lemma ReadTag_ahead:
  assumes "stream_ok s"
  obtains tag s' where "ReadTag s = Inr (tag, s')" "ahead s s'" "tag = 0 \<or> length (ci_buffer s') < length (ci_buffer s)"
proof (cases "varint 10 (ci_buffer s)")
  case None
  with ReadTag_ok [OF assms] show ?thesis using that by auto
next
  case (Some x)
  then obtain v rest where v: "varint 10 (ci_buffer s) = Some (v, rest)" by (cases x) auto
  from varint_rest [OF v] obtain k where "0 < k" "k \<le> length (ci_buffer s)" "rest = drop k (ci_buffer s)" by blast
  moreover from this have "length rest < length (ci_buffer s)" by simp
  ultimately show ?thesis using v ReadTag_ok [OF assms] by (intro that) auto
qed

section \<open>Limits\<close>

text \<open>The stream with a limit \<open>n\<close> bytes ahead.\<close>

definition narrow :: "nat \<Rightarrow> coded_input \<Rightarrow> coded_input" where
  "narrow n s = s\<lparr>ci_buffer := take n (ci_buffer s), ci_after := drop n (ci_buffer s) @ ci_after s,
     ci_current_limit := ci_total_bytes_read s - int (length (drop n (ci_buffer s) @ ci_after s))\<rparr>"

definition limit_length :: "int \<Rightarrow> coded_input \<Rightarrow> nat" where
  "limit_length b s = (if 0 \<le> b \<and> b \<le> int (length (ci_buffer s)) then nat b else length (ci_buffer s))"

lemma stream_ok_narrow: "stream_ok s \<Longrightarrow> stream_ok (narrow n s)"
  by (auto simp: stream_ok_def narrow_def)

lemma RecomputeBufferLimits_ok:
  assumes "ci_total_bytes_read s \<le> total_bytes_limit" "0 \<le> m" "m \<le> int (length (ci_buffer s @ ci_after s))"
    and "ci_current_limit s = ci_total_bytes_read s - m"
  shows "RecomputeBufferLimits s = Inr (s\<lparr>ci_buffer := take (length (ci_buffer s @ ci_after s) - nat m) (ci_buffer s @ ci_after s),
    ci_after := drop (length (ci_buffer s @ ci_after s) - nat m) (ci_buffer s @ ci_after s)\<rparr>)"
  using assms by (auto simp: RecomputeBufferLimits_def Let_def min_def)

lemma PushLimit_ok:
  assumes "stream_ok s"
  shows "PushLimit b s = Inr (ci_current_limit s, narrow (limit_length b s) s)"
proof -
  let ?n = "limit_length b s"
  have small: "ci_total_bytes_read s < INT_MAX"
    using assms by (simp add: stream_ok_def total_bytes_limit_def INT_MAX_def)
  have pos: "CurrentPosition s + int (length (ci_buffer s)) = ci_current_limit s" "0 \<le> CurrentPosition s"
    using assms by (simp_all add: CurrentPosition_def BufferSize_def stream_ok_def)
  have n: "?n \<le> length (ci_buffer s)" by (auto simp: limit_length_def)
  let ?limit = "min (if 0 \<le> b \<and> b \<le> INT_MAX - CurrentPosition s then CurrentPosition s + b else INT_MAX) (ci_current_limit s)"
  have "ci_current_limit s \<le> INT_MAX" using small assms by (simp add: stream_ok_def)
  then have limit: "?limit = CurrentPosition s + int ?n"
    using pos by (auto simp: limit_length_def min_def)
  from n obtain d where d: "length (ci_buffer s) = ?n + d" by (metis le_add_diff_inverse)
  then have total: "ci_total_bytes_read s - int (d + length (ci_after s)) = ?limit"
    unfolding limit by (simp add: CurrentPosition_def BufferSize_def)
  then have "RecomputeBufferLimits (s\<lparr>ci_current_limit := ?limit\<rparr>) = Inr (narrow ?n s)"
    using assms d by (subst RecomputeBufferLimits_ok [where m = "int (d + length (ci_after s))"])
      (simp_all add: stream_ok_def narrow_def nat_add_distrib)
  then show ?thesis by (simp add: PushLimit_def Let_def)
qed

lemma PopLimit_ok:
  assumes "stream_ok s" "n \<le> length (ci_buffer s)" "ahead (narrow n s) s'"
  shows "PopLimit (ci_current_limit s) s' =
    Inr (s\<lparr>ci_buffer := ci_buffer s' @ drop n (ci_buffer s), ci_last_tag := ci_last_tag s', ci_legitimate_message_end := False\<rparr>)"
proof -
  from assms(3) obtain k where s': "ci_buffer s' = drop k (take n (ci_buffer s))" "ci_after s' = drop n (ci_buffer s) @ ci_after s"
      "ci_total_bytes_read s' = ci_total_bytes_read s"
    by (auto simp: ahead_def narrow_def)
  let ?s = "s'\<lparr>ci_current_limit := ci_current_limit s\<rparr>"
  have "RecomputeBufferLimits ?s =
    Inr (?s\<lparr>ci_buffer := ci_buffer s' @ drop n (ci_buffer s), ci_after := ci_after s\<rparr>)"
    using assms(1) s' by (subst RecomputeBufferLimits_ok [where m = "int (length (ci_after s))"])
      (auto simp: stream_ok_def)
  moreover have "?s\<lparr>ci_buffer := ci_buffer s' @ drop n (ci_buffer s), ci_after := ci_after s, ci_legitimate_message_end := False\<rparr> =
    s\<lparr>ci_buffer := ci_buffer s' @ drop n (ci_buffer s), ci_last_tag := ci_last_tag s', ci_legitimate_message_end := False\<rparr>"
    using s' by (cases s; cases s') simp
  ultimately show ?thesis by (simp add: PopLimit_def)
qed

lemma PopLimit_ahead:
  assumes "stream_ok s" "n \<le> length (ci_buffer s)" "ahead (narrow n s) s'"
  obtains s'' where "PopLimit (ci_current_limit s) s' = Inr s''" "ahead s s''"
    "ci_buffer s'' = ci_buffer s' @ drop n (ci_buffer s)"
proof -
  from assms(3) obtain k where "ci_buffer s' = drop k (take n (ci_buffer s))"
    by (auto simp: ahead_def narrow_def)
  then have "ci_buffer s' @ drop n (ci_buffer s) = drop (min k n) (ci_buffer s)"
    using assms(2) drop_append [of k "take n (ci_buffer s)" "drop n (ci_buffer s)"] by (auto simp: min_def)
  with PopLimit_ok [OF assms] that show ?thesis by simp
qed

lemma BytesUntilLimit_ok: "stream_ok s \<Longrightarrow> BytesUntilLimit s = int (length (ci_buffer s))"
  by (auto simp: stream_ok_def BytesUntilLimit_def CurrentPosition_def BufferSize_def INT_MAX_def total_bytes_limit_def)

section \<open>The output stream\<close>

text \<open>
  \<open>CodedOutputStream\<close> over an \<open>ArrayOutputStream\<close> of the size of the message: one block, after which
  \<open>Refresh\<close> fails. \<open>co_room\<close> is \<open>buffer_size_\<close>; \<open>ByteCount\<close> is the number of bytes written.
\<close>

record coded_output =
  co_written :: bytes
  co_room :: nat
  co_had_error :: bool

definition CodedOutputStream_init :: "nat \<Rightarrow> coded_output" where
  "CodedOutputStream_init size' = \<lparr>co_written = [], co_room = size', co_had_error = False\<rparr>"

definition WriteRaw :: "bytes \<Rightarrow> coded_output \<Rightarrow> coded_output" where
  "WriteRaw data o' =
     (if co_room o' < length data
      then o'\<lparr>co_written := co_written o' @ take (co_room o') data, co_room := 0, co_had_error := True\<rparr>
      else o'\<lparr>co_written := co_written o' @ data, co_room := co_room o' - length data\<rparr>)"

definition output_in_place :: "bytes \<Rightarrow> coded_output \<Rightarrow> coded_output" where
  "output_in_place bs o' = o'\<lparr>co_written := co_written o' @ bs, co_room := co_room o' - length bs\<rparr>"

definition WriteVarint32 :: "uint32 \<Rightarrow> coded_output \<Rightarrow> coded_output" where
  "WriteVarint32 v o' =
     (if kMaxVarint32Bytes \<le> co_room o' then output_in_place (WriteVarint32FallbackToArrayInline v) o'
      else WriteRaw (write_varint_loop v) o')"

definition WriteVarint64 :: "uint64 \<Rightarrow> coded_output \<Rightarrow> coded_output" where
  "WriteVarint64 v o' =
     (if kMaxVarintBytes \<le> co_room o' then output_in_place (WriteVarint64ToArrayInline v) o'
      else WriteRaw (write_varint_loop v) o')"

definition WriteVarint32SignExtended :: "uint32 \<Rightarrow> coded_output \<Rightarrow> coded_output" where
  "WriteVarint32SignExtended v o' = (if sint v < 0 then WriteVarint64 (scast v) o' else WriteVarint32 v o')"

definition WriteLittleEndian32 :: "uint32 \<Rightarrow> coded_output \<Rightarrow> coded_output" where
  "WriteLittleEndian32 v o' =
     (if 4 \<le> co_room o' then output_in_place (WriteLittleEndian32ToArray v) o'
      else WriteRaw (WriteLittleEndian32ToArray v) o')"

definition WriteLittleEndian64 :: "uint64 \<Rightarrow> coded_output \<Rightarrow> coded_output" where
  "WriteLittleEndian64 v o' =
     (if 8 \<le> co_room o' then output_in_place (WriteLittleEndian64ToArray v) o'
      else WriteRaw (WriteLittleEndian64ToArray v) o')"

definition VarintSize32SignExtended :: "uint32 \<Rightarrow> nat" where
  "VarintSize32SignExtended v = (if sint v < 0 then 10 else VarintSize32 v)"

text \<open>With room for them, each function appends its bytes; the reference of the sign-extended one is its value as 64 bits.\<close>

definition sign_extended_bytes :: "uint32 \<Rightarrow> bytes" where
  "sign_extended_bytes v = varint_bytes (unat (scast v :: uint64))"

lemma scast_nonneg: "0 \<le> sint v \<Longrightarrow> scast v = (ucast v :: uint64)" for v :: uint32
proof (rule bit_word_eqI)
  fix n
  assume v: "0 \<le> sint v" and "n < LENGTH(64)"
  from v have "\<not> bit v 31"
    using bit_last_iff [of v] by simp
  then show "bit (scast v :: uint64) n = bit (ucast v :: uint64) n"
    using \<open>n < LENGTH(64)\<close>
    by (cases "n < 31"; cases "n = 31") (auto simp: bit_signed_iff bit_ucast_iff min_def dest: bit_imp_le_length)
qed

lemma sign_extended_bytes_nonneg: "0 \<le> sint v \<Longrightarrow> sign_extended_bytes v = varint_bytes (unat v)"
  by (simp add: sign_extended_bytes_def scast_nonneg unat_ucast_32_64)

lemma length_sign_extended: "VarintSize32SignExtended v = length (sign_extended_bytes v)"
proof (cases "sint v < 0")
  case True
  have "bit (scast v :: uint64) 63"
    using True bit_last_iff [of v] by (simp add: bit_signed_iff)
  then have "2 ^ 63 \<le> unat (scast v :: uint64)"
    using bit_of_small [of "scast v :: uint64" 63 63] by (meson less_irrefl not_le)
  moreover have "unat (scast v :: uint64) < 2 ^ 64" using unsigned_less [of "scast v :: uint64"] by simp
  ultimately have "length (varint_bytes (unat (scast v :: uint64))) = Suc 9"
    by (intro length_varint_bytes) simp_all
  with True show ?thesis by (simp add: VarintSize32SignExtended_def sign_extended_bytes_def)
next
  case False
  then show ?thesis
    by (simp add: VarintSize32SignExtended_def sign_extended_bytes_nonneg VarintSize32_length)
qed

lemma output_in_place_append [simp]: "output_in_place b (output_in_place a o') = output_in_place (a @ b) o'"
  by (simp add: output_in_place_def)

lemma output_in_place_Nil [simp]: "output_in_place [] o' = o'"
  by (simp add: output_in_place_def)

lemma room_in_place [simp]: "co_room (output_in_place bs o') = co_room o' - length bs"
  by (simp add: output_in_place_def)

lemma write_ok:
  "length bs \<le> co_room o' \<Longrightarrow> WriteRaw bs o' = output_in_place bs o'"
  "length (varint_bytes (unat v)) \<le> co_room o' \<Longrightarrow> WriteVarint32 v o' = output_in_place (varint_bytes (unat v)) o'"
  "length (varint_bytes (unat w)) \<le> co_room o' \<Longrightarrow> WriteVarint64 w o' = output_in_place (varint_bytes (unat w)) o'"
  "length (sign_extended_bytes v) \<le> co_room o' \<Longrightarrow> WriteVarint32SignExtended v o' = output_in_place (sign_extended_bytes v) o'"
  "4 \<le> co_room o' \<Longrightarrow> WriteLittleEndian32 v o' = output_in_place (WriteLittleEndian32ToArray v) o'"
  "8 \<le> co_room o' \<Longrightarrow> WriteLittleEndian64 w o' = output_in_place (WriteLittleEndian64ToArray w) o'"
proof -
  show raw: "length bs \<le> co_room o' \<Longrightarrow> WriteRaw bs o' = output_in_place bs o'" for bs
    by (simp add: WriteRaw_def output_in_place_def)
  show v32: "length (varint_bytes (unat v)) \<le> co_room o' \<Longrightarrow> WriteVarint32 v o' = output_in_place (varint_bytes (unat v)) o'"
    by (simp add: WriteVarint32_def WriteVarint32FallbackToArrayInline_bytes write_varint_loop_bytes raw)
  show v64: "length (varint_bytes (unat w)) \<le> co_room o' \<Longrightarrow> WriteVarint64 w o' = output_in_place (varint_bytes (unat w)) o'" for w
    by (simp add: WriteVarint64_def WriteVarint64ToArrayInline_bytes write_varint_loop_bytes raw)
  show "length (sign_extended_bytes v) \<le> co_room o' \<Longrightarrow> WriteVarint32SignExtended v o' = output_in_place (sign_extended_bytes v) o'"
    using v64 [of "scast v"] v32 sign_extended_bytes_nonneg [of v]
    by (cases "sint v < 0") (auto simp: WriteVarint32SignExtended_def sign_extended_bytes_def not_less)
qed (simp_all add: WriteLittleEndian32_def WriteLittleEndian64_def)

end
