(* ===== verification/Wire_Format.thy ===== *)
theory Wire_Format
  imports Wire_Stream
begin

text \<open>
  Messages and the wire format of protobuf (wire_format.cc, wire_format_lite.h, wire_format_lite_inl.h,
  reflection_ops.cc, message_lite.cc): a message is interpreted by its descriptor, as \<open>WireFormat\<close> does
  by reflection. The code that protoc generates from the message files (\<open>.pb.cc\<close>) is not in the repository;
  it reads and writes the same bytes by code specialised to one descriptor. Extensions and message
  sets, which no message file of the server uses, are left out, and so is the UTF-8 check, which only logs.
\<close>

section \<open>Descriptors\<close>

datatype field_type =
  TYPE_DOUBLE | TYPE_FLOAT | TYPE_INT64 | TYPE_UINT64 | TYPE_INT32 | TYPE_FIXED64 | TYPE_FIXED32 | TYPE_BOOL
| TYPE_STRING | TYPE_GROUP | TYPE_MESSAGE | TYPE_BYTES | TYPE_UINT32 | TYPE_ENUM | TYPE_SFIXED32 | TYPE_SFIXED64
| TYPE_SINT32 | TYPE_SINT64

datatype field_label = LABEL_OPTIONAL | LABEL_REQUIRED | LABEL_REPEATED

text \<open>A field; the numbers of its enum, as 32-bit words, or the descriptor of its message.\<close>

record 'd field_descriptor =
  fd_number :: nat
  fd_label :: field_label
  fd_type :: field_type
  fd_packed :: bool
  fd_enum_type :: "uint32 list"
  fd_message_type :: "'d option"

type_synonym 'd pool = "'d \<Rightarrow> 'd field_descriptor list"

definition is_repeated :: "'d field_descriptor \<Rightarrow> bool" where
  "is_repeated fd \<longleftrightarrow> fd_label fd = LABEL_REPEATED"

definition is_packable :: "'d field_descriptor \<Rightarrow> bool" where
  "is_packable fd \<longleftrightarrow> is_repeated fd \<and> fd_type fd \<notin> {TYPE_STRING, TYPE_GROUP, TYPE_MESSAGE, TYPE_BYTES}"

definition FindFieldByNumber :: "'d pool \<Rightarrow> 'd \<Rightarrow> nat \<Rightarrow> 'd field_descriptor option" where
  "FindFieldByNumber pool d n = find (\<lambda>fd. fd_number fd = n) (pool d)"

section \<open>Tags\<close>

definition WIRETYPE_VARINT :: nat where "WIRETYPE_VARINT = 0"
definition WIRETYPE_FIXED64 :: nat where "WIRETYPE_FIXED64 = 1"
definition WIRETYPE_LENGTH_DELIMITED :: nat where "WIRETYPE_LENGTH_DELIMITED = 2"
definition WIRETYPE_START_GROUP :: nat where "WIRETYPE_START_GROUP = 3"
definition WIRETYPE_END_GROUP :: nat where "WIRETYPE_END_GROUP = 4"
definition WIRETYPE_FIXED32 :: nat where "WIRETYPE_FIXED32 = 5"

lemmas wiretype_defs = WIRETYPE_VARINT_def WIRETYPE_FIXED64_def WIRETYPE_LENGTH_DELIMITED_def
  WIRETYPE_START_GROUP_def WIRETYPE_END_GROUP_def WIRETYPE_FIXED32_def

definition MakeTag :: "nat \<Rightarrow> nat \<Rightarrow> uint32" where
  "MakeTag field_number type' = push_bit 3 (of_nat field_number) OR of_nat type'"

definition GetTagWireType :: "uint32 \<Rightarrow> nat" where
  "GetTagWireType tag = unat (tag AND 7)"

definition GetTagFieldNumber :: "uint32 \<Rightarrow> nat" where
  "GetTagFieldNumber tag = unat (drop_bit 3 tag)"

fun WireTypeForFieldType :: "field_type \<Rightarrow> nat" where
  "WireTypeForFieldType TYPE_DOUBLE = WIRETYPE_FIXED64"
| "WireTypeForFieldType TYPE_FLOAT = WIRETYPE_FIXED32"
| "WireTypeForFieldType TYPE_INT64 = WIRETYPE_VARINT"
| "WireTypeForFieldType TYPE_UINT64 = WIRETYPE_VARINT"
| "WireTypeForFieldType TYPE_INT32 = WIRETYPE_VARINT"
| "WireTypeForFieldType TYPE_FIXED64 = WIRETYPE_FIXED64"
| "WireTypeForFieldType TYPE_FIXED32 = WIRETYPE_FIXED32"
| "WireTypeForFieldType TYPE_BOOL = WIRETYPE_VARINT"
| "WireTypeForFieldType TYPE_STRING = WIRETYPE_LENGTH_DELIMITED"
| "WireTypeForFieldType TYPE_GROUP = WIRETYPE_START_GROUP"
| "WireTypeForFieldType TYPE_MESSAGE = WIRETYPE_LENGTH_DELIMITED"
| "WireTypeForFieldType TYPE_BYTES = WIRETYPE_LENGTH_DELIMITED"
| "WireTypeForFieldType TYPE_UINT32 = WIRETYPE_VARINT"
| "WireTypeForFieldType TYPE_ENUM = WIRETYPE_VARINT"
| "WireTypeForFieldType TYPE_SFIXED32 = WIRETYPE_FIXED32"
| "WireTypeForFieldType TYPE_SFIXED64 = WIRETYPE_FIXED64"
| "WireTypeForFieldType TYPE_SINT32 = WIRETYPE_VARINT"
| "WireTypeForFieldType TYPE_SINT64 = WIRETYPE_VARINT"

section \<open>Messages\<close>

text \<open>\<open>UnknownFieldSet\<close>: what the parser does not recognise, with its number.\<close>

datatype unknown_field =
  UVarint nat uint64
| UFixed32 nat uint32
| UFixed64 nat uint64
| ULengthDelimited nat bytes
| UGroup nat "unknown_field list"

text \<open>
  A value as it lies in memory: \<open>int32\<close>, \<open>uint32\<close>, \<open>float\<close> and an enum are a word of 32 bits. A message
  lists the fields that are set, by number, each with its values (one, if it is not repeated).
\<close>

datatype wire_value = W32 uint32 | W64 uint64 | WBool bool | WString bytes | WMessage wire_message
and wire_message = WireMessage (msg_fields: "(nat \<times> wire_value list) list") (msg_unknown: "unknown_field list")

definition empty_message :: wire_message where
  "empty_message = WireMessage [] []"

fun get_values :: "nat \<Rightarrow> (nat \<times> 'v list) list \<Rightarrow> 'v list" where
  "get_values n [] = []"
| "get_values n ((k, vs) # fs) = (if n = k then vs else get_values n fs)"

fun set_values :: "nat \<Rightarrow> 'v list \<Rightarrow> (nat \<times> 'v list) list \<Rightarrow> (nat \<times> 'v list) list" where
  "set_values n vs [] = [(n, vs)]"
| "set_values n vs ((k, us) # fs) =
     (if n < k then (n, vs) # (k, us) # fs else if n = k then (n, vs) # fs else (k, us) # set_values n vs fs)"

definition HasField :: "wire_message \<Rightarrow> 'd field_descriptor \<Rightarrow> bool" where
  "HasField m fd \<longleftrightarrow> get_values (fd_number fd) (msg_fields m) \<noteq> []"

text \<open>\<open>Add...\<close> of a repeated field, \<open>Set...\<close> of another.\<close>

definition put_value :: "'d field_descriptor \<Rightarrow> wire_value \<Rightarrow> wire_message \<Rightarrow> wire_message" where
  "put_value fd v m =
     WireMessage (set_values (fd_number fd)
       (if is_repeated fd then get_values (fd_number fd) (msg_fields m) @ [v] else [v]) (msg_fields m)) (msg_unknown m)"

text \<open>\<open>AddMessage\<close> gives a new message, \<open>MutableMessage\<close> the one that is there.\<close>

definition sub_message :: "'d field_descriptor \<Rightarrow> wire_message \<Rightarrow> wire_message" where
  "sub_message fd m =
     (if is_repeated fd then empty_message
      else case get_values (fd_number fd) (msg_fields m) of WMessage x # _ \<Rightarrow> x | _ \<Rightarrow> empty_message)"

definition add_unknown :: "unknown_field \<Rightarrow> wire_message \<Rightarrow> wire_message" where
  "add_unknown u m = WireMessage (msg_fields m) (msg_unknown m @ [u])"

text \<open>\<open>ListFields\<close>: the descriptors of the fields that are set, by number.\<close>

definition ListFields :: "'d pool \<Rightarrow> 'd \<Rightarrow> wire_message \<Rightarrow> 'd field_descriptor list" where
  "ListFields pool d m = sort_key fd_number (filter (HasField m) (pool d))"

section \<open>Parsing\<close>

definition map_value :: "('a \<Rightarrow> 'b) \<Rightarrow> ('a option \<times> coded_input) res \<Rightarrow> ('b option \<times> coded_input) res" where
  "map_value f r = bind_res r (\<lambda>(v, s). Inr (map_option f v, s))"

text \<open>\<open>ReadPrimitive\<close>; the types that have none fail, as a packed field of them does.\<close>

fun ReadPrimitive :: "field_type \<Rightarrow> coded_input \<Rightarrow> (wire_value option \<times> coded_input) res" where
  "ReadPrimitive TYPE_INT32 s = map_value W32 (ReadVarint32 s)"
| "ReadPrimitive TYPE_UINT32 s = map_value W32 (ReadVarint32 s)"
| "ReadPrimitive TYPE_ENUM s = map_value W32 (ReadVarint32 s)"
| "ReadPrimitive TYPE_SINT32 s = map_value (\<lambda>t. W32 (ZigZagDecode32 t)) (ReadVarint32 s)"
| "ReadPrimitive TYPE_INT64 s = map_value W64 (ReadVarint64 s)"
| "ReadPrimitive TYPE_UINT64 s = map_value W64 (ReadVarint64 s)"
| "ReadPrimitive TYPE_SINT64 s = map_value (\<lambda>t. W64 (ZigZagDecode64 t)) (ReadVarint64 s)"
| "ReadPrimitive TYPE_BOOL s = map_value (\<lambda>t. WBool (t \<noteq> 0)) (ReadVarint64 s)"
| "ReadPrimitive TYPE_FIXED32 s = map_value W32 (ReadLittleEndian32 s)"
| "ReadPrimitive TYPE_SFIXED32 s = map_value W32 (ReadLittleEndian32 s)"
| "ReadPrimitive TYPE_FLOAT s = map_value W32 (ReadLittleEndian32 s)"
| "ReadPrimitive TYPE_FIXED64 s = map_value W64 (ReadLittleEndian64 s)"
| "ReadPrimitive TYPE_SFIXED64 s = map_value W64 (ReadLittleEndian64 s)"
| "ReadPrimitive TYPE_DOUBLE s = map_value W64 (ReadLittleEndian64 s)"
| "ReadPrimitive TYPE_STRING s = Inr (None, s)"
| "ReadPrimitive TYPE_BYTES s = Inr (None, s)"
| "ReadPrimitive TYPE_GROUP s = Inr (None, s)"
| "ReadPrimitive TYPE_MESSAGE s = Inr (None, s)"

type_synonym 'm merger = "'m \<Rightarrow> coded_input \<Rightarrow> (bool \<times> 'm \<times> coded_input) res"

text \<open>
  The loop of \<open>SkipMessage\<close> and of \<open>ParseAndMergePartial\<close>: up to the end or to an end-group tag, each
  field is given to \<open>field\<close>. A tag takes a byte at least, so that the length of the buffer is fuel
  enough (theory Wire_Safe).
\<close>

fun message_loop :: "nat \<Rightarrow> (uint32 \<Rightarrow> 'm merger) \<Rightarrow> 'm merger" where
  "message_loop 0 field m s = Inl (UB ''out of fuel'')"
| "message_loop (Suc n) field m s =
     bind_res (ReadTag s) (\<lambda>(tag, s1).
       if tag = 0 then Inr (True, m, s1)
       else if GetTagWireType tag = WIRETYPE_END_GROUP then Inr (True, m, s1)
       else bind_res (field tag m s1) (\<lambda>(ok, m', s2).
              if ok then message_loop n field m' s2 else Inr (False, m', s2)))"

definition message_fields :: "(uint32 \<Rightarrow> 'm merger) \<Rightarrow> 'm merger" where
  "message_fields field m s = message_loop (Suc (BufferSize s)) field m s"

text \<open>
  \<open>ReadGroup\<close>, also of an unknown group: \<open>deeper\<close> is the parser one level down, \<open>None\<close> when the limit of
  the recursion is reached.
\<close>

definition ReadGroup :: "'m merger option \<Rightarrow> nat \<Rightarrow> 'm merger" where
  "ReadGroup deeper field_number m s =
     (case deeper of
        None \<Rightarrow> Inr (False, m, s)
      | Some merge \<Rightarrow>
          bind_res (merge m s) (\<lambda>(ok, m', s').
            Inr (ok \<and> ci_last_tag s' = MakeTag field_number WIRETYPE_END_GROUP, m', s')))"

definition ReadMessage :: "'m merger option \<Rightarrow> 'm merger" where
  "ReadMessage deeper m s =
     bind_res (ReadVarint32 s) (\<lambda>(len, s1). case len of
       None \<Rightarrow> Inr (False, m, s1)
     | Some len \<Rightarrow>
         (case deeper of
            None \<Rightarrow> Inr (False, m, s1)
          | Some merge \<Rightarrow>
              bind_res (PushLimit (sint len) s1) (\<lambda>(limit, s2).
                bind_res (merge m s2) (\<lambda>(ok, m', s3).
                  if \<not> ok \<or> \<not> ci_legitimate_message_end s3 then Inr (False, m', s3)
                  else bind_res (PopLimit limit s3) (\<lambda>s4. Inr (True, m', s4))))))"

definition skip_field ::
  "unknown_field list merger option \<Rightarrow> uint32 \<Rightarrow> unknown_field list merger" where
  "skip_field deeper tag us s =
     (let number = GetTagFieldNumber tag; wire_type = GetTagWireType tag in
      if wire_type = WIRETYPE_VARINT then
        bind_res (ReadVarint64 s) (\<lambda>(v, s'). case v of
          None \<Rightarrow> Inr (False, us, s') | Some v \<Rightarrow> Inr (True, us @ [UVarint number v], s'))
      else if wire_type = WIRETYPE_FIXED64 then
        bind_res (ReadLittleEndian64 s) (\<lambda>(v, s'). case v of
          None \<Rightarrow> Inr (False, us, s') | Some v \<Rightarrow> Inr (True, us @ [UFixed64 number v], s'))
      else if wire_type = WIRETYPE_LENGTH_DELIMITED then
        bind_res (ReadVarint32 s) (\<lambda>(len, s'). case len of
          None \<Rightarrow> Inr (False, us, s')
        | Some len \<Rightarrow> bind_res (ReadStringInline (sint len) s') (\<lambda>(ok, str, s'').
            Inr (ok, us @ [ULengthDelimited number str], s'')))
      else if wire_type = WIRETYPE_START_GROUP then
        (if deeper = None then Inr (False, us, s)
         else bind_res (ReadGroup deeper number [] s) (\<lambda>(ok, group, s'). Inr (ok, us @ [UGroup number group], s')))
      else if wire_type = WIRETYPE_FIXED32 then
        bind_res (ReadLittleEndian32 s) (\<lambda>(v, s'). case v of
          None \<Rightarrow> Inr (False, us, s') | Some v \<Rightarrow> Inr (True, us @ [UFixed32 number v], s'))
      else Inr (False, us, s))"

text \<open>The first argument of the parsers is the number of levels the recursion may still go down.\<close>

primrec SkipField :: "nat \<Rightarrow> uint32 \<Rightarrow> unknown_field list merger" where
  "SkipField 0 tag us s = skip_field None tag us s"
| "SkipField (Suc l) tag us s = skip_field (Some (message_fields (SkipField l))) tag us s"

text \<open>The values of a packed field, up to the limit.\<close>

fun packed_values :: "nat \<Rightarrow> 'd field_descriptor \<Rightarrow> wire_message merger" where
  "packed_values 0 fd m s = Inl (UB ''out of fuel'')"
| "packed_values (Suc n) fd m s =
     (if 0 < BytesUntilLimit s then
        bind_res (ReadPrimitive (fd_type fd) s) (\<lambda>(v, s'). case v of
          None \<Rightarrow> Inr (False, m, s')
        | Some v \<Rightarrow>
            packed_values n fd
              (case v of
                 W32 e \<Rightarrow> if fd_type fd = TYPE_ENUM \<and> e \<notin> set (fd_enum_type fd) then m else put_value fd v m
               | _ \<Rightarrow> put_value fd v m) s')
      else Inr (True, m, s))"

definition packed_field :: "'d field_descriptor \<Rightarrow> wire_message merger" where
  "packed_field fd m s =
     bind_res (ReadVarint32 s) (\<lambda>(len, s1). case len of
       None \<Rightarrow> Inr (False, m, s1)
     | Some len \<Rightarrow>
         bind_res (PushLimit (sint len) s1) (\<lambda>(limit, s2).
           bind_res (packed_values (Suc (BufferSize s2)) fd m s2) (\<lambda>(ok, m', s3).
             if \<not> ok then Inr (False, m', s3) else bind_res (PopLimit limit s3) (\<lambda>s4. Inr (True, m', s4)))))"

text \<open>A value that is not packed. \<open>deeper\<close> parses a message of a given descriptor one level down.\<close>

definition normal_field ::
  "('d \<Rightarrow> wire_message merger) option \<Rightarrow> uint32 \<Rightarrow> 'd field_descriptor \<Rightarrow> wire_message merger" where
  "normal_field deeper tag fd m s =
     (let sub = (case fd_message_type fd of None \<Rightarrow> None | Some d \<Rightarrow> map_option (\<lambda>f. f d) deeper)
      in case fd_type fd of
           TYPE_ENUM \<Rightarrow>
             bind_res (ReadVarint32 s) (\<lambda>(v, s'). case v of
               None \<Rightarrow> Inr (False, m, s')
             | Some v \<Rightarrow>
                 Inr (True, if v \<in> set (fd_enum_type fd) then put_value fd (W32 v) m
                            else add_unknown (UVarint (GetTagFieldNumber tag) (scast v)) m, s'))
         | TYPE_GROUP \<Rightarrow>
             bind_res (ReadGroup sub (GetTagFieldNumber tag) (sub_message fd m) s) (\<lambda>(ok, x, s').
               Inr (ok, put_value fd (WMessage x) m, s'))
         | TYPE_MESSAGE \<Rightarrow>
             bind_res (ReadMessage sub (sub_message fd m) s) (\<lambda>(ok, x, s').
               Inr (ok, put_value fd (WMessage x) m, s'))
         | type' \<Rightarrow>
             if type' = TYPE_STRING \<or> type' = TYPE_BYTES then
               bind_res (ReadVarint32 s) (\<lambda>(len, s'). case len of
                 None \<Rightarrow> Inr (False, m, s')
               | Some len \<Rightarrow> bind_res (ReadStringInline (sint len) s') (\<lambda>(ok, str, s'').
                   Inr (ok, if ok then put_value fd (WString str) m else m, s'')))
             else
               bind_res (ReadPrimitive type' s) (\<lambda>(v, s'). case v of
                 None \<Rightarrow> Inr (False, m, s')
               | Some v \<Rightarrow> Inr (True, put_value fd v m, s')))"

definition parse_field ::
  "'d pool \<Rightarrow> nat \<Rightarrow> ('d \<Rightarrow> wire_message merger) option \<Rightarrow> 'd \<Rightarrow> uint32 \<Rightarrow> wire_message merger" where
  "parse_field pool levels deeper d tag m s =
     (let skip = bind_res (SkipField levels tag (msg_unknown m) s) (\<lambda>(ok, us, s'). Inr (ok, WireMessage (msg_fields m) us, s'))
      in case FindFieldByNumber pool d (GetTagFieldNumber tag) of
           None \<Rightarrow> skip
         | Some fd \<Rightarrow>
             if GetTagWireType tag = WireTypeForFieldType (fd_type fd) then normal_field deeper tag fd m s
             else if is_packable fd \<and> GetTagWireType tag = WIRETYPE_LENGTH_DELIMITED then packed_field fd m s
             else skip)"

primrec ParseAndMergeField :: "nat \<Rightarrow> 'd pool \<Rightarrow> 'd \<Rightarrow> uint32 \<Rightarrow> wire_message merger" where
  "ParseAndMergeField 0 pool d tag m s = parse_field pool 0 None d tag m s"
| "ParseAndMergeField (Suc l) pool d tag m s =
     parse_field pool (Suc l) (Some (\<lambda>d'. message_fields (ParseAndMergeField l pool d'))) d tag m s"

definition ParseAndMergePartial :: "nat \<Rightarrow> 'd pool \<Rightarrow> 'd \<Rightarrow> wire_message merger" where
  "ParseAndMergePartial levels pool d = message_fields (ParseAndMergeField levels pool d)"

definition recursion_limit :: nat where "recursion_limit = 100"

section \<open>Sizes\<close>

lemma size_get_values:
  "v \<in> set (get_values n fs) \<Longrightarrow> size v < size_list (size_prod (\<lambda>_. 0) (size_list size)) fs" for fs :: "(nat \<times> wire_value list) list"
proof (induction n fs rule: get_values.induct)
  case (2 n k vs fs)
  then show ?case
    using size_list_estimation' [of v vs "size v" size] by (auto split: if_splits)
qed simp

lemma size_field_value:
  "v \<in> set (get_values n (msg_fields m)) \<Longrightarrow> size v < size m"
  by (cases m) (auto dest: size_get_values)

text \<open>The getters of the reflection: the value as the type of the field has it.\<close>

fun as_32 :: "wire_value \<Rightarrow> uint32" where "as_32 (W32 v) = v" | "as_32 _ = 0"
fun as_64 :: "wire_value \<Rightarrow> uint64" where "as_64 (W64 v) = v" | "as_64 _ = 0"
fun as_bool :: "wire_value \<Rightarrow> bool" where "as_bool (WBool v) = v" | "as_bool _ = False"
fun as_string :: "wire_value \<Rightarrow> bytes" where "as_string (WString v) = v" | "as_string _ = []"

text \<open>The functions that walk a message call themselves on the values of its fields only.\<close>

fun PrimitiveSize :: "field_type \<Rightarrow> wire_value \<Rightarrow> nat" where
  "PrimitiveSize TYPE_INT32 v = VarintSize32SignExtended (as_32 v)"
| "PrimitiveSize TYPE_ENUM v = VarintSize32SignExtended (as_32 v)"
| "PrimitiveSize TYPE_UINT32 v = VarintSize32 (as_32 v)"
| "PrimitiveSize TYPE_SINT32 v = VarintSize32 (ZigZagEncode32 (as_32 v))"
| "PrimitiveSize TYPE_INT64 v = VarintSize64 (as_64 v)"
| "PrimitiveSize TYPE_UINT64 v = VarintSize64 (as_64 v)"
| "PrimitiveSize TYPE_SINT64 v = VarintSize64 (ZigZagEncode64 (as_64 v))"
| "PrimitiveSize TYPE_BOOL _ = 1"
| "PrimitiveSize TYPE_FIXED32 _ = 4"
| "PrimitiveSize TYPE_SFIXED32 _ = 4"
| "PrimitiveSize TYPE_FLOAT _ = 4"
| "PrimitiveSize TYPE_FIXED64 _ = 8"
| "PrimitiveSize TYPE_SFIXED64 _ = 8"
| "PrimitiveSize TYPE_DOUBLE _ = 8"
| "PrimitiveSize TYPE_STRING v = VarintSize32 (of_nat (length (as_string v))) + length (as_string v)"
| "PrimitiveSize TYPE_BYTES v = VarintSize32 (of_nat (length (as_string v))) + length (as_string v)"
| "PrimitiveSize TYPE_GROUP _ = 0"
| "PrimitiveSize TYPE_MESSAGE _ = 0"

fun UnknownFieldSize :: "unknown_field \<Rightarrow> nat" where
  "UnknownFieldSize (UVarint n v) = VarintSize32 (MakeTag n WIRETYPE_VARINT) + VarintSize64 v"
| "UnknownFieldSize (UFixed32 n v) = VarintSize32 (MakeTag n WIRETYPE_FIXED32) + 4"
| "UnknownFieldSize (UFixed64 n v) = VarintSize32 (MakeTag n WIRETYPE_FIXED64) + 8"
| "UnknownFieldSize (ULengthDelimited n v) =
     VarintSize32 (MakeTag n WIRETYPE_LENGTH_DELIMITED) + VarintSize32 (of_nat (length v)) + length v"
| "UnknownFieldSize (UGroup n us) =
     VarintSize32 (MakeTag n WIRETYPE_START_GROUP) + sum_list (map UnknownFieldSize us) +
     VarintSize32 (MakeTag n WIRETYPE_END_GROUP)"

definition ComputeUnknownFieldsSize :: "unknown_field list \<Rightarrow> nat" where
  "ComputeUnknownFieldsSize us = sum_list (map UnknownFieldSize us)"

text \<open>\<open>TagSize\<close>: a group has a start and an end tag.\<close>

definition TagSize :: "nat \<Rightarrow> field_type \<Rightarrow> nat" where
  "TagSize field_number type' =
     (let result = VarintSize32 (push_bit 3 (of_nat field_number)) in if type' = TYPE_GROUP then result * 2 else result)"

text \<open>
  \<open>FieldDataOnlyByteSize\<close> is the sum of \<open>ValueSize\<close> over the values of a field, \<open>FieldByteSize\<close> adds the
  tags. \<open>ByteSize\<close> also caches its result in the message; no message changes between this and its use.
\<close>

function ValueSize :: "'d pool \<Rightarrow> 'd field_descriptor \<Rightarrow> wire_value \<Rightarrow> nat"
  and ByteSize :: "'d pool \<Rightarrow> 'd \<Rightarrow> wire_message \<Rightarrow> nat" where
  "ValueSize pool fd v =
     (case (fd_type fd, v, fd_message_type fd) of
        (TYPE_GROUP, WMessage x, Some d) \<Rightarrow> ByteSize pool d x
      | (TYPE_MESSAGE, WMessage x, Some d) \<Rightarrow>
          (let n = ByteSize pool d x in VarintSize32 (of_nat n) + n)
      | _ \<Rightarrow> PrimitiveSize (fd_type fd) v)"
| "ByteSize pool d m =
     sum_list (map (\<lambda>fd.
       let values = get_values (fd_number fd) (msg_fields m); data_size = sum_list (map (ValueSize pool fd) values)
       in if fd_packed fd then
            (if 0 < data_size then data_size + TagSize (fd_number fd) TYPE_STRING + VarintSize32 (of_nat data_size) else data_size)
          else data_size + length values * TagSize (fd_number fd) (fd_type fd)) (ListFields pool d m)) +
     ComputeUnknownFieldsSize (msg_unknown m)"
  by pat_completeness auto
termination
  by (relation "measure (\<lambda>x. case x of Inl (_, _, v) \<Rightarrow> size v | Inr (_, _, m) \<Rightarrow> size m)")
    (auto simp: size_field_value)

declare ValueSize.simps [simp del] ByteSize.simps [simp del]

section \<open>Serialising\<close>

fun write_all :: "('a \<Rightarrow> coded_output \<Rightarrow> coded_output res) \<Rightarrow> 'a list \<Rightarrow> coded_output \<Rightarrow> coded_output res" where
  "write_all f [] o' = Inr o'"
| "write_all f (x # xs) o' = bind_res (f x o') (write_all f xs)"

lemma write_all_cong [fundef_cong]:
  "xs = ys \<Longrightarrow> o1 = o2 \<Longrightarrow> (\<And>x o'. x \<in> set ys \<Longrightarrow> f x o' = g x o') \<Longrightarrow> write_all f xs o1 = write_all g ys o2"
proof (induction xs arbitrary: ys o1 o2)
  case (Cons x xs)
  then show ?case by (cases "g x o2") auto
qed simp

definition WriteTag :: "nat \<Rightarrow> nat \<Rightarrow> coded_output \<Rightarrow> coded_output" where
  "WriteTag field_number type' = WriteVarint32 (MakeTag field_number type')"

fun WritePrimitiveNoTag :: "field_type \<Rightarrow> wire_value \<Rightarrow> coded_output \<Rightarrow> coded_output" where
  "WritePrimitiveNoTag TYPE_INT32 v o' = WriteVarint32SignExtended (as_32 v) o'"
| "WritePrimitiveNoTag TYPE_ENUM v o' = WriteVarint32SignExtended (as_32 v) o'"
| "WritePrimitiveNoTag TYPE_UINT32 v o' = WriteVarint32 (as_32 v) o'"
| "WritePrimitiveNoTag TYPE_SINT32 v o' = WriteVarint32 (ZigZagEncode32 (as_32 v)) o'"
| "WritePrimitiveNoTag TYPE_INT64 v o' = WriteVarint64 (as_64 v) o'"
| "WritePrimitiveNoTag TYPE_UINT64 v o' = WriteVarint64 (as_64 v) o'"
| "WritePrimitiveNoTag TYPE_SINT64 v o' = WriteVarint64 (ZigZagEncode64 (as_64 v)) o'"
| "WritePrimitiveNoTag TYPE_BOOL v o' = WriteVarint32 (if as_bool v then 1 else 0) o'"
| "WritePrimitiveNoTag TYPE_FIXED32 v o' = WriteLittleEndian32 (as_32 v) o'"
| "WritePrimitiveNoTag TYPE_SFIXED32 v o' = WriteLittleEndian32 (as_32 v) o'"
| "WritePrimitiveNoTag TYPE_FLOAT v o' = WriteLittleEndian32 (as_32 v) o'"
| "WritePrimitiveNoTag TYPE_FIXED64 v o' = WriteLittleEndian64 (as_64 v) o'"
| "WritePrimitiveNoTag TYPE_SFIXED64 v o' = WriteLittleEndian64 (as_64 v) o'"
| "WritePrimitiveNoTag TYPE_DOUBLE v o' = WriteLittleEndian64 (as_64 v) o'"
| "WritePrimitiveNoTag TYPE_STRING v o' = WriteRaw (as_string v) (WriteVarint32 (of_nat (length (as_string v))) o')"
| "WritePrimitiveNoTag TYPE_BYTES v o' = WriteRaw (as_string v) (WriteVarint32 (of_nat (length (as_string v))) o')"
| "WritePrimitiveNoTag TYPE_GROUP _ o' = o'"
| "WritePrimitiveNoTag TYPE_MESSAGE _ o' = o'"

fun SerializeUnknownField :: "unknown_field \<Rightarrow> coded_output \<Rightarrow> coded_output" where
  "SerializeUnknownField (UVarint n v) o' = WriteVarint64 v (WriteTag n WIRETYPE_VARINT o')"
| "SerializeUnknownField (UFixed32 n v) o' = WriteLittleEndian32 v (WriteTag n WIRETYPE_FIXED32 o')"
| "SerializeUnknownField (UFixed64 n w) o' = WriteLittleEndian64 w (WriteTag n WIRETYPE_FIXED64 o')"
| "SerializeUnknownField (ULengthDelimited n v) o' =
     WriteRaw v (WriteVarint32 (of_nat (length v)) (WriteTag n WIRETYPE_LENGTH_DELIMITED o'))"
| "SerializeUnknownField (UGroup n us) o' =
     WriteTag n WIRETYPE_END_GROUP
       (fold (\<lambda>u o'. SerializeUnknownField u o') us (WriteTag n WIRETYPE_START_GROUP o'))"

definition SerializeUnknownFields :: "unknown_field list \<Rightarrow> coded_output \<Rightarrow> coded_output" where
  "SerializeUnknownFields us o' = fold SerializeUnknownField us o'"

text \<open>\<open>SerializeWithCachedSizes\<close>, which checks that it wrote as many bytes as \<open>ByteSize\<close> had said.\<close>

function SerializeValue :: "'d pool \<Rightarrow> 'd field_descriptor \<Rightarrow> wire_value \<Rightarrow> coded_output \<Rightarrow> coded_output res"
  and SerializeWithCachedSizes :: "'d pool \<Rightarrow> 'd \<Rightarrow> wire_message \<Rightarrow> coded_output \<Rightarrow> coded_output res" where
  "SerializeValue pool fd v o' =
     (case (fd_type fd, v, fd_message_type fd) of
        (TYPE_GROUP, WMessage x, Some d) \<Rightarrow>
          bind_res (SerializeWithCachedSizes pool d x (WriteTag (fd_number fd) WIRETYPE_START_GROUP o'))
            (\<lambda>o''. Inr (WriteTag (fd_number fd) WIRETYPE_END_GROUP o''))
      | (TYPE_MESSAGE, WMessage x, Some d) \<Rightarrow>
          SerializeWithCachedSizes pool d x
            (WriteVarint32 (of_nat (ByteSize pool d x)) (WriteTag (fd_number fd) WIRETYPE_LENGTH_DELIMITED o'))
      | _ \<Rightarrow>
          Inr (WritePrimitiveNoTag (fd_type fd) v
            (if fd_packed fd then o' else WriteTag (fd_number fd) (WireTypeForFieldType (fd_type fd)) o')))"
| "SerializeWithCachedSizes pool d m o' =
     (let expected_endpoint = length (co_written o') + ByteSize pool d m in
      bind_res
        (write_all (\<lambda>fd o'.
           let values = get_values (fd_number fd) (msg_fields m);
               data_size = sum_list (map (ValueSize pool fd) values)
           in write_all (\<lambda>v o'. SerializeValue pool fd v o') values
                (if fd_packed fd \<and> values \<noteq> []
                 then WriteVarint32 (of_nat data_size) (WriteTag (fd_number fd) WIRETYPE_LENGTH_DELIMITED o') else o'))
           (ListFields pool d m) o')
        (\<lambda>o1. let o2 = SerializeUnknownFields (msg_unknown m) o1
              in if length (co_written o2) = expected_endpoint then Inr o2 else Inl (Thrown ''GOOGLE_CHECK_EQ'')))"
  by pat_completeness auto
termination
  by (relation "measure (\<lambda>x. case x of Inl (_, _, v, _) \<Rightarrow> size v | Inr (_, _, m, _) \<Rightarrow> size m)")
    (auto simp: size_field_value)

declare SerializeValue.simps [simp del] SerializeWithCachedSizes.simps [simp del]

text \<open>
  \<open>SerializeAsString\<close>: a size of \<open>2^31\<close> or more overflows the \<open>int\<close> it is kept in. A mismatch of the sizes,
  or an error of the stream, ends the program.
\<close>

definition SerializeAsString :: "'d pool \<Rightarrow> 'd \<Rightarrow> wire_message \<Rightarrow> bytes res" where
  "SerializeAsString pool d m =
     (let byte_size = ByteSize pool d m
      in if 2 ^ 31 \<le> byte_size then Inl (UB ''signed overflow of the size'')
         else bind_res (SerializeWithCachedSizes pool d m (CodedOutputStream_init byte_size)) (\<lambda>out.
           if co_had_error out then Inl (Thrown ''GOOGLE_CHECK'')
           else if length (co_written out) \<noteq> byte_size then Inl (Thrown ''ByteSizeConsistencyError'')
           else Inr (co_written out)))"

section \<open>Whole messages\<close>

text \<open>\<open>IsInitialized\<close>: the required fields are set, in the sub-messages too.\<close>

function IsInitialized :: "'d pool \<Rightarrow> 'd \<Rightarrow> wire_message \<Rightarrow> bool" where
  "IsInitialized pool d m \<longleftrightarrow>
     (\<forall>fd \<in> set (pool d). fd_label fd = LABEL_REQUIRED \<longrightarrow> HasField m fd) \<and>
     list_all (\<lambda>fd.
       list_all (\<lambda>v. case (v, fd_message_type fd) of
           (WMessage x, Some d') \<Rightarrow> IsInitialized pool d' x
         | _ \<Rightarrow> True) (get_values (fd_number fd) (msg_fields m))) (ListFields pool d m)"
  by pat_completeness auto
termination
  by (relation "measure (\<lambda>(_, _, m). size m)") (auto dest: size_field_value)

declare IsInitialized.simps [simp del]

text \<open>
  \<open>ParseFromString\<close> and \<open>ParseFromArray\<close>: whether it succeeded, and what the object holds then. The \<open>&&\<close> of
  the code evaluates from the left, but its operands have no effect.
\<close>

definition ParseFromArray :: "'d pool \<Rightarrow> 'd \<Rightarrow> bytes \<Rightarrow> (bool \<times> wire_message) res" where
  "ParseFromArray pool d data =
     (if 2 ^ 31 \<le> length data then Inl (UB ''size does not fit an int'')
      else bind_res (ParseAndMergePartial recursion_limit pool d empty_message (CodedInputStream_init data)) (\<lambda>(ok, m, s).
        Inr (ok \<and> IsInitialized pool d m \<and> ci_legitimate_message_end s, m)))"

lemma fold_cong_applied [fundef_cong]:
  "xs = ys \<Longrightarrow> a = b \<Longrightarrow> (\<And>x a. x \<in> set ys \<Longrightarrow> f x a = g x a) \<Longrightarrow> fold f xs a = fold g ys b"
  by (auto intro!: fold_cong)

text \<open>\<open>MergeFrom\<close> (\<open>ReflectionOps::Merge\<close>): \<open>merge_value\<close> adds or sets one value, merging a message into the old one.\<close>

function merge_value :: "'d pool \<Rightarrow> 'd field_descriptor \<Rightarrow> wire_value \<Rightarrow> wire_message \<Rightarrow> wire_message"
  and MergeFrom :: "'d pool \<Rightarrow> 'd \<Rightarrow> wire_message \<Rightarrow> wire_message \<Rightarrow> wire_message" where
  "merge_value pool fd v to' =
     (case (v, fd_message_type fd) of
        (WMessage x, Some d) \<Rightarrow> put_value fd (WMessage (MergeFrom pool d x (sub_message fd to'))) to'
      | _ \<Rightarrow> put_value fd v to')"
| "MergeFrom pool d from' to' =
     (let merged = fold (\<lambda>fd to'. fold (\<lambda>v to'. merge_value pool fd v to') (get_values (fd_number fd) (msg_fields from')) to')
                     (ListFields pool d from') to'
      in WireMessage (msg_fields merged) (msg_unknown merged @ msg_unknown from'))"
  by pat_completeness auto
termination
  by (relation "measure (\<lambda>x. case x of Inl (_, _, v, _) \<Rightarrow> size v | Inr (_, _, m, _) \<Rightarrow> size m)")
    (auto simp: size_field_value)

declare merge_value.simps [simp del] MergeFrom.simps [simp del]

end
