(* ===== verification/Wire_Safe.thy ===== *)
theory Wire_Safe
  imports Wire_Format Outcome
begin

text \<open>
  The parser of theory Wire_Format on any bytes: it never reads outside the array, never uses the null
  input stream, always ends, and when it succeeds the stream has moved on within its limit (when it
  fails, the limit of a sub-message may still be in force). The loops have fuel enough, which gives
  the equation of \<open>message_fields\<close> without fuel that the proofs about what is parsed use.
\<close>

abbreviation total :: "('a \<Rightarrow> bool) \<Rightarrow> 'a res \<Rightarrow> bool" where
  "total \<equiv> post (\<lambda>_. False)"

definition merger_ahead :: "coded_input \<Rightarrow> bool \<times> 'm \<times> coded_input \<Rightarrow> bool" where
  "merger_ahead s = (\<lambda>(ok, _, s'). ok \<longrightarrow> ahead s s')"

lemma merger_ahead_simp [simp]: "merger_ahead s (ok, m, s') \<longleftrightarrow> (ok \<longrightarrow> ahead s s')"
  by (simp add: merger_ahead_def)

lemma totalE:
  assumes "total P r"
  obtains x where "r = Inr x" "P x"
  using assms by (cases r) auto

section \<open>Readers\<close>

text \<open>A value that is read takes a byte at least.\<close>

definition read_ahead :: "coded_input \<Rightarrow> 'a option \<times> coded_input \<Rightarrow> bool" where
  "read_ahead s = (\<lambda>(v, s'). ahead s s' \<and> (v \<noteq> None \<longrightarrow> length (ci_buffer s') < length (ci_buffer s)))"

lemma read_ahead_simp [simp]:
  "read_ahead s (v, s') \<longleftrightarrow> ahead s s' \<and> (v \<noteq> None \<longrightarrow> length (ci_buffer s') < length (ci_buffer s))"
  by (simp add: read_ahead_def)

lemma varint_shorter: "varint n p = Some (v, rest) \<Longrightarrow> length rest < length p"
  by (auto dest!: varint_rest)

lemma reads_varint_ahead: "reads_varint f s r \<Longrightarrow> total (read_ahead s) r"
  using reads_varint_reads [of f s r]
  by (auto simp: reads_varint_def reads_def dest: varint_shorter split: option.splits)

lemma ReadVarint_ahead:
  assumes "stream_ok s"
  shows "total (read_ahead s) (ReadVarint32 s)" "total (read_ahead s) (ReadVarint64 s)"
  using reads_varint_ahead ReadVarint32_ok ReadVarint64_ok assms by blast+

lemma ReadLittleEndian_value:
  assumes "stream_ok s"
  shows "4 \<le> length (ci_buffer s) \<Longrightarrow> ReadLittleEndian32FromArray (ci_buffer s) = Inr (v, p) \<Longrightarrow>
      ReadLittleEndian32 s = Inr (Some v, s\<lparr>ci_buffer := p\<rparr>)"
    and "8 \<le> length (ci_buffer s) \<Longrightarrow> ReadLittleEndian64FromArray (ci_buffer s) = Inr (w, p) \<Longrightarrow>
      ReadLittleEndian64 s = Inr (Some w, s\<lparr>ci_buffer := p\<rparr>)"
    and "length (ci_buffer s) < 4 \<Longrightarrow> ReadLittleEndian32 s = Inr (None, s\<lparr>ci_buffer := []\<rparr>)"
    and "length (ci_buffer s) < 8 \<Longrightarrow> ReadLittleEndian64 s = Inr (None, s\<lparr>ci_buffer := []\<rparr>)"
  using assms
  by (simp_all add: ReadLittleEndian32_def ReadLittleEndian64_def on_buffer_def BufferSize_def ReadRaw_def Advance_def
      Refresh_drop)

lemma ReadLittleEndian_ahead:
  assumes "stream_ok s"
  shows "total (read_ahead s) (ReadLittleEndian32 s)" "total (read_ahead s) (ReadLittleEndian64 s)"
proof -
  show "total (read_ahead s) (ReadLittleEndian32 s)"
  proof (cases "length (ci_buffer s) < 4")
    case False
    then obtain v where "ReadLittleEndian32FromArray (ci_buffer s) = Inr (v, drop 4 (ci_buffer s))"
      using ReadLittleEndian_total(1) [of "ci_buffer s"] by auto
    with ReadLittleEndian_value(1) [OF assms] False show ?thesis by simp
  qed (simp add: ReadLittleEndian_value(3) [OF assms])
  show "total (read_ahead s) (ReadLittleEndian64 s)"
  proof (cases "length (ci_buffer s) < 8")
    case False
    then obtain v where "ReadLittleEndian64FromArray (ci_buffer s) = Inr (v, drop 8 (ci_buffer s))"
      using ReadLittleEndian_total(2) [of "ci_buffer s"] by auto
    with ReadLittleEndian_value(2) [OF assms] False show ?thesis by simp
  qed (simp add: ReadLittleEndian_value(4) [OF assms])
qed

lemma map_value_ahead: "total (read_ahead s) r \<Longrightarrow> total (read_ahead s) (map_value f r)"
  by (auto simp: map_value_def elim!: totalE)

lemma ReadPrimitive_ahead: "stream_ok s \<Longrightarrow> total (read_ahead s) (ReadPrimitive t s)"
  by (cases t) (simp_all add: map_value_ahead ReadVarint_ahead ReadLittleEndian_ahead)

lemma ReadStringInline_total:
  "stream_ok s \<Longrightarrow> total (\<lambda>(ok, v, s'). ahead s s') (ReadStringInline n s)"
  using ReadStringInline_ahead [of s n] by auto

section \<open>Loops\<close>

text \<open>
  A parser of one field, as \<open>SkipField\<close> and \<open>ParseAndMergeField\<close> are: it returns, and the stream has
  moved ahead. Then the loop over the fields of a message has the same property, whatever its fuel.
\<close>

locale field_parser =
  fixes field :: "uint32 \<Rightarrow> 'm merger"
  assumes field_ahead: "stream_ok s \<Longrightarrow> total (merger_ahead s) (field tag m s)"
begin

lemma message_loop_fuel:
  assumes "stream_ok s" "length (ci_buffer s) < n" "length (ci_buffer s) < k"
  shows "message_loop n field m s = message_loop k field m s"
  using assms
proof (induction n arbitrary: k m s)
  case (Suc n)
  from Suc.prems obtain k' where k: "k = Suc k'" by (cases k) auto
  obtain tag s1 where tag: "ReadTag s = Inr (tag, s1)" "ahead s s1"
      "tag = 0 \<or> length (ci_buffer s1) < length (ci_buffer s)"
    using ReadTag_ahead [OF Suc.prems(1)] by blast
  then have s1: "stream_ok s1" using Suc.prems(1) by (blast intro: ahead_ok)
  obtain ok m' s2 where f: "field tag m s1 = Inr (ok, m', s2)" "ok \<Longrightarrow> ahead s1 s2"
    using field_ahead [OF s1, of tag m] by (elim totalE) (metis merger_ahead_simp prod_cases3)
  have "message_loop n field m' s2 = message_loop k' field m' s2" if "tag \<noteq> 0" ok
    using that tag(3) ahead_length [OF f(2)] Suc.prems(2,3) k by (intro Suc.IH ahead_ok [OF f(2) s1]) simp_all
  then show ?case by (simp add: k tag(1) f(1))
qed simp

lemma message_fields_unfold:
  assumes "stream_ok s"
  shows "message_fields field m s =
     bind_res (ReadTag s) (\<lambda>(tag, s1).
       if tag = 0 then Inr (True, m, s1)
       else if GetTagWireType tag = WIRETYPE_END_GROUP then Inr (True, m, s1)
       else bind_res (field tag m s1) (\<lambda>(ok, m', s2).
              if ok then message_fields field m' s2 else Inr (False, m', s2)))"
proof -
  obtain tag s1 where tag: "ReadTag s = Inr (tag, s1)" "ahead s s1"
      "tag = 0 \<or> length (ci_buffer s1) < length (ci_buffer s)"
    using ReadTag_ahead [OF assms] by blast
  then have s1: "stream_ok s1" using assms by (blast intro: ahead_ok)
  obtain ok m' s2 where f: "field tag m s1 = Inr (ok, m', s2)" "ok \<Longrightarrow> ahead s1 s2"
    using field_ahead [OF s1, of tag m] by (elim totalE) (metis merger_ahead_simp prod_cases3)
  have "message_loop (length (ci_buffer s)) field m' s2 = message_fields field m' s2" if "tag \<noteq> 0" ok
    unfolding message_fields_def BufferSize_def
    using that tag(3) ahead_length [OF f(2)] by (intro message_loop_fuel ahead_ok [OF f(2) s1]) simp_all
  then show ?thesis
    by (simp add: message_fields_def [of _ _ s] BufferSize_def tag(1) f(1))
qed

lemma message_fields_ahead: "stream_ok s \<Longrightarrow> total (merger_ahead s) (message_fields field m s)"
proof (induction "length (ci_buffer s)" arbitrary: m s rule: less_induct)
  case less
  obtain tag s1 where tag: "ReadTag s = Inr (tag, s1)" "ahead s s1"
      "tag = 0 \<or> length (ci_buffer s1) < length (ci_buffer s)"
    using ReadTag_ahead [OF less.prems] by blast
  then have s1: "stream_ok s1" using less.prems by (blast intro: ahead_ok)
  obtain ok m' s2 where f: "field tag m s1 = Inr (ok, m', s2)" "ok \<Longrightarrow> ahead s1 s2"
    using field_ahead [OF s1, of tag m] by (elim totalE) (metis merger_ahead_simp prod_cases3)
  have s: "ahead s s2" if ok using tag(2) f(2) [OF that] by (rule ahead_trans)
  have "total (merger_ahead s) (message_fields field m' s2)" if "tag \<noteq> 0" ok
    using less.hyps [of s2 m'] that tag(3) ahead_length [OF f(2)] ahead_ok [OF f(2) s1]
    by (auto elim!: post_conseq intro: ahead_trans [OF s] simp: merger_ahead_def)
  then show ?case
    by (simp add: message_fields_unfold [OF less.prems] tag(1,2) f(1) s)
qed

end

section \<open>Fields\<close>

definition merger_ok :: "'m merger \<Rightarrow> bool" where
  "merger_ok f \<longleftrightarrow> (\<forall>m s. stream_ok s \<longrightarrow> total (merger_ahead s) (f m s))"

lemma merger_okD: "merger_ok f \<Longrightarrow> stream_ok s \<Longrightarrow> total (merger_ahead s) (f m s)"
  by (simp add: merger_ok_def)

lemma merger_okE:
  assumes "merger_ok f" "stream_ok s"
  obtains ok m' s' where "f m s = Inr (ok, m', s')" "ok \<Longrightarrow> ahead s s'"
  using merger_okD [OF assms, of m] by (elim totalE) (metis merger_ahead_simp prod_cases3)

text \<open>The next call of a composition.\<close>

lemma merger_seq:
  assumes "merger_ok f" "stream_ok s" "\<And>ok m' s'. (ok \<Longrightarrow> ahead s s') \<Longrightarrow> Q (ok, m', s')"
  shows "total Q (f m s)"
  using merger_okD [OF assms(1,2)] by (rule post_conseq) (use assms(3) in auto)

lemma read_seq:
  fixes r :: "('a option \<times> coded_input) res"
  assumes "total (read_ahead s) r" "stream_ok s"
    and "\<And>s'. ahead s s' \<Longrightarrow> Q (None, s')"
    and "\<And>v s'. ahead s s' \<Longrightarrow> stream_ok s' \<Longrightarrow> length (ci_buffer s') < length (ci_buffer s) \<Longrightarrow> Q (Some v, s')"
  shows "total Q r"
  using assms(1)
proof (rule post_conseq)
  fix x :: "'a option \<times> coded_input" assume x: "read_ahead s x"
  then show "Q x"
    using assms(3,4) ahead_ok [OF _ assms(2)] by (cases x; cases "fst x") auto
qed

lemmas reader_seq = read_seq [OF ReadVarint_ahead(1)] read_seq [OF ReadVarint_ahead(2)] read_seq [OF ReadLittleEndian_ahead(1)]
  read_seq [OF ReadLittleEndian_ahead(2)] read_seq [OF ReadPrimitive_ahead]

lemma string_seq:
  assumes "stream_ok s" "\<And>ok v s'. ahead s s' \<Longrightarrow> Q (ok, v, s')"
  shows "total Q (ReadStringInline n s)"
  using ReadStringInline_total [OF assms(1), of n] by (rule post_conseq) (auto intro: assms(2))

lemma field_parser_merger_ok: "(\<And>tag. merger_ok (field tag)) \<Longrightarrow> merger_ok (message_fields field)"
  by (auto simp: merger_ok_def intro!: field_parser.message_fields_ahead field_parser.intro)

lemma ReadGroup_ok: "(\<And>f. deeper = Some f \<Longrightarrow> merger_ok f) \<Longrightarrow> merger_ok (ReadGroup deeper n)"
  unfolding merger_ok_def [of "ReadGroup _ _"] ReadGroup_def
  by (cases deeper) (auto, rule merger_seq, auto)

text \<open>A parser under a limit, as of a sub-message or a packed field; \<open>stop\<close> is the test for a failure.\<close>

lemma limit_ok:
  assumes "merger_ok f" "stream_ok s" "ahead s0 s" "\<And>ok s'. \<not> stop ok s' \<Longrightarrow> ok"
  shows "total (merger_ahead s0) (bind_res (PushLimit n s) (\<lambda>(limit, s2).
     bind_res (f m s2) (\<lambda>(ok, m', s3). if stop ok s3 then Inr (False, m', s3)
       else bind_res (PopLimit limit s3) (\<lambda>s4. Inr (True, m', s4)))))"
proof -
  let ?n = "limit_length n s"
  have n: "?n \<le> length (ci_buffer s)" by (auto simp: limit_length_def)
  have pop: "total (merger_ahead s0) (bind_res (PopLimit (ci_current_limit s) s3) (\<lambda>s4. Inr (True, m', s4)))"
    if "ahead (narrow ?n s) s3" for m' s3
    using PopLimit_ahead [OF assms(2) n that] assms(3) by (metis ahead_trans bind_res.simps(2) merger_ahead_simp post_simps(2))
  obtain ok m' s3 where "f m (narrow ?n s) = Inr (ok, m', s3)" "ok \<Longrightarrow> ahead (narrow ?n s) s3"
    using merger_okE [OF assms(1) stream_ok_narrow [OF assms(2)]] by metis
  then show ?thesis
    using pop [of s3 m'] assms(4) [of ok s3] by (cases "stop ok s3") (simp_all add: PushLimit_ok [OF assms(2)])
qed

lemma ReadMessage_ok:
  assumes "\<And>f. deeper = Some f \<Longrightarrow> merger_ok f"
  shows "merger_ok (ReadMessage deeper)"
  unfolding merger_ok_def ReadMessage_def post_bind [of _ _ "ReadVarint32 _"]
proof (intro allI impI reader_seq(1))
  fix m s len s1
  assume "ahead s s1" "stream_ok s1"
  then show "total (merger_ahead s) (case (Some len, s1) of (len, s1) \<Rightarrow> case len of None \<Rightarrow> Inr (False, m, s1)
    | Some len \<Rightarrow> (case deeper of None \<Rightarrow> Inr (False, m, s1) | Some merge \<Rightarrow>
        bind_res (PushLimit (sint len) s1) (\<lambda>(limit, s2). bind_res (merge m s2) (\<lambda>(ok, m', s3).
          if \<not> ok \<or> \<not> ci_legitimate_message_end s3 then Inr (False, m', s3)
          else bind_res (PopLimit limit s3) (\<lambda>s4. Inr (True, m', s4))))))"
    using limit_ok [where stop = "\<lambda>ok s'. \<not> ok \<or> \<not> ci_legitimate_message_end s'", OF assms]
    by (cases deeper) simp_all
qed simp_all

lemma skip_field_ok:
  assumes "\<And>f. deeper = Some f \<Longrightarrow> merger_ok f"
  shows "merger_ok (skip_field deeper tag)"
  unfolding merger_ok_def skip_field_def Let_def post_if post_bind
  by (intro allI impI conjI reader_seq merger_seq [OF ReadGroup_ok] string_seq)
    (auto intro!: string_seq intro: ahead_trans dest: assms)

lemma SkipField_ok: "merger_ok (SkipField l tag)"
proof (induction l arbitrary: tag)
  case 0
  show ?case using skip_field_ok [of None tag] by (simp add: merger_ok_def)
next
  case (Suc l)
  then show ?case
    using skip_field_ok [of "Some (message_fields (SkipField l))" tag] field_parser_merger_ok [of "SkipField l"]
    by (simp add: merger_ok_def [of "SkipField (Suc _) _"] merger_ok_def [of "skip_field _ _"])
qed

lemma packed_values_ok:
  assumes "stream_ok s" "length (ci_buffer s) < n"
  shows "total (merger_ahead s) (packed_values n fd m s)"
  using assms
proof (induction n arbitrary: m s)
  case (Suc n)
  have "total (merger_ahead s) (packed_values n fd m' s')"
    if "ahead s s'" "stream_ok s'" "length (ci_buffer s') < length (ci_buffer s)" for m' s'
    using Suc.IH [of s' m'] that Suc.prems(2) by (auto elim!: post_conseq intro: ahead_trans simp: merger_ahead_def)
  then show ?case
    using Suc.prems(1) by (auto intro!: reader_seq(5))
qed simp

lemma packed_field_ok: "merger_ok (packed_field fd)"
proof -
  have packed: "merger_ok (\<lambda>m s. packed_values (Suc (BufferSize s)) fd m s)"
    unfolding merger_ok_def BufferSize_def by (intro allI impI packed_values_ok) simp_all
  show ?thesis
    unfolding merger_ok_def packed_field_def post_bind [of _ _ "ReadVarint32 _"]
  proof (intro allI impI reader_seq(1))
    fix m s len s1
    assume "ahead s s1" "stream_ok s1"
    then show "total (merger_ahead s) (case (Some len, s1) of (len, s1) \<Rightarrow> case len of None \<Rightarrow> Inr (False, m, s1)
      | Some len \<Rightarrow> bind_res (PushLimit (sint len) s1) (\<lambda>(limit, s2).
          bind_res (packed_values (Suc (BufferSize s2)) fd m s2) (\<lambda>(ok, m', s3).
            if \<not> ok then Inr (False, m', s3) else bind_res (PopLimit limit s3) (\<lambda>s4. Inr (True, m', s4)))))"
      using limit_ok [OF packed, where stop = "\<lambda>ok s'. \<not> ok"] by simp
  qed simp_all
qed

lemma normal_field_ok:
  assumes "\<And>f d. deeper = Some f \<Longrightarrow> merger_ok (f d)"
  shows "merger_ok (normal_field deeper tag fd)"
proof -
  let ?sub = "case fd_message_type fd of None \<Rightarrow> None | Some d \<Rightarrow> map_option (\<lambda>f. f d) deeper"
  have sub: "merger_ok f" if "?sub = Some f" for f
    using that assms by (auto split: option.splits)
  show ?thesis
    unfolding merger_ok_def normal_field_def Let_def
    by (cases "fd_type fd"; auto intro!: reader_seq(1,5) string_seq merger_seq [OF ReadGroup_ok [OF sub]] merger_seq [OF ReadMessage_ok [OF sub]]
        simp del: ReadPrimitive.simps; metis ahead_trans)
qed

lemma parse_field_ok:
  assumes "\<And>f d. deeper = Some f \<Longrightarrow> merger_ok (f d)"
  shows "merger_ok (parse_field pool levels deeper d tag)"
proof -
  have normal: "merger_ok (normal_field deeper tag fd)" for fd
    by (rule normal_field_ok) (rule assms)
  have skip: "total (merger_ahead s) (bind_res (SkipField levels tag (msg_unknown m) s)
      (\<lambda>(ok, us, s'). Inr (ok, WireMessage (msg_fields m) us, s')))" if "stream_ok s" for m s
    unfolding post_bind by (rule merger_seq [OF SkipField_ok that]) simp
  show ?thesis
    unfolding merger_ok_def [of "parse_field _ _ _ _ _"] parse_field_def Let_def
    using skip merger_okD [OF normal] merger_okD [OF packed_field_ok]
    by (auto split: option.splits)
qed

lemma ParseAndMergeField_ok: "merger_ok (ParseAndMergeField levels pool d tag)"
proof (induction levels arbitrary: d tag)
  case 0
  show ?case using parse_field_ok [of None pool 0 d tag] by (simp add: merger_ok_def)
next
  case (Suc l)
  have "merger_ok (message_fields (ParseAndMergeField l pool d'))" for d'
    by (intro field_parser_merger_ok Suc)
  then show ?case
    using parse_field_ok [of "Some (\<lambda>d'. message_fields (ParseAndMergeField l pool d'))" pool "Suc l" d tag]
    by (auto simp add: merger_ok_def [of "ParseAndMergeField (Suc _) _ _ _"] merger_ok_def [of "parse_field _ _ _ _ _"])
qed

interpretation skip_message: field_parser "SkipField levels" for levels
  by unfold_locales (rule merger_okD [OF SkipField_ok])

interpretation parse_message: field_parser "ParseAndMergeField levels pool d" for levels pool d
  by unfold_locales (rule merger_okD [OF ParseAndMergeField_ok])

section \<open>The parser as a whole\<close>

lemma ParseAndMergePartial_ok: "merger_ok (ParseAndMergePartial levels pool d)"
  unfolding merger_ok_def ParseAndMergePartial_def by (intro allI impI parse_message.message_fields_ahead)

text \<open>C7. \<open>ParseFromArray\<close> is total: of any bytes up to 64 MB, of any message type, it returns, without
  reading outside of the array.\<close>

theorem ParseFromArray_returns:
  assumes "length data \<le> 2 ^ 26"
  shows "\<exists>ok m. ParseFromArray pool d data = Inr (ok, m)"
proof -
  have "stream_ok (CodedInputStream_init data)"
    using assms by (intro stream_ok_init) (simp add: total_bytes_limit_def)
  then obtain ok m s where "ParseAndMergePartial recursion_limit pool d empty_message (CodedInputStream_init data) = Inr (ok, m, s)"
    using merger_okE [OF ParseAndMergePartial_ok] by metis
  with assms show ?thesis by (simp add: ParseFromArray_def)
qed

theorem ParseFromArray_returns_witness:
  "\<exists>ok m. ParseFromArray (\<lambda>_ :: unit. []) () [8, 255, 255, 255] = Inr (ok, m)"
  by (rule ParseFromArray_returns) simp

end
