(* ===== verification/Wire_Encode.thy ===== *)
theory Wire_Encode
  imports Wire_Format
begin

text \<open>
  What the serialiser of theory Wire_Format writes: \<open>encode\<close> is the wire format as its documentation
  describes it, bytes with no buffer, no cached size and no check. \<open>ByteSize\<close> is its length, and the
  serialiser fills the buffer it has allocated with exactly these bytes.
\<close>

section \<open>Tags\<close>

definition tag_bytes :: "nat \<Rightarrow> nat \<Rightarrow> bytes" where
  "tag_bytes field_number type' = varint_bytes (unat (MakeTag field_number type'))"

lemma WireType_less_8 [simp]: "WireTypeForFieldType t < 8"
  by (cases t) (simp_all add: wiretype_defs)

lemma unat_MakeTag:
  assumes "t < 8"
  shows "unat (MakeTag n t) = 8 * (n mod 2 ^ 29) + t"
proof -
  have t: "unat (of_nat t :: uint32) = t" using assms by (simp add: unat_of_nat take_bit_nat_eq_self)
  have "push_bit 3 (of_nat n) OR of_nat t = push_bit 3 (of_nat n) + (of_nat t :: uint32)"
    by (rule or_eq_add) (use bit_of_small [of "of_nat t :: uint32" _ 3] t assms in \<open>force simp: bit_push_bit_iff\<close>)
  also have "\<dots> = of_nat (8 * n + t)" by (simp add: push_bit_eq_mult)
  finally have "MakeTag n t = of_nat (8 * n + t)" unfolding MakeTag_def .
  then have "unat (MakeTag n t) = (8 * n + t) mod 2 ^ 32"
    by (simp only: unat_of_nat take_bit_eq_mod) simp
  also have "\<dots> = 8 * (n mod 2 ^ 29) + t"
  proof -
    have "n mod 2 ^ 29 < 2 ^ 29" by simp
    then have "8 * (n mod 2 ^ 29) + t < 2 ^ 32" using assms by simp
    moreover have "(8 * n + t) mod 2 ^ 32 = (8 * (n mod 2 ^ 29) + t) mod 2 ^ 32"
    proof -
      define q r where "q = n div 2 ^ 29" and "r = n mod 2 ^ 29"
      then have "n = 2 ^ 29 * q + r" by simp
      then have "8 * n + t = (8 * r + t) + 2 ^ 32 * q" by simp
      then show ?thesis unfolding r_def [symmetric] by (metis mod_mult_self2)
    qed
    ultimately show ?thesis by simp
  qed
  finally show ?thesis .
qed

lemma GetTag_MakeTag:
  assumes "t < 8" "n < 2 ^ 29"
  shows "GetTagWireType (MakeTag n t) = t" "GetTagFieldNumber (MakeTag n t) = n"
proof -
  have u: "unat (MakeTag n t) = 8 * n + t" using assms by (simp add: unat_MakeTag)
  have "MakeTag n t AND 7 = take_bit 3 (MakeTag n t)"
    by (simp only: take_bit_eq_mask mask_eq_exp_minus_1) simp
  then have "unat (MakeTag n t AND 7) = take_bit 3 (unat (MakeTag n t))"
    by (simp only: unsigned_take_bit_eq)
  also have "\<dots> = t" using u assms by (simp add: take_bit_eq_mod)
  finally show "GetTagWireType (MakeTag n t) = t" by (simp add: GetTagWireType_def)
  show "GetTagFieldNumber (MakeTag n t) = n"
    using u assms by (simp add: GetTagFieldNumber_def unat_drop_bit_div)
qed

lemma MakeTag_nonzero: "t < 8 \<Longrightarrow> 0 < n \<Longrightarrow> n < 2 ^ 29 \<Longrightarrow> MakeTag n t \<noteq> 0"
  using unat_MakeTag [of t n] by auto

lemma MakeTag_inject:
  "t < 8 \<Longrightarrow> t' < 8 \<Longrightarrow> n < 2 ^ 29 \<Longrightarrow> n' < 2 ^ 29 \<Longrightarrow> MakeTag n t = MakeTag n' t' \<longleftrightarrow> n = n' \<and> t = t'"
  by (metis GetTag_MakeTag)

text \<open>The wire type does not matter to the length of a tag.\<close>

lemma length_varint_bytes_cong:
  "m < 128 \<longleftrightarrow> n < 128 \<Longrightarrow> m div 128 = n div 128 \<Longrightarrow> length (varint_bytes m) = length (varint_bytes n)"
  by (cases "n < 128") (simp_all add: varint_bytes_last varint_bytes_more)

lemma length_tag_bytes: "t < 8 \<Longrightarrow> VarintSize32 (push_bit 3 (of_nat n)) = length (tag_bytes n t)"
proof -
  assume t: "t < 8"
  have "unat (push_bit 3 (of_nat n) :: uint32) = 8 * (n mod 2 ^ 29)"
    using unat_MakeTag [of 0 n] by (simp add: MakeTag_def)
  moreover have "length (varint_bytes (8 * a)) = length (varint_bytes (8 * a + t))" for a
  proof (rule length_varint_bytes_cong)
    have "(8 * a + s) div 128 = a div 16" if "s < 8" for s
      using that div_mult2_eq [of "8 * a + s" 8 16] by simp
    from this [of 0] this [OF t] show "8 * a div 128 = (8 * a + t) div 128" by simp
  qed (use t in auto)
  ultimately show ?thesis
    using t by (simp add: VarintSize32_length tag_bytes_def unat_MakeTag)
qed

section \<open>The encoding\<close>

definition length_bytes :: "nat \<Rightarrow> bytes" where
  "length_bytes n = varint_bytes (unat (of_nat n :: uint32))"

lemma length_bytes_small: "n < 2 ^ 32 \<Longrightarrow> length_bytes n = varint_bytes n"
  by (simp add: length_bytes_def unat_of_nat take_bit_nat_eq_self)

fun primitive_bytes :: "field_type \<Rightarrow> wire_value \<Rightarrow> bytes" where
  "primitive_bytes TYPE_INT32 v = sign_extended_bytes (as_32 v)"
| "primitive_bytes TYPE_ENUM v = sign_extended_bytes (as_32 v)"
| "primitive_bytes TYPE_UINT32 v = varint_bytes (unat (as_32 v))"
| "primitive_bytes TYPE_SINT32 v = varint_bytes (unat (ZigZagEncode32 (as_32 v)))"
| "primitive_bytes TYPE_INT64 v = varint_bytes (unat (as_64 v))"
| "primitive_bytes TYPE_UINT64 v = varint_bytes (unat (as_64 v))"
| "primitive_bytes TYPE_SINT64 v = varint_bytes (unat (ZigZagEncode64 (as_64 v)))"
| "primitive_bytes TYPE_BOOL v = [if as_bool v then 1 else 0]"
| "primitive_bytes TYPE_FIXED32 v = WriteLittleEndian32ToArray (as_32 v)"
| "primitive_bytes TYPE_SFIXED32 v = WriteLittleEndian32ToArray (as_32 v)"
| "primitive_bytes TYPE_FLOAT v = WriteLittleEndian32ToArray (as_32 v)"
| "primitive_bytes TYPE_FIXED64 v = WriteLittleEndian64ToArray (as_64 v)"
| "primitive_bytes TYPE_SFIXED64 v = WriteLittleEndian64ToArray (as_64 v)"
| "primitive_bytes TYPE_DOUBLE v = WriteLittleEndian64ToArray (as_64 v)"
| "primitive_bytes TYPE_STRING v = length_bytes (length (as_string v)) @ as_string v"
| "primitive_bytes TYPE_BYTES v = length_bytes (length (as_string v)) @ as_string v"
| "primitive_bytes TYPE_GROUP _ = []"
| "primitive_bytes TYPE_MESSAGE _ = []"

fun encode_unknown :: "unknown_field \<Rightarrow> bytes" where
  "encode_unknown (UVarint n v) = tag_bytes n WIRETYPE_VARINT @ varint_bytes (unat v)"
| "encode_unknown (UFixed32 n v) = tag_bytes n WIRETYPE_FIXED32 @ WriteLittleEndian32ToArray v"
| "encode_unknown (UFixed64 n w) = tag_bytes n WIRETYPE_FIXED64 @ WriteLittleEndian64ToArray w"
| "encode_unknown (ULengthDelimited n v) = tag_bytes n WIRETYPE_LENGTH_DELIMITED @ length_bytes (length v) @ v"
| "encode_unknown (UGroup n us) =
     tag_bytes n WIRETYPE_START_GROUP @ concat (map encode_unknown us) @ tag_bytes n WIRETYPE_END_GROUP"

text \<open>A field, given the encoding of its values: one after the other with their tags, or packed.\<close>

definition encode_field :: "'d field_descriptor \<Rightarrow> bytes list \<Rightarrow> bytes" where
  "encode_field fd encoded =
     (if fd_packed fd \<and> encoded \<noteq> []
      then tag_bytes (fd_number fd) WIRETYPE_LENGTH_DELIMITED @ length_bytes (length (concat encoded)) @ concat encoded
      else concat encoded)"

function encode_value :: "'d pool \<Rightarrow> 'd field_descriptor \<Rightarrow> wire_value \<Rightarrow> bytes"
  and encode :: "'d pool \<Rightarrow> 'd \<Rightarrow> wire_message \<Rightarrow> bytes" where
  "encode_value pool fd v =
     (case (fd_type fd, v, fd_message_type fd) of
        (TYPE_GROUP, WMessage x, Some d) \<Rightarrow>
          tag_bytes (fd_number fd) WIRETYPE_START_GROUP @ encode pool d x @ tag_bytes (fd_number fd) WIRETYPE_END_GROUP
      | (TYPE_MESSAGE, WMessage x, Some d) \<Rightarrow>
          (let data = encode pool d x
           in tag_bytes (fd_number fd) WIRETYPE_LENGTH_DELIMITED @ length_bytes (length data) @ data)
      | _ \<Rightarrow>
          (if fd_packed fd then [] else tag_bytes (fd_number fd) (WireTypeForFieldType (fd_type fd))) @
          primitive_bytes (fd_type fd) v)"
| "encode pool d m =
     concat (map (\<lambda>fd. encode_field fd (map (encode_value pool fd) (get_values (fd_number fd) (msg_fields m))))
       (ListFields pool d m)) @ concat (map encode_unknown (msg_unknown m))"
  by pat_completeness auto
termination
  by (relation "measure (\<lambda>x. case x of Inl (_, _, v) \<Rightarrow> size v | Inr (_, _, m) \<Rightarrow> size m)")
    (auto simp: size_field_value)

declare encode_value.simps [simp del] encode.simps [simp del]

section \<open>Valid messages\<close>

text \<open>What protoc guarantees of the descriptors.\<close>

definition field_ok :: "'d field_descriptor \<Rightarrow> bool" where
  "field_ok fd \<longleftrightarrow> 0 < fd_number fd \<and> fd_number fd < 2 ^ 29 \<and> (fd_packed fd \<longrightarrow> is_packable fd) \<and>
     (fd_type fd \<in> {TYPE_GROUP, TYPE_MESSAGE} \<longleftrightarrow> fd_message_type fd \<noteq> None)"

definition pool_ok :: "'d pool \<Rightarrow> bool" where
  "pool_ok pool \<longleftrightarrow> (\<forall>d. distinct (map fd_number (pool d)) \<and> list_all field_ok (pool d))"

text \<open>
  What the classes guarantee of a message: values of the type of their field, one value if it is not
  repeated. An unknown field is one that the parser would not take for a known one, or an enum with a
  number that is not listed. \<open>l\<close> bounds the depth.
\<close>

definition valid_value :: "('d \<Rightarrow> wire_message \<Rightarrow> bool) \<Rightarrow> 'd field_descriptor \<Rightarrow> wire_value \<Rightarrow> bool" where
  "valid_value valid fd v =
     (case v of
        W32 e \<Rightarrow>
          fd_type fd \<in> {TYPE_INT32, TYPE_UINT32, TYPE_SINT32, TYPE_FIXED32, TYPE_SFIXED32, TYPE_FLOAT} \<or>
          fd_type fd = TYPE_ENUM \<and> e \<in> set (fd_enum_type fd)
      | W64 _ \<Rightarrow> fd_type fd \<in> {TYPE_INT64, TYPE_UINT64, TYPE_SINT64, TYPE_FIXED64, TYPE_SFIXED64, TYPE_DOUBLE}
      | WBool _ \<Rightarrow> fd_type fd = TYPE_BOOL
      | WString _ \<Rightarrow> fd_type fd \<in> {TYPE_STRING, TYPE_BYTES}
      | WMessage x \<Rightarrow>
          fd_type fd \<in> {TYPE_GROUP, TYPE_MESSAGE} \<and> (case fd_message_type fd of None \<Rightarrow> False | Some d \<Rightarrow> valid d x))"

fun unknown_number :: "unknown_field \<Rightarrow> nat" where
  "unknown_number (UVarint n _) = n"
| "unknown_number (UFixed32 n _) = n"
| "unknown_number (UFixed64 n _) = n"
| "unknown_number (ULengthDelimited n _) = n"
| "unknown_number (UGroup n _) = n"

fun unknown_wire_type :: "unknown_field \<Rightarrow> nat" where
  "unknown_wire_type (UVarint _ _) = WIRETYPE_VARINT"
| "unknown_wire_type (UFixed32 _ _) = WIRETYPE_FIXED32"
| "unknown_wire_type (UFixed64 _ _) = WIRETYPE_FIXED64"
| "unknown_wire_type (ULengthDelimited _ _) = WIRETYPE_LENGTH_DELIMITED"
| "unknown_wire_type (UGroup _ _) = WIRETYPE_START_GROUP"

definition tag_valid :: "nat \<Rightarrow> nat \<Rightarrow> bool" where
  "tag_valid n t \<longleftrightarrow> n < 2 ^ 29 \<and> MakeTag n t \<noteq> 0"

fun valid_unknown :: "nat \<Rightarrow> unknown_field \<Rightarrow> bool" where
  "valid_unknown l (UGroup n us) \<longleftrightarrow>
     n < 2 ^ 29 \<and> (case l of 0 \<Rightarrow> False | Suc k \<Rightarrow> list_all (\<lambda>u. valid_unknown k u) us)"
| "valid_unknown l u \<longleftrightarrow> tag_valid (unknown_number u) (unknown_wire_type u)"

definition not_recognised :: "'d pool \<Rightarrow> 'd \<Rightarrow> unknown_field \<Rightarrow> bool" where
  "not_recognised pool d u =
     (case FindFieldByNumber pool d (unknown_number u) of
        None \<Rightarrow> True
      | Some fd \<Rightarrow>
          unknown_wire_type u \<noteq> WireTypeForFieldType (fd_type fd) \<and>
            \<not> (is_packable fd \<and> unknown_wire_type u = WIRETYPE_LENGTH_DELIMITED) \<or>
          fd_type fd = TYPE_ENUM \<and>
            (case u of UVarint _ v \<Rightarrow> (scast (ucast v :: uint32) = v \<and> ucast v \<notin> set (fd_enum_type fd)) | _ \<Rightarrow> False))"

definition valid_fields :: "('d \<Rightarrow> wire_message \<Rightarrow> bool) \<Rightarrow> 'd pool \<Rightarrow> 'd \<Rightarrow> (nat \<times> wire_value list) list \<Rightarrow> bool" where
  "valid_fields valid pool d fs \<longleftrightarrow>
     sorted_wrt (<) (map fst fs) \<and>
     list_all (\<lambda>(n, vs). vs \<noteq> [] \<and>
       (case FindFieldByNumber pool d n of
          None \<Rightarrow> False
        | Some fd \<Rightarrow> (is_repeated fd \<or> length vs = 1) \<and> list_all (valid_value valid fd) vs)) fs"

primrec valid_message :: "nat \<Rightarrow> 'd pool \<Rightarrow> 'd \<Rightarrow> wire_message \<Rightarrow> bool" where
  "valid_message 0 pool d m \<longleftrightarrow>
     valid_fields (\<lambda>_ _. False) pool d (msg_fields m) \<and>
     list_all (\<lambda>u. not_recognised pool d u \<and> valid_unknown 0 u) (msg_unknown m)"
| "valid_message (Suc l) pool d m \<longleftrightarrow>
     valid_fields (valid_message l pool) pool d (msg_fields m) \<and>
     list_all (\<lambda>u. not_recognised pool d u \<and> valid_unknown (Suc l) u) (msg_unknown m)"

text \<open>One equation for both: \<open>valid_below l\<close> is what holds one level down.\<close>

definition valid_below :: "nat \<Rightarrow> 'd pool \<Rightarrow> 'd \<Rightarrow> wire_message \<Rightarrow> bool" where
  "valid_below l pool d m = (case l of 0 \<Rightarrow> False | Suc k \<Rightarrow> valid_message k pool d m)"

lemma valid_message_iff:
  "valid_message l pool d m \<longleftrightarrow> valid_fields (valid_below l pool) pool d (msg_fields m) \<and>
     list_all (\<lambda>u. not_recognised pool d u \<and> valid_unknown l u) (msg_unknown m)"
  by (cases l) (simp_all add: valid_below_def [abs_def])

declare valid_message.simps [simp del]

section \<open>Sizes\<close>

lemma PrimitiveSize_length: "PrimitiveSize t v = length (primitive_bytes t v)"
  by (cases t) (simp_all add: VarintSize32_length VarintSize64_length length_sign_extended length_bytes_def)

lemma UnknownFieldSize_length: "UnknownFieldSize u = length (encode_unknown u)"
  by (induction u)
    (simp_all add: VarintSize32_length VarintSize64_length length_bytes_def tag_bytes_def length_concat o_def cong: map_cong)

lemma ComputeUnknownFieldsSize_length: "ComputeUnknownFieldsSize us = length (concat (map encode_unknown us))"
  using arg_cong [of UnknownFieldSize "\<lambda>u. length (encode_unknown u)" "\<lambda>f. sum_list (map f us)"]
  by (simp add: ComputeUnknownFieldsSize_def fun_eq_iff UnknownFieldSize_length length_concat o_def)

lemma primitive_bytes_nonempty: "t \<notin> {TYPE_GROUP, TYPE_MESSAGE} \<Longrightarrow> primitive_bytes t v \<noteq> []"
  by (cases t) (simp_all add: sign_extended_bytes_def length_bytes_def WriteLittleEndian32ToArray_def
      WriteLittleEndian64ToArray_def Let_def)

lemma FindField_mem: "pool_ok pool \<Longrightarrow> fd \<in> set (pool d) \<Longrightarrow> FindFieldByNumber pool d (fd_number fd) = Some fd"
proof -
  have "find (\<lambda>x. fd_number x = fd_number fd) fds = Some fd"
    if "distinct (map fd_number fds)" "fd \<in> set fds" for fds
    using that by (induction fds) (auto simp: image_iff)
  then show "pool_ok pool \<Longrightarrow> fd \<in> set (pool d) \<Longrightarrow> ?thesis"
    by (simp add: FindFieldByNumber_def pool_ok_def)
qed

lemma get_values_mem: "get_values n fs \<noteq> [] \<Longrightarrow> (n, get_values n fs) \<in> set fs"
  by (induction n fs rule: get_values.induct) auto

lemma ListFields_mem: "fd \<in> set (ListFields pool d m) \<longleftrightarrow> fd \<in> set (pool d) \<and> HasField m fd"
  by (auto simp: ListFields_def)

lemma valid_field:
  assumes "pool_ok pool" "valid_message l pool d m" "fd \<in> set (ListFields pool d m)"
  shows "field_ok fd" "get_values (fd_number fd) (msg_fields m) \<noteq> []"
    "is_repeated fd \<or> length (get_values (fd_number fd) (msg_fields m)) = 1"
    "\<forall>v \<in> set (get_values (fd_number fd) (msg_fields m)). valid_value (valid_below l pool) fd v"
proof -
  let ?vs = "get_values (fd_number fd) (msg_fields m)"
  have fd: "fd \<in> set (pool d)" "?vs \<noteq> []" using assms(3) by (auto simp: ListFields_mem HasField_def)
  then show "field_ok fd" "?vs \<noteq> []" using assms(1) by (auto simp: pool_ok_def list_all_iff)
  have "is_repeated fd' \<or> length ?vs = 1" "list_all (valid_value (valid_below l pool) fd') ?vs"
    if "FindFieldByNumber pool d (fd_number fd) = Some fd'" for fd'
    using assms(2) get_values_mem [OF fd(2)] that by (auto simp: valid_message_iff valid_fields_def list_all_iff)
  from this [OF FindField_mem [OF assms(1) fd(1)]]
  show "is_repeated fd \<or> length ?vs = 1" "\<forall>v \<in> set ?vs. valid_value (valid_below l pool) fd v"
    by (simp_all add: list_all_iff)
qed

lemma valid_value_cases:
  assumes "field_ok fd" "valid_value valid fd v"
  obtains x d where "v = WMessage x" "fd_type fd \<in> {TYPE_GROUP, TYPE_MESSAGE}" "fd_message_type fd = Some d" "valid d x"
    "\<not> fd_packed fd"
  | "\<And>x. v \<noteq> WMessage x" "fd_type fd \<notin> {TYPE_GROUP, TYPE_MESSAGE}"
  using assms by (cases v) (auto simp: valid_value_def field_ok_def is_packable_def split: option.splits)

lemma encode_value_primitive:
  "fd_type fd \<notin> {TYPE_GROUP, TYPE_MESSAGE} \<Longrightarrow> encode_value pool fd v =
     (if fd_packed fd then [] else tag_bytes (fd_number fd) (WireTypeForFieldType (fd_type fd))) @ primitive_bytes (fd_type fd) v"
  by (subst encode_value.simps) (auto split: field_type.splits)

lemma encode_value_message:
  "encode_value pool fd (WMessage x) =
     (if fd_type fd = TYPE_GROUP
      then tag_bytes (fd_number fd) WIRETYPE_START_GROUP @ encode pool d x @ tag_bytes (fd_number fd) WIRETYPE_END_GROUP
      else tag_bytes (fd_number fd) WIRETYPE_LENGTH_DELIMITED @ length_bytes (length (encode pool d x)) @ encode pool d x)"
  if "fd_type fd \<in> {TYPE_GROUP, TYPE_MESSAGE}" "fd_message_type fd = Some d"
  using that by (subst encode_value.simps) (auto simp: Let_def)

lemma TagSize_length:
  "t < 8 \<Longrightarrow> type' \<noteq> TYPE_GROUP \<Longrightarrow> TagSize n type' = length (tag_bytes n t)"
  "TagSize n TYPE_GROUP = length (tag_bytes n WIRETYPE_START_GROUP) + length (tag_bytes n WIRETYPE_END_GROUP)"
proof -
  show "t < 8 \<Longrightarrow> type' \<noteq> TYPE_GROUP \<Longrightarrow> TagSize n type' = length (tag_bytes n t)"
    by (simp add: TagSize_def length_tag_bytes)
  have "VarintSize32 (push_bit 3 (of_nat n)) = length (tag_bytes n WIRETYPE_START_GROUP)"
    "VarintSize32 (push_bit 3 (of_nat n)) = length (tag_bytes n WIRETYPE_END_GROUP)"
    by (rule length_tag_bytes; simp add: wiretype_defs)+
  then show "TagSize n TYPE_GROUP = length (tag_bytes n WIRETYPE_START_GROUP) + length (tag_bytes n WIRETYPE_END_GROUP)"
    unfolding TagSize_def Let_def simp_thms if_True by linarith
qed

text \<open>One value, given that \<open>ByteSize\<close> is right one level down.\<close>

lemma ValueSize_length:
  assumes "field_ok fd" "valid_value valid fd v"
    and below: "\<And>d x. valid d x \<Longrightarrow> ByteSize pool d x = length (encode pool d x)"
  shows "ValueSize pool fd v + (if fd_packed fd then 0 else TagSize (fd_number fd) (fd_type fd)) = length (encode_value pool fd v)"
  using assms(1,2)
proof (cases rule: valid_value_cases)
  case (1 x d)
  then show ?thesis
    by (auto simp: ValueSize.simps encode_value_message below Let_def TagSize_length length_bytes_def VarintSize32_length
        TagSize_length(1) [of WIRETYPE_LENGTH_DELIMITED] wiretype_defs)
next
  case 2
  then have "ValueSize pool fd v = PrimitiveSize (fd_type fd) v"
    by (subst ValueSize.simps) (auto split: field_type.splits wire_value.splits)
  with 2 show ?thesis
    using TagSize_length(1) [OF WireType_less_8, of "fd_type fd" "fd_number fd" "fd_type fd"]
    by (simp add: encode_value_primitive PrimitiveSize_length)
qed

lemma data_size:
  assumes "\<And>v. v \<in> set vs \<Longrightarrow> size' v + (if p then 0 else k) = length (f v)"
  shows "sum_list (map size' vs) + (if p then 0 else length vs * k) = length (concat (map f vs))"
  using assms by (induction vs) (fastforce simp: add.assoc split: if_splits)+

theorem ByteSize_length:
  assumes "pool_ok pool" "valid_message l pool d m"
  shows "ByteSize pool d m = length (encode pool d m)"
  using assms(2)
proof (induction l arbitrary: d m rule: less_induct)
  case (less l)
  have below: "ByteSize pool d x = length (encode pool d x)" if "valid_below l pool d x" for d x
    using that less.IH by (auto simp: valid_below_def split: nat.splits)
  let ?vs = "\<lambda>fd. get_values (fd_number fd) (msg_fields m)"
  have field: "(let values = ?vs fd; data_size = sum_list (map (ValueSize pool fd) values)
      in if fd_packed fd
         then (if 0 < data_size then data_size + TagSize (fd_number fd) TYPE_STRING + VarintSize32 (of_nat data_size) else data_size)
         else data_size + length values * TagSize (fd_number fd) (fd_type fd)) =
      length (encode_field fd (map (encode_value pool fd) (?vs fd)))"
    if fd: "fd \<in> set (ListFields pool d m)" for fd
  proof -
    note f = valid_field [OF assms(1) less.prems fd]
    have size: "sum_list (map (ValueSize pool fd) (?vs fd)) +
        (if fd_packed fd then 0 else length (?vs fd) * TagSize (fd_number fd) (fd_type fd)) =
        length (concat (map (encode_value pool fd) (?vs fd)))"
      using ValueSize_length [OF f(1) _ below] f(4) by (intro data_size) blast
    show ?thesis
    proof (cases "fd_packed fd")
      case True
      then have "fd_type fd \<notin> {TYPE_GROUP, TYPE_MESSAGE}"
        using f(1) by (auto simp: field_ok_def is_packable_def)
      then have "concat (map (encode_value pool fd) (?vs fd)) \<noteq> []"
        using f(2) True by (cases "?vs fd") (simp_all add: encode_value_primitive primitive_bytes_nonempty)
      with size True f(2) show ?thesis
        by (simp add: encode_field_def Let_def TagSize_length(1) [of WIRETYPE_LENGTH_DELIMITED] wiretype_defs
            VarintSize32_length length_bytes_def)
    qed (use size in \<open>simp add: encode_field_def Let_def\<close>)
  qed
  show ?case
    by (simp add: ByteSize.simps encode.simps ComputeUnknownFieldsSize_length length_concat o_def field cong: map_cong)
qed

section \<open>The serialiser\<close>

text \<open>A writer of the bytes \<open>bs\<close>, if there is room for them.\<close>

definition writes :: "bytes \<Rightarrow> (coded_output \<Rightarrow> coded_output) \<Rightarrow> bool" where
  "writes bs f \<longleftrightarrow> (\<forall>o'. length bs \<le> co_room o' \<longrightarrow> f o' = output_in_place bs o')"

definition writes_res :: "bytes \<Rightarrow> (coded_output \<Rightarrow> coded_output res) \<Rightarrow> bool" where
  "writes_res bs f \<longleftrightarrow> (\<forall>o'. length bs \<le> co_room o' \<longrightarrow> f o' = Inr (output_in_place bs o'))"

lemma writes_comp: "writes a f \<Longrightarrow> writes b g \<Longrightarrow> writes (a @ b) (\<lambda>o'. g (f o'))"
  by (simp add: writes_def)

lemma writes_res_comp: "writes a f \<Longrightarrow> writes_res b g \<Longrightarrow> writes_res (a @ b) (\<lambda>o'. g (f o'))"
  by (simp add: writes_def writes_res_def)

lemma writes_res_bind: "writes_res a f \<Longrightarrow> writes_res b g \<Longrightarrow> writes_res (a @ b) (\<lambda>o'. bind_res (f o') g)"
  by (simp add: writes_res_def)

lemma writes_Inr: "writes a f \<Longrightarrow> writes_res a (\<lambda>o'. Inr (f o'))"
  by (simp add: writes_def writes_res_def)

lemma writes_Nil: "writes [] (\<lambda>o'. o')"
  by (simp add: writes_def)

lemma writes_fold: "(\<And>x. x \<in> set xs \<Longrightarrow> writes (g x) (f x)) \<Longrightarrow> writes (concat (map g xs)) (fold f xs)"
  by (induction xs) (auto simp: writes_def)

lemma writes_all: "(\<And>x. x \<in> set xs \<Longrightarrow> writes_res (g x) (f x)) \<Longrightarrow> writes_res (concat (map g xs)) (write_all f xs)"
  by (induction xs) (auto simp: writes_res_def)

lemma writes_basic:
  "writes bs (WriteRaw bs)" "writes (tag_bytes n t) (WriteTag n t)" "writes (length_bytes k) (WriteVarint32 (of_nat k))"
  "writes (varint_bytes (unat w)) (WriteVarint64 w)" "writes (WriteLittleEndian32ToArray v) (WriteLittleEndian32 v)"
  "writes (WriteLittleEndian64ToArray w) (WriteLittleEndian64 w)"
  "writes (varint_bytes (unat v)) (WriteVarint32 v)" "writes (sign_extended_bytes v) (WriteVarint32SignExtended v)"
  by (simp_all add: writes_def write_ok tag_bytes_def length_bytes_def WriteTag_def)

lemma bool_bytes: "varint_bytes (unat (if b then 1 else 0 :: uint32)) = [if b then 1 else 0]"
  by (cases b) (simp_all add: varint_bytes_last)

lemma WritePrimitive_writes: "writes (primitive_bytes t v) (WritePrimitiveNoTag t v)"
proof -
  have string: "writes (length_bytes (length s) @ s) (\<lambda>o'. WriteRaw s (WriteVarint32 (of_nat (length s)) o'))" for s
    by (intro writes_comp writes_basic)
  show ?thesis
    using writes_basic(4,5,6,7,8) writes_basic(7) [of "if as_bool v then 1 else 0"] string
    by (cases t) (simp_all add: writes_def bool_bytes)
qed

lemma SerializeUnknownField_writes: "writes (encode_unknown u) (SerializeUnknownField u)"
proof (induction u)
  case (UGroup n us)
  have "writes (concat (map encode_unknown us)) (fold SerializeUnknownField us)"
    by (intro writes_fold UGroup)
  then have "writes ((tag_bytes n WIRETYPE_START_GROUP @ concat (map encode_unknown us)) @ tag_bytes n WIRETYPE_END_GROUP)
      (\<lambda>o'. WriteTag n WIRETYPE_END_GROUP (fold SerializeUnknownField us (WriteTag n WIRETYPE_START_GROUP o')))"
    by (intro writes_comp writes_basic)
  then show ?case by (simp add: writes_def)
next
  case (ULengthDelimited n v)
  have "writes ((tag_bytes n WIRETYPE_LENGTH_DELIMITED @ length_bytes (length v)) @ v)
      (\<lambda>o'. WriteRaw v (WriteVarint32 (of_nat (length v)) (WriteTag n WIRETYPE_LENGTH_DELIMITED o')))"
    by (intro writes_comp writes_basic)
  then show ?case by (simp add: writes_def)
qed (use writes_comp [OF writes_basic(2) writes_basic(4)] writes_comp [OF writes_basic(2) writes_basic(5)]
    writes_comp [OF writes_basic(2) writes_basic(6)] in \<open>simp_all add: writes_def\<close>)

lemma SerializeUnknownFields_writes: "writes (concat (map encode_unknown us)) (SerializeUnknownFields us)"
  unfolding SerializeUnknownFields_def [abs_def] by (intro writes_fold SerializeUnknownField_writes)

lemma SerializeValue_writes:
  assumes "pool_ok pool" "field_ok fd" "valid_value (valid_below l pool) fd v"
    and below: "\<And>d x. valid_below l pool d x \<Longrightarrow> writes_res (encode pool d x) (SerializeWithCachedSizes pool d x)"
  shows "writes_res (encode_value pool fd v) (SerializeValue pool fd v)"
  using assms(2,3)
proof (cases rule: valid_value_cases)
  case (1 x d)
  have size: "ByteSize pool d x = length (encode pool d x)"
    using 1(4) ByteSize_length [OF assms(1)] by (auto simp: valid_below_def split: nat.splits)
  have "writes_res ((tag_bytes (fd_number fd) WIRETYPE_START_GROUP @ encode pool d x) @ tag_bytes (fd_number fd) WIRETYPE_END_GROUP)
      (\<lambda>o'. bind_res (SerializeWithCachedSizes pool d x (WriteTag (fd_number fd) WIRETYPE_START_GROUP o'))
        (\<lambda>o''. Inr (WriteTag (fd_number fd) WIRETYPE_END_GROUP o'')))"
    by (intro writes_res_bind writes_res_comp writes_Inr writes_basic below [OF 1(4)])
  moreover have "writes_res ((tag_bytes (fd_number fd) WIRETYPE_LENGTH_DELIMITED @ length_bytes (length (encode pool d x))) @ encode pool d x)
      (\<lambda>o'. SerializeWithCachedSizes pool d x (WriteVarint32 (of_nat (length (encode pool d x)))
        (WriteTag (fd_number fd) WIRETYPE_LENGTH_DELIMITED o')))"
    by (intro writes_res_comp writes_comp writes_basic below [OF 1(4)])
  ultimately show ?thesis
    using 1 by (auto simp: SerializeValue.simps encode_value_message writes_res_def size)
next
  case 2
  then have "SerializeValue pool fd v o' = Inr (WritePrimitiveNoTag (fd_type fd) v
      (if fd_packed fd then o' else WriteTag (fd_number fd) (WireTypeForFieldType (fd_type fd)) o'))" for o'
    by (subst SerializeValue.simps) (auto split: field_type.splits wire_value.splits)
  with 2 show ?thesis
    using WritePrimitive_writes [of "fd_type fd" v]
      writes_comp [OF writes_basic(2) WritePrimitive_writes, of "fd_number fd" "WireTypeForFieldType (fd_type fd)" "fd_type fd" v]
    by (simp add: encode_value_primitive writes_def writes_res_def)
qed

lemma field_data_size:
  assumes "pool_ok pool" "valid_message l pool d m" "fd \<in> set (ListFields pool d m)" "fd_packed fd"
  shows "sum_list (map (ValueSize pool fd) (get_values (fd_number fd) (msg_fields m))) =
    length (concat (map (encode_value pool fd) (get_values (fd_number fd) (msg_fields m))))"
proof -
  have "ByteSize pool d x = length (encode pool d x)" if "valid_below l pool d x" for d x
    using that ByteSize_length [OF assms(1)] by (auto simp: valid_below_def split: nat.splits)
  then have "ValueSize pool fd v + (if True then 0 else 0) = length (encode_value pool fd v)"
    if "v \<in> set (get_values (fd_number fd) (msg_fields m))" for v
    using ValueSize_length [OF valid_field(1) [OF assms(1-3)], of "valid_below l pool" v pool] that
      valid_field(4) [OF assms(1-3)] assms(4) by simp
  from data_size [of _ "ValueSize pool fd" True, OF this] show ?thesis by simp
qed

theorem SerializeWithCachedSizes_writes:
  assumes "pool_ok pool" "valid_message l pool d m"
  shows "writes_res (encode pool d m) (SerializeWithCachedSizes pool d m)"
  using assms(2)
proof (induction l arbitrary: d m rule: less_induct)
  case (less l)
  have below: "writes_res (encode pool d x) (SerializeWithCachedSizes pool d x)" if "valid_below l pool d x" for d x
    using that less.IH by (auto simp: valid_below_def split: nat.splits)
  let ?vs = "\<lambda>fd. get_values (fd_number fd) (msg_fields m)"
  have field: "writes_res (encode_field fd (map (encode_value pool fd) (?vs fd))) (\<lambda>o'.
      let values = ?vs fd; data_size = sum_list (map (ValueSize pool fd) values)
      in write_all (\<lambda>v o'. SerializeValue pool fd v o') values
           (if fd_packed fd \<and> values \<noteq> []
            then WriteVarint32 (of_nat data_size) (WriteTag (fd_number fd) WIRETYPE_LENGTH_DELIMITED o') else o'))"
    if fd: "fd \<in> set (ListFields pool d m)" for fd
  proof -
    note f = valid_field [OF assms(1) less.prems fd]
    let ?data = "concat (map (encode_value pool fd) (?vs fd))"
    have data: "writes_res ?data (write_all (\<lambda>v o'. SerializeValue pool fd v o') (?vs fd))"
      using f(1,4) below by (intro writes_all SerializeValue_writes [OF assms(1)]) auto
    have header: "writes (tag_bytes (fd_number fd) WIRETYPE_LENGTH_DELIMITED @ length_bytes (length ?data))
        (\<lambda>o'. WriteVarint32 (of_nat (length ?data)) (WriteTag (fd_number fd) WIRETYPE_LENGTH_DELIMITED o'))"
      by (intro writes_comp writes_basic)
    from data writes_res_comp [OF header data] show ?thesis
      using field_data_size [OF assms(1) less.prems fd] f(2) by (simp add: encode_field_def Let_def)
  qed
  have "writes_res (concat (map (\<lambda>fd. encode_field fd (map (encode_value pool fd) (?vs fd))) (ListFields pool d m)))
      (write_all (\<lambda>fd o'. let values = ?vs fd; data_size = sum_list (map (ValueSize pool fd) values)
      in write_all (\<lambda>v o'. SerializeValue pool fd v o') values
           (if fd_packed fd \<and> values \<noteq> []
            then WriteVarint32 (of_nat data_size) (WriteTag (fd_number fd) WIRETYPE_LENGTH_DELIMITED o') else o'))
        (ListFields pool d m))"
    by (intro writes_all field)
  then show ?case
    using SerializeUnknownFields_writes [of "msg_unknown m"] ByteSize_length [OF assms(1) less.prems]
    by (simp add: writes_res_def writes_def SerializeWithCachedSizes.simps encode.simps output_in_place_def)
qed

lemma SerializeAsString_bytes:
  assumes "pool_ok pool" "valid_message l pool d m" "length (encode pool d m) < 2 ^ 31"
  shows "SerializeAsString pool d m = Inr (encode pool d m)"
  using SerializeWithCachedSizes_writes [OF assms(1,2)] assms(3)
  by (simp add: SerializeAsString_def ByteSize_length [OF assms(1,2)] writes_res_def CodedOutputStream_init_def
      output_in_place_def)

text \<open>C8. \<open>SerializeAsString\<close> writes the reference encoding: none of its checks fails, up to the size that
  overflows.\<close>

theorem SerializeAsString_refines_encode:
  assumes "pool_ok pool" "valid_message l pool d m"
  shows "SerializeAsString pool d m =
    (if length (encode pool d m) < 2 ^ 31 then Inr (encode pool d m) else Inl (UB ''signed overflow of the size''))"
  using SerializeAsString_bytes [OF assms]
  by (auto simp: SerializeAsString_def ByteSize_length [OF assms] not_less)

text \<open>A message type with an optional number and repeated strings, and a message of it that has one field more.\<close>

definition sample_pool :: "unit pool" where
  "sample_pool d =
     [\<lparr>fd_number = 1, fd_label = LABEL_OPTIONAL, fd_type = TYPE_UINT32, fd_packed = False, fd_enum_type = [], fd_message_type = None\<rparr>,
      \<lparr>fd_number = 2, fd_label = LABEL_REPEATED, fd_type = TYPE_STRING, fd_packed = False, fd_enum_type = [], fd_message_type = None\<rparr>]"

definition sample_message :: wire_message where
  "sample_message = WireMessage [(1, [W32 100]), (2, [WString [65], WString []])] [UVarint 3 5]"

lemma sample_ok: "pool_ok sample_pool"
  by (simp add: sample_pool_def pool_ok_def field_ok_def)

lemma sample_valid: "valid_message l sample_pool () sample_message"
  by (simp add: sample_message_def sample_pool_def valid_message_iff valid_fields_def FindFieldByNumber_def valid_value_def
      is_repeated_def not_recognised_def tag_valid_def MakeTag_def wiretype_defs)

lemma sample_encode: "encode sample_pool () sample_message = [8, 100, 18, 1, 65, 18, 0, 24, 5]"
  by (simp add: sample_message_def sample_pool_def encode.simps ListFields_def HasField_def encode_field_def encode_value_primitive
      tag_bytes_def length_bytes_def MakeTag_def wiretype_defs varint_bytes_last)

theorem SerializeAsString_refines_encode_witness:
  "SerializeAsString sample_pool () sample_message = Inr [8, 100, 18, 1, 65, 18, 0, 24, 5]"
  using SerializeAsString_refines_encode [OF sample_ok sample_valid] by (simp add: sample_encode)

end
