(* ===== verification/Wire_Roundtrip.thy ===== *)
theory Wire_Roundtrip
  imports Wire_Safe Wire_Encode
begin

text \<open>
  The parser of theory Wire_Format on the reference encoding of theory Wire_Encode: reading the bytes of a
  message into an object merges the message into it, as \<open>MergeFrom\<close> does. Parsing what was serialised
  gives the message back, two encodings one after the other parse as their merge.
\<close>

section \<open>Readers on encoded values\<close>

lemma ReadTag_tag:
  assumes "stream_ok s" "ci_buffer s = tag_bytes n t @ rest"
  shows "ReadTag s = Inr (MakeTag n t, s\<lparr>ci_buffer := rest, ci_last_tag := MakeTag n t\<rparr>)"
  using ReadTag_ok [OF assms(1)] assms(2) by (simp add: tag_bytes_def varint_varint_bytes_32)

lemma ReadTag_end:
  assumes "stream_ok s" "ci_buffer s = []"
  shows "ReadTag s = Inr (0, s\<lparr>ci_last_tag := 0, ci_legitimate_message_end := True\<rparr>)"
proof -
  have "s\<lparr>ci_buffer := []\<rparr> = s" using assms(2) by (cases s) simp
  with ReadTag_ok [OF assms(1)] assms(2) show ?thesis by (auto simp: ac_simps)
qed

lemma ReadVarint_bytes:
  assumes "stream_ok s"
  shows "ci_buffer s = varint_bytes (unat v) @ rest \<Longrightarrow> ReadVarint32 s = Inr (Some v, s\<lparr>ci_buffer := rest\<rparr>)"
    and "ci_buffer s = varint_bytes (unat w) @ rest \<Longrightarrow> ReadVarint64 s = Inr (Some w, s\<lparr>ci_buffer := rest\<rparr>)"
    and "ci_buffer s = varint_bytes (unat w) @ rest \<Longrightarrow> ReadVarint32 s = Inr (Some (ucast w), s\<lparr>ci_buffer := rest\<rparr>)"
  using ReadVarint32_ok [OF assms] ReadVarint64_ok [OF assms] ucast_of_nat_64_32 [of "unat w"]
  by (simp_all add: reads_varint_def varint_varint_bytes_32 varint_varint_bytes_64)

lemma ucast_scast: "ucast (scast v :: uint64) = v" for v :: uint32
  by (rule bit_word_eqI) (auto simp: bit_ucast_iff bit_signed_iff)

lemma ReadVarint32_sign_extended:
  "stream_ok s \<Longrightarrow> ci_buffer s = sign_extended_bytes v @ rest \<Longrightarrow> ReadVarint32 s = Inr (Some v, s\<lparr>ci_buffer := rest\<rparr>)"
  using ReadVarint_bytes(3) [of s "scast v" rest] by (simp add: sign_extended_bytes_def ucast_scast)

lemma ReadLittleEndian_bytes:
  assumes "stream_ok s"
  shows "ci_buffer s = WriteLittleEndian32ToArray v @ rest \<Longrightarrow> ReadLittleEndian32 s = Inr (Some v, s\<lparr>ci_buffer := rest\<rparr>)"
    and "ci_buffer s = WriteLittleEndian64ToArray w @ rest \<Longrightarrow> ReadLittleEndian64 s = Inr (Some w, s\<lparr>ci_buffer := rest\<rparr>)"
  using ReadLittleEndian_value(1,2) [OF assms] by (simp_all add: ReadLittleEndian32_write ReadLittleEndian64_write)

lemma ReadVarint64_bool:
  "stream_ok s \<Longrightarrow> ci_buffer s = (if b then 1 else 0) # rest \<Longrightarrow>
    ReadVarint64 s = Inr (Some (if b then 1 else 0), s\<lparr>ci_buffer := rest\<rparr>)"
  using ReadVarint_bytes(2) [of s "if b then 1 else 0" rest] by (cases b) (simp_all add: varint_bytes_last)

lemma stream_length: "stream_ok s \<Longrightarrow> length (ci_buffer s) \<le> 2 ^ 26"
  by (simp add: stream_ok_def total_bytes_limit_def)

lemma sint_length: "n \<le> 2 ^ 26 \<Longrightarrow> sint (of_nat n :: uint32) = int n"
  by (simp add: signed_of_nat signed_take_bit_int_eq_self)

lemma ReadLength:
  assumes "stream_ok s" "ci_buffer s = length_bytes (length p) @ p @ rest"
  obtains len where "ReadVarint32 s = Inr (Some len, s\<lparr>ci_buffer := p @ rest\<rparr>)" "sint len = int (length p)"
proof
  show "ReadVarint32 s = Inr (Some (of_nat (length p)), s\<lparr>ci_buffer := p @ rest\<rparr>)"
    using ReadVarint_bytes(1) assms by (simp add: length_bytes_def)
  show "sint (of_nat (length p) :: uint32) = int (length p)"
    using stream_length [OF assms(1)] assms(2) by (intro sint_length) simp
qed

lemma ReadString_bytes:
  "ci_buffer s = p @ rest \<Longrightarrow> ReadStringInline (int (length p)) s = Inr (True, p, s\<lparr>ci_buffer := rest\<rparr>)"
  by (simp add: ReadStringInline_def BufferSize_def Advance_def)

lemma ReadPrimitive_bytes:
  assumes "stream_ok s" "valid_value valid fd v" "fd_type fd \<notin> {TYPE_STRING, TYPE_BYTES, TYPE_GROUP, TYPE_MESSAGE}"
    and "ci_buffer s = primitive_bytes (fd_type fd) v @ rest"
  shows "ReadPrimitive (fd_type fd) s = Inr (Some v, s\<lparr>ci_buffer := rest\<rparr>)"
  using assms
  by (cases v; cases "fd_type fd")
    (simp_all add: valid_value_def map_value_def ReadVarint_bytes(1,2) ReadVarint32_sign_extended ReadLittleEndian_bytes
      ReadVarint64_bool ZigZag_roundtrip)

section \<open>Consuming an encoding\<close>

text \<open>
  The loop over the fields takes the bytes \<open>bs\<close> off the stream, whatever follows them, and the object
  from \<open>m\<close> to \<open>m'\<close>; only the last tag it has read is lost.
\<close>

definition consumes :: "(uint32 \<Rightarrow> 'm merger) \<Rightarrow> 'm \<Rightarrow> 'm \<Rightarrow> bytes \<Rightarrow> bool" where
  "consumes F m m' bs \<longleftrightarrow> (\<forall>s rest. stream_ok s \<and> \<not> ci_legitimate_message_end s \<and> ci_buffer s = bs @ rest \<longrightarrow>
     (\<exists>t. message_fields F m s = message_fields F m' (s\<lparr>ci_buffer := rest, ci_last_tag := t\<rparr>)))"

lemma consumesE:
  assumes "consumes F m m' bs" "stream_ok s" "\<not> ci_legitimate_message_end s" "ci_buffer s = bs @ rest"
  obtains t where "message_fields F m s = message_fields F m' (s\<lparr>ci_buffer := rest, ci_last_tag := t\<rparr>)"
  using assms by (auto simp: consumes_def)

lemma consumes_Nil: "consumes F m m []"
  unfolding consumes_def
proof (intro allI impI, elim conjE)
  fix s :: coded_input and rest
  assume "ci_buffer s = [] @ rest"
  then have "s\<lparr>ci_buffer := rest, ci_last_tag := ci_last_tag s\<rparr> = s" by (cases s) simp
  then show "\<exists>t. message_fields F m s = message_fields F m (s\<lparr>ci_buffer := rest, ci_last_tag := t\<rparr>)" by metis
qed

lemma consumes_trans:
  assumes "consumes F m m' a" "consumes F m' m'' b"
  shows "consumes F m m'' (a @ b)"
  unfolding consumes_def
proof (intro allI impI, elim conjE)
  fix s :: coded_input and rest
  assume s: "stream_ok s" "\<not> ci_legitimate_message_end s" "ci_buffer s = (a @ b) @ rest"
  obtain t where t: "message_fields F m s = message_fields F m' (s\<lparr>ci_buffer := b @ rest, ci_last_tag := t\<rparr>)"
    using assms(1) s(1,2) by (rule consumesE) (use s(3) in simp)
  have "stream_ok (s\<lparr>ci_buffer := b @ rest\<rparr>)"
    using s(1,3) by (intro stream_ok_buffer) simp_all
  then obtain t' where "message_fields F m' (s\<lparr>ci_buffer := b @ rest, ci_last_tag := t\<rparr>) =
      message_fields F m'' (s\<lparr>ci_buffer := b @ rest, ci_last_tag := t, ci_buffer := rest, ci_last_tag := t'\<rparr>)"
    using assms(2) [unfolded consumes_def, rule_format, of "s\<lparr>ci_buffer := b @ rest, ci_last_tag := t\<rparr>" rest] s(2) by auto
  with t show "\<exists>t. message_fields F m s = message_fields F m'' (s\<lparr>ci_buffer := rest, ci_last_tag := t\<rparr>)" by auto
qed

lemma consumes_fold:
  "(\<And>x m. x \<in> set xs \<Longrightarrow> consumes F m (f x m) (g x)) \<Longrightarrow> consumes F m (fold f xs m) (concat (map g xs))"
proof (induction xs arbitrary: m)
  case (Cons x xs)
  from consumes_trans [OF Cons.prems [of x m] Cons.IH [of "f x m"]] Cons.prems show ?case by simp
qed (simp add: consumes_Nil)

text \<open>A field is consumed if its parser, called after the tag, takes the data that follows.\<close>

lemma consumes_field:
  assumes "field_parser F" "tag_valid n t" "t < 8" "t \<noteq> WIRETYPE_END_GROUP"
    and F: "\<And>s rest. stream_ok s \<Longrightarrow> \<not> ci_legitimate_message_end s \<Longrightarrow> ci_buffer s = data @ rest \<Longrightarrow>
      \<exists>t'. F (MakeTag n t) m s = Inr (True, m', s\<lparr>ci_buffer := rest, ci_last_tag := t'\<rparr>)"
  shows "consumes F m m' (tag_bytes n t @ data)"
  unfolding consumes_def
proof (intro allI impI, elim conjE)
  fix s :: coded_input and rest
  assume s: "stream_ok s" "\<not> ci_legitimate_message_end s" "ci_buffer s = (tag_bytes n t @ data) @ rest"
  let ?s = "s\<lparr>ci_buffer := data @ rest, ci_last_tag := MakeTag n t\<rparr>"
  have tag: "ReadTag s = Inr (MakeTag n t, ?s)" using ReadTag_tag [OF s(1)] s(3) by simp
  have "stream_ok (s\<lparr>ci_buffer := data @ rest\<rparr>)" using s(1,3) by (intro stream_ok_buffer) simp_all
  then obtain t' where "F (MakeTag n t) m ?s = Inr (True, m', ?s\<lparr>ci_buffer := rest, ci_last_tag := t'\<rparr>)"
    using F [of ?s rest] s(2) by auto
  with assms(2-4) show "\<exists>t. message_fields F m s = message_fields F m' (s\<lparr>ci_buffer := rest, ci_last_tag := t\<rparr>)"
    by (auto simp: field_parser.message_fields_unfold [OF assms(1) s(1)] tag tag_valid_def GetTag_MakeTag)
qed

text \<open>Then the loop goes up to the end of the buffer, or an end-group tag.\<close>

lemma consumes_to_end:
  assumes "field_parser F" "consumes F m m' bs" "stream_ok s" "\<not> ci_legitimate_message_end s" "ci_buffer s = bs"
  shows "message_fields F m s = Inr (True, m', s\<lparr>ci_buffer := [], ci_last_tag := 0, ci_legitimate_message_end := True\<rparr>)"
proof -
  obtain t where t: "message_fields F m s = message_fields F m' (s\<lparr>ci_buffer := [], ci_last_tag := t\<rparr>)"
    using assms(2-4) by (rule consumesE) (simp add: assms(5))
  have "stream_ok (s\<lparr>ci_buffer := [], ci_last_tag := t\<rparr>)" using assms(3) by (simp add: stream_ok_buffer)
  then show ?thesis
    by (simp add: t field_parser.message_fields_unfold [OF assms(1)] ReadTag_end)
qed

lemma consumes_to_group_end:
  assumes "field_parser F" "consumes F m m' bs" "stream_ok s" "\<not> ci_legitimate_message_end s"
    and "ci_buffer s = bs @ tag_bytes n WIRETYPE_END_GROUP @ rest" "n < 2 ^ 29"
  shows "message_fields F m s = Inr (True, m', s\<lparr>ci_buffer := rest, ci_last_tag := MakeTag n WIRETYPE_END_GROUP\<rparr>)"
proof -
  obtain t where t: "message_fields F m s =
      message_fields F m' (s\<lparr>ci_buffer := tag_bytes n WIRETYPE_END_GROUP @ rest, ci_last_tag := t\<rparr>)"
    using assms(2-5) by (rule consumesE)
  have "stream_ok (s\<lparr>ci_buffer := tag_bytes n WIRETYPE_END_GROUP @ rest, ci_last_tag := t\<rparr>)"
    using assms(3,5) stream_ok_buffer [OF assms(3), of "tag_bytes n WIRETYPE_END_GROUP @ rest"] by simp
  moreover have "GetTagWireType (MakeTag n WIRETYPE_END_GROUP) = WIRETYPE_END_GROUP"
    using assms(6) by (simp add: GetTag_MakeTag WIRETYPE_END_GROUP_def)
  ultimately show ?thesis
    by (simp add: t field_parser.message_fields_unfold [OF assms(1)] ReadTag_tag)
qed

lemma field_parser_fields: "field_parser (SkipField l)" "field_parser (ParseAndMergeField l pool d)"
  by (unfold_locales; rule merger_okD [OF SkipField_ok] merger_okD [OF ParseAndMergeField_ok]; assumption)+

section \<open>Unknown fields\<close>

fun unknown_data :: "unknown_field \<Rightarrow> bytes" where
  "unknown_data (UVarint n v) = varint_bytes (unat v)"
| "unknown_data (UFixed32 n v) = WriteLittleEndian32ToArray v"
| "unknown_data (UFixed64 n w) = WriteLittleEndian64ToArray w"
| "unknown_data (ULengthDelimited n v) = length_bytes (length v) @ v"
| "unknown_data (UGroup n us) = concat (map encode_unknown us) @ tag_bytes n WIRETYPE_END_GROUP"

lemma encode_unknown_tag: "encode_unknown u = tag_bytes (unknown_number u) (unknown_wire_type u) @ unknown_data u"
  by (cases u) simp_all

lemma unknown_wire_type_ok: "unknown_wire_type u < 8" "unknown_wire_type u \<noteq> WIRETYPE_END_GROUP"
  by (cases u; simp add: wiretype_defs)+

lemma valid_unknown_tag: "valid_unknown l u \<Longrightarrow> tag_valid (unknown_number u) (unknown_wire_type u)"
  using unat_MakeTag [of WIRETYPE_START_GROUP "unknown_number u"]
  by (cases "(l, u)" rule: valid_unknown.cases) (auto simp: tag_valid_def wiretype_defs split: nat.splits)

lemma SkipField_tag:
  "n < 2 ^ 29 \<Longrightarrow> t < 8 \<Longrightarrow> skip_field deeper (MakeTag n t) us s =
     (if t = WIRETYPE_VARINT then
        bind_res (ReadVarint64 s) (\<lambda>(v, s'). case v of
          None \<Rightarrow> Inr (False, us, s') | Some v \<Rightarrow> Inr (True, us @ [UVarint n v], s'))
      else if t = WIRETYPE_FIXED64 then
        bind_res (ReadLittleEndian64 s) (\<lambda>(v, s'). case v of
          None \<Rightarrow> Inr (False, us, s') | Some v \<Rightarrow> Inr (True, us @ [UFixed64 n v], s'))
      else if t = WIRETYPE_LENGTH_DELIMITED then
        bind_res (ReadVarint32 s) (\<lambda>(len, s'). case len of
          None \<Rightarrow> Inr (False, us, s')
        | Some len \<Rightarrow> bind_res (ReadStringInline (sint len) s') (\<lambda>(ok, str, s'').
            Inr (ok, us @ [ULengthDelimited n str], s'')))
      else if t = WIRETYPE_START_GROUP then
        (if deeper = None then Inr (False, us, s)
         else bind_res (ReadGroup deeper n [] s) (\<lambda>(ok, group, s'). Inr (ok, us @ [UGroup n group], s')))
      else if t = WIRETYPE_FIXED32 then
        bind_res (ReadLittleEndian32 s) (\<lambda>(v, s'). case v of
          None \<Rightarrow> Inr (False, us, s') | Some v \<Rightarrow> Inr (True, us @ [UFixed32 n v], s'))
      else Inr (False, us, s))"
  by (simp add: skip_field_def Let_def GetTag_MakeTag)

lemma same_tag: "s = s\<lparr>ci_last_tag := ci_last_tag s\<rparr>" for s :: coded_input
  by simp

text \<open>A field that is not a group, however deep.\<close>

lemma skip_flat:
  assumes "valid_unknown l u" "\<And>n us. u \<noteq> UGroup n us" "stream_ok s" "ci_buffer s = unknown_data u @ rest"
  shows "skip_field deeper (MakeTag (unknown_number u) (unknown_wire_type u)) us s = Inr (True, us @ [u], s\<lparr>ci_buffer := rest\<rparr>)"
proof -
  have n: "unknown_number u < 2 ^ 29" using valid_unknown_tag [OF assms(1)] by (simp add: tag_valid_def)
  note tag = SkipField_tag [OF n unknown_wire_type_ok(1) [of u], of deeper us s]
  show ?thesis
  proof (cases u)
    case (ULengthDelimited k p)
    with assms(4) have "ci_buffer s = length_bytes (length p) @ p @ rest" by simp
    then obtain len where "ReadVarint32 s = Inr (Some len, s\<lparr>ci_buffer := p @ rest\<rparr>)" "sint len = int (length p)"
      using ReadLength [OF assms(3)] by blast
    then show ?thesis
      using tag ULengthDelimited ReadString_bytes [of "s\<lparr>ci_buffer := p @ rest\<rparr>" p rest]
      by (simp add: wiretype_defs)
  qed (use tag assms(2-4) in \<open>simp_all add: wiretype_defs
      ReadVarint_bytes(2) ReadLittleEndian_bytes\<close>)
qed

theorem SkipField_consumes:
  assumes "valid_unknown l u"
  shows "stream_ok s \<Longrightarrow> \<not> ci_legitimate_message_end s \<Longrightarrow> ci_buffer s = unknown_data u @ rest \<Longrightarrow>
      \<exists>t. SkipField l (MakeTag (unknown_number u) (unknown_wire_type u)) us s = Inr (True, us @ [u], s\<lparr>ci_buffer := rest, ci_last_tag := t\<rparr>)"
  using assms
proof (induction l arbitrary: u us s rest)
  case 0
  then have "\<And>n us. u \<noteq> UGroup n us" by auto
  then show ?case
    using skip_flat [OF 0(4) _ 0(1,3)] by (auto intro!: exI [of _ "ci_last_tag s"])
next
  case (Suc l)
  show ?case
  proof (cases u)
    case (UGroup n us')
    then have n: "n < 2 ^ 29" and us': "\<forall>u \<in> set us'. valid_unknown l u"
      using Suc.prems(4) by (auto simp: list_all_iff)
    have one: "consumes (SkipField l) us (us @ [u]) (encode_unknown u)" if "valid_unknown l u" for u us
      unfolding encode_unknown_tag
      by (intro consumes_field field_parser_fields valid_unknown_tag [OF that] unknown_wire_type_ok Suc.IH that)
    have "consumes (SkipField l) [] (fold (\<lambda>u us. us @ [u]) us' []) (concat (map encode_unknown us'))"
      using us' by (intro consumes_fold one) simp
    moreover have "fold (\<lambda>u us. us @ [u]) us' [] = us'" by (induction us' rule: rev_induct) simp_all
    ultimately have "message_fields (SkipField l) [] s =
        Inr (True, us', s\<lparr>ci_buffer := rest, ci_last_tag := MakeTag n WIRETYPE_END_GROUP\<rparr>)"
      using Suc.prems(1-3) UGroup n by (intro consumes_to_group_end field_parser_fields) simp_all
    then show ?thesis
      using UGroup n by (auto simp: SkipField_tag wiretype_defs ReadGroup_def)
  qed (use skip_flat [OF Suc.prems(4) _ Suc.prems(1,3)] in \<open>auto intro!: exI [of _ "ci_last_tag s"]\<close>)
qed

section \<open>Fields of a message\<close>

definition one_deeper :: "nat \<Rightarrow> 'd pool \<Rightarrow> ('d \<Rightarrow> wire_message merger) option" where
  "one_deeper l pool = (case l of 0 \<Rightarrow> None | Suc k \<Rightarrow> Some (\<lambda>d. message_fields (ParseAndMergeField k pool d)))"

lemma ParseAndMergeField_iff: "ParseAndMergeField l pool d tag m s = parse_field pool l (one_deeper l pool) d tag m s"
  by (cases l) (simp_all add: one_deeper_def)

text \<open>What \<open>MergeFrom\<close> merges is consumed, at the levels below \<open>l\<close>.\<close>

definition consumes_below :: "nat \<Rightarrow> 'd pool \<Rightarrow> bool" where
  "consumes_below l pool \<longleftrightarrow> (\<forall>k d x m. k < l \<longrightarrow> valid_message k pool d x \<longrightarrow>
     consumes (ParseAndMergeField k pool d) m (MergeFrom pool d x m) (encode pool d x))"

lemma PopLimit_back:
  assumes "stream_ok s" "\<not> ci_legitimate_message_end s" "ci_buffer s = bs @ rest"
  shows "PushLimit (int (length bs)) s = Inr (ci_current_limit s, narrow (length bs) s)"
    "PopLimit (ci_current_limit s) ((narrow (length bs) s)\<lparr>ci_buffer := [], ci_last_tag := t, ci_legitimate_message_end := b\<rparr>) =
      Inr (s\<lparr>ci_buffer := rest, ci_last_tag := t\<rparr>)"
proof -
  have "limit_length (int (length bs)) s = length bs" using assms(3) by (simp add: limit_length_def)
  with PushLimit_ok [OF assms(1)] show "PushLimit (int (length bs)) s = Inr (ci_current_limit s, narrow (length bs) s)" by simp
  let ?s = "(narrow (length bs) s)\<lparr>ci_buffer := [], ci_last_tag := t, ci_legitimate_message_end := b\<rparr>"
  have "s\<lparr>ci_buffer := rest, ci_last_tag := t, ci_legitimate_message_end := False\<rparr> = s\<lparr>ci_buffer := rest, ci_last_tag := t\<rparr>"
    using assms(2) by (cases s) simp
  moreover have "ahead (narrow (length bs) s) ?s" by simp
  ultimately show "PopLimit (ci_current_limit s) ?s = Inr (s\<lparr>ci_buffer := rest, ci_last_tag := t\<rparr>)"
    using PopLimit_ok [OF assms(1), of "length bs" ?s] assms(3) by simp
qed

lemma narrow_buffer: "ci_buffer s = bs @ rest \<Longrightarrow> ci_buffer (narrow (length bs) s) = bs"
  "ci_legitimate_message_end (narrow n s) = ci_legitimate_message_end s"
  by (simp_all add: narrow_def)

lemma ReadMessage_consumes:
  assumes "field_parser F" "consumes F m m' bs" "stream_ok s" "\<not> ci_legitimate_message_end s"
    and "ci_buffer s = length_bytes (length bs) @ bs @ rest"
  shows "ReadMessage (Some (message_fields F)) m s = Inr (True, m', s\<lparr>ci_buffer := rest, ci_last_tag := 0\<rparr>)"
proof -
  obtain len where len: "ReadVarint32 s = Inr (Some len, s\<lparr>ci_buffer := bs @ rest\<rparr>)" "sint len = int (length bs)"
    using assms(3,5) by (rule ReadLength)
  let ?s = "s\<lparr>ci_buffer := bs @ rest\<rparr>"
  have s: "stream_ok ?s" "\<not> ci_legitimate_message_end ?s" "ci_buffer ?s = bs @ rest"
    using assms(3-5) by (simp_all add: stream_ok_buffer)
  note limit = PopLimit_back(1) [OF s] PopLimit_back(2) [OF s, where t = 0 and b = True]
  have "message_fields F m (narrow (length bs) ?s) =
      Inr (True, m', (narrow (length bs) ?s)\<lparr>ci_buffer := [], ci_last_tag := 0, ci_legitimate_message_end := True\<rparr>)"
    using s narrow_buffer(1) [OF s(3)] by (intro consumes_to_end [OF assms(1,2)]) (simp_all add: stream_ok_narrow narrow_buffer)
  with len limit show ?thesis by (simp add: ReadMessage_def)
qed

lemma ReadGroup_consumes:
  assumes "field_parser F" "consumes F m m' bs" "stream_ok s" "\<not> ci_legitimate_message_end s" "n < 2 ^ 29"
    and "ci_buffer s = bs @ tag_bytes n WIRETYPE_END_GROUP @ rest"
  shows "ReadGroup (Some (message_fields F)) n m s =
    Inr (True, m', s\<lparr>ci_buffer := rest, ci_last_tag := MakeTag n WIRETYPE_END_GROUP\<rparr>)"
  by (simp add: ReadGroup_def consumes_to_group_end [OF assms(1-4,6,5)])

text \<open>The bytes of a value after its tag.\<close>

definition value_data :: "'d pool \<Rightarrow> 'd field_descriptor \<Rightarrow> wire_value \<Rightarrow> bytes" where
  "value_data pool fd v =
     (case (v, fd_message_type fd) of
        (WMessage x, Some d) \<Rightarrow>
          if fd_type fd = TYPE_GROUP then encode pool d x @ tag_bytes (fd_number fd) WIRETYPE_END_GROUP
          else length_bytes (length (encode pool d x)) @ encode pool d x
      | _ \<Rightarrow> primitive_bytes (fd_type fd) v)"

lemma encode_value_tag:
  assumes "field_ok fd" "valid_value valid fd v" "\<not> fd_packed fd"
  shows "encode_value pool fd v = tag_bytes (fd_number fd) (WireTypeForFieldType (fd_type fd)) @ value_data pool fd v"
  using assms(1,2) by (cases rule: valid_value_cases)
    (auto simp: encode_value_message encode_value_primitive value_data_def assms(3) split: wire_value.split)

lemma merge_value_primitive: "(\<And>x. v \<noteq> WMessage x) \<Longrightarrow> merge_value pool fd v m = put_value fd v m"
  by (subst merge_value.simps) (auto split: wire_value.split)

lemma merge_value_message:
  "fd_message_type fd = Some d \<Longrightarrow> merge_value pool fd (WMessage x) m = put_value fd (WMessage (MergeFrom pool d x (sub_message fd m))) m"
  by (subst merge_value.simps) simp

lemma normal_field_message:
  assumes "field_ok fd" "fd_type fd \<in> {TYPE_GROUP, TYPE_MESSAGE}" "fd_message_type fd = Some d"
    "valid_below l pool d x" "consumes_below l pool" "stream_ok s" "\<not> ci_legitimate_message_end s"
    "ci_buffer s = value_data pool fd (WMessage x) @ rest"
  shows "\<exists>t. normal_field (one_deeper l pool) (MakeTag (fd_number fd) (WireTypeForFieldType (fd_type fd))) fd m s =
    Inr (True, merge_value pool fd (WMessage x) m, s\<lparr>ci_buffer := rest, ci_last_tag := t\<rparr>)"
proof -
  obtain k where l: "l = Suc k" and x: "valid_message k pool d x"
    using assms(4) by (auto simp: valid_below_def split: nat.splits)
  let ?F = "ParseAndMergeField k pool d" and ?sub = "sub_message fd m"
  have c: "consumes ?F ?sub (MergeFrom pool d x ?sub) (encode pool d x)"
    using assms(5) x l by (simp add: consumes_below_def)
  have n: "fd_number fd < 2 ^ 29" using assms(1) by (simp add: field_ok_def)
  show ?thesis
  proof (cases "fd_type fd = TYPE_GROUP")
    case True
    then have "ReadGroup (Some (message_fields ?F)) (fd_number fd) ?sub s =
        Inr (True, MergeFrom pool d x ?sub, s\<lparr>ci_buffer := rest, ci_last_tag := MakeTag (fd_number fd) WIRETYPE_END_GROUP\<rparr>)"
      using assms(3,8) by (intro ReadGroup_consumes [OF field_parser_fields(2) c assms(6,7) n]) (simp add: value_data_def)
    with True show ?thesis
      using n by (auto simp: normal_field_def one_deeper_def l assms(3) merge_value_message GetTag_MakeTag wiretype_defs)
  next
    case False
    with assms(2) have type: "fd_type fd = TYPE_MESSAGE" by simp
    have "ReadMessage (Some (message_fields ?F)) ?sub s = Inr (True, MergeFrom pool d x ?sub, s\<lparr>ci_buffer := rest, ci_last_tag := 0\<rparr>)"
      using assms(3,8) type by (intro ReadMessage_consumes [OF field_parser_fields(2) c assms(6,7)]) (simp add: value_data_def)
    with type show ?thesis
      by (auto simp: normal_field_def one_deeper_def l assms(3) merge_value_message)
  qed
qed

lemma normal_field_primitive:
  assumes "valid_value valid fd v" "\<And>x. v \<noteq> WMessage x" "stream_ok s" "ci_buffer s = value_data pool fd v @ rest"
  shows "normal_field deeper tag fd m s = Inr (True, merge_value pool fd v m, s\<lparr>ci_buffer := rest\<rparr>)"
proof -
  have data: "ci_buffer s = primitive_bytes (fd_type fd) v @ rest"
    using assms(2,4) by (auto simp: value_data_def split: wire_value.splits)
  have type: "fd_type fd \<notin> {TYPE_GROUP, TYPE_MESSAGE}"
    using assms(1,2) by (cases v) (auto simp: valid_value_def)
  show ?thesis
  proof (cases "fd_type fd \<in> {TYPE_STRING, TYPE_BYTES}")
    case True
    with assms(1,2) obtain p where p: "v = WString p" by (cases v) (auto simp: valid_value_def)
    with True data have "ci_buffer s = length_bytes (length p) @ p @ rest" by auto
    then obtain len where "ReadVarint32 s = Inr (Some len, s\<lparr>ci_buffer := p @ rest\<rparr>)" "sint len = int (length p)"
      using ReadLength [OF assms(3)] by blast
    with True p show ?thesis
      using ReadString_bytes [of "s\<lparr>ci_buffer := p @ rest\<rparr>" p rest]
      by (auto simp: normal_field_def merge_value_primitive)
  next
    case False
    then have r: "ReadPrimitive (fd_type fd) s = Inr (Some v, s\<lparr>ci_buffer := rest\<rparr>)"
      using type data by (intro ReadPrimitive_bytes [OF assms(3,1)]) auto
    show ?thesis
    proof (cases "fd_type fd = TYPE_ENUM")
      case True
      with assms(1) obtain e where e: "v = W32 e" "e \<in> set (fd_enum_type fd)" by (cases v) (auto simp: valid_value_def)
      moreover from this True data have "ReadVarint32 s = Inr (Some e, s\<lparr>ci_buffer := rest\<rparr>)"
        using ReadVarint32_sign_extended [OF assms(3)] by simp
      ultimately show ?thesis using True by (simp add: normal_field_def merge_value_primitive)
    next
      case enum: False
      then show ?thesis
        using r type False
        by (cases "fd_type fd") (simp_all add: normal_field_def merge_value_primitive assms(2) del: ReadPrimitive.simps)
    qed
  qed
qed

lemma packed_values_bytes:
  assumes "fd_type fd \<notin> {TYPE_STRING, TYPE_BYTES, TYPE_GROUP, TYPE_MESSAGE}"
  shows "\<forall>v \<in> set vs. valid_value valid fd v \<Longrightarrow> stream_ok s \<Longrightarrow> ci_buffer s = concat (map (primitive_bytes (fd_type fd)) vs) \<Longrightarrow>
    length (ci_buffer s) < n \<Longrightarrow> packed_values n fd m s = Inr (True, fold (put_value fd) vs m, s\<lparr>ci_buffer := []\<rparr>)"
proof (induction vs arbitrary: n m s)
  case Nil
  moreover from Nil have "s\<lparr>ci_buffer := []\<rparr> = s" by (cases s) simp
  ultimately show ?case by (cases n) (simp_all add: BytesUntilLimit_ok)
next
  case (Cons v vs)
  let ?rest = "concat (map (primitive_bytes (fd_type fd)) vs)"
  obtain k where n: "n = Suc k" using Cons.prems(4) by (cases n) auto
  have long: "length ?rest < length (ci_buffer s)"
    using Cons.prems(3) primitive_bytes_nonempty [of "fd_type fd" v] assms by simp
  then have "stream_ok (s\<lparr>ci_buffer := ?rest\<rparr>)" using Cons.prems(2) by (simp add: stream_ok_buffer)
  then have rest: "packed_values k fd (put_value fd v m) (s\<lparr>ci_buffer := ?rest\<rparr>) =
      Inr (True, fold (put_value fd) vs (put_value fd v m), s\<lparr>ci_buffer := []\<rparr>)"
    using Cons.IH [of "s\<lparr>ci_buffer := ?rest\<rparr>"] Cons.prems(1,4) long n by simp
  have v: "valid_value valid fd v" using Cons.prems(1) by simp
  have "ReadPrimitive (fd_type fd) s = Inr (Some v, s\<lparr>ci_buffer := ?rest\<rparr>)"
    using Cons.prems(3) by (intro ReadPrimitive_bytes [OF Cons.prems(2) v assms]) simp
  moreover have "(case v of W32 e \<Rightarrow> if fd_type fd = TYPE_ENUM \<and> e \<notin> set (fd_enum_type fd) then m else put_value fd v m
      | _ \<Rightarrow> put_value fd v m) = put_value fd v m"
    using v by (cases v) (auto simp: valid_value_def)
  moreover have "0 < BytesUntilLimit s" using long by (auto simp: BytesUntilLimit_ok [OF Cons.prems(2)])
  ultimately show ?case by (simp add: n rest)
qed

lemma packed_field_bytes:
  assumes "fd_type fd \<notin> {TYPE_STRING, TYPE_BYTES, TYPE_GROUP, TYPE_MESSAGE}" "\<forall>v \<in> set vs. valid_value valid fd v"
    "stream_ok s" "\<not> ci_legitimate_message_end s" "bs = concat (map (primitive_bytes (fd_type fd)) vs)"
    "ci_buffer s = length_bytes (length bs) @ bs @ rest"
  shows "\<exists>t. packed_field fd m s = Inr (True, fold (put_value fd) vs m, s\<lparr>ci_buffer := rest, ci_last_tag := t\<rparr>)"
proof -
  obtain len where len: "ReadVarint32 s = Inr (Some len, s\<lparr>ci_buffer := bs @ rest\<rparr>)" "sint len = int (length bs)"
    using assms(3,6) by (rule ReadLength)
  let ?s = "s\<lparr>ci_buffer := bs @ rest\<rparr>"
  have s: "stream_ok ?s" "\<not> ci_legitimate_message_end ?s" "ci_buffer ?s = bs @ rest"
    using assms(3,4,6) by (simp_all add: stream_ok_buffer)
  let ?n = "narrow (length bs) ?s"
  have "?n\<lparr>ci_buffer := []\<rparr> = ?n\<lparr>ci_buffer := [], ci_last_tag := ci_last_tag s, ci_legitimate_message_end := False\<rparr>"
    using s(2) by (cases s) (simp add: narrow_def)
  moreover have "packed_values (Suc (BufferSize ?n)) fd m ?n = Inr (True, fold (put_value fd) vs m, ?n\<lparr>ci_buffer := []\<rparr>)"
    using narrow_buffer(1) [OF s(3)] assms(5)
    by (intro packed_values_bytes [OF assms(1,2) stream_ok_narrow [OF s(1)]]) (simp_all add: BufferSize_def)
  ultimately show ?thesis
    using len PopLimit_back(1) [OF s] PopLimit_back(2) [OF s, where t = "ci_last_tag s" and b = False]
    by (auto simp: packed_field_def simp del: packed_values.simps intro!: exI [of _ "ci_last_tag s"])
qed

lemma merge_fold_primitive:
  "(\<And>v x. v \<in> set vs \<Longrightarrow> v \<noteq> WMessage x) \<Longrightarrow> fold (merge_value pool fd) vs m = fold (put_value fd) vs m"
  by (intro fold_cong refl ext) (auto simp: merge_value_primitive)

lemma packable_type: "is_packable fd \<Longrightarrow> fd_type fd \<notin> {TYPE_STRING, TYPE_BYTES, TYPE_GROUP, TYPE_MESSAGE}"
  "is_packable fd \<Longrightarrow> WireTypeForFieldType (fd_type fd) \<noteq> WIRETYPE_LENGTH_DELIMITED"
  by (auto simp: is_packable_def) (cases "fd_type fd"; simp add: wiretype_defs)

lemma WireType_no_end: "WireTypeForFieldType t \<noteq> WIRETYPE_END_GROUP"
  by (cases t) (simp_all add: wiretype_defs)

lemma field_consumes:
  assumes "field_ok fd" "FindFieldByNumber pool d (fd_number fd) = Some fd" "vs \<noteq> []"
    "\<forall>v \<in> set vs. valid_value (valid_below l pool) fd v" "consumes_below l pool"
  shows "consumes (ParseAndMergeField l pool d) m (fold (merge_value pool fd) vs m)
    (encode_field fd (map (encode_value pool fd) vs))"
proof -
  have n: "0 < fd_number fd" "fd_number fd < 2 ^ 29" using assms(1) by (simp_all add: field_ok_def)
  then have tag: "tag_valid (fd_number fd) t" if "t < 8" for t
    using that by (simp add: tag_valid_def MakeTag_nonzero)
  show ?thesis
  proof (cases "fd_packed fd")
    case False
    have one: "consumes (ParseAndMergeField l pool d) m (merge_value pool fd v m) (encode_value pool fd v)"
      if v: "v \<in> set vs" for v m
      unfolding encode_value_tag [OF assms(1) assms(4) [rule_format, OF v] False]
    proof (intro consumes_field field_parser_fields tag WireType_less_8 WireType_no_end)
      fix s :: coded_input and rest
      assume s: "stream_ok s" "\<not> ci_legitimate_message_end s" "ci_buffer s = value_data pool fd v @ rest"
      have "\<exists>t. normal_field (one_deeper l pool) (MakeTag (fd_number fd) (WireTypeForFieldType (fd_type fd))) fd m s =
        Inr (True, merge_value pool fd v m, s\<lparr>ci_buffer := rest, ci_last_tag := t\<rparr>)"
        using assms(1) assms(4) [rule_format, OF v]
      proof (cases rule: valid_value_cases)
        case (1 x d')
        with s show ?thesis using normal_field_message [OF assms(1) 1(2-4) assms(5) s(1,2)] by simp
      next
        case 2
        with normal_field_primitive [OF assms(4) [rule_format, OF v] 2(1) s(1,3)]
        show ?thesis by (auto intro!: exI [of _ "ci_last_tag s"])
      qed
      then show "\<exists>t. ParseAndMergeField l pool d (MakeTag (fd_number fd) (WireTypeForFieldType (fd_type fd))) m s =
        Inr (True, merge_value pool fd v m, s\<lparr>ci_buffer := rest, ci_last_tag := t\<rparr>)"
        using n by (simp add: ParseAndMergeField_iff parse_field_def GetTag_MakeTag assms(2))
    qed
    then show ?thesis
      using False by (simp add: encode_field_def) (intro consumes_fold)
  next
    case True
    then have packable: "is_packable fd" using assms(1) by (simp add: field_ok_def)
    note type = packable_type(1) [OF packable]
    let ?bs = "concat (map (primitive_bytes (fd_type fd)) vs)"
    have encode: "encode_field fd (map (encode_value pool fd) vs) =
        tag_bytes (fd_number fd) WIRETYPE_LENGTH_DELIMITED @ (length_bytes (length ?bs) @ ?bs)"
      using True type assms(3) by (simp add: encode_field_def encode_value_primitive cong: map_cong)
    have merge: "fold (merge_value pool fd) vs m = fold (put_value fd) vs m"
      using assms(4) type by (intro merge_fold_primitive) (auto simp: valid_value_def)
    show ?thesis
      unfolding encode merge
    proof (intro consumes_field field_parser_fields tag)
      fix s :: coded_input and rest
      assume s: "stream_ok s" "\<not> ci_legitimate_message_end s" "ci_buffer s = (length_bytes (length ?bs) @ ?bs) @ rest"
      have "\<exists>t. packed_field fd m s = Inr (True, fold (put_value fd) vs m, s\<lparr>ci_buffer := rest, ci_last_tag := t\<rparr>)"
        by (rule packed_field_bytes [OF type assms(4) s(1,2) refl]) (use s(3) in simp)
      then show "\<exists>t. ParseAndMergeField l pool d (MakeTag (fd_number fd) WIRETYPE_LENGTH_DELIMITED) m s =
        Inr (True, fold (put_value fd) vs m, s\<lparr>ci_buffer := rest, ci_last_tag := t\<rparr>)"
        using n packable_type(2) [OF packable] packable
        by (simp add: ParseAndMergeField_iff parse_field_def GetTag_MakeTag assms(2) WIRETYPE_LENGTH_DELIMITED_def)
    qed (simp_all add: wiretype_defs)
  qed
qed

section \<open>Whole messages\<close>

lemma FindField_number: "FindFieldByNumber pool d n = Some fd \<Longrightarrow> fd_number fd = n"
  by (auto simp: FindFieldByNumber_def find_Some_iff)

lemma unknown_consumes:
  assumes "not_recognised pool d u" "valid_unknown l u"
  shows "consumes (ParseAndMergeField l pool d) m (add_unknown u m) (encode_unknown u)"
  unfolding encode_unknown_tag
proof (intro consumes_field field_parser_fields valid_unknown_tag [OF assms(2)] unknown_wire_type_ok)
  fix s :: coded_input and rest
  assume s: "stream_ok s" "\<not> ci_legitimate_message_end s" "ci_buffer s = unknown_data u @ rest"
  let ?n = "unknown_number u" and ?t = "unknown_wire_type u"
  have n: "?n < 2 ^ 29" using valid_unknown_tag [OF assms(2)] by (simp add: tag_valid_def)
  note tag = GetTag_MakeTag [OF unknown_wire_type_ok(1) n]
  obtain t where skip: "SkipField l (MakeTag ?n ?t) (msg_unknown m) s =
      Inr (True, msg_unknown m @ [u], s\<lparr>ci_buffer := rest, ci_last_tag := t\<rparr>)"
    using SkipField_consumes [OF assms(2) s] by blast
  show "\<exists>t. ParseAndMergeField l pool d (MakeTag ?n ?t) m s = Inr (True, add_unknown u m, s\<lparr>ci_buffer := rest, ci_last_tag := t\<rparr>)"
  proof (cases "\<exists>fd. FindFieldByNumber pool d ?n = Some fd \<and> ?t = WireTypeForFieldType (fd_type fd)")
    case True
    then obtain fd where fd: "FindFieldByNumber pool d ?n = Some fd" "?t = WireTypeForFieldType (fd_type fd)" by blast
    with assms(1) obtain v where u: "u = UVarint ?n v" and v: "scast (ucast v :: uint32) = v" "ucast v \<notin> set (fd_enum_type fd)"
        and type: "fd_type fd = TYPE_ENUM"
      by (cases u) (auto simp: not_recognised_def)
    have "ReadVarint32 s = Inr (Some (ucast v), s\<lparr>ci_buffer := rest\<rparr>)"
      using ReadVarint_bytes(3) [OF s(1), of v rest] s(3) u by (metis unknown_data.simps(1))
    then have "normal_field (one_deeper l pool) (MakeTag ?n ?t) fd m s = Inr (True, add_unknown (UVarint ?n v) m, s\<lparr>ci_buffer := rest\<rparr>)"
      using type v by (simp add: normal_field_def tag)
    with fd u n show ?thesis
      by (auto simp: ParseAndMergeField_iff parse_field_def Let_def GetTag_MakeTag intro!: exI [of _ "ci_last_tag s"])
  next
    case False
    with assms(1) have "FindFieldByNumber pool d ?n = None \<or> (\<exists>fd. FindFieldByNumber pool d ?n = Some fd \<and>
        ?t \<noteq> WireTypeForFieldType (fd_type fd) \<and> \<not> (is_packable fd \<and> ?t = WIRETYPE_LENGTH_DELIMITED))"
      by (cases u) (auto simp: not_recognised_def split: option.splits)
    then show ?thesis
      using skip by (auto simp: ParseAndMergeField_iff parse_field_def tag add_unknown_def)
  qed
qed

lemma fold_add_unknown: "fold add_unknown us m = WireMessage (msg_fields m) (msg_unknown m @ us)"
  by (induction us arbitrary: m) (auto simp: add_unknown_def)

text \<open>Parsing the encoding of a message is merging the message.\<close>

theorem parse_merges:
  assumes "pool_ok pool" "valid_message l pool d x"
  shows "consumes (ParseAndMergeField l pool d) m (MergeFrom pool d x m) (encode pool d x)"
  using assms(2)
proof (induction l arbitrary: d x m rule: less_induct)
  case (less l)
  have below: "consumes_below l pool" using less.IH by (auto simp: consumes_below_def)
  let ?vs = "\<lambda>fd. get_values (fd_number fd) (msg_fields x)"
  let ?fields = "\<lambda>m. fold (\<lambda>fd. fold (merge_value pool fd) (?vs fd)) (ListFields pool d x) m"
  have "consumes (ParseAndMergeField l pool d) m (?fields m)
      (concat (map (\<lambda>fd. encode_field fd (map (encode_value pool fd) (?vs fd))) (ListFields pool d x)))"
  proof (intro consumes_fold)
    fix fd m assume fd: "fd \<in> set (ListFields pool d x)"
    note f = valid_field [OF assms(1) less.prems fd]
    show "consumes (ParseAndMergeField l pool d) m (fold (merge_value pool fd) (?vs fd) m)
        (encode_field fd (map (encode_value pool fd) (?vs fd)))"
      using fd by (intro field_consumes f(1,2,4) below FindField_mem [OF assms(1)]) (simp add: ListFields_mem)
  qed
  moreover have "consumes (ParseAndMergeField l pool d) (?fields m) (fold add_unknown (msg_unknown x) (?fields m))
      (concat (map encode_unknown (msg_unknown x)))"
    using less.prems by (intro consumes_fold unknown_consumes) (auto simp: valid_message_iff list_all_iff)
  moreover have "MergeFrom pool d x m = fold add_unknown (msg_unknown x) (?fields m)"
    by (simp add: MergeFrom.simps fold_add_unknown Let_def)
  ultimately show ?case by (simp add: encode.simps consumes_trans)
qed

end
