(* ===== verification/Wire_Parse.thy ===== *)
theory Wire_Parse
  imports Wire_Roundtrip
begin

text \<open>
  What follows for \<open>ParseFromArray\<close>: round trips, bytes of two messages one after the other, and the
  inputs it refuses.
\<close>

section \<open>Merging into an empty object\<close>

lemma set_values_last:
  assumes "\<forall>k \<in> fst ` set fs. k < n"
  shows "set_values n ws fs = fs @ [(n, ws)]" "set_values n ws (fs @ [(n, us)]) = fs @ [(n, ws)]"
    "get_values n (fs @ [(n, us)]) = us" "get_values n fs = []"
  using assms by (induction fs) auto

lemma merge_values_fresh:
  assumes "\<forall>k \<in> fst ` set (msg_fields m). k < fd_number fd" "vs \<noteq> []" "is_repeated fd \<or> length vs = 1"
    and merge: "\<And>v m. v \<in> set vs \<Longrightarrow> is_repeated fd \<or> get_values (fd_number fd) (msg_fields m) = [] \<Longrightarrow>
      merge_value pool fd v m = put_value fd v m"
  shows "fold (merge_value pool fd) vs m = WireMessage (msg_fields m @ [(fd_number fd, vs)]) (msg_unknown m)"
proof (cases "is_repeated fd")
  case True
  have *: "fold (merge_value pool fd) ws (WireMessage (msg_fields m @ [(fd_number fd, us)]) (msg_unknown m)) =
      WireMessage (msg_fields m @ [(fd_number fd, us @ ws)]) (msg_unknown m)" if "set ws \<subseteq> set vs" for us ws
    using that
    by (induction ws arbitrary: us) (simp_all add: merge True put_value_def set_values_last [OF assms(1)])
  obtain v ws where vs: "vs = v # ws" using assms(2) by (cases vs) auto
  have "merge_value pool fd v m = WireMessage (msg_fields m @ [(fd_number fd, [v])]) (msg_unknown m)"
    using vs True by (simp add: merge put_value_def set_values_last [OF assms(1)])
  with * [of ws "[v]"] vs show ?thesis by auto
next
  case False
  with assms(3) obtain v where "vs = [v]" by (cases vs) auto
  then show ?thesis using False by (simp add: merge put_value_def set_values_last [OF assms(1)])
qed

lemma get_values_sorted:
  "sorted_wrt (<) (map fst fs) \<Longrightarrow> map (\<lambda>n. (n, get_values n fs)) (map fst fs) = fs" for fs :: "(nat \<times> 'v list) list"
proof (induction fs)
  case (Cons f fs)
  have "map (\<lambda>n. (n, get_values n (f # fs))) (map fst fs) = map (\<lambda>n. (n, get_values n fs)) (map fst fs)"
    using Cons.prems by (cases f) (auto intro!: map_cong)
  also have "\<dots> = fs" using Cons by simp
  finally show ?case by (cases f) simp
qed simp

lemma ListFields_numbers:
  assumes "pool_ok pool" "valid_message l pool d x"
  shows "map fd_number (ListFields pool d x) = map fst (msg_fields x)"
proof -
  have fs: "sorted_wrt (<) (map fst (msg_fields x))"
    and known: "\<And>n vs. (n, vs) \<in> set (msg_fields x) \<Longrightarrow> vs \<noteq> [] \<and> (\<exists>fd. FindFieldByNumber pool d n = Some fd)"
    using assms(2) by (fastforce simp: valid_message_iff valid_fields_def list_all_iff split: option.splits)+
  have "distinct (map fd_number (pool d))" using assms(1) by (simp add: pool_ok_def)
  then have "distinct (map fd_number (ListFields pool d x))"
    by (auto simp: ListFields_def distinct_map inj_on_def)
  moreover have "sorted (map fd_number (ListFields pool d x))" by (simp add: ListFields_def)
  moreover have "sorted (map fst (msg_fields x))" "distinct (map fst (msg_fields x))"
    using fs by (simp_all add: strict_sorted_iff)
  moreover have "set (map fd_number (ListFields pool d x)) = set (map fst (msg_fields x))"
  proof (intro equalityI subsetI)
    fix n assume "n \<in> set (map fd_number (ListFields pool d x))"
    then show "n \<in> set (map fst (msg_fields x))"
      by (force simp: ListFields_mem HasField_def dest: get_values_mem)
  next
    fix n assume n: "n \<in> set (map fst (msg_fields x))"
    then obtain vs where vs: "(n, vs) \<in> set (msg_fields x)" by auto
    then have "(n, get_values n (msg_fields x)) \<in> set (msg_fields x)"
      using get_values_sorted [OF fs] n by (metis (no_types, lifting) image_eqI list.set_map)
    with known obtain fd where "FindFieldByNumber pool d n = Some fd" "get_values n (msg_fields x) \<noteq> []" by blast
    then show "n \<in> set (map fd_number (ListFields pool d x))"
      by (auto simp: ListFields_mem HasField_def FindFieldByNumber_def find_Some_iff image_iff)
  qed
  ultimately show ?thesis by (intro sorted_distinct_set_unique)
qed

lemma merge_fields_fresh:
  assumes "sorted_wrt (<) (map fd_number fds)" "\<forall>k \<in> fst ` set (msg_fields m). \<forall>fd \<in> set fds. k < fd_number fd"
    and "\<And>fd m. fd \<in> set fds \<Longrightarrow> \<forall>k \<in> fst ` set (msg_fields m). k < fd_number fd \<Longrightarrow>
      fold (merge_value pool fd) (g fd) m = WireMessage (msg_fields m @ [(fd_number fd, g fd)]) (msg_unknown m)"
  shows "fold (\<lambda>fd. fold (merge_value pool fd) (g fd)) fds m =
    WireMessage (msg_fields m @ map (\<lambda>fd. (fd_number fd, g fd)) fds) (msg_unknown m)"
  using assms
proof (induction fds arbitrary: m)
  case (Cons fd fds)
  let ?m = "WireMessage (msg_fields m @ [(fd_number fd, g fd)]) (msg_unknown m)"
  have "fold (merge_value pool fd) (g fd) m = ?m" using Cons.prems by simp
  moreover have "fold (\<lambda>fd. fold (merge_value pool fd) (g fd)) fds ?m =
      WireMessage (msg_fields ?m @ map (\<lambda>fd. (fd_number fd, g fd)) fds) (msg_unknown ?m)"
    using Cons.prems by (intro Cons.IH) auto
  ultimately show ?case by simp
qed simp

theorem MergeFrom_empty:
  assumes "pool_ok pool" "valid_message l pool d x"
  shows "MergeFrom pool d x empty_message = x"
  using assms(2)
proof (induction l arbitrary: d x rule: less_induct)
  case (less l)
  let ?vs = "\<lambda>fd. get_values (fd_number fd) (msg_fields x)"
  have numbers: "map fd_number (ListFields pool d x) = map fst (msg_fields x)"
    using assms(1) less.prems by (rule ListFields_numbers)
  have sorted: "sorted_wrt (<) (map fst (msg_fields x))"
    using less.prems by (simp add: valid_message_iff valid_fields_def)
  have field: "fold (merge_value pool fd) (?vs fd) m = WireMessage (msg_fields m @ [(fd_number fd, ?vs fd)]) (msg_unknown m)"
    if fd: "fd \<in> set (ListFields pool d x)" and m: "\<forall>k \<in> fst ` set (msg_fields m). k < fd_number fd" for fd m
  proof (rule merge_values_fresh [OF m])
    note f = valid_field [OF assms(1) less.prems fd]
    show "?vs fd \<noteq> []" "is_repeated fd \<or> length (?vs fd) = 1" by (rule f)+
    fix v m assume v: "v \<in> set (?vs fd)" and free: "is_repeated fd \<or> get_values (fd_number fd) (msg_fields m) = []"
    show "merge_value pool fd v m = put_value fd v m"
      using f(1) f(4) [rule_format, OF v]
    proof (cases rule: valid_value_cases)
      case (1 y d')
      then have "MergeFrom pool d' y empty_message = y"
        using less.IH by (auto simp: valid_below_def split: nat.splits)
      moreover have "sub_message fd m = empty_message" using free by (auto simp: sub_message_def)
      ultimately show ?thesis using 1 by (simp add: merge_value_message)
    qed (simp add: merge_value_primitive)
  qed
  have "fold (\<lambda>fd. fold (merge_value pool fd) (?vs fd)) (ListFields pool d x) empty_message =
      WireMessage (map (\<lambda>fd. (fd_number fd, ?vs fd)) (ListFields pool d x)) []"
    using sorted by (subst merge_fields_fresh [OF _ _ field]) (simp_all add: numbers empty_message_def)
  moreover have "map (\<lambda>fd. (fd_number fd, ?vs fd)) (ListFields pool d x) = map (\<lambda>n. (n, get_values n (msg_fields x))) (map fst (msg_fields x))"
    unfolding numbers [symmetric] by simp
  ultimately show ?case
    using get_values_sorted [OF sorted] by (cases x) (simp add: MergeFrom.simps Let_def)
qed

section \<open>Bytes that were serialised\<close>

lemma init_ok:
  "length data \<le> 2 ^ 26 \<Longrightarrow> stream_ok (CodedInputStream_init data)"
  "\<not> ci_legitimate_message_end (CodedInputStream_init data)" "ci_buffer (CodedInputStream_init data) = data"
  by (simp_all add: stream_ok_def total_bytes_limit_def CodedInputStream_init_def)

lemma ParseFromArray_consumes:
  assumes "consumes (ParseAndMergeField recursion_limit pool d) empty_message m data" "length data \<le> 2 ^ 26"
  shows "ParseFromArray pool d data = Inr (IsInitialized pool d m, m)"
  using consumes_to_end [OF field_parser_fields(2) assms(1) init_ok(1,2,3)] assms(2)
  by (simp add: ParseFromArray_def ParseAndMergePartial_def init_ok)

text \<open>C26. Messages whose bytes come one after the other parse as one message, the merge of them all.\<close>

theorem ParseFromArray_concat:
  assumes "pool_ok pool" "\<forall>x \<in> set xs. valid_message recursion_limit pool d x"
    and "length (concat (map (encode pool d) xs)) \<le> 2 ^ 26"
  shows "ParseFromArray pool d (concat (map (encode pool d) xs)) =
    (let m = fold (MergeFrom pool d) xs empty_message in Inr (IsInitialized pool d m, m))"
  unfolding Let_def using assms(2,3)
  by (intro ParseFromArray_consumes consumes_fold parse_merges [OF assms(1)]) auto

theorem ParseFromArray_concat_witness:
  "ParseFromArray sample_pool () [8, 100, 18, 1, 65, 18, 0, 24, 5, 8, 100, 18, 1, 65, 18, 0, 24, 5] =
    Inr (True, WireMessage [(1, [W32 100]), (2, [WString [65], WString [], WString [65], WString []])] [UVarint 3 5, UVarint 3 5])"
proof -
  let ?m = "WireMessage [(1, [W32 100]), (2, [WString [65], WString [], WString [65], WString []])] [UVarint 3 5, UVarint 3 5]"
  have "MergeFrom sample_pool () sample_message (MergeFrom sample_pool () sample_message empty_message) = ?m"
    by (simp add: MergeFrom_empty [OF sample_ok sample_valid])
      (simp add: sample_message_def sample_pool_def MergeFrom.simps ListFields_def HasField_def merge_value_primitive
        put_value_def is_repeated_def)
  moreover have "IsInitialized sample_pool () ?m"
    by (simp add: IsInitialized.simps sample_pool_def ListFields_def HasField_def)
  ultimately show ?thesis
    using ParseFromArray_concat [OF sample_ok, of "[sample_message, sample_message]" "()"]
    by (simp add: sample_valid sample_encode Let_def)
qed

lemma ParseFromArray_encode:
  assumes "pool_ok pool" "valid_message recursion_limit pool d m" "length (encode pool d m) \<le> 2 ^ 26"
  shows "ParseFromArray pool d (encode pool d m) = Inr (IsInitialized pool d m, m)"
proof -
  have "consumes (ParseAndMergeField recursion_limit pool d) empty_message (MergeFrom pool d m empty_message) (encode pool d m)"
    by (rule parse_merges [OF assms(1,2)])
  then show ?thesis
    using assms(3) by (intro ParseFromArray_consumes) (simp_all add: MergeFrom_empty [OF assms(1,2)])
qed

text \<open>C10. What \<open>SerializeAsString\<close> wrote, \<open>ParseFromArray\<close> reads back, unknown fields included; it succeeds
  if the required fields are there.\<close>

theorem parse_serialize:
  assumes "pool_ok pool" "valid_message recursion_limit pool d m" "length (encode pool d m) \<le> 2 ^ 26"
  shows "bind_res (SerializeAsString pool d m) (ParseFromArray pool d) = Inr (IsInitialized pool d m, m)"
proof -
  have "length (encode pool d m) < 2 ^ 31" using assms(3) by simp
  from SerializeAsString_bytes [OF assms(1,2) this] ParseFromArray_encode [OF assms] show ?thesis by simp
qed

theorem parse_serialize_witness:
  "bind_res (SerializeAsString sample_pool () sample_message) (ParseFromArray sample_pool ()) = Inr (True, sample_message)"
proof -
  have "IsInitialized sample_pool () sample_message"
    by (simp add: IsInitialized.simps sample_message_def sample_pool_def ListFields_def HasField_def)
  with parse_serialize [OF sample_ok sample_valid] show ?thesis by (simp add: sample_encode)
qed

section \<open>Bytes that are refused\<close>

lemma ParseFromArray_rest:
  assumes "pool_ok pool" "valid_message recursion_limit pool d x" "length (encode pool d x @ rest) \<le> 2 ^ 26"
  obtains s where "stream_ok s" "\<not> ci_legitimate_message_end s" "ci_buffer s = rest"
    "ParseFromArray pool d (encode pool d x @ rest) =
      bind_res (message_fields (ParseAndMergeField recursion_limit pool d) x s) (\<lambda>(ok, m, s').
        Inr (ok \<and> IsInitialized pool d m \<and> ci_legitimate_message_end s', m))"
proof -
  let ?F = "ParseAndMergeField recursion_limit pool d" and ?s = "CodedInputStream_init (encode pool d x @ rest)"
  have "consumes ?F empty_message x (encode pool d x)"
    using parse_merges [OF assms(1,2), of empty_message] by (simp add: MergeFrom_empty [OF assms(1,2)])
  then obtain t where "message_fields ?F empty_message ?s = message_fields ?F x (?s\<lparr>ci_buffer := rest, ci_last_tag := t\<rparr>)"
    using init_ok(1) [OF assms(3)] init_ok(2,3) by (rule consumesE)
  moreover have "stream_ok (?s\<lparr>ci_buffer := rest, ci_last_tag := t\<rparr>)"
    using init_ok(1) [OF assms(3)] stream_ok_buffer [of ?s rest] by (simp add: init_ok)
  ultimately show ?thesis
    using assms(3) by (intro that [of "?s\<lparr>ci_buffer := rest, ci_last_tag := t\<rparr>"])
      (simp_all add: ParseFromArray_def ParseAndMergePartial_def init_ok)
qed

text \<open>An end-group tag that closes nothing ends the parse without success, whatever follows it.\<close>

theorem ParseFromArray_stray_end:
  assumes "pool_ok pool" "valid_message recursion_limit pool d x" "n < 2 ^ 29"
    and "length (encode pool d x @ tag_bytes n WIRETYPE_END_GROUP @ rest) \<le> 2 ^ 26"
  shows "ParseFromArray pool d (encode pool d x @ tag_bytes n WIRETYPE_END_GROUP @ rest) = Inr (False, x)"
  using assms(1,2,4)
proof (rule ParseFromArray_rest)
  fix s
  let ?F = "ParseAndMergeField recursion_limit pool d"
  assume s: "stream_ok s" "\<not> ci_legitimate_message_end s" "ci_buffer s = tag_bytes n WIRETYPE_END_GROUP @ rest"
    and eq: "ParseFromArray pool d (encode pool d x @ tag_bytes n WIRETYPE_END_GROUP @ rest) =
      bind_res (message_fields ?F x s) (\<lambda>(ok, m, s'). Inr (ok \<and> IsInitialized pool d m \<and> ci_legitimate_message_end s', m))"
  have "message_fields ?F x s = Inr (True, x, s\<lparr>ci_buffer := rest, ci_last_tag := MakeTag n WIRETYPE_END_GROUP\<rparr>)"
    using s assms(3) by (intro consumes_to_group_end [OF field_parser_fields(2) consumes_Nil]) simp_all
  with eq s(2) show ?thesis by simp
qed

text \<open>A string cut short: the parse fails, the object keeps what came before.\<close>

theorem ParseFromArray_cut_string:
  assumes "pool_ok pool" "valid_message recursion_limit pool d x"
    and "fd \<in> set (pool d)" "fd_type fd \<in> {TYPE_STRING, TYPE_BYTES}" "length p < k" "k < 2 ^ 31"
    and "length (encode pool d x @ tag_bytes (fd_number fd) WIRETYPE_LENGTH_DELIMITED @ length_bytes k @ p) \<le> 2 ^ 26"
  shows "ParseFromArray pool d (encode pool d x @ tag_bytes (fd_number fd) WIRETYPE_LENGTH_DELIMITED @ length_bytes k @ p) = Inr (False, x)"
  using assms(1,2,7)
proof (rule ParseFromArray_rest)
  fix s
  let ?F = "ParseAndMergeField recursion_limit pool d" and ?n = "fd_number fd"
  let ?data = "tag_bytes ?n WIRETYPE_LENGTH_DELIMITED @ length_bytes k @ p"
  assume s: "stream_ok s" "\<not> ci_legitimate_message_end s" "ci_buffer s = ?data"
    and eq: "ParseFromArray pool d (encode pool d x @ ?data) =
      bind_res (message_fields ?F x s) (\<lambda>(ok, m, s'). Inr (ok \<and> IsInitialized pool d m \<and> ci_legitimate_message_end s', m))"
  have fd: "field_ok fd" "FindFieldByNumber pool d ?n = Some fd"
    using assms(1,3) FindField_mem [OF assms(1,3)] by (auto simp: pool_ok_def list_all_iff)
  then have n: "0 < ?n" "?n < 2 ^ 29" by (simp_all add: field_ok_def)
  let ?tag = "MakeTag ?n WIRETYPE_LENGTH_DELIMITED"
  let ?s1 = "s\<lparr>ci_buffer := length_bytes k @ p, ci_last_tag := ?tag\<rparr>" and ?s2 = "s\<lparr>ci_buffer := p, ci_last_tag := ?tag\<rparr>"
  have tag: "ReadTag s = Inr (?tag, ?s1)" by (rule ReadTag_tag [OF s(1,3)])
  have "stream_ok (s\<lparr>ci_buffer := length_bytes k @ p\<rparr>)" "stream_ok (s\<lparr>ci_buffer := p\<rparr>)"
    using s(1,3) stream_ok_buffer [OF s(1)] by simp_all
  then have s1: "stream_ok ?s1" and s2: "stream_ok ?s2" by simp_all
  have len: "ReadVarint32 ?s1 = Inr (Some (of_nat k), ?s2)"
    using ReadVarint_bytes(1) [OF s1, of "of_nat k" p] by (simp add: length_bytes_def)
  have k: "sint (of_nat k :: uint32) = int k"
    using assms(6) by (simp add: signed_of_nat signed_take_bit_int_eq_self)
  have str: "ReadStringInline (int k) ?s2 = Inr (False, p, ?s2\<lparr>ci_buffer := []\<rparr>)"
    using assms(5) Refresh_drop [OF s2] by (simp add: ReadStringInline_def BufferSize_def Advance_def)
  have "normal_field (one_deeper recursion_limit pool) ?tag fd x ?s1 = Inr (False, x, ?s2\<lparr>ci_buffer := []\<rparr>)"
    using assms(4) len k str by (auto simp: normal_field_def)
  then have "?F ?tag x ?s1 = Inr (False, x, ?s2\<lparr>ci_buffer := []\<rparr>)"
    using assms(4) fd n by (auto simp: ParseAndMergeField_iff parse_field_def GetTag_MakeTag wiretype_defs)
  then have "message_fields ?F x s = Inr (False, x, ?s2\<lparr>ci_buffer := []\<rparr>)"
    using MakeTag_nonzero [of WIRETYPE_LENGTH_DELIMITED ?n] n
    by (simp add: field_parser.message_fields_unfold [OF field_parser_fields(2) s(1)] tag GetTag_MakeTag wiretype_defs)
  with eq show ?thesis by simp
qed

end
