(* ===== verification/Wire_Type.thy ===== *)
theory Wire_Type
  imports Wire_Parse
begin

text \<open>
  The type of what the parser produces: a successful parse of any bytes leaves a valid message, that is
  values of the type of their field, enum numbers that are listed, unknown fields that are unknown, no
  deeper than the recursion limit. So whatever was parsed can be serialised, and gives itself back.
\<close>

definition keeps_valid :: "('m \<Rightarrow> bool) \<Rightarrow> 'm merger \<Rightarrow> bool" where
  "keeps_valid P f \<longleftrightarrow> (\<forall>m s m' s'. P m \<longrightarrow> f m s = Inr (True, m', s') \<longrightarrow> P m')"

lemma keepsD: "keeps_valid P f \<Longrightarrow> P m \<Longrightarrow> f m s = Inr (True, m', s') \<Longrightarrow> P m'"
  by (auto simp: keeps_valid_def)

text \<open>The tags the loop gives to a field.\<close>

definition field_tag :: "uint32 \<Rightarrow> bool" where
  "field_tag tag \<longleftrightarrow> tag \<noteq> 0 \<and> GetTagWireType tag \<noteq> WIRETYPE_END_GROUP"

lemma message_fields_keeps:
  assumes "\<And>tag. field_tag tag \<Longrightarrow> keeps_valid P (F tag)"
  shows "keeps_valid P (message_fields F)"
proof -
  have "P m'" if "P m" "message_loop n F m s = Inr (True, m', s')" for n m s m' s'
    using that
  proof (induction n arbitrary: m s)
    case (Suc n)
    from Suc.prems(2) obtain tag s1 where "ReadTag s = Inr (tag, s1)"
      and body: "(if tag = 0 then Inr (True, m, s1) else if GetTagWireType tag = WIRETYPE_END_GROUP then Inr (True, m, s1)
        else bind_res (F tag m s1) (\<lambda>(ok, m', s2). if ok then message_loop n F m' s2 else Inr (False, m', s2))) = Inr (True, m', s')"
      by (auto simp: bind_res_Inr_iff)
    show ?case
    proof (cases "field_tag tag")
      case True
      with body obtain m1 s2 where "F tag m s1 = Inr (True, m1, s2)" "message_loop n F m1 s2 = Inr (True, m', s')"
        by (auto simp: field_tag_def bind_res_Inr_iff split: if_splits)
      with Suc.IH keepsD [OF assms [OF True] Suc.prems(1)] show ?thesis by blast
    qed (use body Suc.prems(1) in \<open>auto simp: field_tag_def split: if_splits\<close>)
  qed simp
  then show ?thesis by (auto simp: keeps_valid_def message_fields_def simp del: message_loop.simps)
qed

lemma tag_MakeTag: "tag = MakeTag (GetTagFieldNumber tag) (GetTagWireType tag)" "GetTagFieldNumber tag < 2 ^ 29"
  "GetTagWireType tag < 8"
proof -
  have w: "GetTagWireType tag = unat tag mod 8"
  proof -
    have "tag AND 7 = take_bit 3 tag" by (simp only: take_bit_eq_mask mask_eq_exp_minus_1) simp
    then have "GetTagWireType tag = take_bit 3 (unat tag)" by (simp only: GetTagWireType_def unsigned_take_bit_eq)
    then show ?thesis by (simp add: take_bit_eq_mod)
  qed
  then show "GetTagWireType tag < 8" by simp
  have n: "GetTagFieldNumber tag = unat tag div 8" by (simp add: GetTagFieldNumber_def unat_drop_bit_div)
  have "unat tag < 8 * 2 ^ 29" using unsigned_less [of tag] by simp
  then show less: "GetTagFieldNumber tag < 2 ^ 29" unfolding n by (simp add: less_mult_imp_div_less)
  have "unat (MakeTag (GetTagFieldNumber tag) (GetTagWireType tag)) = unat tag"
    using unat_MakeTag [OF \<open>GetTagWireType tag < 8\<close>, of "GetTagFieldNumber tag"] less by (simp add: w n)
  then show "tag = MakeTag (GetTagFieldNumber tag) (GetTagWireType tag)" by (metis word_unat_eq_iff)
qed

section \<open>Unknown fields\<close>

lemma ReadGroup_keeps: "(\<And>f. deeper = Some f \<Longrightarrow> keeps_valid P f) \<Longrightarrow> keeps_valid P (ReadGroup deeper n)"
  unfolding keeps_valid_def [of P "ReadGroup deeper n"]
  by (cases deeper) (auto simp: ReadGroup_def bind_res_Inr_iff dest: keepsD)

lemma ReadMessage_keeps: "(\<And>f. deeper = Some f \<Longrightarrow> keeps_valid P f) \<Longrightarrow> keeps_valid P (ReadMessage deeper)"
  unfolding keeps_valid_def [of P "ReadMessage deeper"]
  by (cases deeper) (auto simp: ReadMessage_def bind_res_Inr_iff split: option.splits if_splits dest: keepsD)

text \<open>A successful \<open>SkipField\<close> adds one field, with the number and the wire type of the tag.\<close>

lemma SkipField_adds:
  assumes "field_tag tag" "SkipField l tag us s = Inr (True, us', s')"
  obtains u where "us' = us @ [u]" "valid_unknown l u" "unknown_number u = GetTagFieldNumber tag"
    "unknown_wire_type u = GetTagWireType tag"
proof -
  have "\<exists>u. us' = us @ [u] \<and> valid_unknown l u \<and> unknown_number u = GetTagFieldNumber tag \<and> unknown_wire_type u = GetTagWireType tag"
    using assms
  proof (induction l arbitrary: tag us s us' s')
    case 0
    then have "tag_valid (GetTagFieldNumber tag) (GetTagWireType tag)"
      using tag_MakeTag [of tag] by (simp add: tag_valid_def field_tag_def)
    with 0 show ?case
      by (auto simp: skip_field_def Let_def bind_res_Inr_iff ReadGroup_def split: if_splits option.splits)
  next
    case (Suc l)
    have valid: "tag_valid (GetTagFieldNumber tag) (GetTagWireType tag)"
      using Suc.prems(1) tag_MakeTag [of tag] by (simp add: tag_valid_def field_tag_def)
    have "keeps_valid (list_all (valid_unknown l)) (SkipField l tag)" if "field_tag tag" for tag
      using Suc.IH [OF that] by (fastforce simp: keeps_valid_def)
    then have "keeps_valid (list_all (valid_unknown l)) (ReadGroup (Some (message_fields (SkipField l))) n)" for n
      by (intro ReadGroup_keeps) (auto intro: message_fields_keeps)
    then have "list_all (valid_unknown l) group"
      if "ReadGroup (Some (message_fields (SkipField l))) n [] s = Inr (True, group, s')" for n group s s'
      using keepsD [of "list_all (valid_unknown l)" "ReadGroup (Some (message_fields (SkipField l))) n" "[]"] that by auto
    with valid Suc.prems(2) show ?case
      by (auto simp: skip_field_def Let_def bind_res_Inr_iff tag_valid_def split: if_splits option.splits)
  qed
  then show ?thesis using that by blast
qed

section \<open>Known fields\<close>

lemma set_values_mem: "x \<in> set (set_values n vs fs) \<Longrightarrow> x = (n, vs) \<or> x \<in> set fs"
  by (induction n vs fs rule: set_values.induct) (auto split: if_splits)

lemma set_values_sorted: "sorted_wrt (<) (map fst fs) \<Longrightarrow> sorted_wrt (<) (map fst (set_values n vs fs))"
  by (induction n vs fs rule: set_values.induct) (force dest!: set_values_mem)+

lemma get_values_valid:
  "valid_fields valid pool d fs \<Longrightarrow> FindFieldByNumber pool d n = Some fd \<Longrightarrow>
    list_all (valid_value valid fd) (get_values n fs) \<and> (is_repeated fd \<or> length (get_values n fs) \<le> 1)"
  using get_values_mem [of n fs] by (cases "get_values n fs = []") (auto simp: valid_fields_def list_all_iff)

lemma put_value_valid:
  assumes "valid_fields valid pool d (msg_fields m)" "FindFieldByNumber pool d (fd_number fd) = Some fd" "valid_value valid fd v"
  shows "valid_fields valid pool d (msg_fields (put_value fd v m))"
proof -
  let ?vs = "if is_repeated fd then get_values (fd_number fd) (msg_fields m) @ [v] else [v]"
  have "list_all (valid_value valid fd) ?vs" "?vs \<noteq> []" "is_repeated fd \<or> length ?vs = 1"
    using get_values_valid [OF assms(1,2)] assms(3) by auto
  with assms(1,2) show ?thesis
    by (auto simp: valid_fields_def put_value_def list_all_iff set_values_sorted dest!: set_values_mem)
qed

lemma put_value_message:
  assumes "valid_message l pool d m" "FindFieldByNumber pool d (fd_number fd) = Some fd" "valid_value (valid_below l pool) fd v"
  shows "valid_message l pool d (put_value fd v m)"
  using assms put_value_valid [OF _ assms(2,3)] by (simp add: valid_message_iff) (simp add: put_value_def)

lemma add_unknown_message:
  "valid_message l pool d m \<Longrightarrow> not_recognised pool d u \<Longrightarrow> valid_unknown l u \<Longrightarrow> valid_message l pool d (add_unknown u m)"
  by (simp add: valid_message_iff add_unknown_def)

lemma valid_empty: "valid_message l pool d empty_message"
  by (simp add: valid_message_iff empty_message_def valid_fields_def)

lemma ReadPrimitive_type:
  assumes "ReadPrimitive (fd_type fd) s = Inr (Some v, s')"
  shows "fd_type fd \<noteq> TYPE_ENUM \<Longrightarrow> valid_value valid fd v" "fd_type fd = TYPE_ENUM \<Longrightarrow> \<exists>e. v = W32 e"
  using assms by (cases "fd_type fd"; auto simp: map_value_def bind_res_Inr_iff valid_value_def)+

lemma packed_field_keeps:
  assumes "FindFieldByNumber pool d (fd_number fd) = Some fd"
  shows "keeps_valid (valid_message l pool d) (packed_field fd)"
proof -
  have "valid_message l pool d m'" if "valid_message l pool d m" "packed_values n fd m s = Inr (True, m', s')" for n m s m' s'
    using that
  proof (induction n arbitrary: m s)
    case (Suc n)
    show ?case
    proof (cases "0 < BytesUntilLimit s")
      case True
      with Suc.prems(2) obtain v s1 where v: "ReadPrimitive (fd_type fd) s = Inr (Some v, s1)"
        and rest: "packed_values n fd (case v of W32 e \<Rightarrow> if fd_type fd = TYPE_ENUM \<and> e \<notin> set (fd_enum_type fd) then m
          else put_value fd v m | _ \<Rightarrow> put_value fd v m) s1 = Inr (True, m', s')"
        by (auto simp: bind_res_Inr_iff split: option.splits)
      have "valid_message l pool d (put_value fd v m)" if "fd_type fd \<noteq> TYPE_ENUM \<or> (\<exists>e \<in> set (fd_enum_type fd). v = W32 e)"
        using that ReadPrimitive_type(1) [OF v] by (intro put_value_message [OF Suc.prems(1) assms]) (auto simp: valid_value_def)
      with rest ReadPrimitive_type(2) [OF v] show ?thesis
        by (intro Suc.IH [OF _ rest]) (cases v; use Suc.prems(1) in \<open>auto split: if_splits\<close>)
    qed (use Suc.prems in simp)
  qed simp
  then show ?thesis
    by (auto simp: keeps_valid_def packed_field_def bind_res_Inr_iff simp del: packed_values.simps split: option.splits if_splits)
qed

lemma sub_message_valid:
  assumes "valid_message l pool d m" "FindFieldByNumber pool d (fd_number fd) = Some fd" "fd_message_type fd = Some d'" "l = Suc k"
  shows "valid_message k pool d' (sub_message fd m)"
proof (cases "is_repeated fd")
  case False
  have "list_all (valid_value (valid_message k pool) fd) (get_values (fd_number fd) (msg_fields m))"
    using get_values_valid [OF _ assms(2), of "valid_message k pool" "msg_fields m"] assms(1,4)
    by (simp add: valid_message.simps)
  then show ?thesis
    using False assms(3) valid_empty
    by (auto simp: sub_message_def valid_value_def split: list.split wire_value.split)
qed (simp add: sub_message_def valid_empty)

lemma one_deeper_cases:
  "ReadGroup (case fd_message_type fd of None \<Rightarrow> None | Some d \<Rightarrow> map_option (\<lambda>f. f d) (one_deeper l pool)) n x s = Inr (True, x', s') \<Longrightarrow>
    \<exists>k d. l = Suc k \<and> fd_message_type fd = Some d \<and>
      ReadGroup (Some (message_fields (ParseAndMergeField k pool d))) n x s = Inr (True, x', s')"
  "ReadMessage (case fd_message_type fd of None \<Rightarrow> None | Some d \<Rightarrow> map_option (\<lambda>f. f d) (one_deeper l pool)) x s = Inr (True, x', s') \<Longrightarrow>
    \<exists>k d. l = Suc k \<and> fd_message_type fd = Some d \<and>
      ReadMessage (Some (message_fields (ParseAndMergeField k pool d))) x s = Inr (True, x', s')"
  by (cases l; cases "fd_message_type fd";
    auto simp: one_deeper_def ReadGroup_def ReadMessage_def bind_res_Inr_iff split: option.splits)+

lemma normal_field_keeps:
  assumes "FindFieldByNumber pool d (fd_number fd) = Some fd" "field_tag tag" "GetTagFieldNumber tag = fd_number fd"
    "GetTagWireType tag = WireTypeForFieldType (fd_type fd)"
    and below: "\<And>k d. l = Suc k \<Longrightarrow> keeps_valid (valid_message k pool d) (message_fields (ParseAndMergeField k pool d))"
  shows "keeps_valid (valid_message l pool d) (normal_field (one_deeper l pool) tag fd)"
  unfolding keeps_valid_def
proof (intro allI impI)
  fix m s m' s'
  assume m: "valid_message l pool d m" and step: "normal_field (one_deeper l pool) tag fd m s = Inr (True, m', s')"
  note put = put_value_message [OF m assms(1)]
  have sub: "valid_message l pool d (put_value fd (WMessage x) m)"
    if "l = Suc k" "fd_message_type fd = Some d'" "fd_type fd \<in> {TYPE_GROUP, TYPE_MESSAGE}" "valid_message k pool d' x" for k d' x
    using that by (intro put) (auto simp: valid_value_def valid_below_def)
  show "valid_message l pool d m'"
  proof (cases "fd_type fd \<in> {TYPE_GROUP, TYPE_MESSAGE}")
    case True
    then obtain x s'' where x: "m' = put_value fd (WMessage x) m" and
      "(ReadGroup (case fd_message_type fd of None \<Rightarrow> None | Some d \<Rightarrow> map_option (\<lambda>f. f d) (one_deeper l pool))
          (GetTagFieldNumber tag) (sub_message fd m) s = Inr (True, x, s'')) \<or>
       (ReadMessage (case fd_message_type fd of None \<Rightarrow> None | Some d \<Rightarrow> map_option (\<lambda>f. f d) (one_deeper l pool))
          (sub_message fd m) s = Inr (True, x, s''))"
      using step by (fastforce simp: normal_field_def Let_def bind_res_Inr_iff)
    then obtain k d' where k: "l = Suc k" "fd_message_type fd = Some d'" and
      "ReadGroup (Some (message_fields (ParseAndMergeField k pool d'))) (GetTagFieldNumber tag) (sub_message fd m) s = Inr (True, x, s'') \<or>
       ReadMessage (Some (message_fields (ParseAndMergeField k pool d'))) (sub_message fd m) s = Inr (True, x, s'')"
      using one_deeper_cases by blast
    moreover have "keeps_valid (valid_message k pool d') (ReadGroup (Some (message_fields (ParseAndMergeField k pool d'))) n)"
      "keeps_valid (valid_message k pool d') (ReadMessage (Some (message_fields (ParseAndMergeField k pool d'))))" for n
      using below [OF k(1)] by (auto intro: ReadGroup_keeps ReadMessage_keeps)
    ultimately have "valid_message k pool d' x"
      using sub_message_valid [OF m assms(1) k(2,1)] by (auto dest: keepsD)
    with sub [OF k True] x show ?thesis by simp
  next
    case other: False
    show ?thesis
    proof (cases "fd_type fd = TYPE_ENUM")
      case True
      have "tag_valid (fd_number fd) WIRETYPE_VARINT"
        using assms(2-4) True tag_MakeTag [of tag] by (simp add: tag_valid_def field_tag_def)
      then have "valid_message l pool d (add_unknown (UVarint (fd_number fd) (scast e)) m)" if "e \<notin> set (fd_enum_type fd)" for e
        using that True by (intro add_unknown_message m) (simp_all add: not_recognised_def assms(1) ucast_scast)
      moreover from step True obtain e where "m' = (if e \<in> set (fd_enum_type fd) then put_value fd (W32 e) m
          else add_unknown (UVarint (fd_number fd) (scast e)) m)"
        unfolding assms(3) [symmetric] by (auto simp: normal_field_def bind_res_Inr_iff split: option.splits)
      moreover have "valid_message l pool d (put_value fd (W32 e) m)" if "e \<in> set (fd_enum_type fd)" for e
        using that True by (intro put) (simp add: valid_value_def)
      ultimately show ?thesis by (cases "e \<in> set (fd_enum_type fd)") simp_all
    next
      case False
      then show ?thesis
        using step other put ReadPrimitive_type(1)
        by (cases "fd_type fd") (auto simp: normal_field_def Let_def bind_res_Inr_iff valid_value_def map_value_def split: option.splits if_splits)
    qed
  qed
qed

lemma parse_field_keeps:
  assumes "field_tag tag" "\<And>k d. l = Suc k \<Longrightarrow> keeps_valid (valid_message k pool d) (message_fields (ParseAndMergeField k pool d))"
  shows "keeps_valid (valid_message l pool d) (ParseAndMergeField l pool d tag)"
  unfolding keeps_valid_def
proof (intro allI impI)
  fix m s m' s'
  let ?n = "GetTagFieldNumber tag" and ?t = "GetTagWireType tag"
  assume m: "valid_message l pool d m" and step: "ParseAndMergeField l pool d tag m s = Inr (True, m', s')"
  let ?skip = "bind_res (SkipField l tag (msg_unknown m) s) (\<lambda>(ok, us, s'). Inr (ok, WireMessage (msg_fields m) us, s'))"
  have skip: "valid_message l pool d m'" if "?skip = Inr (True, m', s')"
    and other: "\<And>fd. FindFieldByNumber pool d ?n = Some fd \<Longrightarrow>
      ?t \<noteq> WireTypeForFieldType (fd_type fd) \<and> \<not> (is_packable fd \<and> ?t = WIRETYPE_LENGTH_DELIMITED)"
  proof -
    from that(1) obtain us where us: "SkipField l tag (msg_unknown m) s = Inr (True, us, s')" "m' = WireMessage (msg_fields m) us"
      by (auto simp: bind_res_Inr_iff)
    obtain u where u: "us = msg_unknown m @ [u]" "valid_unknown l u" "unknown_number u = ?n" "unknown_wire_type u = ?t"
      using SkipField_adds [OF assms(1) us(1)] by blast
    have "not_recognised pool d u"
      using other u(3,4) by (auto simp: not_recognised_def split: option.split)
    with u us(2) add_unknown_message [OF m] show ?thesis by (simp add: add_unknown_def)
  qed
  show "valid_message l pool d m'"
  proof (cases "FindFieldByNumber pool d ?n")
    case None
    with step skip show ?thesis by (simp add: ParseAndMergeField_iff parse_field_def)
  next
    case (Some fd)
    then have number: "fd_number fd = ?n" by (rule FindField_number)
    then have fd: "FindFieldByNumber pool d (fd_number fd) = Some fd" using Some by simp
    show ?thesis
      using step skip Some keepsD [OF packed_field_keeps [OF fd] m]
        keepsD [OF normal_field_keeps [OF fd assms(1) number [symmetric] _ assms(2)] m]
      by (auto simp: ParseAndMergeField_iff parse_field_def Let_def split: if_splits)
  qed
qed

theorem ParseAndMergeField_keeps: "field_tag tag \<Longrightarrow> keeps_valid (valid_message l pool d) (ParseAndMergeField l pool d tag)"
proof (induction l arbitrary: tag d)
  case (Suc l)
  show ?case
  proof (rule parse_field_keeps [OF Suc.prems])
    fix k d assume "Suc l = Suc k"
    then show "keeps_valid (valid_message k pool d) (message_fields (ParseAndMergeField k pool d))"
      using Suc.IH by (auto intro: message_fields_keeps)
  qed
qed (rule parse_field_keeps; simp)

lemma parsed_valid: "ParseFromArray pool d data = Inr (True, m) \<Longrightarrow> valid_message recursion_limit pool d m \<and> IsInitialized pool d m"
  using keepsD [OF message_fields_keeps [OF ParseAndMergeField_keeps] valid_empty]
  by (auto simp: ParseFromArray_def ParseAndMergePartial_def bind_res_Inr_iff split: if_splits)

text \<open>C25. A successful parse gives a valid message with its required fields, whatever the bytes.\<close>

theorem ParseFromArray_valid:
  assumes "ParseFromArray pool d data = Inr (True, m)"
  shows "valid_message recursion_limit pool d m \<and> IsInitialized pool d m"
  using assms by (rule parsed_valid)

theorem ParseFromArray_valid_witness:
  "valid_message recursion_limit sample_pool () sample_message \<and> IsInitialized sample_pool () sample_message"
proof (rule ParseFromArray_valid)
  have "IsInitialized sample_pool () sample_message"
    by (simp add: IsInitialized.simps sample_message_def sample_pool_def ListFields_def HasField_def)
  with ParseFromArray_encode [OF sample_ok sample_valid]
  show "ParseFromArray sample_pool () [8, 100, 18, 1, 65, 18, 0, 24, 5] = Inr (True, sample_message)"
    by (simp add: sample_encode)
qed

text \<open>What was parsed is preserved by serialising it and parsing it again, if it has not grown too long
  (a negative 32-bit number may have come in five bytes and goes out in ten).\<close>

theorem parse_serialize_parse:
  assumes "pool_ok pool" "ParseFromArray pool d data = Inr (True, m)" "length (encode pool d m) \<le> 2 ^ 26"
  shows "bind_res (SerializeAsString pool d m) (ParseFromArray pool d) = Inr (True, m)"
proof -
  have m: "valid_message recursion_limit pool d m" "IsInitialized pool d m"
    using parsed_valid [OF assms(2)] by simp_all
  have "length (encode pool d m) < 2 ^ 31" using assms(3) by simp
  from SerializeAsString_bytes [OF assms(1) m(1) this] ParseFromArray_encode [OF assms(1) m(1) assms(3)] m(2)
  show ?thesis by simp
qed

end
