(* ===== verification/Wire_Schema.thy ===== *)
theory Wire_Schema
  imports Wire_Type Proto_Messages
begin

text \<open>
  The message files of the server as descriptors of theory Wire_Format (Asset/P_Asset.proto,
  Asset/P_Protocol.proto, P_Server.proto), and the way between the records of theories Proto and
  Proto_Messages and messages on the wire. Each message is written field by field in the order of the
  numbers, and read back.
\<close>

section \<open>Values\<close>

definition write_int32 :: "int \<Rightarrow> wire_value" where "write_int32 i = W32 (word_of_int i)"
definition as_int32 :: "wire_value \<Rightarrow> int" where "as_int32 v = sint (as_32 v)"
definition write_int64 :: "int \<Rightarrow> wire_value" where "write_int64 i = W64 (word_of_int i)"
definition read_int64 :: "wire_value \<Rightarrow> int" where "read_int64 v = sint (as_64 v)"

text \<open>A \<open>float\<close> as its 32 bits: a magnitude below \<open>2^24\<close> is its own mantissa and exponent field.\<close>

definition mag_bits :: "nat \<Rightarrow> nat" where
  "mag_bits m = (if m < 2 ^ 24 then m else let n = nbits m - 24 in n * 2 ^ 23 + m div 2 ^ n)"

fun flt_bits :: "flt \<Rightarrow> nat" where
  "flt_bits (Fin k) = (if k < 0 then 2 ^ 31 else 0) + mag_bits (nat \<bar>k\<bar>)"
| "flt_bits (Inf s) = (if s then 2 ^ 31 else 0) + 255 * 2 ^ 23"
| "flt_bits NaN = 255 * 2 ^ 23 + 2 ^ 22"

definition bits_mag :: "nat \<Rightarrow> nat" where
  "bits_mag b = (let e = b div 2 ^ 23; f = b mod 2 ^ 23 in if e = 0 then f else (2 ^ 23 + f) * 2 ^ (e - 1))"

definition bits_flt :: "nat \<Rightarrow> flt" where
  "bits_flt b =
     (let s = 2 ^ 31 \<le> b; c = b mod 2 ^ 31
      in if 255 * 2 ^ 23 \<le> c then (if c = 255 * 2 ^ 23 then Inf s else NaN)
         else Fin (if s then - int (bits_mag c) else int (bits_mag c)))"

definition write_float :: "flt \<Rightarrow> wire_value" where "write_float x = W32 (of_nat (flt_bits x))"
definition read_float :: "wire_value \<Rightarrow> flt" where "read_float v = bits_flt (unat (as_32 v))"

text \<open>The values of the type \<open>float\<close>: at most 24 significant bits, below \<open>2^128\<close> (\<open>2^277\<close> units).\<close>

fun is_float :: "flt \<Rightarrow> bool" where
  "is_float (Fin k) \<longleftrightarrow> nat \<bar>k\<bar> < 2 ^ 277 \<and> 2 ^ (nbits (nat \<bar>k\<bar>) - 24) dvd nat \<bar>k\<bar>"
| "is_float _ \<longleftrightarrow> True"

text \<open>An enum is the list of its values with their numbers.\<close>

type_synonym 'a enum_numbers = "('a \<times> nat) list"

definition write_enum :: "'a enum_numbers \<Rightarrow> 'a \<Rightarrow> wire_value" where
  "write_enum values v = W32 (case map_of values v of None \<Rightarrow> 0 | Some n \<Rightarrow> of_nat n)"

definition read_enum :: "'a enum_numbers \<Rightarrow> wire_value \<Rightarrow> 'a" where
  "read_enum values w =
     (case find (\<lambda>(_, n). of_nat n = as_32 w) values of Some (v, _) \<Rightarrow> v | None \<Rightarrow> fst (hd values))"

definition enum_words :: "'a enum_numbers \<Rightarrow> uint32 list" where
  "enum_words values = map (\<lambda>(_, n). of_nat n) values"

text \<open>Every value has a number, and the numbers are different.\<close>

definition enum_ok :: "'a enum_numbers \<Rightarrow> bool" where
  "enum_ok values \<longleftrightarrow> distinct (map snd values) \<and> list_all (\<lambda>(_, n). n < 2 ^ 32) values \<and> (\<forall>v. v \<in> fst ` set values)"

section \<open>Round trips of the values\<close>

lemma as_int32_written [simp]: "in_int32 i \<Longrightarrow> as_int32 (write_int32 i) = i"
  by (simp add: as_int32_def write_int32_def in_int32_def signed_of_int signed_take_bit_int_eq_self)

lemma read_int64_written [simp]: "in_int64 i \<Longrightarrow> read_int64 (write_int64 i) = i"
  by (simp add: read_int64_def write_int64_def in_int64_def signed_of_int signed_take_bit_int_eq_self)

lemma enum_word_inj: "m < 2 ^ 32 \<Longrightarrow> n < 2 ^ 32 \<Longrightarrow> (of_nat m :: uint32) = of_nat n \<longleftrightarrow> m = n"
  by (simp add: word_of_nat_eq_iff take_bit_nat_eq_self)

lemma find_word:
  "distinct (map snd vs) \<Longrightarrow> list_all (\<lambda>(_, n). n < 2 ^ 32) vs \<Longrightarrow> (v, n) \<in> set vs \<Longrightarrow>
    find (\<lambda>(_, k). of_nat k = (of_nat n :: uint32)) vs = Some (v, n)"
proof (induction vs)
  case (Cons x vs)
  show ?case
  proof (cases "x = (v, n)")
    case False
    with Cons.prems(3) have mem: "(v, n) \<in> set vs" by simp
    with Cons.prems(1) have "snd x \<noteq> n" by (auto simp: image_iff)
    moreover have "snd x < 2 ^ 32" "n < 2 ^ 32" using Cons.prems(2) mem by (auto simp: list_all_iff)
    ultimately have "(of_nat (snd x) :: uint32) \<noteq> of_nat n" by (simp only: enum_word_inj not_False_eq_True)
    with Cons mem show ?thesis by (cases x) simp
  qed simp
qed simp

lemma read_enum_written [simp]:
  assumes "enum_ok values"
  shows "read_enum values (write_enum values v) = v"
proof -
  obtain n where n: "map_of values v = Some n"
    using assms by (auto simp: enum_ok_def map_of_eq_None_iff split: option.splits) (metis domIff dom_map_of_conv_image_fst option.exhaust)
  then have "find (\<lambda>(_, k). of_nat k = (of_nat n :: uint32)) values = Some (v, n)"
    using assms by (intro find_word map_of_SomeD) (simp_all add: enum_ok_def)
  with n show ?thesis by (simp add: read_enum_def write_enum_def)
qed

lemma write_enum_listed: "enum_ok values \<Longrightarrow> \<exists>e. write_enum values v = W32 e \<and> e \<in> set (enum_words values)"
proof -
  assume "enum_ok values"
  then have "v \<in> fst ` set values" by (simp add: enum_ok_def)
  then obtain n where "map_of values v = Some n" by (metis domIff dom_map_of_conv_image_fst option.exhaust)
  then show ?thesis by (force simp: write_enum_def enum_words_def dest: map_of_SomeD)
qed

lemma nbits_upper: "m < 2 ^ nbits m"
proof (induction m rule: nbits.induct)
  case (1 m)
  show ?case
  proof (cases "m = 0")
    case False
    with 1 have "m div 2 < 2 ^ nbits (m div 2)" by simp
    then have "m < 2 * 2 ^ nbits (m div 2)" by linarith
    with False show ?thesis by (simp add: nbits.simps [of m])
  qed simp
qed

lemma mag_bits_bound:
  assumes "2 ^ (nbits m - 24) dvd m" "m < 2 ^ 277"
  shows "bits_mag (mag_bits m) = m" "mag_bits m < 255 * 2 ^ 23"
proof -
  have both: "bits_mag (mag_bits m) = m \<and> mag_bits m < 255 * 2 ^ 23"
  proof (cases "m < 2 ^ 24")
    case True
    have "bits_mag m = m"
    proof (cases "m < 2 ^ 23")
      case False
      then obtain r where r: "m = 2 ^ 23 + r" by (auto simp: not_less le_iff_add)
      with True have "r < 2 ^ 23" by simp
      then show ?thesis unfolding r by (simp add: bits_mag_def Let_def)
    qed (simp add: bits_mag_def)
    with True show ?thesis by (simp add: mag_bits_def)
  next
    case False
    define n where "n = nbits m - 24"
    define q where "q = m div 2 ^ n"
    have m: "m = q * 2 ^ n" using assms(1) by (simp add: n_def q_def)
    have "24 < nbits m" using False nbits_upper [of m] by (meson le_less_trans linorder_not_le one_le_numeral order_trans power_increasing)
    then have n: "nbits m = n + 24" by (simp add: n_def)
    have "m < 2 ^ (n + 24)" using nbits_upper [of m] by (simp only: n)
    then have "q < 2 ^ 24" by (simp add: q_def power_add less_mult_imp_div_less mult.commute)
    have "2 ^ (n + 23) \<le> m" using nbits_lower [of m] False n by (simp add: add.commute)
    then have "2 ^ 23 \<le> q" unfolding m by (simp add: power_add)
    then obtain r where q: "q = 2 ^ 23 + r" by (auto simp: le_iff_add)
    with \<open>q < 2 ^ 24\<close> have r: "r < 2 ^ 23" by simp
    have "n \<le> 253" using nbits_le [OF assms(2)] n by simp
    have b: "mag_bits m = r + 2 ^ 23 * (n + 1)" using False by (simp add: mag_bits_def Let_def n_def [symmetric] q_def [symmetric] q)
    have "(r + 2 ^ 23 * (n + 1)) mod 2 ^ 23 = r mod 2 ^ 23" by (rule mod_mult_self2)
    moreover have "(r + 2 ^ 23 * (n + 1)) div 2 ^ 23 = n + 1 + r div 2 ^ 23" by (rule div_mult_self2) simp
    ultimately have "mag_bits m div 2 ^ 23 = n + 1" "mag_bits m mod 2 ^ 23 = r" using r unfolding b by simp_all
    then have "bits_mag (mag_bits m) = m" by (simp add: bits_mag_def m q)
    moreover have "mag_bits m < 255 * 2 ^ 23" using b r \<open>n \<le> 253\<close> by simp
    ultimately show ?thesis by simp
  qed
  then show "bits_mag (mag_bits m) = m" "mag_bits m < 255 * 2 ^ 23" by simp_all
qed

lemma flt_bits_roundtrip: "is_float x \<Longrightarrow> bits_flt (flt_bits x) = x \<and> flt_bits x < 2 ^ 32"
proof (cases x)
  case (Fin k)
  let ?b = "mag_bits (nat \<bar>k\<bar>)"
  assume "is_float x"
  with Fin have m: "bits_mag ?b = nat \<bar>k\<bar>" "?b < 255 * 2 ^ 23" using mag_bits_bound [of "nat \<bar>k\<bar>"] by simp_all
  then have "(2 ^ 31 + ?b) mod 2 ^ 31 = ?b" "?b mod 2 ^ 31 = ?b" by simp_all
  with Fin m show ?thesis by (cases "k < 0") (simp_all add: bits_flt_def Let_def)
qed (simp_all add: bits_flt_def Let_def)

lemma read_float_written [simp]: "is_float x \<Longrightarrow> read_float (write_float x) = x"
  using flt_bits_roundtrip [of x] by (simp add: read_float_def write_float_def unat_of_nat take_bit_nat_eq_self)

section \<open>Fields\<close>

definition opt_field :: "nat \<Rightarrow> ('a \<Rightarrow> wire_value) \<Rightarrow> 'a option \<Rightarrow> (nat \<times> wire_value list) list" where
  "opt_field n write x = (case x of None \<Rightarrow> [] | Some v \<Rightarrow> [(n, [write v])])"

definition rep_field :: "nat \<Rightarrow> ('a \<Rightarrow> wire_value) \<Rightarrow> 'a list \<Rightarrow> (nat \<times> wire_value list) list" where
  "rep_field n write xs = (if xs = [] then [] else [(n, map write xs)])"

definition get_opt :: "nat \<Rightarrow> (wire_value \<Rightarrow> 'a) \<Rightarrow> wire_message \<Rightarrow> 'a option" where
  "get_opt n read m = (case get_values n (msg_fields m) of [] \<Rightarrow> None | v # _ \<Rightarrow> Some (read v))"

definition get_rep :: "nat \<Rightarrow> (wire_value \<Rightarrow> 'a) \<Rightarrow> wire_message \<Rightarrow> 'a list" where
  "get_rep n read m = map read (get_values n (msg_fields m))"

definition opt_ok :: "('a \<Rightarrow> bool) \<Rightarrow> 'a option \<Rightarrow> bool" where
  "opt_ok P x = (case x of None \<Rightarrow> True | Some v \<Rightarrow> P v)"

lemma get_values_field [simp]:
  "n \<noteq> k \<Longrightarrow> get_values n (opt_field k f x @ fs) = get_values n fs"
  "n \<noteq> k \<Longrightarrow> get_values n (rep_field k f xs @ fs) = get_values n fs"
  "n \<noteq> k \<Longrightarrow> get_values n (opt_field k f x) = []"
  "n \<noteq> k \<Longrightarrow> get_values n (rep_field k f xs) = []"
  by (simp_all add: opt_field_def rep_field_def split: option.split)

lemma get_field_miss [simp]:
  "n \<noteq> k \<Longrightarrow> get_opt n g (WireMessage (opt_field k f x @ fs) us) = get_opt n g (WireMessage fs us)"
  "n \<noteq> k \<Longrightarrow> get_opt n g (WireMessage (rep_field k f xs @ fs) us) = get_opt n g (WireMessage fs us)"
  "n \<noteq> k \<Longrightarrow> get_rep n g (WireMessage (opt_field k f x @ fs) us) = get_rep n g (WireMessage fs us)"
  "n \<noteq> k \<Longrightarrow> get_rep n g (WireMessage (rep_field k f xs @ fs) us) = get_rep n g (WireMessage fs us)"
  by (simp_all add: get_opt_def get_rep_def)

lemma get_opt_hit [simp]:
  "opt_ok P x \<Longrightarrow> (\<And>v. P v \<Longrightarrow> g (f v) = v) \<Longrightarrow> get_values n fs = [] \<Longrightarrow> get_opt n g (WireMessage (opt_field n f x @ fs) us) = x"
  "opt_ok P x \<Longrightarrow> (\<And>v. P v \<Longrightarrow> g (f v) = v) \<Longrightarrow> get_opt n g (WireMessage (opt_field n f x) us) = x"
  by (cases x; simp add: get_opt_def opt_field_def opt_ok_def)+

lemma get_rep_hit [simp]:
  "list_all P xs \<Longrightarrow> (\<And>v. P v \<Longrightarrow> g (f v) = v) \<Longrightarrow> get_values n fs = [] \<Longrightarrow> get_rep n g (WireMessage (rep_field n f xs @ fs) us) = xs"
  "list_all P xs \<Longrightarrow> (\<And>v. P v \<Longrightarrow> g (f v) = v) \<Longrightarrow> get_rep n g (WireMessage (rep_field n f xs) us) = xs"
  by (auto simp: get_rep_def rep_field_def list_all_iff intro!: map_idI)

text \<open>Validity, field by field: the numbers go up from \<open>k\<close>.\<close>

definition valid_from :: "nat \<Rightarrow> 'd pool \<Rightarrow> 'd \<Rightarrow> nat \<Rightarrow> (nat \<times> wire_value list) list \<Rightarrow> bool" where
  "valid_from l pool d k fs \<longleftrightarrow> valid_fields (valid_below l pool) pool d fs \<and> (\<forall>n \<in> fst ` set fs. k < n)"

lemma valid_from_message: "valid_from l pool d k fs \<Longrightarrow> valid_message l pool d (WireMessage fs [])"
  by (simp add: valid_from_def valid_message_iff)

lemma valid_from_Nil: "valid_from l pool d k []"
  by (simp add: valid_from_def valid_fields_def)

lemma valid_from_opt:
  assumes "k < n" "FindFieldByNumber pool d n = Some fd" "opt_ok (\<lambda>v. valid_value (valid_below l pool) fd (f v)) x"
    "valid_from l pool d n fs"
  shows "valid_from l pool d k (opt_field n f x @ fs)"
  using assms by (cases x) (auto simp: valid_from_def valid_fields_def opt_field_def opt_ok_def)

lemma valid_from_rep:
  assumes "k < n" "FindFieldByNumber pool d n = Some fd" "is_repeated fd"
    "list_all (\<lambda>v. valid_value (valid_below l pool) fd (f v)) xs" "valid_from l pool d n fs"
  shows "valid_from l pool d k (rep_field n f xs @ fs)"
  using assms by (auto simp: valid_from_def valid_fields_def rep_field_def list_all_iff)

text \<open>The same, by the type of the field in the descriptor.\<close>

definition type_of :: "'d pool \<Rightarrow> 'd \<Rightarrow> nat \<Rightarrow> field_type option" where
  "type_of pool d n = map_option fd_type (FindFieldByNumber pool d n)"

definition write_message :: "('a \<Rightarrow> wire_message) \<Rightarrow> 'a \<Rightarrow> wire_value" where
  "write_message f x = WMessage (f x)"

definition read_message :: "(wire_message \<Rightarrow> 'a) \<Rightarrow> wire_value \<Rightarrow> 'a" where
  "read_message f v = (case v of WMessage m \<Rightarrow> f m | _ \<Rightarrow> f empty_message)"

lemma read_message_written [simp]: "read_message g (write_message f x) = g (f x)"
  by (simp add: read_message_def write_message_def)

lemma get_opt_all [simp]:
  "(\<And>v. g (f v) = v) \<Longrightarrow> get_values n fs = [] \<Longrightarrow> get_opt n g (WireMessage (opt_field n f x @ fs) us) = x"
  "(\<And>v. g (f v) = v) \<Longrightarrow> get_opt n g (WireMessage (opt_field n f x) us) = x"
  by (cases x; simp add: get_opt_def opt_field_def)+

lemma opt_okI: "(\<And>v. P v) \<Longrightarrow> opt_ok P x"
  by (simp add: opt_ok_def split: option.split)

lemma opt_ok_mono: "opt_ok P x \<Longrightarrow> (\<And>v. P v \<Longrightarrow> Q v) \<Longrightarrow> opt_ok Q x"
  by (simp add: opt_ok_def split: option.splits)

lemma valid_from_simple:
  assumes "k < n" "valid_from l pool d n fs"
  shows "type_of pool d n = Some TYPE_INT32 \<Longrightarrow> valid_from l pool d k (opt_field n write_int32 i @ fs)"
    "type_of pool d n = Some TYPE_INT64 \<Longrightarrow> valid_from l pool d k (opt_field n write_int64 i @ fs)"
    "type_of pool d n = Some TYPE_FLOAT \<Longrightarrow> valid_from l pool d k (opt_field n write_float x @ fs)"
    "type_of pool d n = Some TYPE_BOOL \<Longrightarrow> valid_from l pool d k (opt_field n WBool b @ fs)"
    "type_of pool d n = Some TYPE_BYTES \<Longrightarrow> valid_from l pool d k (opt_field n WString s @ fs)"
  using assms
  by (auto simp: type_of_def valid_value_def write_int32_def write_int64_def write_float_def
      intro!: valid_from_opt opt_okI)

lemma valid_from_enum:
  assumes "k < n" "valid_from l pool d n fs" "type_of pool d n = Some TYPE_ENUM" "enum_ok values"
    "map_option fd_enum_type (FindFieldByNumber pool d n) = Some (enum_words values)"
  shows "valid_from l pool d k (opt_field n (write_enum values) x @ fs)"
proof -
  obtain fd where fd: "FindFieldByNumber pool d n = Some fd" "fd_type fd = TYPE_ENUM" "fd_enum_type fd = enum_words values"
    using assms(3,5) by (auto simp: type_of_def)
  have "valid_value (valid_below l pool) fd (write_enum values v)" for v
    using write_enum_listed [OF assms(4), of v] fd by (auto simp: valid_value_def)
  then show ?thesis by (intro valid_from_opt [OF assms(1) fd(1) _ assms(2)] opt_okI)
qed

lemma valid_from_number:
  assumes "k < n" "valid_from l pool d n fs" "type_of pool d n = Some TYPE_ENUM"
    "opt_ok (\<lambda>i. case FindFieldByNumber pool d n of None \<Rightarrow> False | Some fd \<Rightarrow> word_of_int i \<in> set (fd_enum_type fd)) x"
  shows "valid_from l pool d k (opt_field n write_int32 x @ fs)"
proof -
  obtain fd where fd: "FindFieldByNumber pool d n = Some fd" "fd_type fd = TYPE_ENUM"
    using assms(3) by (auto simp: type_of_def)
  then have "opt_ok (\<lambda>v. valid_value (valid_below l pool) fd (write_int32 v)) x"
    by (intro opt_ok_mono [OF assms(4)]) (simp add: valid_value_def write_int32_def)
  then show ?thesis by (intro valid_from_opt [OF assms(1) fd(1) _ assms(2)])
qed

definition message_of :: "'d pool \<Rightarrow> 'd \<Rightarrow> nat \<Rightarrow> 'd option" where
  "message_of pool d n = (case FindFieldByNumber pool d n of
     Some fd \<Rightarrow> if fd_type fd = TYPE_MESSAGE then fd_message_type fd else None | None \<Rightarrow> None)"

lemma valid_write_message:
  assumes "message_of pool d n = Some d'" "0 < l" "valid_message (l - 1) pool d' (f v)"
  obtains fd where "FindFieldByNumber pool d n = Some fd" "valid_value (valid_below l pool) fd (write_message f v)"
  using assms
  by (cases l) (auto simp: message_of_def valid_value_def write_message_def valid_below_def split: option.splits if_splits)

lemma valid_from_message_field:
  assumes "k < n" "valid_from l pool d n fs" "message_of pool d n = Some d'" "0 < l"
    "opt_ok P x" "\<And>v. P v \<Longrightarrow> valid_message (l - 1) pool d' (f v)"
  shows "valid_from l pool d k (opt_field n (write_message f) x @ fs)"
proof -
  obtain fd where fd: "FindFieldByNumber pool d n = Some fd"
    using assms(3) by (auto simp: message_of_def split: option.splits)
  then have "opt_ok (\<lambda>v. valid_value (valid_below l pool) fd (write_message f v)) x"
    using valid_write_message [OF assms(3,4), where f = f] assms(6) by (intro opt_ok_mono [OF assms(5)]) (metis option.inject)
  then show ?thesis by (intro valid_from_opt [OF assms(1) fd _ assms(2)])
qed

definition repeated_at :: "'d pool \<Rightarrow> 'd \<Rightarrow> nat \<Rightarrow> bool" where
  "repeated_at pool d n = (case FindFieldByNumber pool d n of Some fd \<Rightarrow> is_repeated fd | None \<Rightarrow> False)"

lemma valid_from_rep_message:
  assumes "k < n" "valid_from l pool d n fs" "message_of pool d n = Some d'" "repeated_at pool d n" "0 < l"
    "list_all P xs" "\<And>v. P v \<Longrightarrow> valid_message (l - 1) pool d' (f v)"
  shows "valid_from l pool d k (rep_field n (write_message f) xs @ fs)"
proof -
  obtain fd where fd: "FindFieldByNumber pool d n = Some fd" "is_repeated fd"
    using assms(3,4) by (auto simp: message_of_def repeated_at_def split: option.splits)
  then have "list_all (\<lambda>v. valid_value (valid_below l pool) fd (write_message f v)) xs"
    using valid_write_message [OF assms(3,5), where f = f] assms(6,7) by (simp add: list_all_iff) (metis option.inject)
  then show ?thesis by (intro valid_from_rep [OF assms(1) fd _ assms(2)])
qed

lemma valid_from_rep_int64:
  assumes "k < n" "valid_from l pool d n fs" "type_of pool d n = Some TYPE_INT64" "repeated_at pool d n"
  shows "valid_from l pool d k (rep_field n write_int64 xs @ fs)"
  using assms
  by (auto simp: type_of_def repeated_at_def valid_value_def write_int64_def list_all_iff intro!: valid_from_rep split: option.splits)

lemmas valid_from_fields = valid_from_simple valid_from_enum valid_from_rep_int64 valid_from_Nil

section \<open>The enums\<close>

definition entity_type_enum :: "entity_type enum_numbers" where
  "entity_type_enum =
    [(ENTITY_TYPE_NULL, 1), (ENTITY_TYPE_PLAYER, 2), (ENTITY_TYPE_HOST, 3), (ENTITY_TYPE_NPC, 4),
    (ENTITY_TYPE_BUILDING, 5), (ENTITY_TYPE_SEA, 6), (ENTITY_TYPE_AIR, 7), (ENTITY_TYPE_LAND, 8),
    (ENTITY_TYPE_PARTICLE, 9)]"

definition gender_type_enum :: "gender_type enum_numbers" where
  "gender_type_enum =
    [(GENDER_TYPE_MAN, 1), (GENDER_TYPE_WOMAN, 2)]"

definition camp_type_enum :: "camp_type enum_numbers" where
  "camp_type_enum =
    [(CAMP_TYPE_NULL, 1), (CAMP_TYPE_HUMON, 2)]"

definition prof_type_enum :: "prof_type enum_numbers" where
  "prof_type_enum =
    [(PROF_TYPE_NULL, 0), (PROF_TYPE_FARMER, 1), (PROF_TYPE_FARMER_HOSTER, 2),
    (PROF_TYPE_FARMER_AND_HOSTER, 3), (PROF_TYPE_COWBOY, 4), (PROF_TYPE_BOUNTY_HUNTER, 16)]"

definition action_state_enum :: "action_state enum_numbers" where
  "action_state_enum =
    [(ACTION_STATE_IDLE, 1), (ACTION_STATE_MOVE, 2), (ACTION_STATE_RUN, 3), (ACTION_STATE_RIDE, 4),
    (ACTION_STATE_FIGHT, 5)]"

definition inventory_type_enum :: "inventory_type enum_numbers" where
  "inventory_type_enum =
    [(INVENTORY_TYPE_BACKPACKAGE, 1), (INVENTORY_TYPE_EQUIPMENT, 2), (INVENTORY_TYPE_FASHION, 3),
    (INVENTORY_TYPE_COUNT, 4)]"

definition version_type_enum :: "version_type enum_numbers" where
  "version_type_enum =
    [(VERSION_TYPE_GLOBAL, 1), (VERSION_TYPE_MAINLAND, 2), (VERSION_TYPE_TAIWAN, 3)]"

definition asset_type_enum :: "asset_type enum_numbers" where
  "asset_type_enum =
    [(ASSET_TYPE_BEGIN, 1), (ASSET_TYPE_PLANT, 2), (ASSET_TYPE_COMMON_LIMIT, 3),
    (ASSET_TYPE_COMMON_REWARD, 4), (ASSET_TYPE_COOL_DOWN, 5), (ASSET_TYPE_HOSTER, 6),
    (ASSET_TYPE_SKILL, 7), (ASSET_TYPE_LEVEL_UP, 8), (ASSET_TYPE_SCENE, 9), (ASSET_TYPE_PARTICLE, 10),
    (ASSET_TYPE_COUNT, 200), (ITEM_TYPE_BEGIN, 201), (ITEM_TYPE_POTION, 202),
    (ITEM_TYPE_EQUIPMENT, 203), (ITEM_TYPE_GUN, 204)]"

definition common_limit_type_enum :: "common_limit_type enum_numbers" where
  "common_limit_type_enum =
    [(COMMON_LIMIT_TYPE_PLANT, 1)]"

definition cool_down_type_enum :: "cool_down_type enum_numbers" where
  "cool_down_type_enum =
    [(COOL_DOWN_TYPE_DAY, 1), (COOL_DOWN_TYPE_WEEK, 2), (COOL_DOWN_TYPE_MONTH, 3),
    (COOL_DOWN_TYPE_YEAR, 4), (COOL_DOWN_TYPE_NEVER, 5)]"

definition harm_type_enum :: "harm_type enum_numbers" where
  "harm_type_enum =
    [(HARM_TYPE_HP, 1), (HARM_TYPE_MP, 2), (HARM_TYPE_SPEED, 3)]"

definition consume_type_enum :: "consume_type enum_numbers" where
  "consume_type_enum =
    [(CONSUME_TYPE_EXPERIENCE, 1), (CONSUME_TYPE_DIOMAND, 2), (CONSUME_TYPE_TIME, 3)]"

definition potion_type_enum :: "potion_type enum_numbers" where
  "potion_type_enum =
    [(POTION_TYPE_HEMO, 1), (POTION_TYPE_MAGIC, 2), (POTION_TYPE_PHYSICAL_STRENGTH, 3)]"

definition equip_type_enum :: "equip_type enum_numbers" where
  "equip_type_enum =
    [(EQUIP_TYPE_HELMET, 1)]"

definition meta_type_enum :: "meta_type enum_numbers" where
  "meta_type_enum =
    [(META_TYPE_C2S_BEGIN, 1), (META_TYPE_C2S_LOGIN, 2), (META_TYPE_C2S_SELECT_SERVER, 3),
    (META_TYPE_C2S_CREATE_PLAYER, 4), (META_TYPE_C2S_ENTER_GAME, 5), (META_TYPE_C2S_ENTER_SCENE, 6),
    (META_TYPE_C2S_MOVE, 7), (META_TYPE_C2S_COUNT, 500), (META_TYPE_S2C_BEGIN, 501),
    (META_TYPE_S2C_TICKET, 502), (META_TYPE_S2C_SERVER_LIST, 503), (META_TYPE_S2C_PLAYERS, 504),
    (META_TYPE_S2C_PLAYER_INFO, 505), (META_TYPE_S2C_MUTABLE_PROPERTY, 506),
    (META_TYPE_S2C_ALTER_ERROR, 507), (META_TYPE_S2C_SURROUNDINGS_CHANGED, 508),
    (META_TYPE_S2C_COUNT, 1000)]"

definition action_type_enum :: "action_type enum_numbers" where
  "action_type_enum =
    [(ACTION_TYPE_ENTER, 1), (ACTION_TYPE_LEAVE, 2), (ACTION_TYPE_MOVE, 3)]"

lemmas enum_defs = entity_type_enum_def gender_type_enum_def camp_type_enum_def prof_type_enum_def
  action_state_enum_def inventory_type_enum_def version_type_enum_def asset_type_enum_def
  common_limit_type_enum_def cool_down_type_enum_def harm_type_enum_def consume_type_enum_def
  potion_type_enum_def equip_type_enum_def meta_type_enum_def action_type_enum_def

lemma enums_ok [simp]:
  "enum_ok entity_type_enum"
  "enum_ok gender_type_enum"
  "enum_ok camp_type_enum"
  "enum_ok prof_type_enum"
  "enum_ok action_state_enum"
  "enum_ok inventory_type_enum"
  "enum_ok version_type_enum"
  "enum_ok asset_type_enum"
  "enum_ok common_limit_type_enum"
  "enum_ok cool_down_type_enum"
  "enum_ok harm_type_enum"
  "enum_ok consume_type_enum"
  "enum_ok potion_type_enum"
  "enum_ok equip_type_enum"
  "enum_ok meta_type_enum"
  "enum_ok action_type_enum"
proof -
  show "enum_ok entity_type_enum"
    unfolding enum_ok_def by (intro conjI allI, simp_all add: enum_defs) (case_tac v; simp)
  show "enum_ok gender_type_enum"
    unfolding enum_ok_def by (intro conjI allI, simp_all add: enum_defs) (case_tac v; simp)
  show "enum_ok camp_type_enum"
    unfolding enum_ok_def by (intro conjI allI, simp_all add: enum_defs) (case_tac v; simp)
  show "enum_ok prof_type_enum"
    unfolding enum_ok_def by (intro conjI allI, simp_all add: enum_defs) (case_tac v; simp)
  show "enum_ok action_state_enum"
    unfolding enum_ok_def by (intro conjI allI, simp_all add: enum_defs) (case_tac v; simp)
  show "enum_ok inventory_type_enum"
    unfolding enum_ok_def by (intro conjI allI, simp_all add: enum_defs) (case_tac v; simp)
  show "enum_ok version_type_enum"
    unfolding enum_ok_def by (intro conjI allI, simp_all add: enum_defs) (case_tac v; simp)
  show "enum_ok asset_type_enum"
    unfolding enum_ok_def by (intro conjI allI, simp_all add: enum_defs) (case_tac v; simp)
  show "enum_ok common_limit_type_enum"
    unfolding enum_ok_def by (intro conjI allI, simp_all add: enum_defs) (case_tac v; simp)
  show "enum_ok cool_down_type_enum"
    unfolding enum_ok_def by (intro conjI allI, simp_all add: enum_defs) (case_tac v; simp)
  show "enum_ok harm_type_enum"
    unfolding enum_ok_def by (intro conjI allI, simp_all add: enum_defs) (case_tac v; simp)
  show "enum_ok consume_type_enum"
    unfolding enum_ok_def by (intro conjI allI, simp_all add: enum_defs) (case_tac v; simp)
  show "enum_ok potion_type_enum"
    unfolding enum_ok_def by (intro conjI allI, simp_all add: enum_defs) (case_tac v; simp)
  show "enum_ok equip_type_enum"
    unfolding enum_ok_def by (intro conjI allI, simp_all add: enum_defs) (case_tac v; simp)
  show "enum_ok meta_type_enum"
    unfolding enum_ok_def by (intro conjI allI, simp_all add: enum_defs) (case_tac v; simp)
  show "enum_ok action_type_enum"
    unfolding enum_ok_def by (intro conjI allI, simp_all add: enum_defs) (case_tac v; simp)
qed

section \<open>The message types\<close>

datatype message_type =
  D_Vector3 | D_CommonProp | D_AssetCommonProp | D_Plant | D_CommonLimit | D_CoolDown | D_Hoster | D_Harm |
  D_Skill | D_Consume | D_LevelUpCurve | D_Scene | D_Particle | D_ItemCommonProp | D_ItemItem |
  D_ItemPotion | D_ItemEquipment | D_PlayerProvisionalProp | D_Player | D_Inventory | D_Inventories |
  D_Meta | D_CreatePlayer | D_Account | D_Login | D_EnterGame | D_EnterScene | D_Move | D_PlayerList |
  D_PlayerInfo | D_LoginResponse | D_MutableProperty | D_AlterError | D_SurroundingsChanged | D_MsgItem

definition field :: "nat \<Rightarrow> field_label \<Rightarrow> field_type \<Rightarrow> message_type field_descriptor" where
  "field n label type' = \<lparr>fd_number = n, fd_label = label, fd_type = type', fd_packed = False,
     fd_enum_type = [], fd_message_type = None\<rparr>"

definition enum_field :: "nat \<Rightarrow> field_label \<Rightarrow> uint32 list \<Rightarrow> message_type field_descriptor" where
  "enum_field n label numbers = (field n label TYPE_ENUM)\<lparr>fd_enum_type := numbers\<rparr>"

definition message_field :: "nat \<Rightarrow> field_label \<Rightarrow> message_type \<Rightarrow> message_type field_descriptor" where
  "message_field n label d = (field n label TYPE_MESSAGE)\<lparr>fd_message_type := Some d\<rparr>"

lemmas field_defs = field_def enum_field_def message_field_def

text \<open>The fields of each message; the last three of \<open>AlterError\<close> list the numbers of its enums.\<close>

fun schema :: "message_type pool" where
  "schema D_Vector3 =
    [field 1 LABEL_OPTIONAL TYPE_FLOAT, field 2 LABEL_OPTIONAL TYPE_FLOAT, field 3 LABEL_OPTIONAL TYPE_FLOAT]"
| "schema D_CommonProp =
    [field 1 LABEL_OPTIONAL TYPE_INT64, enum_field 2 LABEL_OPTIONAL (enum_words entity_type_enum),
     field 3 LABEL_OPTIONAL TYPE_BYTES, field 4 LABEL_OPTIONAL TYPE_FLOAT,
     field 5 LABEL_OPTIONAL TYPE_FLOAT, field 6 LABEL_OPTIONAL TYPE_INT32,
     enum_field 7 LABEL_OPTIONAL (enum_words gender_type_enum),
     enum_field 8 LABEL_OPTIONAL (enum_words prof_type_enum), field 9 LABEL_OPTIONAL TYPE_INT32,
     field 10 LABEL_OPTIONAL TYPE_INT32, field 11 LABEL_OPTIONAL TYPE_INT32,
     field 12 LABEL_OPTIONAL TYPE_INT32, field 13 LABEL_OPTIONAL TYPE_INT32,
     field 14 LABEL_OPTIONAL TYPE_INT64, message_field 15 LABEL_OPTIONAL D_Vector3,
     field 16 LABEL_OPTIONAL TYPE_FLOAT, enum_field 17 LABEL_OPTIONAL (enum_words camp_type_enum),
     field 18 LABEL_OPTIONAL TYPE_INT32, field 19 LABEL_REPEATED TYPE_INT64,
     field 20 LABEL_OPTIONAL TYPE_INT64, enum_field 21 LABEL_OPTIONAL (enum_words action_state_enum)]"
| "schema D_AssetCommonProp =
    [field 1 LABEL_REQUIRED TYPE_INT64, enum_field 2 LABEL_REQUIRED (enum_words version_type_enum),
     field 3 LABEL_REQUIRED TYPE_BYTES, field 4 LABEL_OPTIONAL TYPE_BYTES, field 5 LABEL_OPTIONAL TYPE_BYTES]"
| "schema D_Plant =
    [enum_field 1 LABEL_OPTIONAL (enum_words asset_type_enum),
     message_field 2 LABEL_OPTIONAL D_AssetCommonProp]"
| "schema D_CommonLimit =
    [enum_field 1 LABEL_OPTIONAL (enum_words asset_type_enum),
     message_field 2 LABEL_OPTIONAL D_AssetCommonProp,
     enum_field 3 LABEL_OPTIONAL (enum_words common_limit_type_enum),
     enum_field 4 LABEL_OPTIONAL (enum_words cool_down_type_enum)]"
| "schema D_CoolDown =
    [enum_field 1 LABEL_OPTIONAL (enum_words asset_type_enum),
     message_field 2 LABEL_OPTIONAL D_AssetCommonProp, field 3 LABEL_OPTIONAL TYPE_INT32]"
| "schema D_Hoster =
    [enum_field 1 LABEL_OPTIONAL (enum_words asset_type_enum),
     message_field 2 LABEL_OPTIONAL D_AssetCommonProp, message_field 3 LABEL_OPTIONAL D_CommonProp,
     field 4 LABEL_OPTIONAL TYPE_BYTES, field 5 LABEL_OPTIONAL TYPE_INT32,
     field 6 LABEL_OPTIONAL TYPE_INT32, field 7 LABEL_OPTIONAL TYPE_INT64,
     field 8 LABEL_OPTIONAL TYPE_INT32, field 9 LABEL_OPTIONAL TYPE_INT32, field 10 LABEL_OPTIONAL TYPE_BOOL]"
| "schema D_Harm =
    [enum_field 1 LABEL_OPTIONAL (enum_words harm_type_enum), field 2 LABEL_OPTIONAL TYPE_INT32,
     field 3 LABEL_OPTIONAL TYPE_INT32, field 4 LABEL_OPTIONAL TYPE_INT32,
     field 5 LABEL_OPTIONAL TYPE_INT32, enum_field 6 LABEL_OPTIONAL (enum_words entity_type_enum)]"
| "schema D_Skill =
    [enum_field 1 LABEL_OPTIONAL (enum_words asset_type_enum),
     message_field 2 LABEL_OPTIONAL D_AssetCommonProp, field 3 LABEL_OPTIONAL TYPE_INT32,
     field 4 LABEL_OPTIONAL TYPE_BYTES, field 5 LABEL_OPTIONAL TYPE_INT64,
     field 6 LABEL_OPTIONAL TYPE_INT32, message_field 7 LABEL_OPTIONAL D_Harm,
     field 8 LABEL_OPTIONAL TYPE_INT32, field 9 LABEL_OPTIONAL TYPE_INT32]"
| "schema D_Consume =
    [field 1 LABEL_OPTIONAL TYPE_INT32, enum_field 2 LABEL_OPTIONAL (enum_words consume_type_enum),
     field 3 LABEL_OPTIONAL TYPE_INT32, field 4 LABEL_OPTIONAL TYPE_INT64]"
| "schema D_LevelUpCurve =
    [enum_field 1 LABEL_OPTIONAL (enum_words asset_type_enum),
     message_field 2 LABEL_OPTIONAL D_AssetCommonProp, field 3 LABEL_OPTIONAL TYPE_INT32,
     message_field 4 LABEL_REPEATED D_Consume]"
| "schema D_Scene =
    [enum_field 1 LABEL_OPTIONAL (enum_words asset_type_enum),
     message_field 2 LABEL_OPTIONAL D_AssetCommonProp, field 3 LABEL_OPTIONAL TYPE_INT32,
     field 4 LABEL_OPTIONAL TYPE_INT32, field 5 LABEL_OPTIONAL TYPE_BYTES]"
| "schema D_Particle =
    [enum_field 1 LABEL_OPTIONAL (enum_words asset_type_enum),
     message_field 2 LABEL_OPTIONAL D_AssetCommonProp,
     enum_field 3 LABEL_OPTIONAL (enum_words entity_type_enum), field 4 LABEL_OPTIONAL TYPE_INT32,
     field 5 LABEL_OPTIONAL TYPE_INT32, field 6 LABEL_OPTIONAL TYPE_INT32,
     message_field 7 LABEL_OPTIONAL D_Vector3]"
| "schema D_ItemCommonProp =
    [message_field 1 LABEL_OPTIONAL D_AssetCommonProp, field 2 LABEL_OPTIONAL TYPE_INT32,
     field 3 LABEL_OPTIONAL TYPE_INT32, field 4 LABEL_OPTIONAL TYPE_INT32,
     field 5 LABEL_OPTIONAL TYPE_INT32, field 6 LABEL_OPTIONAL TYPE_INT32,
     field 7 LABEL_OPTIONAL TYPE_BOOL, field 8 LABEL_OPTIONAL TYPE_BOOL, field 9 LABEL_OPTIONAL TYPE_INT64,
     enum_field 10 LABEL_OPTIONAL (enum_words inventory_type_enum),
     enum_field 11 LABEL_OPTIONAL (enum_words prof_type_enum)]"
| "schema D_ItemItem =
    [enum_field 1 LABEL_OPTIONAL (enum_words asset_type_enum), field 2 LABEL_OPTIONAL TYPE_BYTES,
     field 3 LABEL_OPTIONAL TYPE_BYTES]"
| "schema D_ItemPotion =
    [enum_field 1 LABEL_OPTIONAL (enum_words asset_type_enum),
     message_field 2 LABEL_OPTIONAL D_ItemCommonProp,
     enum_field 3 LABEL_OPTIONAL (enum_words potion_type_enum), field 4 LABEL_OPTIONAL TYPE_INT32]"
| "schema D_ItemEquipment =
    [enum_field 1 LABEL_OPTIONAL (enum_words asset_type_enum),
     message_field 2 LABEL_OPTIONAL D_ItemCommonProp,
     enum_field 3 LABEL_OPTIONAL (enum_words equip_type_enum)]"
| "schema D_PlayerProvisionalProp =
    [field 1 LABEL_OPTIONAL TYPE_FLOAT]"
| "schema D_Player =
    [enum_field 1 LABEL_OPTIONAL (enum_words entity_type_enum),
     message_field 2 LABEL_OPTIONAL D_CommonProp, field 3 LABEL_OPTIONAL TYPE_INT32,
     field 4 LABEL_OPTIONAL TYPE_INT32, message_field 5 LABEL_OPTIONAL D_Inventories,
     message_field 6 LABEL_OPTIONAL D_PlayerProvisionalProp]"
| "schema D_Inventory =
    [enum_field 1 LABEL_OPTIONAL (enum_words inventory_type_enum), message_field 2 LABEL_REPEATED D_ItemItem]"
| "schema D_Inventories =
    [message_field 1 LABEL_REPEATED D_Inventory]"
| "schema D_Meta =
    [enum_field 1 LABEL_OPTIONAL (enum_words meta_type_enum), field 2 LABEL_OPTIONAL TYPE_BYTES]"
| "schema D_CreatePlayer =
    [enum_field 1 LABEL_OPTIONAL (enum_words meta_type_enum)]"
| "schema D_Account =
    [field 1 LABEL_OPTIONAL TYPE_BYTES, field 2 LABEL_OPTIONAL TYPE_BYTES]"
| "schema D_Login =
    [enum_field 1 LABEL_OPTIONAL (enum_words meta_type_enum), message_field 2 LABEL_OPTIONAL D_Account]"
| "schema D_EnterGame =
    [enum_field 1 LABEL_OPTIONAL (enum_words meta_type_enum), field 2 LABEL_OPTIONAL TYPE_INT64]"
| "schema D_EnterScene =
    [enum_field 1 LABEL_OPTIONAL (enum_words meta_type_enum), field 2 LABEL_OPTIONAL TYPE_INT64]"
| "schema D_Move =
    [enum_field 1 LABEL_OPTIONAL (enum_words meta_type_enum), message_field 2 LABEL_OPTIONAL D_Vector3]"
| "schema D_PlayerList =
    [enum_field 1 LABEL_OPTIONAL (enum_words meta_type_enum), message_field 2 LABEL_REPEATED D_Player]"
| "schema D_PlayerInfo =
    [enum_field 1 LABEL_OPTIONAL (enum_words meta_type_enum), message_field 2 LABEL_OPTIONAL D_Player]"
| "schema D_LoginResponse =
    [field 1 LABEL_REQUIRED TYPE_INT64]"
| "schema D_MutableProperty =
    [enum_field 1 LABEL_OPTIONAL (enum_words meta_type_enum), field 2 LABEL_OPTIONAL TYPE_INT64,
     field 3 LABEL_OPTIONAL TYPE_INT32, field 4 LABEL_OPTIONAL TYPE_INT32,
     message_field 5 LABEL_OPTIONAL D_Vector3]"
| "schema D_AlterError =
    [enum_field 1 LABEL_OPTIONAL (enum_words meta_type_enum), enum_field 2 LABEL_OPTIONAL [1, 2],
     enum_field 3 LABEL_OPTIONAL [1], enum_field 4 LABEL_OPTIONAL [0, 1]]"
| "schema D_SurroundingsChanged =
    [enum_field 1 LABEL_OPTIONAL (enum_words meta_type_enum),
     enum_field 2 LABEL_OPTIONAL (enum_words action_type_enum), field 3 LABEL_OPTIONAL TYPE_INT64,
     field 4 LABEL_OPTIONAL TYPE_BYTES]"
| "schema D_MsgItem =
    [field 1 LABEL_OPTIONAL TYPE_INT64, field 2 LABEL_OPTIONAL TYPE_INT32,
     field 3 LABEL_OPTIONAL TYPE_INT32, field 4 LABEL_OPTIONAL TYPE_INT64,
     field 5 LABEL_OPTIONAL TYPE_INT64, field 6 LABEL_OPTIONAL TYPE_INT64,
     field 7 LABEL_OPTIONAL TYPE_INT32, field 8 LABEL_OPTIONAL TYPE_BYTES]"

lemma schema_ok: "pool_ok schema"
  unfolding pool_ok_def
proof (intro allI)
  fix d
  show "distinct (map fd_number (schema d)) \<and> list_all field_ok (schema d)"
    by (cases d; simp add: field_defs field_ok_def is_packable_def)
qed

end
