(* ===== verification/Wire_Messages.thy ===== *)
theory Wire_Messages
  imports Wire_Schema
begin

text \<open>
  The messages of the server on the wire, record by record: \<open>wire_x\<close> sets the fields of a message from a
  record, \<open>x_of\<close> reads a record from a message, \<open>x_ok\<close> says that the numbers are in the range of their
  types. A field that is not in the record is dropped when a message is read (an unknown field, and
  \<open>type_t\<close> where the record leaves it out).
\<close>

lemmas get_numbers [simp] =
  get_opt_hit [where P = in_int32 and f = write_int32 and g = as_int32, OF _ as_int32_written]
  get_opt_hit [where P = in_int64 and f = write_int64 and g = read_int64, OF _ read_int64_written]
  get_opt_hit [where P = is_float and f = write_float and g = read_float, OF _ read_float_written]
  get_rep_hit [where P = in_int64 and f = write_int64 and g = read_int64, OF _ read_int64_written]

lemmas find_defs = type_of_def message_of_def repeated_at_def is_repeated_def FindFieldByNumber_def field_defs

section \<open>\<open>vector3\<close>\<close>

definition wire_vector3 :: "vector3 \<Rightarrow> wire_message" where
  "wire_vector3 x = WireMessage (concat [
     opt_field 1 write_float (v3_x x), opt_field 2 write_float (v3_y x), opt_field 3 write_float (v3_z x)]) []"

definition vector3_of :: "wire_message \<Rightarrow> vector3" where
  "vector3_of m =
     \<lparr>v3_x = get_opt 1 read_float m, v3_y = get_opt 2 read_float m, v3_z = get_opt 3 read_float m\<rparr>"

definition vector3_ok :: "vector3 \<Rightarrow> bool" where
  "vector3_ok x \<longleftrightarrow>
     opt_ok is_float (v3_x x) \<and> opt_ok is_float (v3_y x) \<and> opt_ok is_float (v3_z x)"

lemma vector3_read [simp]: "vector3_ok x \<Longrightarrow> vector3_of (wire_vector3 x) = x"
  by (cases x) (simp add: vector3_of_def wire_vector3_def vector3_ok_def)

lemma read_vector3: "vector3_ok x \<Longrightarrow> read_message vector3_of (write_message wire_vector3 x) = x"
  by simp

lemmas get_vector3 [simp] = 
  get_opt_hit [where P = vector3_ok and f = "write_message wire_vector3" and g = "read_message vector3_of", OF _ read_vector3]
  get_rep_hit [where P = vector3_ok and f = "write_message wire_vector3" and g = "read_message vector3_of", OF _ read_vector3]

lemma vector3_valid: "vector3_ok x \<Longrightarrow> valid_message l schema D_Vector3 (wire_vector3 x)"
  unfolding wire_vector3_def concat.simps vector3_ok_def
  by (rule valid_from_message [where k = 0]) (intro valid_from_fields; simp add: find_defs)

lemmas valid_from_vector3 = valid_from_message_field [where P = vector3_ok and f = wire_vector3 and d' = D_Vector3]
  valid_from_rep_message [where P = vector3_ok and f = wire_vector3 and d' = D_Vector3]

section \<open>\<open>common_prop\<close>\<close>

definition wire_common_prop :: "common_prop \<Rightarrow> wire_message" where
  "wire_common_prop x = WireMessage (concat [
     opt_field 1 write_int64 (cp_entity_id x), opt_field 2 (write_enum entity_type_enum) (cp_entity_type x),
     opt_field 3 WString (cp_name x), opt_field 4 write_float (cp_radius x),
     opt_field 5 write_float (cp_height x), opt_field 6 write_int32 (cp_level x),
     opt_field 7 (write_enum gender_type_enum) (cp_gender x),
     opt_field 8 (write_enum prof_type_enum) (cp_profession x), opt_field 9 write_int32 (cp_speed x),
     opt_field 10 write_int32 (cp_hp x), opt_field 11 write_int32 (cp_mp x),
     opt_field 12 write_int32 (cp_orientation_x x), opt_field 13 write_int32 (cp_orientation_y x),
     opt_field 14 write_int64 (cp_scene_id x), opt_field 15 (write_message wire_vector3) (cp_position x),
     opt_field 16 write_float (cp_visibility_range x),
     opt_field 17 (write_enum camp_type_enum) (cp_camp_type x), opt_field 18 write_int32 (cp_skills_count x),
     rep_field 19 write_int64 (cp_skills x), opt_field 20 write_int64 (cp_level_up_id x),
     opt_field 21 (write_enum action_state_enum) (cp_action_state_type x)]) []"

definition common_prop_of :: "wire_message \<Rightarrow> common_prop" where
  "common_prop_of m =
     \<lparr>cp_entity_id = get_opt 1 read_int64 m, cp_entity_type = get_opt 2 (read_enum entity_type_enum) m,
      cp_name = get_opt 3 as_string m, cp_radius = get_opt 4 read_float m, cp_height = get_opt 5 read_float m,
      cp_level = get_opt 6 as_int32 m, cp_gender = get_opt 7 (read_enum gender_type_enum) m,
      cp_profession = get_opt 8 (read_enum prof_type_enum) m, cp_speed = get_opt 9 as_int32 m,
      cp_hp = get_opt 10 as_int32 m, cp_mp = get_opt 11 as_int32 m,
      cp_orientation_x = get_opt 12 as_int32 m, cp_orientation_y = get_opt 13 as_int32 m,
      cp_scene_id = get_opt 14 read_int64 m, cp_position = get_opt 15 (read_message vector3_of) m,
      cp_visibility_range = get_opt 16 read_float m, cp_camp_type = get_opt 17 (read_enum camp_type_enum) m,
      cp_skills_count = get_opt 18 as_int32 m, cp_skills = get_rep 19 read_int64 m,
      cp_level_up_id = get_opt 20 read_int64 m,
      cp_action_state_type = get_opt 21 (read_enum action_state_enum) m\<rparr>"

definition common_prop_ok :: "common_prop \<Rightarrow> bool" where
  "common_prop_ok x \<longleftrightarrow>
     opt_ok in_int64 (cp_entity_id x) \<and> opt_ok is_float (cp_radius x) \<and>
     opt_ok is_float (cp_height x) \<and> opt_ok in_int32 (cp_level x) \<and>
     opt_ok in_int32 (cp_speed x) \<and> opt_ok in_int32 (cp_hp x) \<and> opt_ok in_int32 (cp_mp x) \<and>
     opt_ok in_int32 (cp_orientation_x x) \<and> opt_ok in_int32 (cp_orientation_y x) \<and>
     opt_ok in_int64 (cp_scene_id x) \<and> opt_ok vector3_ok (cp_position x) \<and>
     opt_ok is_float (cp_visibility_range x) \<and> opt_ok in_int32 (cp_skills_count x) \<and>
     list_all in_int64 (cp_skills x) \<and> opt_ok in_int64 (cp_level_up_id x)"

lemma common_prop_read [simp]: "common_prop_ok x \<Longrightarrow> common_prop_of (wire_common_prop x) = x"
  by (cases x) (simp add: common_prop_of_def wire_common_prop_def common_prop_ok_def)

lemma read_common_prop: "common_prop_ok x \<Longrightarrow> read_message common_prop_of (write_message wire_common_prop x) = x"
  by simp

lemmas get_common_prop [simp] = 
  get_opt_hit [where P = common_prop_ok and f = "write_message wire_common_prop" and g = "read_message common_prop_of", OF _ read_common_prop]
  get_rep_hit [where P = common_prop_ok and f = "write_message wire_common_prop" and g = "read_message common_prop_of", OF _ read_common_prop]

lemma common_prop_valid: "common_prop_ok x \<Longrightarrow> 1 \<le> l \<Longrightarrow> valid_message l schema D_CommonProp (wire_common_prop x)"
  unfolding wire_common_prop_def concat.simps common_prop_ok_def
  by (rule valid_from_message [where k = 0]) (intro valid_from_vector3 valid_from_fields; simp add: find_defs vector3_valid)

lemmas valid_from_common_prop = valid_from_message_field [where P = common_prop_ok and f = wire_common_prop and d' = D_CommonProp]
  valid_from_rep_message [where P = common_prop_ok and f = wire_common_prop and d' = D_CommonProp]

section \<open>\<open>asset_common_prop\<close>\<close>

definition wire_asset_common :: "asset_common_prop \<Rightarrow> wire_message" where
  "wire_asset_common x = WireMessage (concat [
     opt_field 1 write_int64 (ac_global_id x), opt_field 2 (write_enum version_type_enum) (ac_version x),
     opt_field 3 WString (ac_name x), opt_field 4 WString (ac_show_name x), opt_field 5 WString (ac_desc x)]) []"

definition asset_common_of :: "wire_message \<Rightarrow> asset_common_prop" where
  "asset_common_of m =
     \<lparr>ac_global_id = get_opt 1 read_int64 m, ac_version = get_opt 2 (read_enum version_type_enum) m,
      ac_name = get_opt 3 as_string m, ac_show_name = get_opt 4 as_string m, ac_desc = get_opt 5 as_string m\<rparr>"

definition asset_common_ok :: "asset_common_prop \<Rightarrow> bool" where
  "asset_common_ok x \<longleftrightarrow>
     opt_ok in_int64 (ac_global_id x)"

lemma asset_common_read [simp]: "asset_common_ok x \<Longrightarrow> asset_common_of (wire_asset_common x) = x"
  by (cases x) (simp add: asset_common_of_def wire_asset_common_def asset_common_ok_def)

lemma read_asset_common: "asset_common_ok x \<Longrightarrow> read_message asset_common_of (write_message wire_asset_common x) = x"
  by simp

lemmas get_asset_common [simp] = 
  get_opt_hit [where P = asset_common_ok and f = "write_message wire_asset_common" and g = "read_message asset_common_of", OF _ read_asset_common]
  get_rep_hit [where P = asset_common_ok and f = "write_message wire_asset_common" and g = "read_message asset_common_of", OF _ read_asset_common]

lemma asset_common_valid: "asset_common_ok x \<Longrightarrow> valid_message l schema D_AssetCommonProp (wire_asset_common x)"
  unfolding wire_asset_common_def concat.simps asset_common_ok_def
  by (rule valid_from_message [where k = 0]) (intro valid_from_fields; simp add: find_defs)

lemmas valid_from_asset_common = valid_from_message_field [where P = asset_common_ok and f = wire_asset_common and d' = D_AssetCommonProp]
  valid_from_rep_message [where P = asset_common_ok and f = wire_asset_common and d' = D_AssetCommonProp]

section \<open>\<open>hoster_asset\<close>\<close>

definition wire_hoster :: "hoster_asset \<Rightarrow> wire_message" where
  "wire_hoster x = WireMessage (concat [
     opt_field 2 (write_message wire_asset_common) (ho_common_prop x),
     opt_field 3 (write_message wire_common_prop) (ho_human_prop x),
     opt_field 4 WString (ho_behaviac_tree_path x), opt_field 5 write_int32 (ho_build_time x),
     opt_field 6 write_int32 (ho_attack_speed x), opt_field 7 write_int64 (ho_produce_entity_id x),
     opt_field 8 write_int32 (ho_produce_entity_speed x), opt_field 9 write_int32 (ho_produce_entity_count x),
     opt_field 10 WBool (ho_actived x)]) []"

definition hoster_of :: "wire_message \<Rightarrow> hoster_asset" where
  "hoster_of m =
     \<lparr>ho_common_prop = get_opt 2 (read_message asset_common_of) m,
      ho_human_prop = get_opt 3 (read_message common_prop_of) m, ho_behaviac_tree_path = get_opt 4 as_string m,
      ho_build_time = get_opt 5 as_int32 m, ho_attack_speed = get_opt 6 as_int32 m,
      ho_produce_entity_id = get_opt 7 read_int64 m, ho_produce_entity_speed = get_opt 8 as_int32 m,
      ho_produce_entity_count = get_opt 9 as_int32 m, ho_actived = get_opt 10 as_bool m\<rparr>"

definition hoster_ok :: "hoster_asset \<Rightarrow> bool" where
  "hoster_ok x \<longleftrightarrow>
     opt_ok asset_common_ok (ho_common_prop x) \<and> opt_ok common_prop_ok (ho_human_prop x) \<and>
     opt_ok in_int32 (ho_build_time x) \<and> opt_ok in_int32 (ho_attack_speed x) \<and>
     opt_ok in_int64 (ho_produce_entity_id x) \<and> opt_ok in_int32 (ho_produce_entity_speed x) \<and>
     opt_ok in_int32 (ho_produce_entity_count x)"

lemma hoster_read [simp]: "hoster_ok x \<Longrightarrow> hoster_of (wire_hoster x) = x"
  by (cases x) (simp add: hoster_of_def wire_hoster_def hoster_ok_def)

lemma read_hoster: "hoster_ok x \<Longrightarrow> read_message hoster_of (write_message wire_hoster x) = x"
  by simp

lemmas get_hoster [simp] = 
  get_opt_hit [where P = hoster_ok and f = "write_message wire_hoster" and g = "read_message hoster_of", OF _ read_hoster]
  get_rep_hit [where P = hoster_ok and f = "write_message wire_hoster" and g = "read_message hoster_of", OF _ read_hoster]

lemma hoster_valid: "hoster_ok x \<Longrightarrow> 2 \<le> l \<Longrightarrow> valid_message l schema D_Hoster (wire_hoster x)"
  unfolding wire_hoster_def concat.simps hoster_ok_def
  by (rule valid_from_message [where k = 0]) (intro valid_from_asset_common valid_from_common_prop valid_from_fields; simp add: find_defs asset_common_valid common_prop_valid)

lemmas valid_from_hoster = valid_from_message_field [where P = hoster_ok and f = wire_hoster and d' = D_Hoster]
  valid_from_rep_message [where P = hoster_ok and f = wire_hoster and d' = D_Hoster]

section \<open>\<open>harm\<close>\<close>

definition wire_harm :: "harm \<Rightarrow> wire_message" where
  "wire_harm x = WireMessage (concat [
     opt_field 1 (write_enum harm_type_enum) (ha_harm_type x), opt_field 2 write_int32 (ha_harm_total x),
     opt_field 3 write_int32 (ha_last_time x), opt_field 4 write_int32 (ha_harm_per_second x),
     opt_field 5 write_int32 (ha_harm_range x), opt_field 6 (write_enum entity_type_enum) (ha_harm_target x)]) []"

definition harm_of :: "wire_message \<Rightarrow> harm" where
  "harm_of m =
     \<lparr>ha_harm_type = get_opt 1 (read_enum harm_type_enum) m, ha_harm_total = get_opt 2 as_int32 m,
      ha_last_time = get_opt 3 as_int32 m, ha_harm_per_second = get_opt 4 as_int32 m,
      ha_harm_range = get_opt 5 as_int32 m, ha_harm_target = get_opt 6 (read_enum entity_type_enum) m\<rparr>"

definition harm_ok :: "harm \<Rightarrow> bool" where
  "harm_ok x \<longleftrightarrow>
     opt_ok in_int32 (ha_harm_total x) \<and> opt_ok in_int32 (ha_last_time x) \<and>
     opt_ok in_int32 (ha_harm_per_second x) \<and> opt_ok in_int32 (ha_harm_range x)"

lemma harm_read [simp]: "harm_ok x \<Longrightarrow> harm_of (wire_harm x) = x"
  by (cases x) (simp add: harm_of_def wire_harm_def harm_ok_def)

lemma read_harm: "harm_ok x \<Longrightarrow> read_message harm_of (write_message wire_harm x) = x"
  by simp

lemmas get_harm [simp] = 
  get_opt_hit [where P = harm_ok and f = "write_message wire_harm" and g = "read_message harm_of", OF _ read_harm]
  get_rep_hit [where P = harm_ok and f = "write_message wire_harm" and g = "read_message harm_of", OF _ read_harm]

lemma harm_valid: "harm_ok x \<Longrightarrow> valid_message l schema D_Harm (wire_harm x)"
  unfolding wire_harm_def concat.simps harm_ok_def
  by (rule valid_from_message [where k = 0]) (intro valid_from_fields; simp add: find_defs)

lemmas valid_from_harm = valid_from_message_field [where P = harm_ok and f = wire_harm and d' = D_Harm]
  valid_from_rep_message [where P = harm_ok and f = wire_harm and d' = D_Harm]

section \<open>\<open>skill_asset\<close>\<close>

definition wire_skill :: "skill_asset \<Rightarrow> wire_message" where
  "wire_skill x = WireMessage (concat [
     opt_field 2 (write_message wire_asset_common) (ska_common_prop x), opt_field 3 write_int32 (ska_level x),
     opt_field 4 WString (ska_behaviac_tree_path x), opt_field 5 write_int64 (ska_cool_down_id x),
     opt_field 6 write_int32 (ska_defense x), opt_field 7 (write_message wire_harm) (ska_harm x),
     opt_field 8 write_int32 (ska_summon_entity_id x), opt_field 9 write_int32 (ska_death_harm_total x)]) []"

definition skill_of :: "wire_message \<Rightarrow> skill_asset" where
  "skill_of m =
     \<lparr>ska_common_prop = get_opt 2 (read_message asset_common_of) m, ska_level = get_opt 3 as_int32 m,
      ska_behaviac_tree_path = get_opt 4 as_string m, ska_cool_down_id = get_opt 5 read_int64 m,
      ska_defense = get_opt 6 as_int32 m, ska_harm = get_opt 7 (read_message harm_of) m,
      ska_summon_entity_id = get_opt 8 as_int32 m, ska_death_harm_total = get_opt 9 as_int32 m\<rparr>"

definition skill_ok :: "skill_asset \<Rightarrow> bool" where
  "skill_ok x \<longleftrightarrow>
     opt_ok asset_common_ok (ska_common_prop x) \<and> opt_ok in_int32 (ska_level x) \<and>
     opt_ok in_int64 (ska_cool_down_id x) \<and> opt_ok in_int32 (ska_defense x) \<and>
     opt_ok harm_ok (ska_harm x) \<and> opt_ok in_int32 (ska_summon_entity_id x) \<and>
     opt_ok in_int32 (ska_death_harm_total x)"

lemma skill_read [simp]: "skill_ok x \<Longrightarrow> skill_of (wire_skill x) = x"
  by (cases x) (simp add: skill_of_def wire_skill_def skill_ok_def)

lemma read_skill: "skill_ok x \<Longrightarrow> read_message skill_of (write_message wire_skill x) = x"
  by simp

lemmas get_skill [simp] = 
  get_opt_hit [where P = skill_ok and f = "write_message wire_skill" and g = "read_message skill_of", OF _ read_skill]
  get_rep_hit [where P = skill_ok and f = "write_message wire_skill" and g = "read_message skill_of", OF _ read_skill]

lemma skill_valid: "skill_ok x \<Longrightarrow> 1 \<le> l \<Longrightarrow> valid_message l schema D_Skill (wire_skill x)"
  unfolding wire_skill_def concat.simps skill_ok_def
  by (rule valid_from_message [where k = 0]) (intro valid_from_asset_common valid_from_harm valid_from_fields; simp add: find_defs asset_common_valid harm_valid)

lemmas valid_from_skill = valid_from_message_field [where P = skill_ok and f = wire_skill and d' = D_Skill]
  valid_from_rep_message [where P = skill_ok and f = wire_skill and d' = D_Skill]

section \<open>\<open>consume\<close>\<close>

definition wire_consume :: "consume \<Rightarrow> wire_message" where
  "wire_consume x = WireMessage (concat [
     opt_field 1 write_int32 (co_level_up x), opt_field 2 (write_enum consume_type_enum) (co_consume_type x),
     opt_field 3 write_int32 (co_consume_value x), opt_field 4 write_int64 (co_entity_id x)]) []"

definition consume_of :: "wire_message \<Rightarrow> consume" where
  "consume_of m =
     \<lparr>co_level_up = get_opt 1 as_int32 m, co_consume_type = get_opt 2 (read_enum consume_type_enum) m,
      co_consume_value = get_opt 3 as_int32 m, co_entity_id = get_opt 4 read_int64 m\<rparr>"

definition consume_ok :: "consume \<Rightarrow> bool" where
  "consume_ok x \<longleftrightarrow>
     opt_ok in_int32 (co_level_up x) \<and> opt_ok in_int32 (co_consume_value x) \<and>
     opt_ok in_int64 (co_entity_id x)"

lemma consume_read [simp]: "consume_ok x \<Longrightarrow> consume_of (wire_consume x) = x"
  by (cases x) (simp add: consume_of_def wire_consume_def consume_ok_def)

lemma read_consume: "consume_ok x \<Longrightarrow> read_message consume_of (write_message wire_consume x) = x"
  by simp

lemmas get_consume [simp] = 
  get_opt_hit [where P = consume_ok and f = "write_message wire_consume" and g = "read_message consume_of", OF _ read_consume]
  get_rep_hit [where P = consume_ok and f = "write_message wire_consume" and g = "read_message consume_of", OF _ read_consume]

lemma consume_valid: "consume_ok x \<Longrightarrow> valid_message l schema D_Consume (wire_consume x)"
  unfolding wire_consume_def concat.simps consume_ok_def
  by (rule valid_from_message [where k = 0]) (intro valid_from_fields; simp add: find_defs)

lemmas valid_from_consume = valid_from_message_field [where P = consume_ok and f = wire_consume and d' = D_Consume]
  valid_from_rep_message [where P = consume_ok and f = wire_consume and d' = D_Consume]

section \<open>\<open>scene_asset\<close>\<close>

definition wire_scene_asset :: "scene_asset \<Rightarrow> wire_message" where
  "wire_scene_asset x = WireMessage (concat [
     opt_field 2 (write_message wire_asset_common) (sa_common_prop x), opt_field 3 write_int32 (sa_length x),
     opt_field 4 write_int32 (sa_width x), opt_field 5 WString (sa_terrain_path x)]) []"

definition scene_asset_of :: "wire_message \<Rightarrow> scene_asset" where
  "scene_asset_of m =
     \<lparr>sa_common_prop = get_opt 2 (read_message asset_common_of) m, sa_length = get_opt 3 as_int32 m,
      sa_width = get_opt 4 as_int32 m, sa_terrain_path = get_opt 5 as_string m\<rparr>"

definition scene_asset_ok :: "scene_asset \<Rightarrow> bool" where
  "scene_asset_ok x \<longleftrightarrow>
     opt_ok asset_common_ok (sa_common_prop x) \<and> opt_ok in_int32 (sa_length x) \<and>
     opt_ok in_int32 (sa_width x)"

lemma scene_asset_read [simp]: "scene_asset_ok x \<Longrightarrow> scene_asset_of (wire_scene_asset x) = x"
  by (cases x) (simp add: scene_asset_of_def wire_scene_asset_def scene_asset_ok_def)

lemma read_scene_asset: "scene_asset_ok x \<Longrightarrow> read_message scene_asset_of (write_message wire_scene_asset x) = x"
  by simp

lemmas get_scene_asset [simp] = 
  get_opt_hit [where P = scene_asset_ok and f = "write_message wire_scene_asset" and g = "read_message scene_asset_of", OF _ read_scene_asset]
  get_rep_hit [where P = scene_asset_ok and f = "write_message wire_scene_asset" and g = "read_message scene_asset_of", OF _ read_scene_asset]

lemma scene_asset_valid: "scene_asset_ok x \<Longrightarrow> 1 \<le> l \<Longrightarrow> valid_message l schema D_Scene (wire_scene_asset x)"
  unfolding wire_scene_asset_def concat.simps scene_asset_ok_def
  by (rule valid_from_message [where k = 0]) (intro valid_from_asset_common valid_from_fields; simp add: find_defs asset_common_valid)

lemmas valid_from_scene_asset = valid_from_message_field [where P = scene_asset_ok and f = wire_scene_asset and d' = D_Scene]
  valid_from_rep_message [where P = scene_asset_ok and f = wire_scene_asset and d' = D_Scene]

section \<open>\<open>particle_asset\<close>\<close>

definition wire_particle :: "particle_asset \<Rightarrow> wire_message" where
  "wire_particle x = WireMessage (concat [
     opt_field 2 (write_message wire_asset_common) (pa_common_prop x),
     opt_field 3 (write_enum entity_type_enum) (pa_entity_type x), opt_field 4 write_int32 (pa_speed x),
     opt_field 5 write_int32 (pa_orientation_x x), opt_field 6 write_int32 (pa_orientation_y x),
     opt_field 7 (write_message wire_vector3) (pa_position x)]) []"

definition particle_of :: "wire_message \<Rightarrow> particle_asset" where
  "particle_of m =
     \<lparr>pa_common_prop = get_opt 2 (read_message asset_common_of) m,
      pa_entity_type = get_opt 3 (read_enum entity_type_enum) m, pa_speed = get_opt 4 as_int32 m,
      pa_orientation_x = get_opt 5 as_int32 m, pa_orientation_y = get_opt 6 as_int32 m,
      pa_position = get_opt 7 (read_message vector3_of) m\<rparr>"

definition particle_ok :: "particle_asset \<Rightarrow> bool" where
  "particle_ok x \<longleftrightarrow>
     opt_ok asset_common_ok (pa_common_prop x) \<and> opt_ok in_int32 (pa_speed x) \<and>
     opt_ok in_int32 (pa_orientation_x x) \<and> opt_ok in_int32 (pa_orientation_y x) \<and>
     opt_ok vector3_ok (pa_position x)"

lemma particle_read [simp]: "particle_ok x \<Longrightarrow> particle_of (wire_particle x) = x"
  by (cases x) (simp add: particle_of_def wire_particle_def particle_ok_def)

lemma read_particle: "particle_ok x \<Longrightarrow> read_message particle_of (write_message wire_particle x) = x"
  by simp

lemmas get_particle [simp] = 
  get_opt_hit [where P = particle_ok and f = "write_message wire_particle" and g = "read_message particle_of", OF _ read_particle]
  get_rep_hit [where P = particle_ok and f = "write_message wire_particle" and g = "read_message particle_of", OF _ read_particle]

lemma particle_valid: "particle_ok x \<Longrightarrow> 1 \<le> l \<Longrightarrow> valid_message l schema D_Particle (wire_particle x)"
  unfolding wire_particle_def concat.simps particle_ok_def
  by (rule valid_from_message [where k = 0]) (intro valid_from_asset_common valid_from_vector3 valid_from_fields; simp add: find_defs asset_common_valid vector3_valid)

lemmas valid_from_particle = valid_from_message_field [where P = particle_ok and f = wire_particle and d' = D_Particle]
  valid_from_rep_message [where P = particle_ok and f = wire_particle and d' = D_Particle]

section \<open>\<open>item_common_prop\<close>\<close>

definition wire_item_common :: "item_common_prop \<Rightarrow> wire_message" where
  "wire_item_common x = WireMessage (concat [
     opt_field 1 (write_message wire_asset_common) (ic_common_prop x), opt_field 2 write_int32 (ic_quality x),
     opt_field 3 write_int32 (ic_min_level_limit x), opt_field 4 write_int32 (ic_max_level_limit x),
     opt_field 5 write_int32 (ic_pile_max x), opt_field 6 write_int32 (ic_count x),
     opt_field 7 WBool (ic_batch_use x), opt_field 8 WBool (ic_auto_use x),
     opt_field 9 write_int64 (ic_cool_down_id x),
     opt_field 10 (write_enum inventory_type_enum) (ic_inventory x),
     opt_field 11 (write_enum prof_type_enum) (ic_prof_mask x)]) []"

definition item_common_of :: "wire_message \<Rightarrow> item_common_prop" where
  "item_common_of m =
     \<lparr>ic_common_prop = get_opt 1 (read_message asset_common_of) m, ic_quality = get_opt 2 as_int32 m,
      ic_min_level_limit = get_opt 3 as_int32 m, ic_max_level_limit = get_opt 4 as_int32 m,
      ic_pile_max = get_opt 5 as_int32 m, ic_count = get_opt 6 as_int32 m,
      ic_batch_use = get_opt 7 as_bool m, ic_auto_use = get_opt 8 as_bool m,
      ic_cool_down_id = get_opt 9 read_int64 m, ic_inventory = get_opt 10 (read_enum inventory_type_enum) m,
      ic_prof_mask = get_opt 11 (read_enum prof_type_enum) m\<rparr>"

definition item_common_ok :: "item_common_prop \<Rightarrow> bool" where
  "item_common_ok x \<longleftrightarrow>
     opt_ok asset_common_ok (ic_common_prop x) \<and> opt_ok in_int32 (ic_quality x) \<and>
     opt_ok in_int32 (ic_min_level_limit x) \<and> opt_ok in_int32 (ic_max_level_limit x) \<and>
     opt_ok in_int32 (ic_pile_max x) \<and> opt_ok in_int32 (ic_count x) \<and>
     opt_ok in_int64 (ic_cool_down_id x)"

lemma item_common_read [simp]: "item_common_ok x \<Longrightarrow> item_common_of (wire_item_common x) = x"
  by (cases x) (simp add: item_common_of_def wire_item_common_def item_common_ok_def)

lemma read_item_common: "item_common_ok x \<Longrightarrow> read_message item_common_of (write_message wire_item_common x) = x"
  by simp

lemmas get_item_common [simp] = 
  get_opt_hit [where P = item_common_ok and f = "write_message wire_item_common" and g = "read_message item_common_of", OF _ read_item_common]
  get_rep_hit [where P = item_common_ok and f = "write_message wire_item_common" and g = "read_message item_common_of", OF _ read_item_common]

lemma item_common_valid: "item_common_ok x \<Longrightarrow> 1 \<le> l \<Longrightarrow> valid_message l schema D_ItemCommonProp (wire_item_common x)"
  unfolding wire_item_common_def concat.simps item_common_ok_def
  by (rule valid_from_message [where k = 0]) (intro valid_from_asset_common valid_from_fields; simp add: find_defs asset_common_valid)

lemmas valid_from_item_common = valid_from_message_field [where P = item_common_ok and f = wire_item_common and d' = D_ItemCommonProp]
  valid_from_rep_message [where P = item_common_ok and f = wire_item_common and d' = D_ItemCommonProp]

section \<open>\<open>item_item\<close>\<close>

definition wire_item :: "item_item \<Rightarrow> wire_message" where
  "wire_item x = WireMessage (concat [
     opt_field 1 (write_enum asset_type_enum) (ii_type_t x), opt_field 2 WString (ii_stuff x),
     opt_field 3 WString (ii_stuff_extra x)]) []"

definition item_of :: "wire_message \<Rightarrow> item_item" where
  "item_of m =
     \<lparr>ii_type_t = get_opt 1 (read_enum asset_type_enum) m, ii_stuff = get_opt 2 as_string m,
      ii_stuff_extra = get_opt 3 as_string m\<rparr>"

definition item_ok :: "item_item \<Rightarrow> bool" where
  "item_ok x \<longleftrightarrow>
     True"

lemma item_read [simp]: "item_ok x \<Longrightarrow> item_of (wire_item x) = x"
  by (cases x) (simp add: item_of_def wire_item_def item_ok_def)

lemma read_item: "item_ok x \<Longrightarrow> read_message item_of (write_message wire_item x) = x"
  by simp

lemmas get_item [simp] = 
  get_opt_hit [where P = item_ok and f = "write_message wire_item" and g = "read_message item_of", OF _ read_item]
  get_rep_hit [where P = item_ok and f = "write_message wire_item" and g = "read_message item_of", OF _ read_item]

lemma item_valid: "item_ok x \<Longrightarrow> valid_message l schema D_ItemItem (wire_item x)"
  unfolding wire_item_def concat.simps item_ok_def
  by (rule valid_from_message [where k = 0]) (intro valid_from_fields; simp add: find_defs)

lemmas valid_from_item = valid_from_message_field [where P = item_ok and f = wire_item and d' = D_ItemItem]
  valid_from_rep_message [where P = item_ok and f = wire_item and d' = D_ItemItem]

section \<open>\<open>inventory\<close>\<close>

definition wire_inventory :: "inventory \<Rightarrow> wire_message" where
  "wire_inventory x = WireMessage (concat [
     opt_field 1 (write_enum inventory_type_enum) (inv_inventory_type x),
     rep_field 2 (write_message wire_item) (inv_items x)]) []"

definition inventory_of :: "wire_message \<Rightarrow> inventory" where
  "inventory_of m =
     \<lparr>inv_inventory_type = get_opt 1 (read_enum inventory_type_enum) m,
      inv_items = get_rep 2 (read_message item_of) m\<rparr>"

definition inventory_ok :: "inventory \<Rightarrow> bool" where
  "inventory_ok x \<longleftrightarrow>
     list_all item_ok (inv_items x)"

lemma inventory_read [simp]: "inventory_ok x \<Longrightarrow> inventory_of (wire_inventory x) = x"
  by (cases x) (simp add: inventory_of_def wire_inventory_def inventory_ok_def)

lemma read_inventory: "inventory_ok x \<Longrightarrow> read_message inventory_of (write_message wire_inventory x) = x"
  by simp

lemmas get_inventory [simp] = 
  get_opt_hit [where P = inventory_ok and f = "write_message wire_inventory" and g = "read_message inventory_of", OF _ read_inventory]
  get_rep_hit [where P = inventory_ok and f = "write_message wire_inventory" and g = "read_message inventory_of", OF _ read_inventory]

lemma inventory_valid: "inventory_ok x \<Longrightarrow> 1 \<le> l \<Longrightarrow> valid_message l schema D_Inventory (wire_inventory x)"
  unfolding wire_inventory_def concat.simps inventory_ok_def
  by (rule valid_from_message [where k = 0]) (intro valid_from_item valid_from_fields; simp add: find_defs item_valid)

lemmas valid_from_inventory = valid_from_message_field [where P = inventory_ok and f = wire_inventory and d' = D_Inventory]
  valid_from_rep_message [where P = inventory_ok and f = wire_inventory and d' = D_Inventory]

definition wire_inventories :: "inventory list \<Rightarrow> wire_message" where
  "wire_inventories xs = WireMessage (concat [rep_field 1 (write_message wire_inventory) xs]) []"

definition inventories_of :: "wire_message \<Rightarrow> inventory list" where
  "inventories_of m = get_rep 1 (read_message inventory_of) m"

definition inventories_ok :: "inventory list \<Rightarrow> bool" where
  "inventories_ok xs \<longleftrightarrow> list_all inventory_ok xs"

lemma inventories_read [simp]: "inventories_ok xs \<Longrightarrow> inventories_of (wire_inventories xs) = xs"
  by (simp add: inventories_of_def wire_inventories_def inventories_ok_def)

lemma read_inventories: "inventories_ok x \<Longrightarrow> read_message inventories_of (write_message wire_inventories x) = x"
  by simp

lemmas get_inventories [simp] =
  get_opt_hit [where P = inventories_ok and f = "write_message wire_inventories" and g = "read_message inventories_of", OF _ read_inventories]

lemma inventories_valid: "inventories_ok xs \<Longrightarrow> 2 \<le> l \<Longrightarrow> valid_message l schema D_Inventories (wire_inventories xs)"
  unfolding wire_inventories_def concat.simps inventories_ok_def
  by (rule valid_from_message [where k = 0]) (intro valid_from_inventory valid_from_fields; simp add: find_defs inventory_valid)

lemmas valid_from_inventories = valid_from_message_field [where P = inventories_ok and f = wire_inventories and d' = D_Inventories]

text \<open>\<open>PlayerProvisionalProp\<close> has one field, which is an option of its own.\<close>

definition wire_provisional :: "flt option \<Rightarrow> wire_message" where
  "wire_provisional x = WireMessage (concat [opt_field 1 write_float x]) []"

definition provisional_of :: "wire_message \<Rightarrow> flt option" where
  "provisional_of m = get_opt 1 read_float m"

definition provisional_ok :: "flt option \<Rightarrow> bool" where
  "provisional_ok x \<longleftrightarrow> opt_ok is_float x"

lemma provisional_read [simp]: "provisional_ok x \<Longrightarrow> provisional_of (wire_provisional x) = x"
  by (simp add: provisional_of_def wire_provisional_def provisional_ok_def)

lemma read_provisional: "provisional_ok x \<Longrightarrow> read_message provisional_of (write_message wire_provisional x) = x"
  by simp

lemmas get_provisional [simp] =
  get_opt_hit [where P = provisional_ok and f = "write_message wire_provisional" and g = "read_message provisional_of", OF _ read_provisional]

lemma provisional_valid: "provisional_ok x \<Longrightarrow> valid_message l schema D_PlayerProvisionalProp (wire_provisional x)"
  unfolding wire_provisional_def concat.simps
  by (rule valid_from_message [where k = 0]) (intro valid_from_fields; simp add: find_defs)

lemmas valid_from_provisional = valid_from_message_field [where P = provisional_ok and f = wire_provisional and d' = D_PlayerProvisionalProp]

section \<open>\<open>player_stuff\<close>\<close>

definition wire_player :: "player_stuff \<Rightarrow> wire_message" where
  "wire_player x = WireMessage (concat [
     opt_field 1 (write_enum entity_type_enum) (ps_entity_type x),
     opt_field 2 (write_message wire_common_prop) (ps_common_prop x),
     opt_field 3 write_int32 (ps_local_zone x), opt_field 4 write_int32 (ps_locate_zone x),
     opt_field 5 (write_message wire_inventories) (ps_inventory x),
     opt_field 6 (write_message wire_provisional) (ps_sight_distance x)]) []"

definition player_of :: "wire_message \<Rightarrow> player_stuff" where
  "player_of m =
     \<lparr>ps_entity_type = get_opt 1 (read_enum entity_type_enum) m,
      ps_common_prop = get_opt 2 (read_message common_prop_of) m, ps_local_zone = get_opt 3 as_int32 m,
      ps_locate_zone = get_opt 4 as_int32 m, ps_inventory = get_opt 5 (read_message inventories_of) m,
      ps_sight_distance = get_opt 6 (read_message provisional_of) m\<rparr>"

definition stuff_ok :: "player_stuff \<Rightarrow> bool" where
  "stuff_ok x \<longleftrightarrow>
     opt_ok common_prop_ok (ps_common_prop x) \<and> opt_ok in_int32 (ps_local_zone x) \<and>
     opt_ok in_int32 (ps_locate_zone x) \<and> opt_ok inventories_ok (ps_inventory x) \<and>
     opt_ok provisional_ok (ps_sight_distance x)"

lemma player_read [simp]: "stuff_ok x \<Longrightarrow> player_of (wire_player x) = x"
  by (cases x) (simp add: player_of_def wire_player_def stuff_ok_def)

lemma read_player: "stuff_ok x \<Longrightarrow> read_message player_of (write_message wire_player x) = x"
  by simp

lemmas get_player [simp] = 
  get_opt_hit [where P = stuff_ok and f = "write_message wire_player" and g = "read_message player_of", OF _ read_player]
  get_rep_hit [where P = stuff_ok and f = "write_message wire_player" and g = "read_message player_of", OF _ read_player]

lemma player_valid: "stuff_ok x \<Longrightarrow> 3 \<le> l \<Longrightarrow> valid_message l schema D_Player (wire_player x)"
  unfolding wire_player_def concat.simps stuff_ok_def
  by (rule valid_from_message [where k = 0]) (intro valid_from_common_prop valid_from_inventories valid_from_provisional valid_from_fields; simp add: find_defs common_prop_valid inventories_valid provisional_valid)

lemmas valid_from_player = valid_from_message_field [where P = stuff_ok and f = wire_player and d' = D_Player]
  valid_from_rep_message [where P = stuff_ok and f = wire_player and d' = D_Player]

section \<open>\<open>meta\<close>\<close>

definition wire_meta :: "meta \<Rightarrow> wire_message" where
  "wire_meta x = WireMessage (concat [
     opt_field 1 (write_enum meta_type_enum) (me_type_t x), opt_field 2 WString (me_stuff x)]) []"

definition meta_of :: "wire_message \<Rightarrow> meta" where
  "meta_of m =
     \<lparr>me_type_t = get_opt 1 (read_enum meta_type_enum) m, me_stuff = get_opt 2 as_string m\<rparr>"

definition meta_ok :: "meta \<Rightarrow> bool" where
  "meta_ok x \<longleftrightarrow>
     True"

lemma meta_read [simp]: "meta_ok x \<Longrightarrow> meta_of (wire_meta x) = x"
  by (cases x) (simp add: meta_of_def wire_meta_def meta_ok_def)

lemma read_meta: "meta_ok x \<Longrightarrow> read_message meta_of (write_message wire_meta x) = x"
  by simp

lemmas get_meta [simp] = 
  get_opt_hit [where P = meta_ok and f = "write_message wire_meta" and g = "read_message meta_of", OF _ read_meta]
  get_rep_hit [where P = meta_ok and f = "write_message wire_meta" and g = "read_message meta_of", OF _ read_meta]

lemma meta_valid: "meta_ok x \<Longrightarrow> valid_message l schema D_Meta (wire_meta x)"
  unfolding wire_meta_def concat.simps meta_ok_def
  by (rule valid_from_message [where k = 0]) (intro valid_from_fields; simp add: find_defs)

lemmas valid_from_meta = valid_from_message_field [where P = meta_ok and f = wire_meta and d' = D_Meta]
  valid_from_rep_message [where P = meta_ok and f = wire_meta and d' = D_Meta]

section \<open>\<open>msg_item\<close>\<close>

definition wire_msg_item :: "msg_item \<Rightarrow> wire_message" where
  "wire_msg_item x = WireMessage (concat [
     opt_field 1 write_int64 (mi_message_id x), opt_field 2 write_int32 (mi_type x),
     opt_field 3 write_int32 (mi_priority x), opt_field 4 write_int64 (mi_sender x),
     opt_field 5 write_int64 (mi_receiver x), opt_field 6 write_int64 (mi_time x),
     opt_field 7 write_int32 (mi_delay x), opt_field 8 WString (mi_content x)]) []"

definition msg_item_of :: "wire_message \<Rightarrow> msg_item" where
  "msg_item_of m =
     \<lparr>mi_message_id = get_opt 1 read_int64 m, mi_type = get_opt 2 as_int32 m,
      mi_priority = get_opt 3 as_int32 m, mi_sender = get_opt 4 read_int64 m,
      mi_receiver = get_opt 5 read_int64 m, mi_time = get_opt 6 read_int64 m,
      mi_delay = get_opt 7 as_int32 m, mi_content = get_opt 8 as_string m\<rparr>"

definition msg_item_ok :: "msg_item \<Rightarrow> bool" where
  "msg_item_ok x \<longleftrightarrow>
     opt_ok in_int64 (mi_message_id x) \<and> opt_ok in_int32 (mi_type x) \<and>
     opt_ok in_int32 (mi_priority x) \<and> opt_ok in_int64 (mi_sender x) \<and>
     opt_ok in_int64 (mi_receiver x) \<and> opt_ok in_int64 (mi_time x) \<and> opt_ok in_int32 (mi_delay x)"

lemma msg_item_read [simp]: "msg_item_ok x \<Longrightarrow> msg_item_of (wire_msg_item x) = x"
  by (cases x) (simp add: msg_item_of_def wire_msg_item_def msg_item_ok_def)

lemma read_msg_item: "msg_item_ok x \<Longrightarrow> read_message msg_item_of (write_message wire_msg_item x) = x"
  by simp

lemmas get_msg_item [simp] = 
  get_opt_hit [where P = msg_item_ok and f = "write_message wire_msg_item" and g = "read_message msg_item_of", OF _ read_msg_item]
  get_rep_hit [where P = msg_item_ok and f = "write_message wire_msg_item" and g = "read_message msg_item_of", OF _ read_msg_item]

lemma msg_item_valid: "msg_item_ok x \<Longrightarrow> valid_message l schema D_MsgItem (wire_msg_item x)"
  unfolding wire_msg_item_def concat.simps msg_item_ok_def
  by (rule valid_from_message [where k = 0]) (intro valid_from_fields; simp add: find_defs)

lemmas valid_from_msg_item = valid_from_message_field [where P = msg_item_ok and f = wire_msg_item and d' = D_MsgItem]
  valid_from_rep_message [where P = msg_item_ok and f = wire_msg_item and d' = D_MsgItem]

end
