(* ===== verification/Wire_Codec.thy ===== *)
theory Wire_Codec
  imports Wire_Messages
begin

text \<open>
  The codec of the server, \<open>protobuf_codec\<close>: \<open>SerializeAsString\<close> and \<open>ParseFromString\<close> of theory
  Wire_Format on the descriptors of theory Wire_Schema, for the classes the code serialises. It is an
  instance of the parameter that theories Entity_Ops, Player_Ops and World_Session have, and what these
  assume of it is proved here, with the bounds under which it holds.
\<close>

section \<open>The messages of the client protocol\<close>

text \<open>The account of a \<open>Login\<close>, both fields set.\<close>

definition wire_account :: "bytes \<times> bytes \<Rightarrow> wire_message" where
  "wire_account x = WireMessage (concat [opt_field 1 WString (Some (fst x)), opt_field 2 WString (Some (snd x))]) []"

definition account_of :: "wire_message \<Rightarrow> bytes \<times> bytes" where
  "account_of m = (opt_get [] (get_opt 1 as_string m), opt_get [] (get_opt 2 as_string m))"

fun proto_descriptor :: "proto_msg \<Rightarrow> message_type" where
  "proto_descriptor PM_CreatePlayer = D_CreatePlayer"
| "proto_descriptor (PM_Login _) = D_Login"
| "proto_descriptor (PM_EnterGame _ _) = D_EnterGame"
| "proto_descriptor (PM_EnterScene _) = D_EnterScene"
| "proto_descriptor (PM_Move _) = D_Move"
| "proto_descriptor (PM_PlayerList _) = D_PlayerList"
| "proto_descriptor (PM_PlayerInfo _) = D_PlayerInfo"
| "proto_descriptor (PM_MutableProperty _ _ _ _) = D_MutableProperty"
| "proto_descriptor (PM_AlterError _ _ _) = D_AlterError"
| "proto_descriptor (PM_SurroundingsChanged _ _ _) = D_SurroundingsChanged"
| "proto_descriptor (PM_Account _ _) = D_Account"
| "proto_descriptor (PM_LoginResponse _) = D_LoginResponse"

fun proto_fields :: "proto_msg \<Rightarrow> (nat \<times> wire_value list) list list" where
  "proto_fields PM_CreatePlayer = []"
| "proto_fields (PM_Login account) = [opt_field 2 (write_message wire_account) account]"
| "proto_fields (PM_EnterGame type_t player_id) = [opt_field 1 (write_enum meta_type_enum) type_t, opt_field 2 write_int64 player_id]"
| "proto_fields (PM_EnterScene scene_id) = [opt_field 2 write_int64 scene_id]"
| "proto_fields (PM_Move move_to) = [opt_field 2 (write_message wire_vector3) move_to]"
| "proto_fields (PM_PlayerList players) = [rep_field 2 (write_message wire_player) players]"
| "proto_fields (PM_PlayerInfo player) = [opt_field 2 (write_message wire_player) player]"
| "proto_fields (PM_MutableProperty player_id speed orientation position) =
     [opt_field 2 write_int64 player_id, opt_field 3 write_int32 speed, opt_field 4 write_int32 orientation,
      opt_field 5 (write_message wire_vector3) position]"
| "proto_fields (PM_AlterError error_type error_show_type error_code) =
     [opt_field 2 write_int32 error_type, opt_field 3 write_int32 error_show_type, opt_field 4 write_int32 error_code]"
| "proto_fields (PM_SurroundingsChanged action_type entity_id content) =
     [opt_field 2 (write_enum action_type_enum) action_type, opt_field 3 write_int64 entity_id,
      opt_field 4 WString content]"
| "proto_fields (PM_Account username password) = [opt_field 1 WString username, opt_field 2 WString password]"
| "proto_fields (PM_LoginResponse id') = [opt_field 1 write_int64 id']"

definition wire_proto :: "proto_msg \<Rightarrow> wire_message" where
  "wire_proto x = WireMessage (concat (proto_fields x)) []"

text \<open>The message read into an object of the class of the first argument.\<close>

fun proto_of :: "proto_msg \<Rightarrow> wire_message \<Rightarrow> proto_msg" where
  "proto_of PM_CreatePlayer m = PM_CreatePlayer"
| "proto_of (PM_Login _) m = PM_Login (get_opt 2 (read_message account_of) m)"
| "proto_of (PM_EnterGame _ _) m = PM_EnterGame (get_opt 1 (read_enum meta_type_enum) m) (get_opt 2 read_int64 m)"
| "proto_of (PM_EnterScene _) m = PM_EnterScene (get_opt 2 read_int64 m)"
| "proto_of (PM_Move _) m = PM_Move (get_opt 2 (read_message vector3_of) m)"
| "proto_of (PM_PlayerList _) m = PM_PlayerList (get_rep 2 (read_message player_of) m)"
| "proto_of (PM_PlayerInfo _) m = PM_PlayerInfo (get_opt 2 (read_message player_of) m)"
| "proto_of (PM_MutableProperty _ _ _ _) m = PM_MutableProperty (get_opt 2 read_int64 m) (get_opt 3 as_int32 m)
     (get_opt 4 as_int32 m) (get_opt 5 (read_message vector3_of) m)"
| "proto_of (PM_AlterError _ _ _) m = PM_AlterError (get_opt 2 as_int32 m) (get_opt 3 as_int32 m) (get_opt 4 as_int32 m)"
| "proto_of (PM_SurroundingsChanged _ _ _) m = PM_SurroundingsChanged (get_opt 2 (read_enum action_type_enum) m)
     (get_opt 3 read_int64 m) (get_opt 4 as_string m)"
| "proto_of (PM_Account _ _) m = PM_Account (get_opt 1 as_string m) (get_opt 2 as_string m)"
| "proto_of (PM_LoginResponse _) m = PM_LoginResponse (get_opt 1 read_int64 m)"

text \<open>Numbers in range, enums listed, required fields set.\<close>

fun proto_ok :: "proto_msg \<Rightarrow> bool" where
  "proto_ok (PM_EnterGame _ i) \<longleftrightarrow> opt_ok in_int64 i"
| "proto_ok (PM_EnterScene i) \<longleftrightarrow> opt_ok in_int64 i"
| "proto_ok (PM_Move v) \<longleftrightarrow> opt_ok vector3_ok v"
| "proto_ok (PM_PlayerList ps) \<longleftrightarrow> list_all stuff_ok ps"
| "proto_ok (PM_PlayerInfo p) \<longleftrightarrow> opt_ok stuff_ok p"
| "proto_ok (PM_MutableProperty i s d v) \<longleftrightarrow> opt_ok in_int64 i \<and> opt_ok in_int32 s \<and> opt_ok in_int32 d \<and> opt_ok vector3_ok v"
| "proto_ok (PM_AlterError a b c) \<longleftrightarrow> opt_ok (\<lambda>i. i \<in> {1, 2}) a \<and> opt_ok (\<lambda>i. i = 1) b \<and> opt_ok (\<lambda>i. i \<in> {0, 1}) c"
| "proto_ok (PM_SurroundingsChanged _ i _) \<longleftrightarrow> opt_ok in_int64 i"
| "proto_ok (PM_LoginResponse i) \<longleftrightarrow> i \<noteq> None \<and> opt_ok in_int64 i"
| "proto_ok _ \<longleftrightarrow> True"

lemma account_read [simp]: "account_of (wire_account x) = x"
  by (simp add: account_of_def wire_account_def)

lemma get_account [simp]:
  "get_values n fs = [] \<Longrightarrow>
    get_opt n (read_message account_of) (WireMessage (opt_field n (write_message wire_account) x @ fs) us) = x"
  "get_opt n (read_message account_of) (WireMessage (opt_field n (write_message wire_account) x) us) = x"
  by simp_all

lemma read_number: "i \<in> {0, 1, 2} \<Longrightarrow> as_int32 (write_int32 i) = i"
  by (rule as_int32_written) (auto simp: in_int32_def)

lemma get_number [simp]:
  "opt_ok (\<lambda>i. i \<in> {1, 2}) x \<Longrightarrow> get_values n fs = [] \<Longrightarrow> get_opt n as_int32 (WireMessage (opt_field n write_int32 x @ fs) us) = x"
  "opt_ok (\<lambda>i. i = 1) x \<Longrightarrow> get_values n fs = [] \<Longrightarrow> get_opt n as_int32 (WireMessage (opt_field n write_int32 x @ fs) us) = x"
  "opt_ok (\<lambda>i. i \<in> {0, 1}) x \<Longrightarrow> get_opt n as_int32 (WireMessage (opt_field n write_int32 x) us) = x"
  using read_number [of 0] read_number [of 1] read_number [of 2]
  by (auto simp: get_opt_def opt_field_def opt_ok_def split: option.splits)

lemma proto_read [simp]: "proto_ok x \<Longrightarrow> proto_of d (wire_proto x) = x" if "proto_descriptor d = proto_descriptor x"
  using that by (cases x; cases d) (simp_all add: wire_proto_def)

lemma account_valid: "valid_message l schema D_Account (wire_account x)"
  unfolding wire_account_def concat.simps
  by (rule valid_from_message [where k = 0]) (intro valid_from_fields; simp add: find_defs)

lemma valid_from_account:
  "k < n \<Longrightarrow> valid_from l schema d n fs \<Longrightarrow> message_of schema d n = Some D_Account \<Longrightarrow> 0 < l \<Longrightarrow>
    valid_from l schema d k (opt_field n (write_message wire_account) x @ fs)"
  by (rule valid_from_message_field [where P = "\<lambda>_. True" and d' = D_Account])
    (simp_all add: account_valid opt_okI)

lemma opt_ok_cases: "opt_ok P x \<Longrightarrow> (x = None \<Longrightarrow> Q) \<Longrightarrow> (\<And>v. x = Some v \<Longrightarrow> P v \<Longrightarrow> Q) \<Longrightarrow> Q"
  by (cases x) (auto simp: opt_ok_def)

lemma proto_valid:
  assumes "proto_ok x" "4 \<le> l"
  shows "valid_message l schema (proto_descriptor x) (wire_proto x)"
proof (cases "\<exists>a b c. x = PM_AlterError a b c")
  case True
  then obtain a b c where x: "x = PM_AlterError a b c" by blast
  let ?P = "\<lambda>n i. case FindFieldByNumber schema D_AlterError n of None \<Rightarrow> False | Some fd \<Rightarrow> word_of_int i \<in> set (fd_enum_type fd)"
  have listed: "opt_ok (?P 2) a" "opt_ok (?P 3) b" "opt_ok (?P 4) c"
    using assms(1) x by (auto simp: find_defs elim!: opt_ok_mono)
  show ?thesis
    unfolding x wire_proto_def proto_fields.simps proto_descriptor.simps concat.simps
    by (intro valid_from_message [where k = 0] valid_from_number valid_from_Nil listed; simp add: find_defs)
next
  case False
  have "valid_from l schema (proto_descriptor x) 0 (concat (proto_fields x))"
    using assms False
    by (cases x; simp only: proto_fields.simps proto_descriptor.simps concat.simps proto_ok.simps;
      (intro valid_from_account valid_from_vector3 valid_from_player valid_from_fields; simp add: find_defs vector3_valid player_valid)?)
  then show ?thesis by (simp add: wire_proto_def valid_from_message)
qed

section \<open>Required fields\<close>

text \<open>The types that have no required field, nor does a message in them.\<close>

fun nothing_required :: "message_type \<Rightarrow> bool" where
  "nothing_required D_AssetCommonProp = False"
| "nothing_required D_Plant = False"
| "nothing_required D_CommonLimit = False"
| "nothing_required D_CoolDown = False"
| "nothing_required D_Hoster = False"
| "nothing_required D_Skill = False"
| "nothing_required D_LevelUpCurve = False"
| "nothing_required D_Scene = False"
| "nothing_required D_Particle = False"
| "nothing_required D_ItemCommonProp = False"
| "nothing_required D_ItemPotion = False"
| "nothing_required D_ItemEquipment = False"
| "nothing_required D_LoginResponse = False"
| "nothing_required _ = True"

lemma nothing_required_fields:
  "nothing_required d \<Longrightarrow> fd \<in> set (schema d) \<Longrightarrow>
    fd_label fd \<noteq> LABEL_REQUIRED \<and> (\<forall>d'. fd_message_type fd = Some d' \<longrightarrow> nothing_required d')"
  by (cases d; auto simp: field_defs)

lemma IsInitialized_nothing_required: "nothing_required d \<Longrightarrow> IsInitialized schema d m"
proof (induction m arbitrary: d rule: measure_induct_rule [where f = size])
  case (less m)
  have "IsInitialized schema d' x"
    if "fd \<in> set (ListFields schema d m)" "WMessage x \<in> set (get_values (fd_number fd) (msg_fields m))"
      "fd_message_type fd = Some d'" for fd x d'
    using that less.IH [of x d'] nothing_required_fields [OF less.prems, of fd] size_field_value [OF that(2)]
    by (auto simp: ListFields_mem)
  then show ?case
    using nothing_required_fields [OF less.prems]
    by (subst IsInitialized.simps) (auto simp: list_all_iff split: wire_value.split option.split)
qed

lemma IsInitialized_proto: "proto_ok x \<Longrightarrow> IsInitialized schema (proto_descriptor x) (wire_proto x)"
proof (cases x)
  case (PM_LoginResponse i)
  assume "proto_ok x"
  with PM_LoginResponse show ?thesis
    by (auto simp: IsInitialized.simps ListFields_def HasField_def wire_proto_def opt_field_def write_int64_def field_defs)
qed (simp_all add: IsInitialized_nothing_required)

section \<open>The codec\<close>

text \<open>\<open>SerializeAsString\<close> fails at \<open>2^31\<close> bytes only, \<open>ParseFromString\<close> has no result above \<open>2^26\<close> only.\<close>

definition to_bytes :: "message_type \<Rightarrow> wire_message \<Rightarrow> bytes" where
  "to_bytes d m = (case SerializeAsString schema d m of Inr b \<Rightarrow> b | Inl _ \<Rightarrow> [])"

definition of_bytes :: "message_type \<Rightarrow> bytes \<Rightarrow> bool \<times> wire_message" where
  "of_bytes d b = (case ParseFromArray schema d b of Inr r \<Rightarrow> r | Inl _ \<Rightarrow> (False, empty_message))"

definition parse_with :: "message_type \<Rightarrow> (wire_message \<Rightarrow> 'a) \<Rightarrow> bytes \<Rightarrow> 'a option" where
  "parse_with d f b = (let (ok, m) = of_bytes d b in if ok then Some (f m) else None)"

lemma to_bytes_encode:
  "valid_message l schema d m \<Longrightarrow> length (encode schema d m) < 2 ^ 31 \<Longrightarrow> to_bytes d m = encode schema d m"
  by (simp add: to_bytes_def SerializeAsString_bytes [OF schema_ok])

lemma of_bytes_encode:
  "valid_message recursion_limit schema d m \<Longrightarrow> length (encode schema d m) \<le> 2 ^ 26 \<Longrightarrow>
    of_bytes d (encode schema d m) = (IsInitialized schema d m, m)"
  by (simp add: of_bytes_def ParseFromArray_encode [OF schema_ok])

lemma of_bytes_to_bytes:
  assumes "valid_message recursion_limit schema d m" "length (encode schema d m) \<le> 2 ^ 26"
  shows "of_bytes d (to_bytes d m) = (IsInitialized schema d m, m)"
proof -
  have "length (encode schema d m) < 2 ^ 31" using assms(2) by simp
  from to_bytes_encode [OF assms(1) this] of_bytes_encode [OF assms] show ?thesis by simp
qed

lemma parse_with_to_bytes:
  assumes "valid_message recursion_limit schema d m" "length (encode schema d m) \<le> 2 ^ 26" "IsInitialized schema d m"
  shows "parse_with d f (to_bytes d m) = Some (f m)"
  using of_bytes_to_bytes [OF assms(1,2)] assms(3) by (simp add: parse_with_def)

text \<open>The configuration messages; a field \<open>type_t\<close> that is not set is not written.\<close>

fun asset_descriptor :: "asset_msg \<Rightarrow> message_type" where
  "asset_descriptor (AM_Plant _) = D_Plant"
| "asset_descriptor (AM_CommonLimit _ _ _) = D_CommonLimit"
| "asset_descriptor (AM_CoolDown _ _) = D_CoolDown"
| "asset_descriptor (AM_Hoster _) = D_Hoster"
| "asset_descriptor (AM_Skill _) = D_Skill"
| "asset_descriptor (AM_LevelUpCurve _ _ _) = D_LevelUpCurve"
| "asset_descriptor (AM_Scene _) = D_Scene"
| "asset_descriptor (AM_Particle _) = D_Particle"
| "asset_descriptor (AM_ItemPotion _ _ _) = D_ItemPotion"
| "asset_descriptor (AM_ItemEquipment _ _) = D_ItemEquipment"

fun wire_asset :: "asset_msg \<Rightarrow> wire_message" where
  "wire_asset (AM_Plant c) = WireMessage (concat [opt_field 2 (write_message wire_asset_common) c]) []"
| "wire_asset (AM_CommonLimit c limit_type cool_down_type) = WireMessage (concat [
     opt_field 2 (write_message wire_asset_common) c, opt_field 3 (write_enum common_limit_type_enum) limit_type,
     opt_field 4 (write_enum cool_down_type_enum) cool_down_type]) []"
| "wire_asset (AM_CoolDown c time) = WireMessage (concat [
     opt_field 2 (write_message wire_asset_common) c, opt_field 3 write_int32 time]) []"
| "wire_asset (AM_Hoster h) = wire_hoster h"
| "wire_asset (AM_Skill x) = wire_skill x"
| "wire_asset (AM_LevelUpCurve c consumes_count xs) = WireMessage (concat [
     opt_field 2 (write_message wire_asset_common) c, opt_field 3 write_int32 consumes_count,
     rep_field 4 (write_message wire_consume) xs]) []"
| "wire_asset (AM_Scene x) = wire_scene_asset x"
| "wire_asset (AM_Particle p) = wire_particle p"
| "wire_asset (AM_ItemPotion c potion_type increase_value) = WireMessage (concat [
     opt_field 2 (write_message wire_item_common) c, opt_field 3 (write_enum potion_type_enum) potion_type,
     opt_field 4 write_int32 increase_value]) []"
| "wire_asset (AM_ItemEquipment c equip_type) = WireMessage (concat [
     opt_field 2 (write_message wire_item_common) c, opt_field 3 (write_enum equip_type_enum) equip_type]) []"

text \<open>The message read into an object of the class of the first argument.\<close>

fun asset_of :: "asset_msg \<Rightarrow> wire_message \<Rightarrow> asset_msg" where
  "asset_of (AM_Plant _) m = AM_Plant (get_opt 2 (read_message asset_common_of) m)"
| "asset_of (AM_CommonLimit _ _ _) m = AM_CommonLimit (get_opt 2 (read_message asset_common_of) m)
     (get_opt 3 (read_enum common_limit_type_enum) m) (get_opt 4 (read_enum cool_down_type_enum) m)"
| "asset_of (AM_CoolDown _ _) m = AM_CoolDown (get_opt 2 (read_message asset_common_of) m) (get_opt 3 as_int32 m)"
| "asset_of (AM_Hoster _) m = AM_Hoster (hoster_of m)"
| "asset_of (AM_Skill _) m = AM_Skill (skill_of m)"
| "asset_of (AM_LevelUpCurve _ _ _) m = AM_LevelUpCurve (get_opt 2 (read_message asset_common_of) m)
     (get_opt 3 as_int32 m) (get_rep 4 (read_message consume_of) m)"
| "asset_of (AM_Scene _) m = AM_Scene (scene_asset_of m)"
| "asset_of (AM_Particle _) m = AM_Particle (particle_of m)"
| "asset_of (AM_ItemPotion _ _ _) m = AM_ItemPotion (get_opt 2 (read_message item_common_of) m)
     (get_opt 3 (read_enum potion_type_enum) m) (get_opt 4 as_int32 m)"
| "asset_of (AM_ItemEquipment _ _) m = AM_ItemEquipment (get_opt 2 (read_message item_common_of) m)
     (get_opt 3 (read_enum equip_type_enum) m)"

fun asset_ok :: "asset_msg \<Rightarrow> bool" where
  "asset_ok (AM_Plant c) \<longleftrightarrow> opt_ok asset_common_ok c"
| "asset_ok (AM_CommonLimit c _ _) \<longleftrightarrow> opt_ok asset_common_ok c"
| "asset_ok (AM_CoolDown c t) \<longleftrightarrow> opt_ok asset_common_ok c \<and> opt_ok in_int32 t"
| "asset_ok (AM_Hoster h) \<longleftrightarrow> hoster_ok h"
| "asset_ok (AM_Skill x) \<longleftrightarrow> skill_ok x"
| "asset_ok (AM_LevelUpCurve c n xs) \<longleftrightarrow> opt_ok asset_common_ok c \<and> opt_ok in_int32 n \<and> list_all consume_ok xs"
| "asset_ok (AM_Scene x) \<longleftrightarrow> scene_asset_ok x"
| "asset_ok (AM_Particle p) \<longleftrightarrow> particle_ok p"
| "asset_ok (AM_ItemPotion c _ v) \<longleftrightarrow> opt_ok item_common_ok c \<and> opt_ok in_int32 v"
| "asset_ok (AM_ItemEquipment c _) \<longleftrightarrow> opt_ok item_common_ok c"

lemma asset_read: "asset_ok x \<Longrightarrow> asset_of x (wire_asset x) = x"
  by (cases x) simp_all

lemma asset_valid: "asset_ok x \<Longrightarrow> 3 \<le> l \<Longrightarrow> valid_message l schema (asset_descriptor x) (wire_asset x)"
  by (cases x; simp only: asset_descriptor.simps wire_asset.simps asset_ok.simps concat.simps;
    (rule hoster_valid skill_valid scene_asset_valid particle_valid; simp)?;
    (intro valid_from_message [where k = 0] valid_from_asset_common valid_from_item_common valid_from_consume valid_from_fields;
      simp add: find_defs asset_common_valid item_common_valid consume_valid)?)

definition protobuf_codec :: codec where
  "protobuf_codec = \<lparr>
     ser_common = \<lambda>c. to_bytes D_CommonProp (wire_common_prop c),
     parse_common = parse_with D_CommonProp common_prop_of,
     ser_player = \<lambda>p. to_bytes D_Player (wire_player p),
     parse_player = \<lambda>b. (let (ok, m) = of_bytes D_Player b in (ok, player_of m)),
     ser_proto = \<lambda>x. to_bytes (proto_descriptor x) (wire_proto x),
     parse_proto = \<lambda>d. parse_with (proto_descriptor d) (proto_of d),
     ser_meta = \<lambda>m. to_bytes D_Meta (wire_meta m),
     parse_meta = parse_with D_Meta meta_of,
     ser_asset = \<lambda>a. to_bytes (asset_descriptor a) (wire_asset a)\<rparr>"

text \<open>A message short enough to be parsed.\<close>

definition fits :: "message_type \<Rightarrow> wire_message \<Rightarrow> bool" where
  "fits d m \<longleftrightarrow> length (encode schema d m) \<le> 2 ^ 26"

lemma levels: "n \<le> 100 \<Longrightarrow> n \<le> recursion_limit"
  by (simp add: recursion_limit_def)

lemma codec_common:
  "common_prop_ok c \<Longrightarrow> fits D_CommonProp (wire_common_prop c) \<Longrightarrow>
    parse_common protobuf_codec (ser_common protobuf_codec c) = Some c"
  unfolding fits_def protobuf_codec_def
  by (simp add: parse_with_to_bytes common_prop_valid levels IsInitialized_nothing_required)

lemma codec_player:
  "stuff_ok p \<Longrightarrow> fits D_Player (wire_player p) \<Longrightarrow>
    parse_player protobuf_codec (ser_player protobuf_codec p) = (True, p)"
  unfolding fits_def protobuf_codec_def
  by (simp add: of_bytes_to_bytes player_valid levels IsInitialized_nothing_required)

lemma codec_proto:
  "proto_ok x \<Longrightarrow> fits (proto_descriptor x) (wire_proto x) \<Longrightarrow> proto_descriptor d = proto_descriptor x \<Longrightarrow>
    parse_proto protobuf_codec d (ser_proto protobuf_codec x) = Some x"
  unfolding fits_def protobuf_codec_def
  by (simp add: parse_with_to_bytes proto_valid levels IsInitialized_proto)

lemma codec_meta:
  "fits D_Meta (wire_meta m) \<Longrightarrow> parse_meta protobuf_codec (ser_meta protobuf_codec m) = Some m"
  unfolding fits_def protobuf_codec_def
  by (simp add: parse_with_to_bytes meta_valid meta_ok_def levels IsInitialized_nothing_required)

text \<open>C6. What the server relies on of protobuf: the attributes of an entity, a stored player, a message of
  the protocol and its wrapper are parsed back as they were serialised, if their numbers are in range
  and they have at most 64 MB.\<close>

theorem protobuf_codec_roundtrip:
  assumes "common_prop_ok c" "fits D_CommonProp (wire_common_prop c)" "stuff_ok p" "fits D_Player (wire_player p)"
    and "proto_ok x" "fits (proto_descriptor x) (wire_proto x)" "proto_descriptor d = proto_descriptor x"
    and "fits D_Meta (wire_meta m)"
  shows "parse_common protobuf_codec (ser_common protobuf_codec c) = Some c \<and>
    parse_player protobuf_codec (ser_player protobuf_codec p) = (True, p) \<and>
    parse_proto protobuf_codec d (ser_proto protobuf_codec x) = Some x \<and>
    parse_meta protobuf_codec (ser_meta protobuf_codec m) = Some m"
  using codec_common [OF assms(1,2)] codec_player [OF assms(3,4)] codec_proto [OF assms(5-7)] codec_meta [OF assms(8)]
  by simp

theorem protobuf_codec_roundtrip_witness:
  "parse_common protobuf_codec (ser_common protobuf_codec (default_common_prop\<lparr>cp_entity_id := Some 7\<rparr>)) =
      Some (default_common_prop\<lparr>cp_entity_id := Some 7\<rparr>) \<and>
    parse_player protobuf_codec (ser_player protobuf_codec (default_player_stuff\<lparr>ps_local_zone := Some 5\<rparr>)) =
      (True, default_player_stuff\<lparr>ps_local_zone := Some 5\<rparr>) \<and>
    parse_proto protobuf_codec (PM_EnterScene None) (ser_proto protobuf_codec (PM_EnterScene (Some 9))) = Some (PM_EnterScene (Some 9)) \<and>
    parse_meta protobuf_codec (ser_meta protobuf_codec \<lparr>me_type_t = None, me_stuff = Some [1]\<rparr>) =
      Some \<lparr>me_type_t = None, me_stuff = Some [1]\<rparr>"
proof -
  note eval = encode.simps encode_value_primitive encode_field_def ListFields_def HasField_def field_defs opt_field_def rep_field_def
    tag_bytes_def MakeTag_def wiretype_defs varint_bytes_last length_bytes_def sign_extended_bytes_def write_int32_def write_int64_def
  let ?c = "default_common_prop\<lparr>cp_entity_id := Some 7\<rparr>" and ?p = "default_player_stuff\<lparr>ps_local_zone := Some 5\<rparr>"
    and ?m = "\<lparr>me_type_t = None, me_stuff = Some [1]\<rparr>"
  have "common_prop_ok ?c" "stuff_ok ?p" "proto_ok (PM_EnterScene (Some 9))"
    by (simp_all add: default_common_prop_def default_player_stuff_def common_prop_ok_def stuff_ok_def opt_ok_def in_int64_def in_int32_def)
  moreover have "fits D_CommonProp (wire_common_prop ?c)"
    by (simp add: fits_def wire_common_prop_def default_common_prop_def eval)
  moreover have "fits D_Player (wire_player ?p)"
    by (simp add: fits_def wire_player_def default_player_stuff_def eval)
  moreover have "fits (proto_descriptor (PM_EnterScene (Some 9))) (wire_proto (PM_EnterScene (Some 9)))"
    by (simp add: fits_def wire_proto_def eval)
  moreover have "fits D_Meta (wire_meta ?m)" by (simp add: fits_def wire_meta_def eval)
  ultimately show ?thesis
    using protobuf_codec_roundtrip [of ?c ?p "PM_EnterScene (Some 9)" "PM_EnterScene None" ?m] by simp
qed

end
