(* ===== verification/Wire_Session.thy ===== *)
theory Wire_Session
  imports Wire_Codec World_Safe
begin

text \<open>
  The session of a client and the saved player, with the bytes that protobuf really writes. A packet is
  parsed as it came out of one read of the socket: nothing marks where a message ends.
\<close>

section \<open>The greeting\<close>

text \<open>A wrapper is its type, a tag and a varint, and its contents, a tag and a length before them.\<close>

lemma encode_meta:
  "encode schema D_Meta (wire_meta m) =
    (case me_type_t m of None \<Rightarrow> [] | Some t \<Rightarrow> 8 # sign_extended_bytes (as_32 (write_enum meta_type_enum t))) @
    (case me_stuff m of None \<Rightarrow> [] | Some b \<Rightarrow> 18 # length_bytes (length b) @ b)"
proof -
  have tags: "tag_bytes (Suc 0) WIRETYPE_VARINT = [8]" "tag_bytes 2 WIRETYPE_LENGTH_DELIMITED = [18]"
    by (simp_all add: tag_bytes_def MakeTag_def wiretype_defs varint_bytes_last)
  show ?thesis
    by (cases "me_type_t m"; cases "me_stuff m")
      (simp_all add: wire_meta_def encode.simps encode_value_primitive encode_field_def ListFields_def HasField_def
        field_defs opt_field_def write_enum_def tags)
qed

lemma greeting_bytes: "greeting protobuf_codec = [8, 5, 18, 6, 8, 5, 16, 160, 141, 6]"
proof -
  let ?x = "PM_EnterGame (Some META_TYPE_C2S_ENTER_GAME) (Some 100000)"
  have tags: "tag_bytes (Suc 0) WIRETYPE_VARINT = [8]" "tag_bytes 2 WIRETYPE_VARINT = [16]"
    by (simp_all add: tag_bytes_def MakeTag_def wiretype_defs varint_bytes_last)
  have "encode schema D_EnterGame (wire_proto ?x) = [8, 5, 16, 160, 141, 6]"
    by (simp add: wire_proto_def encode.simps encode_value_primitive encode_field_def ListFields_def HasField_def
        field_defs opt_field_def write_enum_def write_int64_def tags sign_extended_bytes_def varint_bytes.simps more_byte_def
        meta_type_enum_def)
  moreover have "valid_message 4 schema D_EnterGame (wire_proto ?x)"
    using proto_valid [of ?x 4] by (simp add: opt_ok_def in_int64_def)
  ultimately have p: "ser_proto protobuf_codec ?x = [8, 5, 16, 160, 141, 6]"
    by (simp add: protobuf_codec_def to_bytes_encode)
  let ?m = "\<lparr>me_type_t = Some META_TYPE_C2S_ENTER_GAME, me_stuff = Some [8, 5, 16, 160, 141, 6]\<rparr>"
  have "encode schema D_Meta (wire_meta ?m) = [8, 5, 18, 6, 8, 5, 16, 160, 141, 6]"
    by (simp add: encode_meta write_enum_def meta_type_enum_def sign_extended_bytes_def length_bytes_def varint_bytes_last)
  moreover have "valid_message 4 schema D_Meta (wire_meta ?m)" by (simp add: meta_valid meta_ok_def)
  ultimately show ?thesis by (simp add: greeting_def p) (simp add: protobuf_codec_def to_bytes_encode)
qed

text \<open>What theory World_Safe assumes of the codec: the object that is parsed into keeps its class.\<close>

lemma proto_type_of: "proto_type_t (proto_of d m) = proto_type_t d"
  by (cases d) simp_all

lemma protobuf_codec_in_class: "parses_in_class protobuf_codec"
  by (auto simp: parses_in_class_def protobuf_codec_def parse_with_def Let_def proto_type_of split: prod.splits if_splits)

section \<open>Packets\<close>

lemma ser_meta_encode:
  "length (encode schema D_Meta (wire_meta m)) < 2 ^ 31 \<Longrightarrow> ser_meta protobuf_codec m = encode schema D_Meta (wire_meta m)"
  by (simp add: protobuf_codec_def to_bytes_encode [OF meta_valid [of _ 100]] meta_ok_def)

text \<open>A field that is set hides what was in the object before; one that is not leaves it.\<close>

definition merged_meta :: "meta \<Rightarrow> meta \<Rightarrow> meta" where
  "merged_meta m1 m2 = \<lparr>me_type_t = (if me_type_t m2 = None then me_type_t m1 else me_type_t m2),
     me_stuff = (if me_stuff m2 = None then me_stuff m1 else me_stuff m2)\<rparr>"

lemma MergeFrom_meta: "meta_of (MergeFrom schema D_Meta (wire_meta m2) (wire_meta m1)) = merged_meta m1 m2"
proof -
  have get: "get_values k (set_values n vs fs) = (if k = n then vs else get_values k fs)" for k n vs and fs :: "(nat \<times> wire_value list) list"
    by (induction n vs fs rule: set_values.induct) auto
  show ?thesis
    using meta_read [of m1] meta_read [of m2]
    by (cases "me_type_t m1"; cases "me_stuff m1"; cases "me_type_t m2"; cases "me_stuff m2"; cases m1; cases m2)
      (simp_all add: wire_meta_def MergeFrom.simps ListFields_def HasField_def field_defs opt_field_def merged_meta_def
        merge_value_primitive put_value_def is_repeated_def meta_of_def get_opt_def get meta_ok_def write_enum_def)
qed

lemma parse_two_metas:
  assumes "length (encode schema D_Meta (wire_meta m1) @ encode schema D_Meta (wire_meta m2)) \<le> 2 ^ 26"
  shows "parse_meta protobuf_codec (ser_meta protobuf_codec m1 @ ser_meta protobuf_codec m2) = Some (merged_meta m1 m2)"
proof -
  let ?e = "\<lambda>m. encode schema D_Meta (wire_meta m)" and ?m = "MergeFrom schema D_Meta (wire_meta m2) (wire_meta m1)"
  have ser: "ser_meta protobuf_codec m1 = ?e m1" "ser_meta protobuf_codec m2 = ?e m2"
    using assms by (simp_all add: ser_meta_encode)
  have valid: "valid_message recursion_limit schema D_Meta (wire_meta m)" for m by (simp add: meta_valid meta_ok_def)
  have "consumes (ParseAndMergeField recursion_limit schema D_Meta) empty_message ?m (?e m1 @ ?e m2)"
    using consumes_trans [OF parse_merges [OF schema_ok valid] parse_merges [OF schema_ok valid]]
    by (metis MergeFrom_empty schema_ok valid)
  then have "of_bytes D_Meta (?e m1 @ ?e m2) = (True, ?m)"
    using assms by (simp add: of_bytes_def ParseFromArray_consumes IsInitialized_nothing_required)
  with ser MergeFrom_meta [of m2 m1] show ?thesis
    by (simp add: protobuf_codec_def parse_with_def)
qed

text \<open>
  C9. Two packets, of at most 64 MB together, that arrive in one read are parsed as one message: the handler does what it would do if a
  single packet had come with, of the type and of the contents, what the second packet has set, and what the first
  has for one that the second leaves out. So if the second packet has both, the first packet is lost:
  the handler does what it would do if the first had not been sent.
\<close>

theorem coalesced_packets_lose_the_first:
  assumes "en_codec E = protobuf_codec"
    and "length (encode schema D_Meta (wire_meta m1)) + length (encode schema D_Meta (wire_meta m2)) \<le> 2 ^ 26"
    and "m = \<lparr>me_type_t = (if me_type_t m2 = None then me_type_t m1 else me_type_t m2),
      me_stuff = (if me_stuff m2 = None then me_stuff m1 else me_stuff m2)\<rparr>"
  shows "InitializeHandler E i False (ser_meta protobuf_codec m1 @ ser_meta protobuf_codec m2) w =
      InitializeHandler E i False (ser_meta protobuf_codec m) w \<and>
    (me_type_t m2 \<noteq> None \<and> me_stuff m2 \<noteq> None \<longrightarrow>
      InitializeHandler E i False (ser_meta protobuf_codec m1 @ ser_meta protobuf_codec m2) w =
      InitializeHandler E i False (ser_meta protobuf_codec m2) w)"
proof -
  have m: "m = merged_meta m1 m2" by (simp add: assms(3) merged_meta_def)
  have "length (encode schema D_Meta (wire_meta m)) \<le> 2 ^ 26"
    using assms(2) unfolding encode_meta m merged_meta_def by (auto split: option.splits)
  then have "parse_meta protobuf_codec (ser_meta protobuf_codec m) = Some m"
    by (intro codec_meta) (simp add: fits_def)
  moreover have "parse_meta protobuf_codec (ser_meta protobuf_codec m1 @ ser_meta protobuf_codec m2) = Some m"
    using assms(2) unfolding m by (intro parse_two_metas) simp
  moreover have "me_type_t m2 \<noteq> None \<and> me_stuff m2 \<noteq> None \<longrightarrow> m = m2" by (cases m2) (simp add: assms(3))
  ultimately show ?thesis by (auto simp: InitializeHandler_def assms(1))
qed

theorem coalesced_packets_lose_the_first_witness:
  "InitializeHandler (demo_env\<lparr>en_codec := protobuf_codec\<rparr>) 3 False
     (ser_meta protobuf_codec \<lparr>me_type_t = Some META_TYPE_C2S_ENTER_GAME, me_stuff = Some []\<rparr> @
      ser_meta protobuf_codec \<lparr>me_type_t = Some META_TYPE_C2S_MOVE, me_stuff = Some []\<rparr>) demo_world =
   InitializeHandler (demo_env\<lparr>en_codec := protobuf_codec\<rparr>) 3 False
     (ser_meta protobuf_codec \<lparr>me_type_t = Some META_TYPE_C2S_MOVE, me_stuff = Some []\<rparr>) demo_world"
  by (rule coalesced_packets_lose_the_first [OF _ _ refl, THEN conjunct2, THEN mp])
    (simp_all add: encode_meta write_enum_def meta_type_enum_def sign_extended_bytes_def length_bytes_def varint_bytes_last)

lemma encode_meta_stuff:
  "me_stuff m = Some b \<Longrightarrow> encode schema D_Meta (wire_meta m) =
    encode schema D_Meta (wire_meta (m\<lparr>me_stuff := None\<rparr>)) @ tag_bytes 2 WIRETYPE_LENGTH_DELIMITED @ length_bytes (length b) @ b"
  by (simp add: encode_meta tag_bytes_def MakeTag_def wiretype_defs varint_bytes_last)

lemma parse_cut_meta:
  assumes "me_stuff m = Some b" "0 < j" "j \<le> length b" "length (encode schema D_Meta (wire_meta m)) \<le> 2 ^ 26"
    and "buffer = take (length (ser_meta protobuf_codec m) - j) (ser_meta protobuf_codec m)"
  shows "parse_meta protobuf_codec buffer = None"
proof -
  let ?x = "wire_meta (m\<lparr>me_stuff := None\<rparr>)" and ?fd = "field 2 LABEL_OPTIONAL TYPE_BYTES :: message_type field_descriptor"
  let ?head = "encode schema D_Meta ?x @ tag_bytes (fd_number ?fd) WIRETYPE_LENGTH_DELIMITED @ length_bytes (length b)"
  have e: "encode schema D_Meta (wire_meta m) = ?head @ b"
    using encode_meta_stuff [OF assms(1)] by (simp add: field_def)
  then have len: "length ?head + length b \<le> 2 ^ 26" using assms(4) by simp
  have "length (encode schema D_Meta (wire_meta m)) < 2 ^ 31" using assms(4) by simp
  from ser_meta_encode [OF this] have buffer: "buffer = ?head @ take (length b - j) b"
    using assms(2,3,5) by (simp add: e)
  have "ParseFromArray schema D_Meta (encode schema D_Meta ?x @ tag_bytes (fd_number ?fd) WIRETYPE_LENGTH_DELIMITED @
      length_bytes (length b) @ take (length b - j) b) = Inr (False, ?x)"
  proof (rule ParseFromArray_cut_string [OF schema_ok])
    show "valid_message recursion_limit schema D_Meta ?x" by (simp add: meta_valid meta_ok_def)
    show "?fd \<in> set (schema D_Meta)" "fd_type ?fd \<in> {TYPE_STRING, TYPE_BYTES}" by (simp_all add: field_def)
    show "length (take (length b - j) b) < length b" using assms(2,3) by simp
    show "length b < 2 ^ 31" using len by simp
    show "length (encode schema D_Meta ?x @ tag_bytes (fd_number ?fd) WIRETYPE_LENGTH_DELIMITED @ length_bytes (length b) @ take (length b - j) b) \<le> 2 ^ 26"
      using len by simp
  qed
  then show ?thesis by (simp add: buffer protobuf_codec_def parse_with_def of_bytes_def)
qed

text \<open>
  C27. A packet that arrives in two reads is not put together: if the first read ends within the contents,
  the handler closes the connection, after it has sent its greeting.
\<close>

theorem split_packet_closes:
  assumes "en_codec E = protobuf_codec" "sk_connected (w_socks w i)"
    and "me_stuff m = Some b" "0 < j" "j \<le> length b" "length (encode schema D_Meta (wire_meta m)) \<le> 2 ^ 26"
    and "buffer = take (length (ser_meta protobuf_codec m) - j) (ser_meta protobuf_codec m)"
  shows "InitializeHandler E i False buffer w =
    Inr (on_sock i Socket_Close (on_sock i (Socket_AsyncSend [8, 5, 18, 6, 8, 5, 16, 160, 141, 6]) w))"
  using assms(1,2) parse_cut_meta [OF assms(3-7)] by (simp add: InitializeHandler_def greeting_bytes)

theorem split_packet_closes_witness:
  "InitializeHandler (demo_env\<lparr>en_codec := protobuf_codec\<rparr>) 3 False [8, 7, 18, 2, 8] demo_world =
    Inr (on_sock 3 Socket_Close (on_sock 3 (Socket_AsyncSend [8, 5, 18, 6, 8, 5, 16, 160, 141, 6]) demo_world))"
proof -
  let ?m = "\<lparr>me_type_t = Some META_TYPE_C2S_MOVE, me_stuff = Some [8, 7]\<rparr>"
  have e: "encode schema D_Meta (wire_meta ?m) = [8, 7, 18, 2, 8, 7]"
    by (simp add: encode_meta write_enum_def meta_type_enum_def sign_extended_bytes_def length_bytes_def varint_bytes_last)
  then have "ser_meta protobuf_codec ?m = [8, 7, 18, 2, 8, 7]" by (simp add: ser_meta_encode)
  with e show ?thesis
    by (intro split_packet_closes [where m = ?m and b = "[8, 7]" and j = 1]) (simp_all add: demo_world_def Socket_init_def)
qed

section \<open>A saved player\<close>

text \<open>The bytes of a value are among those of the message it is in.\<close>

lemma encode_contains:
  assumes "fd \<in> set (pool d)" "v \<in> set (get_values (fd_number fd) (msg_fields m))"
  shows "set (encode_value pool fd v) \<subseteq> set (encode pool d m)"
proof -
  have "fd \<in> set (ListFields pool d m)" using assms by (auto simp: ListFields_mem HasField_def)
  moreover have "set (encode_value pool fd v) \<subseteq>
      set (encode_field fd (map (encode_value pool fd) (get_values (fd_number fd) (msg_fields m))))"
    using assms(2) by (auto simp: encode_field_def)
  ultimately show ?thesis by (subst encode.simps [of pool d m]) auto
qed

lemma encode_sub_message:
  assumes "fd \<in> set (pool d)" "WMessage x \<in> set (get_values (fd_number fd) (msg_fields m))"
    "fd_type fd = TYPE_MESSAGE" "fd_message_type fd = Some d'"
  shows "set (encode pool d' x) \<subseteq> set (encode pool d m)"
proof -
  have "set (encode pool d' x) \<subseteq> set (encode_value pool fd (WMessage x))"
    using assms(3,4) by (auto simp: encode_value_message)
  also have "\<dots> \<subseteq> set (encode pool d m)" using assms(1,2) by (rule encode_contains)
  finally show ?thesis .
qed

text \<open>The lowest byte of a coordinate that is a whole number below \<open>2^16\<close> is a NUL.\<close>

lemma whole_number_bits:
  assumes "\<bar>n\<bar> < 2 ^ 16"
  shows "2 ^ 8 dvd flt_bits (flt_whole n)"
proof -
  define a where "a = nat \<bar>n\<bar>"
  have a: "a < 2 ^ 16" using assms by (simp add: a_def nat_less_iff)
  have "nat \<bar>n * one_units\<bar> = a * 2 ^ 149"
    by (simp add: a_def abs_mult nat_mult_distrib one_units_def nat_power_eq)
  moreover have "2 ^ 8 dvd mag_bits (a * 2 ^ 149)"
  proof (cases "a = 0")
    case False
    define k where "k = 16 - nbits a"
    have "nbits a \<le> 16" using a by (rule nbits_le)
    then have k: "nbits a + 125 + (k + 8) = 149" by (simp add: k_def)
    have n: "nbits (a * 2 ^ 149) - 24 = nbits a + 125" using nbits_shift [of a 149] False by simp
    have "a * 2 ^ 149 = a * 2 ^ (k + 8) * 2 ^ (nbits a + 125)" by (simp only: k [symmetric] power_add ac_simps)
    moreover have "b * 2 ^ m div 2 ^ m = b" for b m :: nat by simp
    ultimately have "a * 2 ^ 149 div 2 ^ (nbits a + 125) = a * 2 ^ (k + 8)" by (simp only:)
    then have "a * 2 ^ 149 div 2 ^ (nbits a + 125) = 2 ^ 8 * (a * 2 ^ k)" by (simp only: power_add ac_simps)
    moreover have "\<not> a * 2 ^ 149 < 2 ^ 24" using False by (cases a) simp_all
    ultimately have "mag_bits (a * 2 ^ 149) = 2 ^ 8 * ((nbits a + 125) * 2 ^ 15 + a * 2 ^ k)"
      by (simp only: mag_bits_def n Let_def if_False) (simp add: algebra_simps)
    then show ?thesis by simp
  qed (simp add: mag_bits_def)
  moreover have "(2::nat) ^ 8 dvd 2 ^ 31" by (rule le_imp_power_dvd) simp
  ultimately show ?thesis by (simp only: flt_whole_def flt_bits.simps) (simp only: dvd_add dvd_0_right simp_thms split: if_split)
qed

lemma whole_number_byte:
  assumes "\<bar>n\<bar> < 2 ^ 16"
  shows "0 \<in> set (WriteLittleEndian32ToArray (as_32 (write_float (flt_whole n))))"
proof -
  obtain c where "flt_bits (flt_whole n) = 2 ^ 8 * c" using whole_number_bits [OF assms] by (auto elim: dvdE)
  then have "(of_nat (flt_bits (flt_whole n)) :: uint32) = push_bit 8 (of_nat c)" by (simp add: push_bit_eq_mult)
  moreover have "low_byte (push_bit 8 w) = 0" for w :: uint32
    by (auto simp: low_byte_def bit_eq_iff bit_ucast_iff bit_push_bit_iff)
  ultimately have "low_byte (of_nat (flt_bits (flt_whole n)) :: uint32) = 0" by simp
  then show ?thesis by (simp add: WriteLittleEndian32ToArray_def write_float_def)
qed

lemma get_values_opt [simp]: "get_values n (opt_field n f x) = (case x of None \<Rightarrow> [] | Some v \<Rightarrow> [f v])"
  "get_values n (opt_field n f x @ fs) = (case x of None \<Rightarrow> get_values n fs | Some v \<Rightarrow> [f v])"
  by (simp_all add: opt_field_def split: option.split)

lemma position_NUL:
  assumes "Some (flt_whole n) \<in> {v3_x v, v3_y v, v3_z v}" "\<bar>n\<bar> < 2 ^ 16"
  shows "0 \<in> set (encode schema D_Vector3 (wire_vector3 v))"
proof -
  have "0 \<in> set (encode schema D_Vector3 (wire_vector3 v))"
    if "k \<in> {1, 2, 3}" "get_values k (msg_fields (wire_vector3 v)) = [write_float (flt_whole n)]" for k
  proof -
    let ?fd = "field k LABEL_OPTIONAL TYPE_FLOAT"
    have "set (encode_value schema ?fd (write_float (flt_whole n))) \<subseteq> set (encode schema D_Vector3 (wire_vector3 v))"
      using that by (intro encode_contains) (auto simp: field_def)
    moreover have "0 \<in> set (encode_value schema ?fd (write_float (flt_whole n)))"
      using whole_number_byte [OF assms(2)] by (simp add: encode_value_primitive field_def)
    ultimately show ?thesis by blast
  qed
  note byte = this
  consider "v3_x v = Some (flt_whole n)" | "v3_y v = Some (flt_whole n)" | "v3_z v = Some (flt_whole n)"
    using assms(1) by auto
  then show ?thesis
    by cases (rule byte [of 1] byte [of 2] byte [of 3]; simp add: wire_vector3_def)+
qed

lemma player_NUL:
  assumes "ps_common_prop p = Some c" "cp_position c = Some v" "Some (flt_whole n) \<in> {v3_x v, v3_y v, v3_z v}" "\<bar>n\<bar> < 2 ^ 16"
  shows "0 \<in> set (encode schema D_Player (wire_player p))"
proof -
  have "set (encode schema D_Vector3 (wire_vector3 v)) \<subseteq> set (encode schema D_CommonProp (wire_common_prop c))"
    using assms(2)
    by (intro encode_sub_message [of "message_field 15 LABEL_OPTIONAL D_Vector3"])
      (simp_all add: field_defs wire_common_prop_def write_message_def)
  also have "\<dots> \<subseteq> set (encode schema D_Player (wire_player p))"
    using assms(1)
    by (intro encode_sub_message [of "message_field 2 LABEL_OPTIONAL D_CommonProp"])
      (simp_all add: field_defs wire_player_def write_message_def)
  finally show ?thesis using position_NUL [OF assms(3,4)] by blast
qed

text \<open>
  C11. A player who stands at a whole coordinate below \<open>2^16\<close> is not saved as a whole: the
  data base holds a strict prefix of the serialised player, up to its first NUL byte.
\<close>

theorem saved_player_is_cut:
  assumes "redis_ok (en_redis E) view" "en_codec E = protobuf_codec"
    and "w_heap w r = Some e" "e_kind e = KPlayer p" "CommonProp_entity_type (e_common e) = ENTITY_TYPE_PLAYER"
    and "cp_position (e_common e) = Some v" "Some (flt_whole n) \<in> {v3_x v, v3_y v, v3_z v}" "\<bar>n\<bar> < 2 ^ 16"
    and "stuff = (pd_stuff p)\<lparr>ps_common_prop := Some (e_common e)\<rparr>" "stuff_ok stuff" "fits D_Player (wire_player stuff)"
  shows "\<exists>w' saved rest. Player_Save E r w = Inr (0, w') \<and> view (w_db w') (player_key (e_ID e)) = Some saved \<and>
    ser_player (en_codec E) stuff = saved @ 0 # rest \<and> 0 \<notin> set saved"
proof -
  let ?b = "encode schema D_Player (wire_player stuff)"
  have "length ?b < 2 ^ 31" using assms(11) by (simp add: fits_def)
  then have ser: "ser_player (en_codec E) stuff = ?b"
    using assms(2,10) by (simp add: protobuf_codec_def to_bytes_encode [OF player_valid [of _ 3]])
  have "0 \<in> set ?b" using assms(9) by (intro player_NUL [OF _ assms(6-8)]) simp
  then obtain saved rest where b: "?b = saved @ 0 # rest" "0 \<notin> set saved" by (metis split_list_first)
  then have "c_str ?b = saved" by (simp add: c_str_def takeWhile_append)
  moreover obtain f d where sv: "Redis_SavePlayer (en_redis E) (e_ID e) ?b (w_db w) = (f, d)" by (rule prod.exhaust)
  ultimately have "view d (player_key (e_ID e)) = Some saved" using Save_view [OF assms(1) sv] by simp
  moreover have "\<exists>w'. Player_Save E r w = Inr (0, w') \<and> w_db w' = d"
    using deref_player_Some [OF assms(3,4)] sv ser assms(5,9) by (simp add: Player_Save_def Let_def)
  ultimately show ?thesis using ser b by fastforce
qed

lemma is_float_hundred: "is_float (flt_whole 100)"
  by (simp add: flt_whole_def one_units_def nbits_shift [of 100 149, simplified] nbits.simps)

definition demo_standing :: "mem_db world" where
  "demo_standing = demo_world\<lparr>w_heap := [0 \<mapsto> (Player_new 7 None)\<lparr>e_common := default_common_prop\<lparr>cp_entity_id := Some 7,
     cp_entity_type := Some ENTITY_TYPE_PLAYER, cp_position := Some \<lparr>v3_x = Some (flt_whole 100), v3_y = None, v3_z = None\<rparr>\<rparr>\<rparr>]\<rparr>"

theorem saved_player_is_cut_witness:
  "\<exists>w' saved. Player_Save (demo_env\<lparr>en_codec := protobuf_codec\<rparr>) 0 demo_standing = Inr (0, w') \<and>
     fst (w_db w') (player_key 7) = Some saved \<and> 0 \<notin> set saved"
proof -
  let ?E = "demo_env\<lparr>en_codec := protobuf_codec\<rparr>" and ?v = "\<lparr>v3_x = Some (flt_whole 100), v3_y = None, v3_z = None\<rparr>"
  let ?c = "default_common_prop\<lparr>cp_entity_id := Some 7, cp_entity_type := Some ENTITY_TYPE_PLAYER, cp_position := Some ?v\<rparr>"
  let ?e = "(Player_new 7 None)\<lparr>e_common := ?c\<rparr>" and ?p = "\<lparr>pd_session = None, pd_stuff = default_player_stuff, pd_heart_count = 0\<rparr>"
  let ?stuff = "default_player_stuff\<lparr>ps_common_prop := Some ?c\<rparr>"
  have e: "w_heap demo_standing 0 = Some ?e" "e_kind ?e = KPlayer ?p" "e_ID ?e = 7"
    by (simp_all add: demo_standing_def Player_new_def Entity_SetID_def Entity_new_def)
  have ok: "stuff_ok ?stuff"
    by (simp add: stuff_ok_def default_player_stuff_def default_common_prop_def opt_ok_def common_prop_ok_def vector3_ok_def
        in_int64_def is_float_hundred)
  note eval = encode_field_def ListFields_def HasField_def field_defs opt_field_def rep_field_def
    write_message_def encode_value_primitive tag_bytes_def MakeTag_def wiretype_defs varint_bytes_last length_bytes_def
    sign_extended_bytes_def write_enum_def
  have v: "length (encode schema D_Vector3 (wire_vector3 ?v)) = 5"
    by (simp add: encode.simps [of _ D_Vector3] wire_vector3_def eval WriteLittleEndian32ToArray_def)
  have c: "length (encode schema D_CommonProp (wire_common_prop ?c)) = 11"
    by (simp add: encode.simps [of _ D_CommonProp] wire_common_prop_def default_common_prop_def eval encode_value_message v write_int64_def entity_type_enum_def)
  have "length (encode schema D_Player (wire_player ?stuff)) = 13"
    by (simp add: encode.simps [of _ D_Player] wire_player_def default_player_stuff_def eval encode_value_message c)
  then have fits: "fits D_Player (wire_player ?stuff)" by (simp add: fits_def)
  have "redis_ok (en_redis ?E) fst" using mem_redis_ok by (simp add: demo_env_def)
  from saved_player_is_cut [OF this _ e(1,2) _ _ _ _ refl, of ?v 100] ok fits e(3) show ?thesis
    by (auto simp: CommonProp_entity_type_def)
qed

end
