(* ===== verification/Wire_Flow.thy ===== *)
theory Wire_Flow
  imports Wire_Session Aoi_Flow Game_System
begin

text \<open>
  The running server with the codec of protobuf: what theories Game_System and Aoi_Flow state for any
  codec, in bytes. What a client of the same library reads when an entity enters, the packet that ends
  the server, and the files of the configuration.
\<close>

section \<open>The server\<close>

lemma protobuf_server_ok: "system_reach protobuf_codec s \<Longrightarrow> system_ok s"
  by (rule reach_ok [OF _ protobuf_codec_in_class])

section \<open>The fatal packet\<close>

text \<open>A wrapper that holds a message is read back with it.\<close>

lemma received_protobuf:
  assumes "en_codec E = protobuf_codec" "w_protos w (meta_type_number ty) = Some prototype"
    and "proto_descriptor prototype = proto_descriptor x" "proto_ok x" "fits (proto_descriptor x) (wire_proto x)"
    and "m = \<lparr>me_type_t = Some ty, me_stuff = Some (ser_proto protobuf_codec x)\<rparr>" "fits D_Meta (wire_meta m)"
  shows "received E w (ser_meta protobuf_codec m) ty x"
  using codec_meta [OF assms(7)] codec_proto [OF assms(4,5,3)] assms(1,2,6)
  by (simp add: received_def Meta_type_t_def Meta_stuff_def del: meta_type_number.simps)

definition fatal_position :: vector3 where
  "fatal_position = default_vector3\<lparr>v3_x := Some NaN\<rparr>"

definition fatal_packet :: bytes where
  "fatal_packet = [8, 7, 18, 7, 18, 5, 13, 0, 0, 192, 127]"

lemmas encode_eval = encode_field_def ListFields_def HasField_def field_defs opt_field_def rep_field_def
  write_message_def encode_value_primitive tag_bytes_def MakeTag_def wiretype_defs varint_bytes_last length_bytes_def
  sign_extended_bytes_def write_enum_def

lemma fatal_move_bytes:
  "ser_proto protobuf_codec (PM_Move (Some fatal_position)) = [18, 5, 13, 0, 0, 192, 127]"
  "proto_ok (PM_Move (Some fatal_position))" "fits D_Move (wire_proto (PM_Move (Some fatal_position)))"
proof -
  have v: "encode schema D_Vector3 (wire_vector3 fatal_position) = [13, 0, 0, 192, 127]"
    by (simp add: fatal_position_def default_vector3_def wire_vector3_def encode.simps [of _ D_Vector3] encode_eval
        write_float_def WriteLittleEndian32ToArray_def low_byte_def)
  have e: "encode schema D_Move (wire_proto (PM_Move (Some fatal_position))) = [18, 5, 13, 0, 0, 192, 127]"
    by (simp add: wire_proto_def encode.simps [of _ D_Move] encode_eval encode_value_message v)
  show ok: "proto_ok (PM_Move (Some fatal_position))"
    by (simp add: fatal_position_def default_vector3_def opt_ok_def vector3_ok_def)
  show "fits D_Move (wire_proto (PM_Move (Some fatal_position)))" by (simp add: fits_def e)
  show "ser_proto protobuf_codec (PM_Move (Some fatal_position)) = [18, 5, 13, 0, 0, 192, 127]"
    using proto_valid [OF ok, of 4] e by (simp add: protobuf_codec_def to_bytes_encode)
qed

lemma fatal_packet_received:
  assumes "en_codec E = protobuf_codec" "w_protos w (meta_type_number META_TYPE_C2S_MOVE) = Some (PM_Move x)"
  shows "received E w fatal_packet META_TYPE_C2S_MOVE (PM_Move (Some fatal_position))"
proof -
  let ?m = "\<lparr>me_type_t = Some META_TYPE_C2S_MOVE, me_stuff = Some [18, 5, 13, 0, 0, 192, 127]\<rparr>"
  have e: "encode schema D_Meta (wire_meta ?m) = fatal_packet"
    by (simp add: encode_meta write_enum_def meta_type_enum_def sign_extended_bytes_def length_bytes_def varint_bytes_last
        fatal_packet_def)
  then have m: "ser_meta protobuf_codec ?m = fatal_packet" "fits D_Meta (wire_meta ?m)"
    using ser_meta_encode [of ?m] by (simp_all add: fatal_packet_def fits_def)
  show ?thesis
    using received_protobuf [OF assms, of "PM_Move (Some fatal_position)" ?m] fatal_move_bytes m by simp
qed

lemma fatal_position_overflows: "flt_to_int32 (Vector3_x fatal_position) = None"
  by (simp add: fatal_position_def Vector3_x_def)

text \<open>
  C30. Eleven bytes of a client end the server in undefined behaviour: a \<open>Move\<close> to a coordinate that is not a
  number, sent on any open session while the global player is in a scene, is converted to \<open>int32_t\<close>.
\<close>

theorem fatal_packet_ends_the_server:
  assumes "en_codec E = protobuf_codec" "sk_connected (w_socks w i)"
    and "w_protos w (meta_type_number META_TYPE_C2S_MOVE) = Some (PM_Move x)"
    and "w_player w = Some r" "w_heap w r = Some e" "e_scene e = Some k" "w_scenes w k = Some s"
  shows "InitializeHandler E i False [8, 7, 18, 7, 18, 5, 13, 0, 0, 192, 127] w = Inl (UB ''float to int32_t'')"
  using client_move_is_unchecked [OF fatal_packet_received [OF assms(1,3)] assms(2,4-7)] fatal_position_overflows
  by (simp add: fatal_packet_def)

theorem fatal_packet_ends_the_server_witness:
  "InitializeHandler (demo_env\<lparr>en_codec := protobuf_codec\<rparr>) 3 False [8, 7, 18, 7, 18, 5, 13, 0, 0, 192, 127]
     (demo_world\<lparr>w_heap := [0 \<mapsto> (Player_new 7 (Some 3))\<lparr>e_scene := Some 5\<rparr>], w_player := Some 0,
        w_scenes := [5 \<mapsto> Scene_empty], w_protos := [7 \<mapsto> PM_Move None]\<rparr>) = Inl (UB ''float to int32_t'')"
  by (rule fatal_packet_ends_the_server [where x = None and r = 0 and k = 5 and e = "(Player_new 7 (Some 3))\<lparr>e_scene := Some 5\<rparr>" and s = Scene_empty])
    (simp_all add: demo_world_def Socket_init_def)

text \<open>In a state the server reaches, the scene of the player is there, and the message of type \<open>MOVE\<close> is a \<open>Move\<close>.\<close>

lemma fatal_packet_reachable:
  assumes "system_reach protobuf_codec s" "en_codec E = protobuf_codec" "sk_connected (w_socks (sy_world s) i)"
    and "w_protos (sy_world s) (meta_type_number META_TYPE_C2S_MOVE) = Some d"
    and "w_player (sy_world s) = Some r" "w_heap (sy_world s) r = Some e" "e_scene e = Some k"
  shows "InitializeHandler E i False fatal_packet (sy_world s) = Inl (UB ''float to int32_t'')"
proof -
  note ok = reach_worldD(1) [OF assms(1) protobuf_codec_in_class]
  obtain sc where sc: "w_scenes (sy_world s) k = Some sc" using ok assms(6,7) by (rule scene_of_entity)
  have "protos_ok (w_protos (sy_world s))" using ok by (simp add: world_ok_def)
  then obtain t where "proto_type_t d = Some t" "meta_type_number t = meta_type_number META_TYPE_C2S_MOVE"
    using assms(4) unfolding protos_ok_def by blast
  then have "proto_type_t d = Some META_TYPE_C2S_MOVE" using meta_type_number_inj by blast
  then obtain x where "d = PM_Move x" by (cases d) auto
  then have "received E (sy_world s) fatal_packet META_TYPE_C2S_MOVE (PM_Move (Some fatal_position))"
    using fatal_packet_received [OF assms(2)] assms(4) by blast
  from client_move_is_unchecked [OF this assms(3,5-7) sc] show ?thesis by (simp add: fatal_position_overflows)
qed

section \<open>What a client is told\<close>

text \<open>What a client with the same library reads in a packet about its surroundings.\<close>

definition client_reads :: "bytes \<Rightarrow> (action_type \<times> int \<times> common_prop) option" where
  "client_reads packet =
     (case parse_meta protobuf_codec packet of
        None \<Rightarrow> None
      | Some m \<Rightarrow>
          if Meta_type_t m \<noteq> META_TYPE_S2C_SURROUNDINGS_CHANGED then None
          else case parse_proto protobuf_codec (PM_SurroundingsChanged None None None) (Meta_stuff m) of
            Some (PM_SurroundingsChanged (Some action) (Some i) (Some content)) \<Rightarrow>
              map_option (\<lambda>c. (action, i, c)) (parse_common protobuf_codec content)
          | _ \<Rightarrow> None)"

lemma encode_surroundings:
  "encode schema D_SurroundingsChanged (wire_proto (PM_SurroundingsChanged (Some a) (Some i) (Some b))) =
    16 # sign_extended_bytes (as_32 (write_enum action_type_enum a)) @ 24 # varint_bytes (unat (word_of_int i :: uint64)) @
    34 # length_bytes (length b) @ b"
proof -
  have tags: "tag_bytes 2 WIRETYPE_VARINT = [16]" "tag_bytes 3 WIRETYPE_VARINT = [24]" "tag_bytes 4 WIRETYPE_LENGTH_DELIMITED = [34]"
    by (simp_all add: tag_bytes_def MakeTag_def wiretype_defs varint_bytes_last)
  show ?thesis
    by (simp add: wire_proto_def encode.simps encode_value_primitive encode_field_def ListFields_def HasField_def
        field_defs opt_field_def write_enum_def write_int64_def tags)
qed

lemma varint_lengths:
  "length (varint_bytes (unat v)) \<le> 10" "length (sign_extended_bytes u) \<le> 10" "length (length_bytes n) \<le> 5" for v :: uint64 and u :: uint32
proof -
  show "length (varint_bytes (unat v)) \<le> 10" for v :: uint64
    by (simp add: VarintSize64_length [symmetric] VarintSize64_def)
  then show "length (sign_extended_bytes u) \<le> 10" by (simp add: sign_extended_bytes_def)
  show "length (length_bytes n) \<le> 5"
    by (simp add: length_bytes_def VarintSize32_length [symmetric] VarintSize32_def)
qed

text \<open>The attributes of an entity that are short enough for a packet.\<close>

definition packet_fits :: "common_prop \<Rightarrow> bool" where
  "packet_fits c \<longleftrightarrow> common_prop_ok c \<and> length (encode schema D_CommonProp (wire_common_prop c)) \<le> 2 ^ 25"

lemma enter_packet_read:
  assumes "en_codec E = protobuf_codec" "packet_fits c"
  shows "client_reads (enter_packet E c) = Some (ACTION_TYPE_ENTER, CommonProp_entity_id c, c)"
proof -
  let ?b = "ser_common protobuf_codec c"
  let ?x = "PM_SurroundingsChanged (Some ACTION_TYPE_ENTER) (Some (CommonProp_entity_id c)) (Some ?b)"
  have c: "common_prop_ok c" "fits D_CommonProp (wire_common_prop c)" "length (encode schema D_CommonProp (wire_common_prop c)) < 2 ^ 31"
    using assms(2) by (simp_all add: packet_fits_def fits_def)
  have "ser_common protobuf_codec c = encode schema D_CommonProp (wire_common_prop c)"
    using to_bytes_encode [OF common_prop_valid [of _ 1] c(3)] c(1) by (simp add: protobuf_codec_def)
  then have b: "length ?b \<le> 2 ^ 25" using assms(2) by (simp add: packet_fits_def)
  have x: "length (encode schema D_SurroundingsChanged (wire_proto ?x)) \<le> 2 ^ 25 + 28"
    using b varint_lengths(1) [of "word_of_int (CommonProp_entity_id c)"] varint_lengths(3) [of "length ?b"]
      varint_lengths(2) [of "as_32 (write_enum action_type_enum ACTION_TYPE_ENTER)"]
    by (simp add: encode_surroundings)
  have ok: "proto_ok ?x"
    using c(1) by (auto simp: opt_ok_def common_prop_ok_def CommonProp_entity_id_def in_int64_def split: option.splits)
  let ?m = "\<lparr>me_type_t = Some META_TYPE_S2C_SURROUNDINGS_CHANGED, me_stuff = Some (ser_proto protobuf_codec ?x)\<rparr>"
  have fits: "fits (proto_descriptor ?x) (wire_proto ?x)" using x by (simp add: fits_def)
  have "ser_proto protobuf_codec ?x = encode schema D_SurroundingsChanged (wire_proto ?x)"
    using to_bytes_encode [OF proto_valid [OF ok, of 4]] x by (simp add: protobuf_codec_def)
  then have "fits D_Meta (wire_meta ?m)"
    using x varint_lengths(2) [of "as_32 (write_enum meta_type_enum META_TYPE_S2C_SURROUNDINGS_CHANGED)"]
      varint_lengths(3) [of "length (ser_proto protobuf_codec ?x)"]
    by (simp add: fits_def encode_meta)
  then have "parse_meta protobuf_codec (enter_packet E c) = Some ?m"
    using codec_meta [of ?m] by (simp add: enter_packet_def assms(1))
  moreover have "parse_proto protobuf_codec (PM_SurroundingsChanged None None None) (ser_proto protobuf_codec ?x) = Some ?x"
    using ok fits by (rule codec_proto) simp
  moreover have "parse_common protobuf_codec ?b = Some c" using c(1,2) by (rule codec_common)
  ultimately show ?thesis by (simp add: client_reads_def Meta_type_t_def Meta_stuff_def)
qed

text \<open>
  C4. From scene to client: when an entity that the manager does not know yet enters a scene, and the scene's query at its
  coordinates (at which it is entered first) returns the list \<open>ids\<close>, then every registered player has exactly one
  message more in the queue for it if it is on that list, and none if it is not. If the newcomer counts as in sight,
  handing that message over starts one write, on the session of that player, of a packet in which a client reads that an
  entity has entered, its ID and all its attributes; otherwise nothing is written. The packet leaves whole if the
  kernel takes all of it at once; if not, the session is left with a write whose bytes are gone. This holds in every
  scene and for every order in which the hash sets, without duplicates, are iterated, for a manager that files the live
  objects under their own IDs, a list of fewer than \<open>2^31\<close> IDs, and attributes that fit into a packet that protobuf can read.
\<close>

theorem newcomer_is_announced:
  assumes "manager_ok w" "\<And>A. distinct (en_ex E A)" "w_heap w r = Some e" "w_entities w (e_ID e) = None"
    and "w_scenes w k = Some s" "Scene_EnterScene (e_ID e) (Entity_GetX e) (Entity_GetZ e) s = Inr s1"
    and "Scene_GetNearByEntities (en_ex E) (en_ez E) (Entity_GetX e) (Entity_GetZ e) s1 = Inr (n, ids, s')"
    and "length ids < 2 ^ 31" "common = (e_common e)\<lparr>cp_scene_id := Some k\<rparr>"
    and "w_entities w i = Some b" "w_heap w b = Some eb" "e_kind eb = KPlayer p" "pd_session p = Some j"
    and "en_codec E = protobuf_codec" "packet_fits common"
  shows "\<exists>w' packet. Entity_OnEnterScene E r k w = Inr w' \<and>
    count (mset (w_queue w')) (enter_message E (e_ID e) common i) =
      count (mset (w_queue w)) (enter_message E (e_ID e) common i) + (if i \<in> set ids then 1 else 0) \<and>
    MessageDispatcher_Discharge E i (enter_message E (e_ID e) common i) w' =
      Inr (True, if Entity_IsInSight (CommonProp_position common) eb
        then w'\<lparr>w_socks := (w_socks w')(j := Socket_AsyncSend packet (w_socks w' j))\<rparr> else w') \<and>
    client_reads packet = Some (ACTION_TYPE_ENTER, CommonProp_entity_id common, common) \<and>
    sk_sending (Socket_AsyncSend packet (w_socks w' j)) =
      sk_sending (w_socks w' j) @ [Socket_takes_whole packet (w_socks w' j)]"
proof -
  have "parse_common (en_codec E) (ser_common (en_codec E) common) = Some common"
    using assms(14,15) codec_common [of common] by (simp add: packet_fits_def fits_def)
  from enter_reaches_the_client [OF assms(1-13) this] enter_packet_read [OF assms(14,15)]
  show ?thesis by (force simp: Socket_AsyncSend_def)
qed

lemma is_float_one: "is_float (flt_whole 1)"
  by (simp add: flt_whole_def one_units_def nbits_shift [of 1 149, simplified] nbits.simps)

definition protobuf_env :: "mem_db env" where
  "protobuf_env = demo_env\<lparr>en_codec := protobuf_codec\<rparr>"

theorem newcomer_is_announced_witness:
  "\<exists>w' w'' packet. Entity_OnEnterScene protobuf_env 0 5 demo_meeting = Inr w' \<and>
     MessageDispatcher_Discharge protobuf_env 8 (enter_message protobuf_env 7 demo_common 8) w' = Inr (True, w'') \<and>
     sk_writes (w_socks w'' 3) = sk_writes (w_socks w' 3) @ [packet] \<and>
     client_reads packet = Some (ACTION_TYPE_ENTER, CommonProp_entity_id demo_common, demo_common)"
proof -
  note f = demo_meeting_facts
  have env: "en_ex protobuf_env = sorted_list_of_set" "en_ez protobuf_env = sorted_list_of_set" "en_codec protobuf_env = protobuf_codec"
    by (simp_all add: protobuf_env_def demo_env_def)
  obtain s' where q: "Scene_GetNearByEntities (en_ex protobuf_env) (en_ez protobuf_env) (Entity_GetX demo_newcomer)
      (Entity_GetZ demo_newcomer) demo_crowd = Inr (2, [7, 8], s')" unfolding env(1,2) using f(11) by blast
  have enter: "Scene_EnterScene (e_ID demo_newcomer) (Entity_GetX demo_newcomer) (Entity_GetZ demo_newcomer) (scene_of [(8, 0, 0)]) =
      Inr demo_crowd" using f(5,6) by simp
  have d: "distinct (en_ex protobuf_env A)" for A by (simp add: env(1))
  have ok: "common_prop_ok demo_common"
    by (simp add: demo_common_def demo_newcomer_def default_common_prop_def common_prop_ok_def opt_ok_def in_int64_def
        vector3_ok_def default_vector3_def is_float_one)
  have v: "length (encode schema D_Vector3 (wire_vector3 (default_vector3\<lparr>v3_x := Some (flt_whole 1)\<rparr>))) = 5"
    by (simp add: encode.simps [of _ D_Vector3] wire_vector3_def default_vector3_def encode_eval WriteLittleEndian32ToArray_def)
  have "length (encode schema D_CommonProp (wire_common_prop demo_common)) = 9"
    by (simp add: encode.simps [of _ D_CommonProp] wire_common_prop_def demo_common_def demo_newcomer_def default_common_prop_def
        encode_eval encode_value_message v write_int64_def)
  with ok have "packet_fits demo_common" by (simp add: packet_fits_def)
  then obtain w' packet where w': "Entity_OnEnterScene protobuf_env 0 5 demo_meeting = Inr w'"
    "MessageDispatcher_Discharge protobuf_env 8 (enter_message protobuf_env 7 demo_common 8) w' =
      Inr (True, w'\<lparr>w_socks := (w_socks w')(3 := Socket_AsyncSend packet (w_socks w' 3))\<rparr>)"
    "client_reads packet = Some (ACTION_TYPE_ENTER, CommonProp_entity_id demo_common, demo_common)"
    using newcomer_is_announced [OF f(1) d f(2,3,4) enter q _ demo_common_def f(7,8,9) _ env(3)] f(5,10) by auto
  then show ?thesis by (auto simp: Socket_AsyncSend_def)
qed

end
