(* ===== verification/Timer_Queue.thy ===== *)
theory Timer_Queue
  imports Base
begin

text \<open>
  The timers of asio (timer_queue.hpp, op_queue.hpp), on which the threads of the network wait: a binary
  heap by expiry time, a doubly linked list of the active timers, and in each timer its operations and
  its place in both. A time is the count of microseconds in a \<open>ptime\<close> (int_adapter.hpp,
  time_system_counted.hpp). The data of a timer is a field of the object that owns it, so it is found
  under the number of the timer.
\<close>

section \<open>Times\<close>

type_synonym ptime = int

definition pos_infinity :: ptime where
  "pos_infinity = 2 ^ 63 - 1"

definition neg_infinity :: ptime where
  "neg_infinity = - (2 ^ 63)"

definition not_a_number :: ptime where
  "not_a_number = 2 ^ 63 - 2"

definition is_pos_infinity :: "ptime \<Rightarrow> bool" where
  "is_pos_infinity t \<longleftrightarrow> t = pos_infinity"

definition is_special :: "ptime \<Rightarrow> bool" where
  "is_special t \<longleftrightarrow> t = neg_infinity \<or> t = pos_infinity \<or> t = not_a_number"

text \<open>\<open>is_less\<close> compares the counts, the special values too.\<close>

definition less_than :: "ptime \<Rightarrow> ptime \<Rightarrow> bool" where
  "less_than t1 t2 \<longleftrightarrow> t1 < t2"

text \<open>The sum and the difference of an \<open>int_adapter\<close> when one of the two is special.\<close>

definition special_plus :: "int \<Rightarrow> int \<Rightarrow> int" where
  "special_plus a b =
     (if a = not_a_number \<or> b = not_a_number then not_a_number
      else if (a = pos_infinity \<and> b = neg_infinity) \<or> (a = neg_infinity \<and> b = pos_infinity) then not_a_number
      else if a = pos_infinity \<or> a = neg_infinity then a else b)"

definition special_minus :: "int \<Rightarrow> int \<Rightarrow> int" where
  "special_minus a b =
     (if a = not_a_number \<or> b = not_a_number then not_a_number
      else if (a = pos_infinity \<and> b = pos_infinity) \<or> (a = neg_infinity \<and> b = neg_infinity) then not_a_number
      else if a = pos_infinity \<or> a = neg_infinity then a
      else if b = pos_infinity then neg_infinity else pos_infinity)"

definition add_time :: "ptime \<Rightarrow> int \<Rightarrow> ptime res" where
  "add_time t d = (if is_special t \<or> is_special d then Inr (special_plus t d)
     else if in_int64 (t + d) then Inr (t + d) else Inl (UB ''signed overflow''))"

text \<open>
  The ticks of the difference of two times. A difference is rebuilt by \<open>to_tick_count\<close>, which takes the
  absolute value of a negative one.
\<close>

definition subtract_time :: "ptime \<Rightarrow> ptime \<Rightarrow> int res" where
  "subtract_time t1 t2 = (if is_special t1 \<or> is_special t2 then Inr (special_minus t1 t2)
     else if in_int64 (t1 - t2) \<and> in_int64 (- (t1 - t2)) then Inr (t1 - t2) else Inl (UB ''signed overflow''))"

section \<open>Operations and their queues\<close>

datatype error_code = Success | Operation_aborted

record wait_op =
  wo_id :: nat
  wo_ec :: error_code

type_synonym op_queue = "wait_op list"

definition op_front :: "op_queue \<Rightarrow> wait_op option" where
  "op_front q = (case q of [] \<Rightarrow> None | op # _ \<Rightarrow> Some op)"

definition op_pop :: "op_queue \<Rightarrow> op_queue" where
  "op_pop q = tl q"

definition op_push :: "wait_op \<Rightarrow> op_queue \<Rightarrow> op_queue" where
  "op_push op q = q @ [op]"

text \<open>Pushing a queue empties it.\<close>

definition op_push_queue :: "op_queue \<Rightarrow> op_queue \<Rightarrow> op_queue \<times> op_queue" where
  "op_push_queue other q = (q @ other, [])"

definition op_empty :: "op_queue \<Rightarrow> bool" where
  "op_empty q \<longleftrightarrow> q = []"

section \<open>The queue\<close>

type_synonym timer = nat

text \<open>\<open>heap_index_\<close> has no value before the first use.\<close>

record per_timer_data =
  td_op_queue :: op_queue
  td_heap_index :: "nat option"
  td_next :: "timer option"
  td_prev :: "timer option"

definition per_timer_data_new :: per_timer_data where
  "per_timer_data_new = \<lparr>td_op_queue = [], td_heap_index = None, td_next = None, td_prev = None\<rparr>"

record heap_entry =
  he_time :: ptime
  he_timer :: timer

record timer_queue =
  tq_timers :: "timer option"
  tq_heap :: "heap_entry list"
  tq_data :: "timer \<Rightarrow> per_timer_data"

definition timer_queue_new :: timer_queue where
  "timer_queue_new = \<lparr>tq_timers = None, tq_heap = [], tq_data = \<lambda>_. per_timer_data_new\<rparr>"

definition on_timer :: "timer \<Rightarrow> (per_timer_data \<Rightarrow> per_timer_data) \<Rightarrow> timer_queue \<Rightarrow> timer_queue" where
  "on_timer t f q = q\<lparr>tq_data := (tq_data q)(t := f (tq_data q t))\<rparr>"

text \<open>\<open>numeric_limits<std::size_t>::max()\<close>, and the entries of 16 bytes that a vector can hold.\<close>

definition size_max :: nat where
  "size_max = 2 ^ 64 - 1"

definition heap_max_size :: nat where
  "heap_max_size = 2 ^ 59 - 1"

definition heap_at :: "nat \<Rightarrow> timer_queue \<Rightarrow> heap_entry res" where
  "heap_at i q = (if i < length (tq_heap q) then Inr (tq_heap q ! i) else Inl (UB ''index out of range''))"

definition heap_less :: "nat \<Rightarrow> nat \<Rightarrow> timer_queue \<Rightarrow> bool res" where
  "heap_less i j q = bind_res (heap_at i q) (\<lambda>a. bind_res (heap_at j q) (\<lambda>b. Inr (less_than (he_time a) (he_time b))))"

definition heap_index :: "timer \<Rightarrow> timer_queue \<Rightarrow> nat res" where
  "heap_index t q = (case td_heap_index (tq_data q t) of None \<Rightarrow> Inl (UB ''uninitialised value'') | Some i \<Rightarrow> Inr i)"

definition is_active :: "timer \<Rightarrow> timer_queue \<Rightarrow> bool" where
  "is_active t q \<longleftrightarrow> td_prev (tq_data q t) \<noteq> None \<or> Some t = tq_timers q"

section \<open>The heap\<close>

definition swap_heap :: "nat \<Rightarrow> nat \<Rightarrow> timer_queue \<Rightarrow> timer_queue res" where
  "swap_heap i j q = bind_res (heap_at i q) (\<lambda>tmp. bind_res (heap_at j q) (\<lambda>e.
     let q = q\<lparr>tq_heap := (tq_heap q)[i := e, j := tmp]\<rparr>;
         q = on_timer (he_timer e) (td_heap_index_update (\<lambda>_. Some i)) q
     in Inr (on_timer (he_timer tmp) (td_heap_index_update (\<lambda>_. Some j)) q)))"

lemma bind_res_cong [fundef_cong]:
  "m = m' \<Longrightarrow> (\<And>x. m' = Inr x \<Longrightarrow> f x = f' x) \<Longrightarrow> bind_res m f = bind_res m' f'"
  by (cases m') auto

function up_heap :: "nat \<Rightarrow> timer_queue \<Rightarrow> timer_queue res" where
  "up_heap index q =
     (if 0 < index then
        bind_res (heap_less index ((index - 1) div 2) q) (\<lambda>less.
          if \<not> less then Inr q
          else bind_res (swap_heap index ((index - 1) div 2) q) (\<lambda>q. up_heap ((index - 1) div 2) q))
      else Inr q)"
  by auto

termination by (relation "measure fst") auto

lemma length_swap_heap: "swap_heap i j q = Inr q' \<Longrightarrow> length (tq_heap q') = length (tq_heap q)"
  by (auto simp: swap_heap_def bind_res_Inr_iff on_timer_def Let_def)

definition min_child :: "nat \<Rightarrow> timer_queue \<Rightarrow> nat res" where
  "min_child child q =
     (if child + 1 = length (tq_heap q) then Inr child
      else bind_res (heap_less child (child + 1) q) (\<lambda>less. Inr (if less then child else child + 1)))"

lemma min_child_ge: "min_child child q = Inr c \<Longrightarrow> child \<le> c"
  by (auto simp: min_child_def bind_res_Inr_iff split: if_splits)

function down_heap :: "nat \<Rightarrow> timer_queue \<Rightarrow> timer_queue res" where
  "down_heap index q =
     (if index * 2 + 1 < length (tq_heap q) then
        bind_res (min_child (index * 2 + 1) q) (\<lambda>c. bind_res (heap_less index c q) (\<lambda>less.
          if less then Inr q else bind_res (swap_heap index c q) (\<lambda>q. down_heap c q)))
      else Inr q)"
  by auto

termination
proof (relation "measure (\<lambda>(index, q). length (tq_heap q) - index)")
  fix index q c less q'
  assume "index * 2 + 1 < length (tq_heap q)" "min_child (index * 2 + 1) q = Inr c" "swap_heap index c q = Inr q'"
  moreover from this have "index < c" using min_child_ge by fastforce
  ultimately show "((c, q'), index, q) \<in> measure (\<lambda>(index, q). length (tq_heap q) - index)"
    by (simp add: length_swap_heap)
qed simp

declare up_heap.simps [simp del] down_heap.simps [simp del]

section \<open>Timers\<close>

definition pop_back :: "timer_queue \<Rightarrow> timer_queue" where
  "pop_back q = q\<lparr>tq_heap := butlast (tq_heap q)\<rparr>"

definition rises :: "nat \<Rightarrow> timer_queue \<Rightarrow> bool res" where
  "rises index q = (if 0 < index then heap_less index ((index - 1) div 2) q else Inr False)"

text \<open>The two halves of \<open>remove_timer\<close>.\<close>

definition remove_from_heap :: "nat \<Rightarrow> timer_queue \<Rightarrow> timer_queue res" where
  "remove_from_heap index q =
     (if tq_heap q \<noteq> [] \<and> index < length (tq_heap q) then
        if index = length (tq_heap q) - 1 then Inr (pop_back q)
        else bind_res (swap_heap index (length (tq_heap q) - 1) q) (\<lambda>q.
          let q = pop_back q in
          bind_res (rises index q) (\<lambda>up. if up then up_heap index q else down_heap index q))
      else Inr q)"

definition unlink :: "timer \<Rightarrow> timer_queue \<Rightarrow> timer_queue" where
  "unlink t q =
     (let q = (if tq_timers q = Some t then q\<lparr>tq_timers := td_next (tq_data q t)\<rparr> else q);
          q = (case td_prev (tq_data q t) of None \<Rightarrow> q
               | Some p \<Rightarrow> on_timer p (td_next_update (\<lambda>_. td_next (tq_data q t))) q);
          q = (case td_next (tq_data q t) of None \<Rightarrow> q
               | Some n \<Rightarrow> on_timer n (td_prev_update (\<lambda>_. td_prev (tq_data q t))) q)
      in on_timer t (\<lambda>d. d\<lparr>td_next := None, td_prev := None\<rparr>) q)"

definition remove_timer :: "timer \<Rightarrow> timer_queue \<Rightarrow> timer_queue res" where
  "remove_timer t q = bind_res (heap_index t q) (\<lambda>index. bind_res (remove_from_heap index q) (\<lambda>q. Inr (unlink t q)))"

text \<open>The two halves of the insertion in \<open>enqueue_timer\<close>: into the heap, then at the head of the list.\<close>

definition insert_heap :: "ptime \<Rightarrow> timer \<Rightarrow> timer_queue \<Rightarrow> timer_queue res" where
  "insert_heap time t q =
     (if is_pos_infinity time then Inr (on_timer t (td_heap_index_update (\<lambda>_. Some size_max)) q)
      else if length (tq_heap q) = heap_max_size then Inl (Thrown ''length_error'')
      else let q = on_timer t (td_heap_index_update (\<lambda>_. Some (length (tq_heap q)))) q;
               q = q\<lparr>tq_heap := tq_heap q @ [\<lparr>he_time = time, he_timer = t\<rparr>]\<rparr>
           in up_heap (length (tq_heap q) - 1) q)"

definition link :: "timer \<Rightarrow> timer_queue \<Rightarrow> timer_queue" where
  "link t q =
     (let q = on_timer t (\<lambda>d. d\<lparr>td_next := tq_timers q, td_prev := None\<rparr>) q;
          q = (case tq_timers q of None \<Rightarrow> q | Some h \<Rightarrow> on_timer h (td_prev_update (\<lambda>_. Some t)) q)
      in q\<lparr>tq_timers := Some t\<rparr>)"

definition enqueue_timer :: "ptime \<Rightarrow> timer \<Rightarrow> wait_op \<Rightarrow> timer_queue \<Rightarrow> (bool \<times> timer_queue) res" where
  "enqueue_timer time t op q =
     bind_res (if is_active t q then Inr q else bind_res (insert_heap time t q) (\<lambda>q. Inr (link t q))) (\<lambda>q.
       let q = on_timer t (td_op_queue_update (op_push op)) q in
       bind_res (heap_index t q) (\<lambda>i.
         Inr (i = 0 \<and> map_option wo_id (op_front (td_op_queue (tq_data q t))) = Some (wo_id op), q)))"

definition no_timers :: "timer_queue \<Rightarrow> bool" where
  "no_timers q \<longleftrightarrow> tq_timers q = None"

text \<open>The loops over the heap and over the list need not end in a damaged queue: then they have no result.\<close>

partial_function (option) ready_loop :: "ptime \<Rightarrow> op_queue \<Rightarrow> timer_queue \<Rightarrow> (op_queue \<times> timer_queue) res option" where
  "ready_loop now ops q =
     (case tq_heap q of
        [] \<Rightarrow> Some (Inr (ops, q))
      | e # _ \<Rightarrow>
          if less_than now (he_time e) then Some (Inr (ops, q))
          else let (ops', left) = op_push_queue (td_op_queue (tq_data q (he_timer e))) ops in
            case remove_timer (he_timer e) (on_timer (he_timer e) (td_op_queue_update (\<lambda>_. left)) q) of
              Inl err \<Rightarrow> Some (Inl err)
            | Inr q' \<Rightarrow> ready_loop now ops' q')"

definition get_ready_timers :: "ptime \<Rightarrow> op_queue \<Rightarrow> timer_queue \<Rightarrow> (op_queue \<times> timer_queue) res option" where
  "get_ready_timers now ops q = (if tq_heap q = [] then Some (Inr (ops, q)) else ready_loop now ops q)"

partial_function (option) all_loop :: "op_queue \<Rightarrow> timer_queue \<Rightarrow> (op_queue \<times> timer_queue) option" where
  "all_loop ops q =
     (case tq_timers q of
        None \<Rightarrow> Some (ops, q)
      | Some t \<Rightarrow>
          let (ops', left) = op_push_queue (td_op_queue (tq_data q t)) ops in
          all_loop ops' (on_timer t (\<lambda>d. d\<lparr>td_op_queue := left, td_next := None, td_prev := None\<rparr>)
            (q\<lparr>tq_timers := td_next (tq_data q t)\<rparr>)))"

definition get_all_timers :: "op_queue \<Rightarrow> timer_queue \<Rightarrow> (op_queue \<times> timer_queue) option" where
  "get_all_timers ops q = map_option (\<lambda>(ops, q). (ops, q\<lparr>tq_heap := []\<rparr>)) (all_loop ops q)"

text \<open>The loop of \<open>cancel_timer\<close> over the operations of the timer.\<close>

fun cancel_ops :: "nat \<Rightarrow> nat \<Rightarrow> op_queue \<Rightarrow> op_queue \<Rightarrow> nat \<times> op_queue \<times> op_queue" where
  "cancel_ops max_cancelled num_cancelled ops [] = (num_cancelled, ops, [])"
| "cancel_ops max_cancelled num_cancelled ops (op # queue) =
     (if num_cancelled \<noteq> max_cancelled
      then cancel_ops max_cancelled (num_cancelled + 1) (op_push (op\<lparr>wo_ec := Operation_aborted\<rparr>) ops) queue
      else (num_cancelled, ops, op # queue))"

definition cancel_timer :: "timer \<Rightarrow> op_queue \<Rightarrow> nat \<Rightarrow> timer_queue \<Rightarrow> (nat \<times> op_queue \<times> timer_queue) res" where
  "cancel_timer t ops max_cancelled q =
     (if is_active t q then
        let (num_cancelled, ops, left) = cancel_ops max_cancelled 0 ops (td_op_queue (tq_data q t));
            q = on_timer t (td_op_queue_update (\<lambda>_. left)) q
        in bind_res (if op_empty left then remove_timer t q else Inr q) (\<lambda>q. Inr (num_cancelled, ops, q))
      else Inr (0, ops, q))"

section \<open>How long to wait\<close>

definition to_msec :: "int \<Rightarrow> int \<Rightarrow> int" where
  "to_msec ticks max_duration =
     (if ticks \<le> 0 then 0
      else let msec = ticks div 1000 in if msec = 0 then 1 else if msec > max_duration then max_duration else msec)"

definition to_usec :: "int \<Rightarrow> int \<Rightarrow> int" where
  "to_usec ticks max_duration =
     (if ticks \<le> 0 then 0
      else let usec = ticks in if usec = 0 then 1 else if usec > max_duration then max_duration else usec)"

definition wait_duration_msec :: "ptime \<Rightarrow> int \<Rightarrow> timer_queue \<Rightarrow> int res" where
  "wait_duration_msec now max_duration q =
     (case tq_heap q of [] \<Rightarrow> Inr max_duration
      | e # _ \<Rightarrow> bind_res (subtract_time (he_time e) now) (\<lambda>d. Inr (to_msec d max_duration)))"

definition wait_duration_usec :: "ptime \<Rightarrow> int \<Rightarrow> timer_queue \<Rightarrow> int res" where
  "wait_duration_usec now max_duration q =
     (case tq_heap q of [] \<Rightarrow> Inr max_duration
      | e # _ \<Rightarrow> bind_res (subtract_time (he_time e) now) (\<lambda>d. Inr (to_usec d max_duration)))"

end
