(* ===== verification/Timer_Heap.thy ===== *)
theory Timer_Heap
  imports Timer_Queue "HOL-Library.Multiset"
begin

text \<open>
  The heap of the timer queue: its order by expiry time, restored from one entry out of place, and the
  places of the timers, which every step keeps.
\<close>

section \<open>The order\<close>

definition parent :: "nat \<Rightarrow> nat" where
  "parent i = (i - 1) div 2"

lemma parent_less [simp]: "0 < i \<Longrightarrow> parent i < i"
  by (simp add: parent_def)

lemma parent_iff: "0 < j \<Longrightarrow> parent j = i \<longleftrightarrow> j = 2 * i + 1 \<or> j = 2 * i + 2"
  unfolding parent_def by presburger

definition heap_order :: "int list \<Rightarrow> bool" where
  "heap_order ts \<longleftrightarrow> (\<forall>j < length ts. 0 < j \<longrightarrow> ts ! parent j \<le> ts ! j)"

text \<open>In order but for the entry \<open>i\<close>, whose parent is still below its children; then \<open>i\<close> against either.\<close>

definition almost :: "int list \<Rightarrow> nat \<Rightarrow> bool" where
  "almost ts i \<longleftrightarrow> (\<forall>j < length ts. 0 < j \<longrightarrow>
     (j \<noteq> i \<and> parent j \<noteq> i \<longrightarrow> ts ! parent j \<le> ts ! j) \<and> (parent j = i \<and> 0 < i \<longrightarrow> ts ! parent i \<le> ts ! j))"

definition below_children :: "int list \<Rightarrow> nat \<Rightarrow> bool" where
  "below_children ts i \<longleftrightarrow> (\<forall>j < length ts. 0 < j \<and> parent j = i \<longrightarrow> ts ! i \<le> ts ! j)"

definition above_parent :: "int list \<Rightarrow> nat \<Rightarrow> bool" where
  "above_parent ts i \<longleftrightarrow> (0 < i \<longrightarrow> ts ! parent i \<le> ts ! i)"

lemmas order_defs = almost_def below_children_def above_parent_def heap_order_def

lemma heap_order_iff: "i < length ts \<Longrightarrow> heap_order ts \<longleftrightarrow> almost ts i \<and> below_children ts i \<and> above_parent ts i"
proof -
  assume i: "i < length ts"
  have "almost ts i" "below_children ts i" "above_parent ts i" if h: "heap_order ts"
  proof -
    show "below_children ts i" "above_parent ts i" using h i by (auto simp: order_defs)
    then show "almost ts i" using h i by (auto simp: order_defs intro: order_trans)
  qed
  moreover have "heap_order ts" if "almost ts i" "below_children ts i" "above_parent ts i"
    unfolding heap_order_def
  proof (intro allI impI)
    fix j assume "j < length ts" "0 < j"
    then show "ts ! parent j \<le> ts ! j"
      using that by (cases "j = i"; cases "parent j = i") (auto simp: order_defs)
  qed
  ultimately show ?thesis by blast
qed

text \<open>One step up, and one step down to a smallest child.\<close>

lemma order_up:
  assumes "almost ts i" "below_children ts i" "i < length ts" "0 < i" "ts ! i < ts ! parent i"
  shows "almost (ts[i := ts ! parent i, parent i := ts ! i]) (parent i)"
    and "below_children (ts[i := ts ! parent i, parent i := ts ! i]) (parent i)"
proof -
  let ?p = "parent i" let ?u = "ts[i := ts ! ?p, ?p := ts ! i]"
  have p: "?p < i" using assms(4) by simp
  have u: "?u ! j = (if j = ?p then ts ! i else if j = i then ts ! ?p else ts ! j)" if "j < length ts" for j
    using that p by (auto simp: nth_list_update)
  have up: "ts ! parent ?p \<le> ts ! ?p" if "0 < ?p"
    using assms(1,3) p that parent_less [OF that] by (auto simp: almost_def)
  have sib: "ts ! ?p \<le> ts ! j" if "0 < j" "j < length ts" "parent j = ?p" "j \<noteq> i" for j
    using assms(1) that p by (auto simp: almost_def)
  have child: "ts ! ?p \<le> ts ! j" if "0 < j" "j < length ts" "parent j = i" for j
    using assms(1,4) that by (auto simp: almost_def)
  show "below_children ?u ?p"
    unfolding below_children_def
  proof (intro allI impI, elim conjE)
    fix j assume j: "j < length ?u" "0 < j" "parent j = ?p"
    then show "?u ! ?p \<le> ?u ! j" using sib [of j] assms(3,5) p by (cases "j = i") (auto simp: u)
  qed
  show "almost ?u ?p"
    unfolding almost_def
  proof (intro allI impI conjI; elim conjE)
    fix j assume j: "j < length ?u" "0 < j" "j \<noteq> ?p" "parent j \<noteq> ?p"
    then have "j \<noteq> i" "parent j < length ts" "j < length ts"
      using assms(3) p j parent_less [OF j(2)] by auto
    then show "?u ! parent j \<le> ?u ! j"
      using j child [of j] assms(1) unfolding u [OF \<open>parent j < length ts\<close>] u [OF \<open>j < length ts\<close>] almost_def by auto
  next
    fix j assume j: "j < length ?u" "0 < j" "parent j = ?p" "0 < ?p"
    have "parent ?p < ?p" using j(4) by simp
    then show "?u ! parent ?p \<le> ?u ! j"
      using up [OF j(4)] sib [OF j(2) _ j(3)] j(1,2,3) p assms(3) by (cases "j = i") (force simp: u)+
  qed
qed

lemma order_down:
  assumes "almost ts i" "above_parent ts i" "0 < c" "c < length ts" "parent c = i"
    and "\<forall>j < length ts. 0 < j \<and> parent j = i \<longrightarrow> ts ! c \<le> ts ! j" "ts ! c \<le> ts ! i"
  shows "almost (ts[i := ts ! c, c := ts ! i]) c" "above_parent (ts[i := ts ! c, c := ts ! i]) c"
proof -
  let ?u = "ts[i := ts ! c, c := ts ! i]"
  have i: "i < c" using parent_less [OF assms(3)] assms(5) by simp
  have u: "?u ! j = (if j = c then ts ! i else if j = i then ts ! c else ts ! j)" if "j < length ts" for j
    using that i by (auto simp: nth_list_update)
  show "above_parent ?u c" using assms(4,5,7) i by (simp add: above_parent_def u)
  have up: "ts ! parent i \<le> ts ! c" if "0 < i" using assms(1,3-5) that by (auto simp: almost_def)
  have below: "ts ! c \<le> ts ! j" if "0 < j" "j < length ts" "parent j = c" for j
    using assms(1) that i parent_less [OF that(1)] unfolding almost_def by (metis less_irrefl order.asym)
  show "almost ?u c"
    unfolding almost_def
  proof (intro allI impI conjI; elim conjE)
    fix j assume j: "j < length ?u" "0 < j" "j \<noteq> c" "parent j \<noteq> c"
    have lt: "parent j < length ts" "j < length ts" "parent j < j" using j parent_less [OF j(2)] by auto
    consider "j = i" | "j \<noteq> i" "parent j = i" | "j \<noteq> i" "parent j \<noteq> i" by blast
    then show "?u ! parent j \<le> ?u ! j"
    proof cases
      case 1
      then show ?thesis using up j lt by (auto simp: u)
    next
      case 2
      then show ?thesis using assms(6) j lt by (auto simp: u)
    next
      case 3
      then show ?thesis using assms(1) j lt by (auto simp: u almost_def)
    qed
  next
    fix j assume j: "j < length ?u" "0 < j" "parent j = c" "0 < c"
    moreover from this have "c < j" using parent_less [of j] by simp
    ultimately show "?u ! parent c \<le> ?u ! j" using below [of j] assms(4,5) i by (auto simp: u)
  qed
qed

section \<open>The places of the timers\<close>

definition heap_times :: "timer_queue \<Rightarrow> int list" where
  "heap_times q = map he_time (tq_heap q)"

lemma length_heap_times [simp]: "length (heap_times q) = length (tq_heap q)"
  by (simp add: heap_times_def)

definition placed :: "timer_queue \<Rightarrow> bool" where
  "placed q \<longleftrightarrow> (\<forall>i < length (tq_heap q). td_heap_index (tq_data q (he_timer (tq_heap q ! i))) = Some i)"

lemma placed_inj:
  "placed q \<Longrightarrow> i < length (tq_heap q) \<Longrightarrow> j < length (tq_heap q) \<Longrightarrow>
    he_timer (tq_heap q ! i) = he_timer (tq_heap q ! j) \<longleftrightarrow> i = j"
  unfolding placed_def by (metis option.inject)

text \<open>What the steps of the heap leave alone: its entries but for their order, and all other data.\<close>

definition in_heap :: "timer_queue \<Rightarrow> timer set" where
  "in_heap q = he_timer ` set (tq_heap q)"

definition kept :: "timer_queue \<Rightarrow> timer_queue \<Rightarrow> bool" where
  "kept q q' \<longleftrightarrow> tq_timers q' = tq_timers q \<and> in_heap q' \<subseteq> in_heap q \<and>
     (\<forall>t. (tq_data q' t)\<lparr>td_heap_index := None\<rparr> = (tq_data q t)\<lparr>td_heap_index := None\<rparr>) \<and>
     (\<forall>t. t \<notin> in_heap q \<longrightarrow> tq_data q' t = tq_data q t)"

definition moved :: "timer_queue \<Rightarrow> timer_queue \<Rightarrow> bool" where
  "moved q q' \<longleftrightarrow> kept q q' \<and> mset (tq_heap q') = mset (tq_heap q)"

lemma kept_trans: "kept q r \<Longrightarrow> kept r s \<Longrightarrow> kept q s"
  unfolding kept_def by (metis subset_iff)

lemma moved_refl [simp]: "moved q q"
  by (simp add: moved_def kept_def)

lemma moved_trans: "moved q r \<Longrightarrow> moved r s \<Longrightarrow> moved q s"
  by (auto simp: moved_def intro: kept_trans)

lemma moved_heap: "moved q q' \<Longrightarrow> set (tq_heap q') = set (tq_heap q)" "moved q q' \<Longrightarrow> length (tq_heap q') = length (tq_heap q)"
  by (auto simp: moved_def dest: mset_eq_setD mset_eq_length)

lemma kept_links:
  assumes "kept q q'"
  shows "tq_timers q' = tq_timers q" "td_op_queue (tq_data q' t) = td_op_queue (tq_data q t)"
    "td_next (tq_data q' t) = td_next (tq_data q t)" "td_prev (tq_data q' t) = td_prev (tq_data q t)"
    "t \<notin> in_heap q \<Longrightarrow> tq_data q' t = tq_data q t"
proof -
  have "(tq_data q' t)\<lparr>td_heap_index := None\<rparr> = (tq_data q t)\<lparr>td_heap_index := None\<rparr>"
    using assms by (simp add: kept_def)
  from this [THEN arg_cong [where f = td_op_queue]] this [THEN arg_cong [where f = td_next]]
    this [THEN arg_cong [where f = td_prev]]
  show "td_op_queue (tq_data q' t) = td_op_queue (tq_data q t)" "td_next (tq_data q' t) = td_next (tq_data q t)"
    "td_prev (tq_data q' t) = td_prev (tq_data q t)" by simp_all
qed (use assms in \<open>simp_all add: kept_def\<close>)

definition heap_ok :: "timer_queue \<Rightarrow> bool" where
  "heap_ok q \<longleftrightarrow> placed q \<and> heap_order (heap_times q)"

lemma heap_less_eq [simp]:
  "i < length (tq_heap q) \<Longrightarrow> j < length (tq_heap q) \<Longrightarrow> heap_less i j q = Inr (heap_times q ! i < heap_times q ! j)"
  by (simp add: heap_less_def heap_at_def less_than_def heap_times_def)

lemma swap_heap_ok:
  assumes "placed q" "i < length (tq_heap q)" "j < length (tq_heap q)" "i \<noteq> j"
  obtains q' where "swap_heap i j q = Inr q'" "placed q'" "moved q q'"
    "heap_times q' = (heap_times q)[i := heap_times q ! j, j := heap_times q ! i]"
    "tq_heap q' = (tq_heap q)[i := tq_heap q ! j, j := tq_heap q ! i]"
proof -
  let ?h = "tq_heap q"
  let ?h' = "?h[i := ?h ! j, j := ?h ! i]"
  let ?q = "on_timer (he_timer (?h ! i)) (td_heap_index_update (\<lambda>_. Some j))
    (on_timer (he_timer (?h ! j)) (td_heap_index_update (\<lambda>_. Some i)) (q\<lparr>tq_heap := ?h'\<rparr>))"
  have neq: "he_timer (?h ! i) \<noteq> he_timer (?h ! j)" using placed_inj assms by blast
  have "swap_heap i j q = Inr ?q" using assms(2,3) by (simp add: swap_heap_def heap_at_def Let_def)
  moreover have "placed ?q"
    unfolding placed_def
  proof (intro allI impI)
    fix k assume "k < length (tq_heap ?q)"
    then have k: "k < length ?h" by (simp add: on_timer_def)
    then show "td_heap_index (tq_data ?q (he_timer (tq_heap ?q ! k))) = Some k"
      using assms neq placed_inj [OF assms(1) k assms(2)] placed_inj [OF assms(1) k assms(3)]
      by (auto simp: on_timer_def nth_list_update placed_def)
  qed
  moreover have "moved q ?q"
    using assms(2,3) mset_swap [OF assms(3,2)] by (auto simp: moved_def kept_def on_timer_def in_heap_def)
  moreover have "heap_times ?q = (heap_times q)[i := heap_times q ! j, j := heap_times q ! i]"
    using assms(2,3) by (simp add: heap_times_def on_timer_def map_update)
  moreover have "tq_heap ?q = ?h'" by (simp add: on_timer_def)
  ultimately show ?thesis by (rule that)
qed

section \<open>Sifting\<close>

lemma up_heap_parent:
  "up_heap i q =
     (if 0 < i then
        bind_res (heap_less i (parent i) q) (\<lambda>less.
          if \<not> less then Inr q else bind_res (swap_heap i (parent i) q) (\<lambda>q. up_heap (parent i) q))
      else Inr q)"
  by (subst up_heap.simps) (simp only: parent_def)

lemma up_heap_ok:
  assumes "placed q" "i < length (tq_heap q)" "almost (heap_times q) i" "below_children (heap_times q) i"
  obtains q' where "up_heap i q = Inr q'" "heap_ok q'" "moved q q'"
proof -
  have "\<exists>q'. up_heap i q = Inr q' \<and> heap_ok q' \<and> moved q q'" using assms
  proof (induction i arbitrary: q rule: less_induct)
    case (less i)
    show ?case
    proof (cases "0 < i \<and> heap_times q ! i < heap_times q ! parent i")
      case True
      have p: "parent i < length (tq_heap q)" "i \<noteq> parent i" "parent i < i"
        using True less.prems(2) parent_less [of i] by linarith+
      obtain r where r: "swap_heap i (parent i) q = Inr r" "placed r" "moved q r"
        "heap_times r = (heap_times q)[i := heap_times q ! parent i, parent i := heap_times q ! i]"
        using swap_heap_ok [OF less.prems(1,2) p(1,2)] .
      have "almost (heap_times r) (parent i)" "below_children (heap_times r) (parent i)"
        using order_up [of "heap_times q" i] less.prems True r(4) by simp_all
      then obtain q' where "up_heap (parent i) r = Inr q'" "heap_ok q'" "moved r q'"
        using less.IH [OF p(3) r(2)] p(1) moved_heap(2) [OF r(3)] by auto
      moreover have "up_heap i q = up_heap (parent i) r"
        using True r(1) p(1) less.prems(2) by (simp add: up_heap_parent [of i])
      ultimately show ?thesis using moved_trans [OF r(3)] by auto
    next
      case False
      then have "above_parent (heap_times q) i" by (auto simp: above_parent_def)
      then have "heap_ok q" using less.prems heap_order_iff [of i "heap_times q"] by (simp add: heap_ok_def)
      moreover have "up_heap i q = Inr q"
        using False less.prems(2) 
        by (subst up_heap_parent) (auto simp: order.strict_trans [OF parent_less])
      ultimately show ?thesis by auto
    qed
  qed
  then show ?thesis using that by blast
qed

lemma min_child_ok:
  assumes "2 * i + 1 < length (tq_heap q)"
  obtains c where "min_child (i * 2 + 1) q = Inr c" "c < length (tq_heap q)" "0 < c" "parent c = i"
    "\<forall>j < length (heap_times q). 0 < j \<and> parent j = i \<longrightarrow> heap_times q ! c \<le> heap_times q ! j"
proof -
  let ?c = "if 2 * i + 2 < length (tq_heap q) \<and> heap_times q ! (2 * i + 2) \<le> heap_times q ! (2 * i + 1) then 2 * i + 2 else 2 * i + 1"
  have "min_child (i * 2 + 1) q = Inr ?c" "?c < length (tq_heap q)" "0 < ?c"
    using assms by (auto simp: min_child_def mult.commute)
  moreover have "parent ?c = i" by (simp add: parent_def)
  moreover have "\<forall>j < length (heap_times q). 0 < j \<and> parent j = i \<longrightarrow> heap_times q ! ?c \<le> heap_times q ! j"
  proof (intro allI impI)
    fix j assume "j < length (heap_times q)" "0 < j \<and> parent j = i"
    then show "heap_times q ! ?c \<le> heap_times q ! j" using parent_iff [of j i] by auto
  qed
  ultimately show ?thesis by (rule that)
qed

lemma down_heap_ok:
  assumes "placed q" "i < length (tq_heap q)" "almost (heap_times q) i" "above_parent (heap_times q) i"
  obtains q' where "down_heap i q = Inr q'" "heap_ok q'" "moved q q'"
proof -
  have "\<exists>q'. down_heap i q = Inr q' \<and> heap_ok q' \<and> moved q q'" using assms
  proof (induction "length (tq_heap q) - i" arbitrary: i q rule: less_induct)
    case less
    show ?case
    proof (cases "2 * i + 1 < length (tq_heap q)")
      case True
      obtain c where c: "min_child (i * 2 + 1) q = Inr c" "c < length (tq_heap q)" "0 < c" "parent c = i"
        "\<forall>j < length (heap_times q). 0 < j \<and> parent j = i \<longrightarrow> heap_times q ! c \<le> heap_times q ! j"
        using min_child_ok [OF True] .
      have ic: "i < c" using c(3,4) parent_less by blast
      show ?thesis
      proof (cases "heap_times q ! i < heap_times q ! c")
        case stop: True
        then have "below_children (heap_times q) i" using c(5) by (auto simp: below_children_def intro: order_trans less_imp_le)
        then have "heap_ok q" using less.prems heap_order_iff [of i "heap_times q"] by (simp add: heap_ok_def)
        moreover have "down_heap i q = Inr q"
          using True stop c(1,2) less.prems(2) by (subst down_heap.simps) (simp add: mult.commute)
        ultimately show ?thesis by auto
      next
        case False
        obtain r where r: "swap_heap i c q = Inr r" "placed r" "moved q r"
          "heap_times r = (heap_times q)[i := heap_times q ! c, c := heap_times q ! i]"
          using swap_heap_ok [OF less.prems(1,2) c(2)] ic by blast
        have "almost (heap_times r) c" "above_parent (heap_times r) c"
          using order_down [of "heap_times q" i c] less.prems c False r(4) by simp_all
        then obtain q' where "down_heap c r = Inr q'" "heap_ok q'" "moved r q'"
          using less.hyps [of r c] r(2) c(2) ic less.prems(2) moved_heap(2) [OF r(3)] diff_less_mono2 [OF ic less.prems(2)] by auto
        moreover have "down_heap i q = down_heap c r"
          using True False r(1) c(1,2) less.prems(2) by (subst down_heap.simps) (simp add: mult.commute)
        ultimately show ?thesis using moved_trans [OF r(3)] by auto
      qed
    next
      case False
      then have "parent j \<noteq> i" if "j < length (tq_heap q)" "0 < j" for j using that parent_iff [of j i] by auto
      then have "below_children (heap_times q) i" by (auto simp: below_children_def)
      then have "heap_ok q" using less.prems heap_order_iff [of i "heap_times q"] by (simp add: heap_ok_def)
      moreover have "down_heap i q = Inr q" using False by (subst down_heap.simps) (simp add: mult.commute)
      ultimately show ?thesis by auto
    qed
  qed
  then show ?thesis using that by blast
qed

section \<open>Taking out and putting in\<close>

lemma almost_below: "almost ts i \<Longrightarrow> 0 < i \<Longrightarrow> ts ! i < ts ! parent i \<Longrightarrow> below_children ts i"
  by (auto simp: almost_def below_children_def intro: order_trans less_imp_le)

lemma heap_order_take: "heap_order ts \<Longrightarrow> heap_order (take n ts)"
  unfolding heap_order_def
proof (intro allI impI)
  fix j assume "\<forall>j<length ts. 0 < j \<longrightarrow> ts ! parent j \<le> ts ! j" "j < length (take n ts)" "0 < j"
  then show "take n ts ! parent j \<le> take n ts ! j"
    by (simp add: order.strict_trans [OF parent_less])
qed

lemma almost_replaced:
  assumes "heap_order ts" "i < n" "n < length ts"
  shows "almost ((take n ts)[i := x]) i"
  unfolding almost_def
proof (intro allI impI conjI; elim conjE)
  fix j assume j: "j < length ((take n ts)[i := x])" "0 < j" "j \<noteq> i" "parent j \<noteq> i"
  then show "(take n ts)[i := x] ! parent j \<le> (take n ts)[i := x] ! j"
    using assms parent_less [OF j(2)] by (simp add: heap_order_def)
next
  fix j assume j: "j < length ((take n ts)[i := x])" "0 < j" "parent j = i" "0 < i"
  then have "ts ! parent i \<le> ts ! i" "ts ! i \<le> ts ! j" using assms by (auto simp: heap_order_def)
  then show "(take n ts)[i := x] ! parent i \<le> (take n ts)[i := x] ! j"
    using j assms parent_less [OF j(4)] parent_less [OF j(2)] by simp
qed

lemma mset_butlast: "xs \<noteq> [] \<Longrightarrow> mset (butlast xs) = mset xs - {#last xs#}"
  by (induction xs rule: rev_induct) simp_all

lemma remove_from_heap_ok:
  assumes "heap_ok q" "i < length (tq_heap q)"
  obtains q' where "remove_from_heap i q = Inr q'" "heap_ok q'" "kept q q'"
    "mset (tq_heap q') = mset (tq_heap q) - {#tq_heap q ! i#}"
proof -
  let ?n = "length (tq_heap q) - 1"
  have n: "?n < length (tq_heap q)" "tq_heap q \<noteq> []" using assms(2) by auto
  have ok: "placed q" "heap_order (heap_times q)" using assms(1) by (simp_all add: heap_ok_def)
  have pop: "placed (pop_back r)" "in_heap (pop_back r) \<subseteq> in_heap r" "tq_timers (pop_back r) = tq_timers r"
    "tq_data (pop_back r) = tq_data r" "heap_times (pop_back r) = butlast (heap_times r)" if "placed r" for r
    using that by (auto simp: placed_def pop_back_def in_heap_def nth_butlast heap_times_def map_butlast dest: in_set_butlastD)
  show ?thesis
  proof (cases "i = ?n")
    case True
    have "heap_order (heap_times (pop_back q))"
      using ok(2) by (simp add: pop(5) [OF ok(1)] butlast_conv_take heap_order_take)
    moreover have "mset (tq_heap (pop_back q)) = mset (tq_heap q) - {#tq_heap q ! i#}"
      using n(2) True by (simp add: pop_back_def last_conv_nth mset_butlast)
    ultimately show ?thesis
      using that [of "pop_back q"] True assms(2) pop [OF ok(1)] n(2) by (simp add: remove_from_heap_def heap_ok_def kept_def)
  next
    case False
    then have i: "i < ?n" using assms(2) by simp
    obtain r where r: "swap_heap i ?n q = Inr r" "placed r" "moved q r"
      "heap_times r = (heap_times q)[i := heap_times q ! ?n, ?n := heap_times q ! i]"
      "tq_heap r = (tq_heap q)[i := tq_heap q ! ?n, ?n := tq_heap q ! i]"
      using swap_heap_ok [OF ok(1) assms(2) n(1) False] .
    let ?r = "pop_back r"
    have len: "length (tq_heap ?r) = ?n" using moved_heap(2) [OF r(3)] by (simp add: pop_back_def)
    have times: "heap_times ?r = (take ?n (heap_times q))[i := heap_times q ! ?n]"
      using i by (simp add: pop(5) [OF r(2)] r(4) butlast_conv_take take_update_swap list_update_beyond)
    have k: "kept q ?r" using r(3) pop(2-4) [OF r(2)] by (auto simp: moved_def kept_def)
    have ne: "tq_heap r \<noteq> []" using moved_heap(2) [OF r(3)] n(2) by auto
    have "last (tq_heap r) = tq_heap q ! i" using n i by (simp add: r(5) last_conv_nth)
    then have m: "mset (tq_heap ?r) = mset (tq_heap q) - {#tq_heap q ! i#}"
      using r(3) mset_butlast [of "tq_heap r"] ne by (simp add: pop_back_def moved_def)
    have al: "almost (heap_times ?r) i" using almost_replaced [OF ok(2) i] n(1) times by simp
    have "\<exists>q'. remove_from_heap i q = Inr q' \<and> heap_ok q' \<and> moved ?r q'"
    proof (cases "0 < i \<and> heap_times ?r ! i < heap_times ?r ! parent i")
      case True
      then obtain q' where q': "up_heap i ?r = Inr q'" "heap_ok q'" "moved ?r q'"
        using up_heap_ok [OF pop(1) [OF r(2)] _ al] almost_below [OF al] i len by auto
      moreover have "rises i ?r = Inr True"
        using True i len parent_less [of i] by (auto simp: rises_def parent_def)
      ultimately show ?thesis using False assms(2) n(2) r(1) by (simp add: remove_from_heap_def)
    next
      case stays: False
      then have "above_parent (heap_times ?r) i" by (auto simp: above_parent_def)
      then obtain q' where q': "down_heap i ?r = Inr q'" "heap_ok q'" "moved ?r q'"
        using down_heap_ok [OF pop(1) [OF r(2)] _ al] i len by auto
      moreover have "rises i ?r = Inr False"
        using stays i len parent_less [of i] by (auto simp: rises_def parent_def)
      ultimately show ?thesis using False assms(2) n(2) r(1) by (simp add: remove_from_heap_def)
    qed
    then show ?thesis using that kept_trans [OF k] m by (auto simp: moved_def)
  qed
qed

lemma almost_append: "heap_order ts \<Longrightarrow> almost (ts @ [x]) (length ts)"
  unfolding almost_def
proof (intro allI impI conjI; elim conjE)
  fix j assume j: "heap_order ts" "j < length (ts @ [x])" "0 < j"
  then have "parent j < length ts" using parent_less [OF j(3)] by simp
  then show "(ts @ [x]) ! parent j \<le> (ts @ [x]) ! j" if "j \<noteq> length ts"
    using that j by (auto simp: heap_order_def nth_append)
  show "(ts @ [x]) ! parent (length ts) \<le> (ts @ [x]) ! j" if "parent j = length ts"
    using that \<open>parent j < length ts\<close> by simp
qed

lemma insert_heap_ok:
  assumes "heap_ok q" "t \<notin> in_heap q" "is_pos_infinity time \<or> length (tq_heap q) < heap_max_size"
  obtains q' where "insert_heap time t q = Inr q'" "heap_ok q'"
    "mset (tq_heap q') = mset (tq_heap q) + (if is_pos_infinity time then {#} else {#\<lparr>he_time = time, he_timer = t\<rparr>#})"
    "tq_timers q' = tq_timers q" "\<And>u. u \<notin> insert t (in_heap q) \<Longrightarrow> tq_data q' u = tq_data q u"
    "\<And>u. (tq_data q' u)\<lparr>td_heap_index := None\<rparr> = (tq_data q u)\<lparr>td_heap_index := None\<rparr>"
    "is_pos_infinity time \<Longrightarrow> td_heap_index (tq_data q' t) = Some size_max"
proof (cases "is_pos_infinity time")
  case True
  let ?q = "on_timer t (td_heap_index_update (\<lambda>_. Some size_max)) q"
  have "heap_ok ?q"
    using assms(1,2) by (auto simp: heap_ok_def placed_def on_timer_def heap_times_def in_heap_def)
  then show ?thesis using that [of ?q] True by (simp add: insert_heap_def on_timer_def)
next
  case False
  let ?n = "length (tq_heap q)" and ?e = "\<lparr>he_time = time, he_timer = t\<rparr>"
  let ?q = "(on_timer t (td_heap_index_update (\<lambda>_. Some ?n)) q)\<lparr>tq_heap := tq_heap q @ [?e]\<rparr>"
  have "placed ?q"
    using assms(1,2) by (auto simp: heap_ok_def placed_def on_timer_def in_heap_def nth_append less_Suc_eq)
  moreover have "almost (heap_times ?q) ?n"
    using assms(1) almost_append [of "heap_times q"] by (simp add: heap_ok_def heap_times_def on_timer_def)
  moreover have "below_children (heap_times ?q) ?n"
    unfolding below_children_def
  proof (intro allI impI, elim conjE)
    fix j assume "j < length (heap_times ?q)" "0 < j" "parent j = ?n"
    then show "heap_times ?q ! ?n \<le> heap_times ?q ! j" using parent_less [OF \<open>0 < j\<close>] by simp
  qed
  ultimately obtain q' where q': "up_heap ?n ?q = Inr q'" "heap_ok q'" "moved ?q q'"
    using up_heap_ok [of ?q ?n] by auto
  moreover have "insert_heap time t q = up_heap ?n ?q"
    using False assms(3) by (simp add: insert_heap_def Let_def on_timer_def)
  moreover have "in_heap ?q = insert t (in_heap q)" by (auto simp: in_heap_def)
  ultimately show ?thesis
    using that [of q'] False by (auto simp: moved_def kept_def on_timer_def)
qed

end
