(* ===== verification/Timer_List.thy ===== *)
theory Timer_List
  imports Timer_Heap
begin

text \<open>
  The list of the active timers, and what each operation of the timer queue does to the timers that wait:
  a map from timer to its expiry and its operations.
\<close>

section \<open>The list\<close>

fun linked :: "(timer \<Rightarrow> per_timer_data) \<Rightarrow> timer option \<Rightarrow> timer option \<Rightarrow> timer list \<Rightarrow> bool" where
  "linked d p x [] \<longleftrightarrow> x = None"
| "linked d p x (t # ts) \<longleftrightarrow> x = Some t \<and> td_prev (d t) = p \<and> linked d (Some t) (td_next (d t)) ts"

lemma linked_cong:
  "(\<And>t. t \<in> set ts \<Longrightarrow> td_next (d t) = td_next (d' t) \<and> td_prev (d t) = td_prev (d' t)) \<Longrightarrow>
    linked d p x ts = linked d' p x ts"
  by (induction ts arbitrary: p x) auto

lemma linked_start: "linked d p x ts \<Longrightarrow> x = (case ts of [] \<Rightarrow> None | t # _ \<Rightarrow> Some t)"
  by (cases ts) auto

lemma linked_neighbours:
  "linked d p x (as @ t # bs) \<Longrightarrow> td_next (d t) = (case bs of [] \<Rightarrow> None | u # _ \<Rightarrow> Some u)"
  "linked d p x (as @ t # bs) \<Longrightarrow> td_prev (d t) = (if as = [] then p else Some (last as))"
  by (induction as arbitrary: p x) (auto dest: linked_start)

text \<open>Out of the list: the neighbours point past \<open>t\<close>.\<close>

lemma linked_remove:
  assumes "linked d p x (as @ t # bs)" "distinct (as @ t # bs)" "\<And>u. u \<in> set (as @ bs) \<Longrightarrow> p \<noteq> Some u"
    and "\<And>u. u \<in> set (as @ bs) \<Longrightarrow> td_next (d' u) = (if td_prev (d t) = Some u then td_next (d t) else td_next (d u))"
    and "\<And>u. u \<in> set (as @ bs) \<Longrightarrow> td_prev (d' u) = (if td_next (d t) = Some u then td_prev (d t) else td_prev (d u))"
  shows "linked d' p (if as = [] then td_next (d t) else x) (as @ bs)"
  using assms
proof (induction as arbitrary: p x)
  case Nil
  show ?case
  proof (cases bs)
    case (Cons u us)
    have "td_next (d t) = Some u" "td_prev (d t) = p" using linked_neighbours [OF Nil.prems(1)] Cons by simp_all
    moreover have "linked d' (Some u) (td_next (d u)) us = linked d (Some u) (td_next (d u)) us"
    proof (rule linked_cong)
      fix v assume "v \<in> set us"
      then show "td_next (d' v) = td_next (d v) \<and> td_prev (d' v) = td_prev (d v)"
        using Nil.prems(2-5) Cons \<open>td_next (d t) = Some u\<close> \<open>td_prev (d t) = p\<close> by auto
    qed
    ultimately show ?thesis using Nil.prems Cons by auto
  qed (use Nil.prems(1) in simp)
next
  case (Cons a as)
  have "linked d' (Some a) (if as = [] then td_next (d t) else td_next (d a)) (as @ bs)"
    using Cons.prems by (intro Cons.IH) auto
  moreover have "td_next (d t) \<noteq> Some a" "td_prev (d t) = Some a \<longleftrightarrow> as = []"
    using linked_neighbours [OF Cons.prems(1)] Cons.prems(2) by (auto split: list.splits dest: last_in_set)
  ultimately show ?case using Cons.prems by auto
qed

definition links_ok :: "timer_queue \<Rightarrow> timer list \<Rightarrow> bool" where
  "links_ok q xs \<longleftrightarrow> distinct xs \<and> linked (tq_data q) None (tq_timers q) xs \<and>
     (\<forall>t. t \<notin> set xs \<longrightarrow> td_next (tq_data q t) = None \<and> td_prev (tq_data q t) = None)"

lemma is_active_iff:
  assumes "links_ok q xs"
  shows "is_active t q \<longleftrightarrow> t \<in> set xs"
proof (cases "t \<in> set xs")
  case True
  then obtain as bs where xs: "xs = as @ t # bs" by (meson split_list)
  then have "linked (tq_data q) None (tq_timers q) (as @ t # bs)" using assms by (simp add: links_ok_def)
  from linked_neighbours(2) [OF this] linked_start [OF this] show ?thesis using xs
    by (cases as) (auto simp: is_active_def)
next
  case False
  then have "tq_timers q \<noteq> Some t" using assms linked_start by (fastforce simp: links_ok_def split: list.splits)
  then show ?thesis using assms False by (auto simp: is_active_def links_ok_def)
qed

lemma links_ok_kept: "kept q q' \<Longrightarrow> links_ok q' xs = links_ok q xs"
  unfolding links_ok_def using linked_cong [of xs "tq_data q'" "tq_data q"] by (auto simp: kept_links)

text \<open>What \<open>unlink\<close> and \<open>link\<close> leave alone.\<close>

definition same_timers :: "timer_queue \<Rightarrow> timer_queue \<Rightarrow> bool" where
  "same_timers q q' \<longleftrightarrow> tq_heap q' = tq_heap q \<and>
     (\<forall>t. td_op_queue (tq_data q' t) = td_op_queue (tq_data q t) \<and> td_heap_index (tq_data q' t) = td_heap_index (tq_data q t))"

lemma same_timers_unlink: "same_timers q (unlink t q)"
  by (auto simp: same_timers_def unlink_def on_timer_def Let_def split: option.splits)

lemma same_timers_link: "same_timers q (link t q)"
  by (auto simp: same_timers_def link_def on_timer_def Let_def split: option.splits)

lemma links_ok_unlink:
  assumes "links_ok q xs" "t \<in> set xs"
  shows "links_ok (unlink t q) (remove1 t xs)"
proof -
  obtain as bs where xs: "xs = as @ t # bs" using assms(2) by (meson split_list)
  have d: "distinct (as @ t # bs)" and l: "linked (tq_data q) None (tq_timers q) (as @ t # bs)"
    using assms(1) xs by (simp_all add: links_ok_def)
  let ?n = "td_next (tq_data q t)" and ?p = "td_prev (tq_data q t)"
  have n: "?n = (case bs of [] \<Rightarrow> None | u # _ \<Rightarrow> Some u)" and p: "?p = (if as = [] then None else Some (last as))"
    using linked_neighbours [OF l] by auto
  have "?n \<noteq> Some t" "?p \<noteq> Some t" using d by (auto simp: n p split: list.splits dest: last_in_set)
  then have data: "td_next (tq_data (unlink t q) u) = (if u = t then None else if ?p = Some u then ?n else td_next (tq_data q u))"
    "td_prev (tq_data (unlink t q) u) = (if u = t then None else if ?n = Some u then ?p else td_prev (tq_data q u))" for u
    by (auto simp: unlink_def on_timer_def Let_def split: option.splits)
  have "tq_timers q = Some t \<longleftrightarrow> as = []" using linked_start [OF l] d by (cases as) auto
  then have "tq_timers (unlink t q) = (if as = [] then ?n else tq_timers q)"
    by (auto simp: unlink_def on_timer_def Let_def split: option.splits)
  moreover have "linked (tq_data (unlink t q)) None (if as = [] then ?n else tq_timers q) (as @ bs)"
    using l d by (rule linked_remove) (use d in \<open>auto simp: data\<close>)
  moreover have "remove1 t xs = as @ bs" using d by (auto simp: xs remove1_append)
  moreover have "td_next (tq_data (unlink t q) u) = None \<and> td_prev (tq_data (unlink t q) u) = None"
    if "u \<notin> set (as @ bs)" for u
    using that assms(1) last_in_set [of as] by (auto simp: data n p links_ok_def xs split: list.splits)
  ultimately show ?thesis using d by (simp add: links_ok_def)
qed

lemma links_ok_link:
  assumes "links_ok q xs" "t \<notin> set xs"
  shows "links_ok (link t q) (t # xs)"
proof -
  have l: "linked (tq_data q) None (tq_timers q) xs" using assms(1) by (simp add: links_ok_def)
  have h: "tq_timers q = (case xs of [] \<Rightarrow> None | u # _ \<Rightarrow> Some u)" using linked_start [OF l] .
  have data: "td_next (tq_data (link t q) u) = (if u = t then tq_timers q else td_next (tq_data q u))"
    "td_prev (tq_data (link t q) u) = (if tq_timers q = Some u then Some t else if u = t then None else td_prev (tq_data q u))" for u
    using assms(2) by (auto simp: link_def on_timer_def Let_def h split: option.splits list.splits)
  have "linked (tq_data (link t q)) (Some t) (tq_timers q) xs"
  proof (cases xs)
    case (Cons u us)
    have "linked (tq_data (link t q)) (Some u) (td_next (tq_data q u)) us = linked (tq_data q) (Some u) (td_next (tq_data q u)) us"
      by (rule linked_cong) (use assms Cons in \<open>auto simp: data h links_ok_def\<close>)
    then show ?thesis using l assms(2) Cons by (auto simp: data)
  qed (use h in simp)
  moreover have "tq_timers (link t q) = Some t" by (simp add: link_def Let_def)
  ultimately show ?thesis using assms h by (auto simp: links_ok_def data split: list.splits)
qed

end
