(* ===== verification/Timer_Refine.thy ===== *)
theory Timer_Refine
  imports Timer_List
begin

text \<open>
  The invariant of the timer queue and its abstraction: which timers wait, until when, and with which
  operations. Every operation keeps the invariant, stays inside the heap, returns, and does to the
  abstraction what its name says.
\<close>

section \<open>The invariant\<close>

text \<open>When a timer expires; no entry in the heap means never.\<close>

definition expiry :: "timer_queue \<Rightarrow> timer \<Rightarrow> ptime option" where
  "expiry q = map_of (map (\<lambda>e. (he_timer e, he_time e)) (tq_heap q))"

definition waiting :: "timer_queue \<Rightarrow> timer \<Rightarrow> (ptime option \<times> op_queue) option" where
  "waiting q t = (case td_op_queue (tq_data q t) of [] \<Rightarrow> None | op # ops \<Rightarrow> Some (expiry q t, op # ops))"

text \<open>All but the operations; then with them, for a queue between two calls.\<close>

definition shape_ok :: "timer_queue \<Rightarrow> timer list \<Rightarrow> bool" where
  "shape_ok q xs \<longleftrightarrow> heap_ok q \<and> length (tq_heap q) \<le> heap_max_size \<and> links_ok q xs \<and> in_heap q \<subseteq> set xs \<and>
     (\<forall>t \<in> set xs - in_heap q. td_heap_index (tq_data q t) = Some size_max)"

definition queue_ok :: "timer_queue \<Rightarrow> timer list \<Rightarrow> bool" where
  "queue_ok q xs \<longleftrightarrow> shape_ok q xs \<and> (\<forall>t. td_op_queue (tq_data q t) = [] \<longleftrightarrow> t \<notin> set xs)"

lemma queue_ok_new: "queue_ok timer_queue_new []"
  by (simp add: queue_ok_def shape_ok_def heap_ok_def placed_def heap_order_def heap_times_def links_ok_def in_heap_def
      timer_queue_new_def per_timer_data_new_def)

lemma placed_distinct: "placed q \<Longrightarrow> distinct (map he_timer (tq_heap q))"
  by (simp add: distinct_conv_nth placed_inj)

lemma expiry_iff: "placed q \<Longrightarrow> expiry q t = Some x \<longleftrightarrow> (\<exists>e \<in> set (tq_heap q). he_timer e = t \<and> he_time e = x)"
  using placed_distinct [of q] by (force simp: expiry_def map_of_eq_Some_iff comp_def)

lemma expiry_None: "expiry q t = None \<longleftrightarrow> t \<notin> in_heap q"
  by (simp add: expiry_def map_of_eq_None_iff in_heap_def image_comp comp_def)

lemma option_eqI: "(\<And>x. a = Some x \<longleftrightarrow> b = Some x) \<Longrightarrow> a = b"
  by (metis not_Some_eq)

lemma expiry_eqI:
  assumes "placed q" "placed q'" "set (tq_heap q') = set (tq_heap q)"
  shows "expiry q' = expiry q"
proof
  show "expiry q' t = expiry q t" for t using assms by (intro option_eqI) (auto simp: expiry_iff)
qed

lemma waiting_ops [simp]: "td_op_queue (tq_data q t) \<noteq> [] \<Longrightarrow> waiting q t = Some (expiry q t, td_op_queue (tq_data q t))"
  "td_op_queue (tq_data q t) = [] \<Longrightarrow> waiting q t = None"
  by (auto simp: waiting_def split: list.splits)

lemma waiting_None_iff: "queue_ok q xs \<Longrightarrow> waiting q t = None \<longleftrightarrow> t \<notin> set xs"
  by (cases "td_op_queue (tq_data q t) = []") (auto simp: queue_ok_def)

text \<open>The index of a timer of the list leads to its entry, or past the heap.\<close>

lemma index_of_timer:
  assumes "shape_ok q xs" "t \<in> set xs"
  obtains i where "heap_index t q = Inr i" "i < length (tq_heap q)" "he_timer (tq_heap q ! i) = t"
  | "heap_index t q = Inr size_max" "t \<notin> in_heap q" "length (tq_heap q) < size_max"
proof (cases "t \<in> in_heap q")
  case True
  then obtain i where "i < length (tq_heap q)" "he_timer (tq_heap q ! i) = t" by (auto simp: in_heap_def in_set_conv_nth)
  moreover from this have "heap_index t q = Inr i"
    using assms(1) by (auto simp: shape_ok_def heap_ok_def placed_def heap_index_def)
  ultimately show ?thesis using that by blast
next
  case False
  then show ?thesis
    using that assms by (auto simp: shape_ok_def heap_index_def heap_max_size_def size_max_def)
qed

text \<open>An update of the operations of a timer keeps the shape.\<close>

lemma shape_ok_ops [simp]: "shape_ok (on_timer t (td_op_queue_update f) q) xs = shape_ok q xs"
proof -
  let ?q = "on_timer t (td_op_queue_update f) q"
  have data: "td_next (tq_data ?q u) = td_next (tq_data q u)" "td_prev (tq_data ?q u) = td_prev (tq_data q u)"
    "td_heap_index (tq_data ?q u) = td_heap_index (tq_data q u)" for u
    by (auto simp: on_timer_def)
  have "linked (tq_data ?q) None (tq_timers q) xs = linked (tq_data q) None (tq_timers q) xs"
    by (rule linked_cong) (simp add: data)
  then show ?thesis
    by (simp add: shape_ok_def heap_ok_def placed_def links_ok_def in_heap_def heap_times_def data)
      (simp add: on_timer_def)
qed

lemma expiry_on_timer [simp]: "expiry (on_timer t f q) = expiry q"
  by (simp add: expiry_def on_timer_def)

lemma tq_data_ops [simp]:
  "td_op_queue (tq_data (on_timer t (td_op_queue_update f) q) u) =
    (if u = t then f (td_op_queue (tq_data q t)) else td_op_queue (tq_data q u))"
  by (simp add: on_timer_def)

section \<open>Removing\<close>

lemma same_timers_shape:
  assumes "same_timers q q'" "heap_ok q"
  shows "heap_ok q'" "in_heap q' = in_heap q" "expiry q' = expiry q" "td_op_queue (tq_data q' t) = td_op_queue (tq_data q t)"
    "td_heap_index (tq_data q' t) = td_heap_index (tq_data q t)" "tq_heap q' = tq_heap q"
  using assms by (simp_all add: same_timers_def heap_ok_def placed_def heap_times_def in_heap_def expiry_def)

lemma remove_timer_ok:
  assumes "shape_ok q xs" "t \<in> set xs"
  obtains q' where "remove_timer t q = Inr q'" "shape_ok q' (remove1 t xs)"
    "\<And>u. td_op_queue (tq_data q' u) = td_op_queue (tq_data q u)" "expiry q' = (expiry q)(t := None)"
    "length (tq_heap q') = length (tq_heap q) - (if t \<in> in_heap q then 1 else 0)"
proof -
  have ok: "heap_ok q" "placed q" using assms(1) by (simp_all add: shape_ok_def heap_ok_def)
  have "\<exists>i r. heap_index t q = Inr i \<and> remove_from_heap i q = Inr r \<and> heap_ok r \<and> kept q r \<and>
    set (tq_heap r) = {e \<in> set (tq_heap q). he_timer e \<noteq> t} \<and>
    length (tq_heap r) = length (tq_heap q) - (if t \<in> in_heap q then 1 else 0)"
    using assms
  proof (rule index_of_timer)
    fix i assume i: "heap_index t q = Inr i" "i < length (tq_heap q)" "he_timer (tq_heap q ! i) = t"
    obtain r where r: "remove_from_heap i q = Inr r" "heap_ok r" "kept q r"
      "mset (tq_heap r) = mset (tq_heap q) - {#tq_heap q ! i#}"
      using remove_from_heap_ok [OF ok(1) i(2)] .
    have m: "mset (tq_heap r) = mset (remove1 (tq_heap q ! i) (tq_heap q))" using r(4) by simp
    have d: "distinct (map he_timer (tq_heap q))" using ok(2) by (rule placed_distinct)
    have "set (tq_heap r) = set (tq_heap q) - {tq_heap q ! i}"
      using mset_eq_setD [OF m] d by (simp add: distinct_map set_remove1_eq)
    also have "\<dots> = {e \<in> set (tq_heap q). he_timer e \<noteq> t}"
      using i(2,3) d by (auto simp: distinct_map dest: inj_onD)
    finally have "set (tq_heap r) = {e \<in> set (tq_heap q). he_timer e \<noteq> t}" .
    moreover have "t \<in> in_heap q" using i(2,3) by (auto simp: in_heap_def)
    moreover have "length (tq_heap r) = length (tq_heap q) - 1"
      using mset_eq_length [OF m] i(2) by (simp add: length_remove1)
    ultimately show ?thesis using i(1) r by auto
  next
    assume "heap_index t q = Inr size_max" "t \<notin> in_heap q" "length (tq_heap q) < size_max"
    then show ?thesis
      using ok(1) moved_refl [of q] by (auto simp: remove_from_heap_def in_heap_def moved_def kept_def)
  qed
  then obtain i r where r: "heap_index t q = Inr i" "remove_from_heap i q = Inr r" "heap_ok r" "kept q r"
    "set (tq_heap r) = {e \<in> set (tq_heap q). he_timer e \<noteq> t}"
    "length (tq_heap r) = length (tq_heap q) - (if t \<in> in_heap q then 1 else 0)" by blast
  let ?q = "unlink t r"
  note s = same_timers_shape [OF same_timers_unlink [of r t] r(3)]
  have links: "links_ok r xs" using assms(1) links_ok_kept [OF r(4)] by (simp add: shape_ok_def)
  have heap: "in_heap r = in_heap q - {t}" by (auto simp: in_heap_def r(5))
  have "distinct xs" using links by (simp add: links_ok_def)
  have index: "td_heap_index (tq_data r u) = Some size_max" if "u \<in> set xs - in_heap r" "u \<noteq> t" for u
    using that assms(1) kept_links(5) [OF r(4), of u] by (auto simp: heap shape_ok_def)
  have "shape_ok ?q (remove1 t xs)"
    using s(1,2,5,6) links_ok_unlink [OF links assms(2)] assms(1) index \<open>distinct xs\<close> r(6)
    by (auto simp: shape_ok_def heap)
  moreover have "expiry ?q u = ((expiry q)(t := None)) u" for u
    using expiry_iff [of r] expiry_iff [OF ok(2)] r(3,5)
    by (intro option_eqI) (auto simp: s(3) heap_ok_def)
  then have "expiry ?q = (expiry q)(t := None)" by blast
  ultimately show ?thesis
    using that [of ?q] r s kept_links(2) [OF r(4)] by (simp add: remove_timer_def)
qed

section \<open>What the operations do\<close>

text \<open>Enqueueing: a timer that waits already keeps its expiry, whatever time is passed.\<close>

definition enqueued :: "ptime \<Rightarrow> wait_op \<Rightarrow> (ptime option \<times> op_queue) option \<Rightarrow> ptime option \<times> op_queue" where
  "enqueued time op w = (case w of
     None \<Rightarrow> (if is_pos_infinity time then None else Some time, [op])
   | Some (e, ops) \<Rightarrow> (e, ops @ [op]))"

lemma insert_timer_ok:
  assumes "queue_ok q xs" "t \<notin> set xs" "is_pos_infinity time \<or> length (tq_heap q) < heap_max_size"
  obtains q' where "bind_res (insert_heap time t q) (\<lambda>q. Inr (link t q)) = Inr q'" "shape_ok q' (t # xs)"
    "\<And>u. td_op_queue (tq_data q' u) = td_op_queue (tq_data q u)"
    "expiry q' = (expiry q)(t := if is_pos_infinity time then None else Some time)"
    "length (tq_heap q') \<le> Suc (length (tq_heap q))"
proof -
  have ok: "heap_ok q" "placed q" "links_ok q xs" "in_heap q \<subseteq> set xs" "t \<notin> in_heap q"
    using assms(1,2) by (auto simp: queue_ok_def shape_ok_def heap_ok_def)
  obtain r where r: "insert_heap time t q = Inr r" "heap_ok r"
    "mset (tq_heap r) = mset (tq_heap q) + (if is_pos_infinity time then {#} else {#\<lparr>he_time = time, he_timer = t\<rparr>#})"
    "tq_timers r = tq_timers q" "\<And>u. u \<notin> insert t (in_heap q) \<Longrightarrow> tq_data r u = tq_data q u"
    "\<And>u. (tq_data r u)\<lparr>td_heap_index := None\<rparr> = (tq_data q u)\<lparr>td_heap_index := None\<rparr>"
    "is_pos_infinity time \<Longrightarrow> td_heap_index (tq_data r t) = Some size_max"
    using insert_heap_ok [OF ok(1,5) assms(3)] by blast
  have data: "td_op_queue (tq_data r u) = td_op_queue (tq_data q u)" "td_next (tq_data r u) = td_next (tq_data q u)"
    "td_prev (tq_data r u) = td_prev (tq_data q u)" for u
    using r(6) [of u, THEN arg_cong [where f = td_op_queue]] r(6) [of u, THEN arg_cong [where f = td_next]]
      r(6) [of u, THEN arg_cong [where f = td_prev]] by simp_all
  have "linked (tq_data r) None (tq_timers q) xs = linked (tq_data q) None (tq_timers q) xs"
    by (rule linked_cong) (simp add: data)
  then have links: "links_ok r xs" using ok(3) by (simp add: links_ok_def data r(4))
  note s = same_timers_shape [OF same_timers_link [of r t] r(2)]
  have set: "set (tq_heap r) = set (tq_heap q) \<union> (if is_pos_infinity time then {} else {\<lparr>he_time = time, he_timer = t\<rparr>})"
    using arg_cong [where f = set_mset, OF r(3)] by (auto split: if_splits)
  have len: "length (tq_heap r) = length (tq_heap q) + (if is_pos_infinity time then 0 else 1)"
    using arg_cong [where f = size, OF r(3)] by (auto split: if_splits)
  have heap: "in_heap r = in_heap q \<union> (if is_pos_infinity time then {} else {t})" by (auto simp: in_heap_def set)
  have index: "td_heap_index (tq_data r u) = Some size_max" if "u \<in> set (t # xs)" "u \<notin> in_heap r" for u
    using that assms(1) r(5) [of u] r(7) by (cases "u = t") (auto simp: heap queue_ok_def shape_ok_def split: if_splits)
  have "length (tq_heap r) \<le> heap_max_size" using assms(1,3) by (auto simp: len queue_ok_def shape_ok_def)
  then have "shape_ok (link t r) (t # xs)"
    using s(1,2,5,6) links_ok_link [OF links assms(2)] ok(4) index by (auto simp: shape_ok_def heap split: if_splits)
  moreover have "expiry (link t r) u = ((expiry q)(t := if is_pos_infinity time then None else Some time)) u" for u
    using expiry_iff [of r u] expiry_iff [OF ok(2), of u] r(2) ok(5)
    by (intro option_eqI) (auto simp: s(3) heap_ok_def set in_heap_def split: if_splits)
  then have "expiry (link t r) = (expiry q)(t := if is_pos_infinity time then None else Some time)" by blast
  ultimately show ?thesis using that [of "link t r"] r(1) s data(1) len by simp
qed

text \<open>The first entry of the heap is the earliest timer.\<close>

lemma heap_first:
  assumes "heap_ok q" "tq_heap q = e # es"
  shows "expiry q (he_timer e) = Some (he_time e)" "expiry q t = Some x \<Longrightarrow> he_time e \<le> x"
proof -
  have p: "placed q" and o: "heap_order (heap_times q)" using assms(1) by (simp_all add: heap_ok_def)
  show "expiry q (he_timer e) = Some (he_time e)" using assms(2) by (simp add: expiry_def)
  have least: "heap_times q ! 0 \<le> heap_times q ! j" if "j < length (tq_heap q)" for j
    using that
  proof (induction j rule: less_induct)
    case (less j)
    show ?case
    proof (cases "j = 0")
      case False
      then have "heap_times q ! 0 \<le> heap_times q ! parent j" using less parent_less [of j] by simp
      also have "\<dots> \<le> heap_times q ! j" using o False less.prems by (simp add: heap_order_def)
      finally show ?thesis .
    qed simp
  qed
  moreover have "heap_times q ! j = he_time (tq_heap q ! j)" if "j < length (tq_heap q)" for j
    using that by (simp add: heap_times_def)
  moreover have "heap_times q ! 0 = he_time e" using assms(2) by (simp add: heap_times_def)
  ultimately have "he_time e \<le> he_time (tq_heap q ! j)" if "j < length (tq_heap q)" for j using that by metis
  then show "expiry q t = Some x \<Longrightarrow> he_time e \<le> x" by (auto simp: expiry_iff [OF p] in_set_conv_nth)
qed

lemma index_zero:
  assumes "shape_ok q xs" "t \<in> set xs" "heap_index t q = Inr 0"
  obtains e es where "tq_heap q = e # es" "he_timer e = t"
  using assms(1,2)
proof (rule index_of_timer)
  fix i assume "heap_index t q = Inr i" "i < length (tq_heap q)" "he_timer (tq_heap q ! i) = t"
  then show thesis using that assms(3) by (cases "tq_heap q") auto
next
  assume "heap_index t q = Inr size_max"
  then show thesis using assms(3) by (simp add: size_max_def)
qed

lemma queue_ok_waiting:
  assumes "queue_ok q xs"
  shows "waiting q t = (if t \<in> set xs then Some (expiry q t, td_op_queue (tq_data q t)) else None)"
  using assms by (auto simp: queue_ok_def)

lemma index_some: "shape_ok q xs \<Longrightarrow> t \<in> set xs \<Longrightarrow> \<exists>i. heap_index t q = Inr i"
  by (erule (1) index_of_timer) auto

lemma enqueue_timer_ok:
  assumes "queue_ok q xs" "t \<in> set xs \<or> is_pos_infinity time \<or> length (tq_heap q) < heap_max_size"
  obtains first q' where "enqueue_timer time t op q = Inr (first, q')"
    "queue_ok q' (if t \<in> set xs then xs else t # xs)"
    "waiting q' = (waiting q)(t \<mapsto> enqueued time op (waiting q t))"
    "length (tq_heap q') \<le> Suc (length (tq_heap q))"
    "\<And>u x. first \<Longrightarrow> expiry q' u = Some x \<Longrightarrow> \<exists>y \<le> x. expiry q' t = Some y"
    "\<And>x. \<not> first \<Longrightarrow> expiry q' t = Some x \<Longrightarrow> \<exists>u y. waiting q u \<noteq> None \<and> expiry q u = Some y \<and> y \<le> x"
proof -
  let ?ys = "if t \<in> set xs then xs else t # xs"
  have sh: "shape_ok q xs" "links_ok q xs" using assms(1) by (simp_all add: queue_ok_def shape_ok_def)
  have "\<exists>r. (if is_active t q then Inr q else bind_res (insert_heap time t q) (\<lambda>q. Inr (link t q))) = Inr r \<and>
    shape_ok r ?ys \<and> (\<forall>u. td_op_queue (tq_data r u) = td_op_queue (tq_data q u)) \<and>
    expiry r = (if t \<in> set xs then expiry q else (expiry q)(t := if is_pos_infinity time then None else Some time)) \<and>
    length (tq_heap r) \<le> Suc (length (tq_heap q))"
  proof (cases "t \<in> set xs")
    case True
    then show ?thesis using sh by (simp add: is_active_iff [OF sh(2)])
  next
    case False
    then obtain r where "bind_res (insert_heap time t q) (\<lambda>q. Inr (link t q)) = Inr r" "shape_ok r (t # xs)"
      "\<And>u. td_op_queue (tq_data r u) = td_op_queue (tq_data q u)"
      "expiry r = (expiry q)(t := if is_pos_infinity time then None else Some time)"
      "length (tq_heap r) \<le> Suc (length (tq_heap q))"
      using insert_timer_ok [OF assms(1) False, of time] assms(2) by blast
    then show ?thesis using False is_active_iff [OF sh(2), of t] by simp
  qed
  then obtain r where r: "(if is_active t q then Inr q else bind_res (insert_heap time t q) (\<lambda>q. Inr (link t q))) = Inr r"
    "shape_ok r ?ys" "\<And>u. td_op_queue (tq_data r u) = td_op_queue (tq_data q u)"
    "expiry r = (if t \<in> set xs then expiry q else (expiry q)(t := if is_pos_infinity time then None else Some time))"
    "length (tq_heap r) \<le> Suc (length (tq_heap q))" by blast
  let ?q = "on_timer t (td_op_queue_update (op_push op)) r"
  have t: "t \<in> set ?ys" by simp
  have sh': "shape_ok ?q ?ys" using r(2) by simp
  obtain i where i: "heap_index t ?q = Inr i" using index_some [OF sh' t] by blast
  let ?first = "i = 0 \<and> map_option wo_id (op_front (td_op_queue (tq_data ?q t))) = Some (wo_id op)"
  have e: "enqueue_timer time t op q = Inr (?first, ?q)" using r(1) i by (simp add: enqueue_timer_def Let_def)
  have ok: "queue_ok ?q ?ys" using sh' assms(1) r(3) by (auto simp: queue_ok_def op_push_def)
  have w: "waiting ?q = (waiting q)(t \<mapsto> enqueued time op (waiting q t))"
    using queue_ok_waiting [OF ok] queue_ok_waiting [OF assms(1)] assms(1) r(3,4)
    by (auto simp: enqueued_def op_push_def queue_ok_def)
  have early: "\<exists>y \<le> x. expiry ?q t = Some y" if "?first" "expiry ?q u = Some x" for u x
  proof -
    have "heap_index t ?q = Inr 0" using i that(1) by simp
    then obtain e es where h: "tq_heap ?q = e # es" "he_timer e = t" by (rule index_zero [OF sh' t])
    then show ?thesis using heap_first [of ?q e es] sh' that(2) by (auto simp: shape_ok_def)
  qed
  have late: "\<exists>u y. waiting q u \<noteq> None \<and> expiry q u = Some y \<and> y \<le> x" if "\<not> ?first" "expiry ?q t = Some x" for x
  proof (cases "t \<in> set xs")
    case True
    then show ?thesis using that(2) r(4) queue_ok_waiting [OF assms(1), of t] by auto
  next
    case False
    then have "td_op_queue (tq_data q t) = []" using assms(1) by (simp add: queue_ok_def)
    then have "i \<noteq> 0" using that(1) r(3) by (simp add: op_push_def op_front_def)
    have "t \<in> in_heap ?q" using that(2) expiry_None [of ?q t] by auto
    then obtain e es where h: "tq_heap ?q = e # es" by (cases "tq_heap ?q") (auto simp: in_heap_def)
    have "he_timer e \<noteq> t"
      using \<open>i \<noteq> 0\<close> i h sh' by (auto simp: heap_index_def shape_ok_def heap_ok_def placed_def)
    moreover have "he_timer e \<in> set ?ys" using h sh' by (auto simp: shape_ok_def in_heap_def)
    moreover have "expiry ?q (he_timer e) = Some (he_time e)" "he_time e \<le> x"
      using heap_first [of ?q e es] h sh' that(2) by (auto simp: shape_ok_def)
    ultimately show ?thesis using False r(4) queue_ok_waiting [OF assms(1), of "he_timer e"] by auto
  qed
  show ?thesis using that [OF e ok w] r(5) early late by (simp add: on_timer_def)
qed

lemma enqueue_timer_ex:
  assumes "queue_ok q xs" "length (tq_heap q) < heap_max_size"
  shows "\<exists>first q' ys. enqueue_timer time t op q = Inr (first, q') \<and> queue_ok q' ys \<and>
    waiting q' = (waiting q)(t \<mapsto> enqueued time op (waiting q t)) \<and> length (tq_heap q') \<le> Suc (length (tq_heap q)) \<and>
    (\<forall>x. \<not> first \<longrightarrow> expiry q' t = Some x \<longrightarrow> (\<exists>u y. waiting q u \<noteq> None \<and> expiry q u = Some y \<and> y \<le> x))"
proof -
  have "t \<in> set xs \<or> is_pos_infinity time \<or> length (tq_heap q) < heap_max_size" using assms(2) by simp
  then show ?thesis by (rule enqueue_timer_ok [OF assms(1)]) blast
qed

text \<open>Cancelling takes operations from the front, with their error code set.\<close>

abbreviation aborted :: "op_queue \<Rightarrow> op_queue" where
  "aborted \<equiv> map (wo_ec_update (\<lambda>_. Operation_aborted))"

lemma cancel_ops_eq:
  "n \<le> m \<Longrightarrow> cancel_ops m n ops q =
    (n + min (m - n) (length q), ops @ aborted (take (m - n) q), drop (m - n) q)"
proof (induction q arbitrary: n ops)
  case (Cons op q)
  show ?case
  proof (cases "n = m")
    case False
    then obtain k where "m = n + Suc k" using Cons.prems less_iff_Suc_add [of n m] by auto
    then show ?thesis using Cons.IH [of "Suc n"] by (simp add: op_push_def)
  qed simp
qed simp

lemma cancel_timer_ok:
  assumes "queue_ok q xs"
  obtains q' where "cancel_timer t ops m q =
      Inr (case waiting q t of None \<Rightarrow> (0, ops, q) | Some (e, os) \<Rightarrow> (min m (length os), ops @ aborted (take m os), q'))"
    "t \<notin> set xs \<Longrightarrow> q' = q" "length (tq_heap q') \<le> length (tq_heap q)" "\<exists>ys. queue_ok q' ys"
    "waiting q' = (waiting q)(t := case waiting q t of None \<Rightarrow> None
       | Some (e, os) \<Rightarrow> if length os \<le> m then None else Some (e, drop m os))"
proof (cases "t \<in> set xs")
  case False
  then have w: "waiting q t = None" using queue_ok_waiting [OF assms] by simp
  then have "(waiting q)(t := None) = waiting q" by auto
  moreover have "cancel_timer t ops m q = Inr (0, ops, q)"
    using False assms is_active_iff [of q xs t] by (simp add: cancel_timer_def queue_ok_def shape_ok_def)
  ultimately show ?thesis using that [of q] assms w by auto
next
  case True
  let ?os = "td_op_queue (tq_data q t)"
  let ?q = "on_timer t (td_op_queue_update (\<lambda>_. drop m ?os)) q"
  have sh: "shape_ok q xs" "links_ok q xs" and d: "distinct xs"
    using assms by (simp_all add: queue_ok_def shape_ok_def links_ok_def)
  have sh': "shape_ok ?q xs" using sh(1) by simp
  have w: "waiting q t = Some (expiry q t, ?os)" using True queue_ok_waiting [OF assms] by simp
  have c: "cancel_timer t ops m q = bind_res (if op_empty (drop m ?os) then remove_timer t ?q else Inr ?q)
      (\<lambda>r. Inr (min m (length ?os), ops @ aborted (take m ?os), r))"
    using True is_active_iff [OF sh(2), of t] by (simp add: cancel_timer_def cancel_ops_eq)
  show ?thesis
  proof (cases "length ?os \<le> m")
    case all: True
    obtain r where r: "remove_timer t ?q = Inr r" "shape_ok r (remove1 t xs)"
      "\<And>u. td_op_queue (tq_data r u) = td_op_queue (tq_data ?q u)" "expiry r = (expiry ?q)(t := None)"
      "length (tq_heap r) = length (tq_heap ?q) - (if t \<in> in_heap ?q then 1 else 0)"
      using remove_timer_ok [OF sh' True] by blast
    have ok: "queue_ok r (remove1 t xs)" using r(2,3) all assms d by (auto simp: queue_ok_def)
    have "waiting r = (waiting q)(t := None)"
      using queue_ok_waiting [OF ok] queue_ok_waiting [OF assms] r(3,4) d by auto
    then show ?thesis using that [of r] c r(1,5) ok w all True by (auto simp: op_empty_def on_timer_def)
  next
    case False
    have ok: "queue_ok ?q xs" using sh' assms False True by (auto simp: queue_ok_def)
    have "waiting ?q = (waiting q)(t \<mapsto> (expiry q t, drop m ?os))"
      using queue_ok_waiting [OF ok] queue_ok_waiting [OF assms] True by auto
    then show ?thesis using that [of ?q] c ok w False True by (auto simp: op_empty_def on_timer_def)
  qed
qed

section \<open>The timers that are due\<close>

definition due :: "ptime \<Rightarrow> (timer \<Rightarrow> (ptime option \<times> op_queue) option) \<Rightarrow> timer set" where
  "due now w = {t. \<exists>x ops. w t = Some (Some x, ops) \<and> x \<le> now}"

definition ops_of :: "(timer \<Rightarrow> (ptime option \<times> op_queue) option) \<Rightarrow> timer \<Rightarrow> op_queue" where
  "ops_of w t = (case w t of None \<Rightarrow> [] | Some (e, ops) \<Rightarrow> ops)"

definition time_of :: "(timer \<Rightarrow> (ptime option \<times> op_queue) option) \<Rightarrow> timer \<Rightarrow> ptime" where
  "time_of w t = (case w t of Some (Some x, ops) \<Rightarrow> x | _ \<Rightarrow> pos_infinity)"

lemma due_expiry: "queue_ok q xs \<Longrightarrow> t \<in> due now (waiting q) \<longleftrightarrow> (\<exists>x \<le> now. expiry q t = Some x)"
  using expiry_None [of q t] queue_ok_waiting [of q xs t]
  by (cases "t \<in> set xs") (auto simp: due_def queue_ok_def shape_ok_def)

text \<open>One turn of the loop, with the first timer of the heap due.\<close>

lemma ready_turn:
  assumes "queue_ok q xs" "tq_heap q = e # es"
  obtains q' where "remove_timer (he_timer e) (on_timer (he_timer e) (td_op_queue_update (\<lambda>_. [])) q) = Inr q'"
    "queue_ok q' (remove1 (he_timer e) xs)" "waiting q' = (waiting q)(he_timer e := None)"
    "length (tq_heap q') < length (tq_heap q)"
proof -
  let ?t = "he_timer e" let ?q = "on_timer (he_timer e) (td_op_queue_update (\<lambda>_. [])) q"
  have sh: "shape_ok q xs" and d: "distinct xs" using assms(1) by (simp_all add: queue_ok_def shape_ok_def links_ok_def)
  have t: "?t \<in> in_heap q" "?t \<in> set xs" using sh assms(2) by (auto simp: shape_ok_def in_heap_def)
  have sh': "shape_ok ?q xs" using sh by simp
  obtain r where r: "remove_timer ?t ?q = Inr r" "shape_ok r (remove1 ?t xs)"
    "\<And>u. td_op_queue (tq_data r u) = td_op_queue (tq_data ?q u)" "expiry r = (expiry ?q)(?t := None)"
    "length (tq_heap r) = length (tq_heap ?q) - (if ?t \<in> in_heap ?q then 1 else 0)"
    using remove_timer_ok [OF sh' t(2)] by blast
  have ok: "queue_ok r (remove1 ?t xs)" using r(2,3) assms(1) d by (auto simp: queue_ok_def)
  have "waiting r = (waiting q)(?t := None)"
    using queue_ok_waiting [OF ok] queue_ok_waiting [OF assms(1)] r(3,4) d by auto
  moreover have "length (tq_heap r) < length (tq_heap q)" using r(5) t(1) assms(2) by (simp add: in_heap_def on_timer_def)
  ultimately show ?thesis using that r(1) ok by blast
qed

lemma ready_loop_ok:
  assumes "queue_ok q xs"
  shows "\<exists>ts q' ys. ready_loop now ops q = Some (Inr (ops @ concat (map (ops_of (waiting q)) ts), q')) \<and>
    distinct ts \<and> set ts = due now (waiting q) \<and> sorted (map (time_of (waiting q)) ts) \<and>
    waiting q' = waiting q |` (- due now (waiting q)) \<and> queue_ok q' ys \<and> length (tq_heap q') \<le> length (tq_heap q)"
  using assms
proof (induction "length (tq_heap q)" arbitrary: q xs ops rule: less_induct)
  case less
  have stop: ?case if "ready_loop now ops q = Some (Inr (ops, q))" "due now (waiting q) = {}"
    by (rule exI [of _ "[]"], rule exI [of _ q], rule exI [of _ xs]) (use that less.prems in \<open>auto simp: restrict_map_def\<close>)
  show ?case
  proof (cases "tq_heap q")
    case Nil
    then have "due now (waiting q) = {}"
      using due_expiry [OF less.prems] expiry_None [of q] by (auto simp: in_heap_def)
    then show ?thesis using stop Nil by (simp add: ready_loop.simps)
  next
    case (Cons e es)
    let ?t = "he_timer e"
    have ok: "heap_ok q" using less.prems by (simp add: queue_ok_def shape_ok_def)
    show ?thesis
    proof (cases "less_than now (he_time e)")
      case True
      then have "due now (waiting q) = {}"
        using due_expiry [OF less.prems] heap_first(2) [OF ok Cons] by (fastforce simp: less_than_def)
      then show ?thesis using stop Cons True by (simp add: ready_loop.simps)
    next
      case False
      obtain r where r: "remove_timer ?t (on_timer ?t (td_op_queue_update (\<lambda>_. [])) q) = Inr r"
        "queue_ok r (remove1 ?t xs)" "waiting r = (waiting q)(?t := None)" "length (tq_heap r) < length (tq_heap q)"
        using ready_turn [OF less.prems Cons] .
      obtain ts q' ys where IH:
        "ready_loop now (ops @ td_op_queue (tq_data q ?t)) r =
          Some (Inr ((ops @ td_op_queue (tq_data q ?t)) @ concat (map (ops_of (waiting r)) ts), q'))"
        "distinct ts" "set ts = due now (waiting r)" "sorted (map (time_of (waiting r)) ts)"
        "waiting q' = waiting r |` (- due now (waiting r))" "queue_ok q' ys" "length (tq_heap q') \<le> length (tq_heap r)"
        using less.hyps [OF r(4,2), of "ops @ td_op_queue (tq_data q ?t)"] by blast
      have e: "expiry q ?t = Some (he_time e)" using heap_first(1) [OF ok Cons] .
      then have "?t \<in> in_heap q" using expiry_None [of q ?t] by auto
      then have t: "waiting q ?t = Some (Some (he_time e), td_op_queue (tq_data q ?t))"
        using e less.prems queue_ok_waiting [OF less.prems] by (auto simp: queue_ok_def shape_ok_def)
      have tin: "?t \<in> due now (waiting q)" using t False by (auto simp: due_def less_than_def)
      have due: "due now (waiting r) = due now (waiting q) - {?t}" by (auto simp: due_def r(3))
      have same: "ops_of (waiting r) u = ops_of (waiting q) u" "time_of (waiting r) u = time_of (waiting q) u"
        if "u \<noteq> ?t" for u using that by (simp_all add: ops_of_def time_of_def r(3))
      have first: "time_of (waiting q) ?t \<le> time_of (waiting q) u" if "u \<in> set ts" for u
      proof -
        have "u \<in> due now (waiting q)" using that IH(3) due by simp
        then obtain x ops where "waiting q u = Some (Some x, ops)" by (auto simp: due_def)
        moreover from this have "expiry q u = Some x" using queue_ok_waiting [OF less.prems, of u] by (auto split: if_splits)
        ultimately show ?thesis using heap_first(2) [OF ok Cons] t by (simp add: time_of_def)
      qed
      have nt: "?t \<notin> set ts" using IH(3) due by simp
      then have ne: "u \<noteq> ?t" if "u \<in> set ts" for u using that by auto
      have "ready_loop now ops q = ready_loop now (ops @ td_op_queue (tq_data q ?t)) r"
        using Cons False r(1) by (subst ready_loop.simps) (simp add: op_push_queue_def)
      moreover have m: "map (ops_of (waiting r)) ts = map (ops_of (waiting q)) ts"
        "map (time_of (waiting r)) ts = map (time_of (waiting q)) ts" 
        using same [OF ne] by simp_all
      moreover have "sorted (map (time_of (waiting q)) ts)" using IH(4) unfolding m .
      moreover have "waiting q' = waiting q |` (- due now (waiting q))"
        using IH(5) [unfolded due] tin by (auto simp: r(3) restrict_map_def fun_eq_iff)
      ultimately show ?thesis
        using IH tin nt first r(4) t
        by - (rule exI [of _ "?t # ts"], rule exI [of _ q'], rule exI [of _ ys], auto simp: due ops_of_def)
    qed
  qed
qed

section \<open>All timers\<close>

lemma all_loop_ok:
  assumes "linked (tq_data q) p (tq_timers q) xs" "distinct xs"
  shows "\<exists>q'. all_loop ops q = Some (ops @ concat (map (\<lambda>t. td_op_queue (tq_data q t)) xs), q') \<and> tq_timers q' = None \<and>
    (\<forall>t. t \<notin> set xs \<longrightarrow> tq_data q' t = tq_data q t) \<and>
    (\<forall>t \<in> set xs. td_op_queue (tq_data q' t) = [] \<and> td_next (tq_data q' t) = None \<and> td_prev (tq_data q' t) = None)"
  using assms
proof (induction xs arbitrary: q p ops)
  case Nil
  then show ?case by (simp add: all_loop.simps)
next
  case (Cons t xs)
  let ?q = "on_timer t (\<lambda>d. d\<lparr>td_op_queue := [], td_next := None, td_prev := None\<rparr>) (q\<lparr>tq_timers := td_next (tq_data q t)\<rparr>)"
  have data: "tq_data ?q u = tq_data q u" if "u \<noteq> t" for u using that by (simp add: on_timer_def)
  have "linked (tq_data ?q) (Some t) (td_next (tq_data q t)) xs = linked (tq_data q) (Some t) (td_next (tq_data q t)) xs"
    by (rule linked_cong) (use Cons.prems(2) in \<open>auto simp: on_timer_def\<close>)
  then have "linked (tq_data ?q) (Some t) (tq_timers ?q) xs" using Cons.prems(1) by (simp add: on_timer_def)
  then obtain q' where q': "all_loop (ops @ td_op_queue (tq_data q t)) ?q =
      Some ((ops @ td_op_queue (tq_data q t)) @ concat (map (\<lambda>t. td_op_queue (tq_data ?q t)) xs), q')" "tq_timers q' = None"
    "\<forall>u. u \<notin> set xs \<longrightarrow> tq_data q' u = tq_data ?q u"
    "\<forall>u \<in> set xs. td_op_queue (tq_data q' u) = [] \<and> td_next (tq_data q' u) = None \<and> td_prev (tq_data q' u) = None"
    using Cons.IH [of ?q "Some t" "ops @ td_op_queue (tq_data q t)"] Cons.prems(2) by auto
  have "all_loop ops q = all_loop (ops @ td_op_queue (tq_data q t)) ?q"
    using Cons.prems(1) by (subst all_loop.simps) (simp add: op_push_queue_def)
  moreover have "map (\<lambda>t. td_op_queue (tq_data ?q t)) xs = map (\<lambda>t. td_op_queue (tq_data q t)) xs"
    using Cons.prems(2) by (auto simp: on_timer_def)
  moreover have "tq_data q' u = tq_data q u" if "u \<notin> set (t # xs)" for u using q'(3) that data [of u] by simp
  moreover have "td_op_queue (tq_data q' t) = [] \<and> td_next (tq_data q' t) = None \<and> td_prev (tq_data q' t) = None"
    using q'(3) Cons.prems(2) by (simp add: on_timer_def)
  ultimately show ?case using q'(1,2,4) by (intro exI [of _ q']) auto
qed

lemma get_all_timers_ok:
  assumes "queue_ok q xs"
  obtains q' where "get_all_timers ops q = Some (ops @ concat (map (ops_of (waiting q)) xs), q')"
    "queue_ok q' []" "waiting q' = Map.empty" "tq_heap q' = []"
proof -
  have l: "linked (tq_data q) None (tq_timers q) xs" "distinct xs" and
    free: "td_next (tq_data q t) = None" "td_prev (tq_data q t) = None" if "t \<notin> set xs" for t
    using assms that by (simp_all add: queue_ok_def shape_ok_def links_ok_def)
  obtain r where r: "all_loop ops q = Some (ops @ concat (map (\<lambda>t. td_op_queue (tq_data q t)) xs), r)" "tq_timers r = None"
    "\<And>t. t \<notin> set xs \<Longrightarrow> tq_data r t = tq_data q t"
    "\<And>t. t \<in> set xs \<Longrightarrow> td_op_queue (tq_data r t) = [] \<and> td_next (tq_data r t) = None \<and> td_prev (tq_data r t) = None"
    using all_loop_ok [of q None xs ops] assms by (auto simp: queue_ok_def shape_ok_def links_ok_def)
  have "map (ops_of (waiting q)) xs = map (\<lambda>t. td_op_queue (tq_data q t)) xs"
    using queue_ok_waiting [OF assms] by (simp add: ops_of_def)
  then have "concat (map (\<lambda>t. td_op_queue (tq_data q t)) xs) = concat (map (ops_of (waiting q)) xs)" by (rule arg_cong [OF sym])
  moreover have "td_op_queue (tq_data r t) = []" "td_next (tq_data r t) = None" "td_prev (tq_data r t) = None" for t
    using r(3,4) [of t] assms by (cases "t \<in> set xs"; simp add: queue_ok_def shape_ok_def links_ok_def)+
  with r(2) have "queue_ok (r\<lparr>tq_heap := []\<rparr>) []" "waiting (r\<lparr>tq_heap := []\<rparr>) = Map.empty"
    by (auto simp: queue_ok_def shape_ok_def heap_ok_def placed_def heap_order_def heap_times_def links_ok_def in_heap_def)
  ultimately show ?thesis using that [of "r\<lparr>tq_heap := []\<rparr>"] r(1) by (simp add: get_all_timers_def)
qed

section \<open>The result\<close>

lemma get_ready_timers_loop: "get_ready_timers now ops q = ready_loop now ops q"
  by (cases "tq_heap q") (simp_all add: get_ready_timers_def ready_loop.simps)

text \<open>
  C40. \<open>get_ready_timers\<close> returns, with the operations of exactly the timers that have expired by \<open>now\<close>,
  ordered by their expiry time and for one timer in the order they were enqueued; those timers wait no
  longer, all others wait as before, and heap and list are intact again.
\<close>

theorem get_ready_timers_spec:
  assumes "queue_ok q xs"
  shows "\<exists>ts q' ys. get_ready_timers now ops q = Some (Inr (ops @ concat (map (ops_of (waiting q)) ts), q')) \<and>
    distinct ts \<and> set ts = {t. \<exists>x os. waiting q t = Some (Some x, os) \<and> x \<le> now} \<and>
    sorted (map (time_of (waiting q)) ts) \<and>
    waiting q' = (\<lambda>t. if t \<in> set ts then None else waiting q t) \<and> queue_ok q' ys"
proof -
  have "waiting q |` (- due now (waiting q)) = (\<lambda>t. if t \<in> due now (waiting q) then None else waiting q t)"
    by (auto simp: restrict_map_def)
  then show ?thesis using ready_loop_ok [OF assms, of now ops] by (fastforce simp: due_def get_ready_timers_loop)
qed

definition demo_op :: "nat \<Rightarrow> wait_op" where
  "demo_op i = \<lparr>wo_id = i, wo_ec = Success\<rparr>"

text \<open>Timer 1 waits until 30, timer 2 until 10 with two operations, timer 3 for ever.\<close>

definition demo_queue :: timer_queue where
  "demo_queue = \<lparr>tq_timers = Some 1, tq_heap = [\<lparr>he_time = 10, he_timer = 2\<rparr>, \<lparr>he_time = 30, he_timer = 1\<rparr>],
     tq_data = (\<lambda>_. per_timer_data_new)(
       1 := \<lparr>td_op_queue = [demo_op 5], td_heap_index = Some 1, td_next = Some 2, td_prev = None\<rparr>,
       2 := \<lparr>td_op_queue = [demo_op 6, demo_op 7], td_heap_index = Some 0, td_next = Some 3, td_prev = Some 1\<rparr>,
       3 := \<lparr>td_op_queue = [demo_op 8], td_heap_index = Some size_max, td_next = None, td_prev = Some 2\<rparr>)\<rparr>"

lemma demo_queue_ok: "queue_ok demo_queue [1, 2, 3]"
proof -
  have "placed demo_queue" by (auto simp: placed_def demo_queue_def less_Suc_eq)
  moreover have "heap_order (heap_times demo_queue)" by (auto simp: heap_order_def heap_times_def demo_queue_def less_Suc_eq parent_def)
  moreover have "links_ok demo_queue [1, 2, 3]" by (auto simp: links_ok_def demo_queue_def per_timer_data_new_def)
  moreover have "in_heap demo_queue = {1, 2}" by (auto simp: in_heap_def demo_queue_def)
  moreover have "\<forall>t. td_op_queue (tq_data demo_queue t) = [] \<longleftrightarrow> t \<notin> set [1, 2, 3]"
    by (auto simp: demo_queue_def per_timer_data_new_def)
  ultimately show ?thesis
    by (simp add: queue_ok_def shape_ok_def heap_ok_def) (simp add: demo_queue_def heap_max_size_def)
qed

theorem get_ready_timers_spec_witness:
  "\<exists>q'. get_ready_timers 20 [] demo_queue = Some (Inr ([demo_op 6, demo_op 7], q')) \<and>
     waiting q' = (waiting demo_queue)(2 := None)"
proof -
  have w: "waiting demo_queue t = (if t = 1 then Some (Some 30, [demo_op 5]) else if t = 2 then Some (Some 10, [demo_op 6, demo_op 7])
      else if t = 3 then Some (None, [demo_op 8]) else None)" for t
    by (simp add: waiting_def demo_queue_def per_timer_data_new_def expiry_def)
  obtain ts q' where r: "get_ready_timers 20 [] demo_queue = Some (Inr ([] @ concat (map (ops_of (waiting demo_queue)) ts), q'))"
    "distinct ts" "set ts = {t. \<exists>x os. waiting demo_queue t = Some (Some x, os) \<and> x \<le> 20}"
    "waiting q' = (\<lambda>t. if t \<in> set ts then None else waiting demo_queue t)"
    using get_ready_timers_spec [OF demo_queue_ok, of 20 "[]"] by blast
  have "(\<exists>x os. waiting demo_queue t = Some (Some x, os) \<and> x \<le> 20) \<longleftrightarrow> t = 2" for t by (simp add: w)
  then have "set ts = {2}" unfolding r(3) by simp
  moreover from this have "length ts = 1" using distinct_card [OF r(2)] by simp
  ultimately have "ts = [2]" by (cases ts) simp_all
  then show ?thesis using r(1,4) by (auto simp: ops_of_def w fun_eq_iff)
qed

end
