(* ===== verification/Timer_Service.thy ===== *)
theory Timer_Service
  imports Timer_Refine Net_Socket
begin

text \<open>
  The users of the timer queue: the reactor (epoll_reactor.hpp, epoll_reactor.ipp, with a \<open>timerfd\<close> and
  the one queue that a thread of the server has), the service of the \<open>deadline_timer\<close>
  (deadline_timer_service.hpp), and on top the timer of a \<open>NetworkThread\<close>, which calls \<open>Update\<close> every ten
  milliseconds.
\<close>

section \<open>The contract of a store of timers\<close>

locale timer_store =
  fixes ok :: "'q \<Rightarrow> bool" and room :: "'q \<Rightarrow> bool"
    and wait :: "'q \<Rightarrow> timer \<Rightarrow> (ptime option \<times> op_queue) option"
    and enq :: "ptime \<Rightarrow> timer \<Rightarrow> wait_op \<Rightarrow> 'q \<Rightarrow> (bool \<times> 'q) res"
    and can :: "timer \<Rightarrow> op_queue \<Rightarrow> nat \<Rightarrow> 'q \<Rightarrow> (nat \<times> op_queue \<times> 'q) res"
  assumes enq_law: "ok q \<Longrightarrow> room q \<Longrightarrow>
      \<exists>b q'. enq time t op q = Inr (b, q') \<and> ok q' \<and> wait q' = (wait q)(t \<mapsto> enqueued time op (wait q t))"
    and can_law: "ok q \<Longrightarrow> \<exists>q'. can t ops m q =
        Inr (min m (length (ops_of (wait q) t)), ops @ aborted (take m (ops_of (wait q) t)), q') \<and> ok q' \<and> (room q \<longrightarrow> room q') \<and>
        wait q' = (wait q)(t := case wait q t of None \<Rightarrow> None | Some (e, os) \<Rightarrow> if length os \<le> m then None else Some (e, drop m os))"
begin

text \<open>To move a timer: cancel all that waits on it, then wait anew.\<close>

lemma cancel_all:
  assumes "ok q" "length (ops_of (wait q) t) \<le> m"
  obtains q' where "can t ops m q = Inr (length (ops_of (wait q) t), ops @ aborted (ops_of (wait q) t), q')"
    "ok q'" "room q \<Longrightarrow> room q'" "wait q' = (wait q)(t := None)"
proof -
  obtain q' where q': "can t ops m q =
      Inr (min m (length (ops_of (wait q) t)), ops @ aborted (take m (ops_of (wait q) t)), q')" "ok q'" "room q \<longrightarrow> room q'"
    "wait q' = (wait q)(t := case wait q t of None \<Rightarrow> None | Some (e, os) \<Rightarrow> if length os \<le> m then None else Some (e, drop m os))"
    using can_law [OF assms(1), of t ops m] by blast
  moreover have "(case wait q t of None \<Rightarrow> None | Some (e, os) \<Rightarrow> if length os \<le> m then None else Some (e, drop m os)) = None"
    using assms(2) by (auto simp: ops_of_def split: option.splits)
  ultimately show ?thesis using that assms(2) by (simp add: min_absorb2)
qed

lemma move_timer:
  assumes "ok q" "room q" "wait q t = None"
  obtains b q' where "enq time t op q = Inr (b, q')" "ok q'"
    "wait q' = (wait q)(t \<mapsto> (if is_pos_infinity time then None else Some time, [op]))"
  using enq_law [OF assms(1,2), of time t op] assms(3) by (auto simp: enqueued_def)

end

interpretation tq: timer_store "\<lambda>q. \<exists>xs. queue_ok q xs" "\<lambda>q. length (tq_heap q) < heap_max_size" waiting enqueue_timer cancel_timer
proof
  show "\<exists>b q'. enqueue_timer time t op q = Inr (b, q') \<and> (\<exists>xs. queue_ok q' xs) \<and>
      waiting q' = (waiting q)(t \<mapsto> enqueued time op (waiting q t))"
    if "\<exists>xs. queue_ok q xs" "length (tq_heap q) < heap_max_size" for q time t op
    using that enqueue_timer_ex [of q _ time t op] by blast
  show "\<exists>q'. cancel_timer t ops m q =
        Inr (min m (length (ops_of (waiting q) t)), ops @ aborted (take m (ops_of (waiting q) t)), q') \<and> (\<exists>xs. queue_ok q' xs) \<and>
        (length (tq_heap q) < heap_max_size \<longrightarrow> length (tq_heap q') < heap_max_size) \<and>
        waiting q' = (waiting q)(t := case waiting q t of None \<Rightarrow> None
          | Some (e, os) \<Rightarrow> if length os \<le> m then None else Some (e, drop m os))"
    if ex: "\<exists>xs. queue_ok q xs" for q t ops m
  proof -
    obtain xs where xs: "queue_ok q xs" using ex by blast
    obtain q' where q': "cancel_timer t ops m q =
        Inr (case waiting q t of None \<Rightarrow> (0, ops, q) | Some (e, os) \<Rightarrow> (min m (length os), ops @ aborted (take m os), q'))"
      "t \<notin> set xs \<Longrightarrow> q' = q" "length (tq_heap q') \<le> length (tq_heap q)" "\<exists>ys. queue_ok q' ys"
      "waiting q' = (waiting q)(t := case waiting q t of None \<Rightarrow> None
         | Some (e, os) \<Rightarrow> if length os \<le> m then None else Some (e, drop m os))"
      using cancel_timer_ok [OF xs] by blast
    have "cancel_timer t ops m q =
        Inr (min m (length (ops_of (waiting q) t)), ops @ aborted (take m (ops_of (waiting q) t)), q')"
      using q'(1,2) waiting_None_iff [OF xs, of t] by (auto simp: ops_of_def split: option.splits)
    then show ?thesis using q'(3-5) by auto
  qed
qed

section \<open>The reactor\<close>

text \<open>The argument of \<open>timerfd_settime\<close>, and the last call of it with its time.\<close>

record timeout =
  tv_sec :: int
  tv_nsec :: int
  tv_abstime :: bool

record reactor =
  rc_shutdown :: bool
  rc_queue :: timer_queue
  rc_timer_fd :: "(ptime \<times> timeout) option"
  rc_outstanding_work :: nat
  rc_op_queue :: op_queue
  rc_abandoned :: op_queue

definition reactor_new :: reactor where
  "reactor_new = \<lparr>rc_shutdown = False, rc_queue = timer_queue_new, rc_timer_fd = None, rc_outstanding_work = 0,
     rc_op_queue = [], rc_abandoned = []\<rparr>"

definition get_timeout :: "ptime \<Rightarrow> reactor \<Rightarrow> timeout res" where
  "get_timeout now R = bind_res (wait_duration_usec now (5 * 60 * 1000 * 1000) (rc_queue R)) (\<lambda>usec.
     Inr \<lparr>tv_sec = usec div 1000000, tv_nsec = (if usec \<noteq> 0 then (usec mod 1000000) * 1000 else 1), tv_abstime = (usec = 0)\<rparr>)"

definition update_timeout :: "ptime \<Rightarrow> reactor \<Rightarrow> reactor res" where
  "update_timeout now R = bind_res (get_timeout now R) (\<lambda>ts. Inr (R\<lparr>rc_timer_fd := Some (now, ts)\<rparr>))"

text \<open>
  An \<open>io_service\<close> that is made without a hint on its threads, as all are here, posts to its own queue
  (\<open>one_thread_\<close> is false), and no handler is a continuation.
\<close>

definition post_immediate_completion :: "wait_op \<Rightarrow> reactor \<Rightarrow> reactor" where
  "post_immediate_completion op R =
     R\<lparr>rc_outstanding_work := rc_outstanding_work R + 1, rc_op_queue := op_push op (rc_op_queue R)\<rparr>"

definition post_deferred_completions :: "op_queue \<Rightarrow> reactor \<Rightarrow> reactor" where
  "post_deferred_completions ops R =
     (if \<not> op_empty ops then R\<lparr>rc_op_queue := fst (op_push_queue ops (rc_op_queue R))\<rparr> else R)"

definition reactor_schedule_timer :: "ptime \<Rightarrow> ptime \<Rightarrow> timer \<Rightarrow> wait_op \<Rightarrow> reactor \<Rightarrow> reactor res" where
  "reactor_schedule_timer now time t op R =
     (if rc_shutdown R then Inr (post_immediate_completion op R)
      else bind_res (enqueue_timer time t op (rc_queue R)) (\<lambda>(earliest, q).
        let R = R\<lparr>rc_queue := q, rc_outstanding_work := rc_outstanding_work R + 1\<rparr>
        in if earliest then update_timeout now R else Inr R))"

definition reactor_cancel_timer :: "timer \<Rightarrow> nat \<Rightarrow> reactor \<Rightarrow> (nat \<times> reactor) res" where
  "reactor_cancel_timer t max_cancelled R =
     bind_res (cancel_timer t [] max_cancelled (rc_queue R)) (\<lambda>(n, ops, q).
       Inr (n, post_deferred_completions ops (R\<lparr>rc_queue := q\<rparr>)))"

text \<open>
  The end of \<open>run\<close>, when the \<open>timerfd\<close> is ready: it reads the clock twice. The operations it returns go to
  the queue of the \<open>io_service\<close>.
\<close>

definition reactor_check_timers :: "ptime \<Rightarrow> ptime \<Rightarrow> reactor \<Rightarrow> reactor res option" where
  "reactor_check_timers now later R =
     (case get_ready_timers now [] (rc_queue R) of
        None \<Rightarrow> None
      | Some r \<Rightarrow> Some (bind_res r (\<lambda>(ops, q).
          update_timeout later (R\<lparr>rc_queue := q, rc_op_queue := rc_op_queue R @ ops\<rparr>))))"

text \<open>Of the shutdown, the timers; the operations of the descriptors are dropped in the same way.\<close>

definition reactor_shutdown_service :: "reactor \<Rightarrow> reactor option" where
  "reactor_shutdown_service R =
     map_option (\<lambda>(ops, q). R\<lparr>rc_shutdown := True, rc_queue := q, rc_abandoned := rc_abandoned R @ ops\<rparr>)
       (get_all_timers [] (rc_queue R))"

section \<open>The service and the timer of a network thread\<close>

record timer_impl =
  ti_expiry :: ptime
  ti_might_have_pending_waits :: bool
  ti_timer_data :: timer

definition service_construct :: "timer \<Rightarrow> timer_impl" where
  "service_construct t = \<lparr>ti_expiry = not_a_number, ti_might_have_pending_waits = False, ti_timer_data = t\<rparr>"

definition service_cancel :: "timer_impl \<Rightarrow> reactor \<Rightarrow> (nat \<times> timer_impl \<times> reactor) res" where
  "service_cancel impl R =
     (if \<not> ti_might_have_pending_waits impl then Inr (0, impl, R)
      else bind_res (reactor_cancel_timer (ti_timer_data impl) size_max R) (\<lambda>(count, R).
        Inr (count, impl\<lparr>ti_might_have_pending_waits := False\<rparr>, R)))"

definition service_cancel_one :: "timer_impl \<Rightarrow> reactor \<Rightarrow> (nat \<times> timer_impl \<times> reactor) res" where
  "service_cancel_one impl R =
     (if \<not> ti_might_have_pending_waits impl then Inr (0, impl, R)
      else bind_res (reactor_cancel_timer (ti_timer_data impl) 1 R) (\<lambda>(count, R).
        Inr (count, if count = 0 then impl\<lparr>ti_might_have_pending_waits := False\<rparr> else impl, R)))"

definition service_destroy :: "timer_impl \<Rightarrow> reactor \<Rightarrow> reactor res" where
  "service_destroy impl R = bind_res (service_cancel impl R) (\<lambda>(_, _, R). Inr R)"

definition service_expires_at :: "ptime \<Rightarrow> timer_impl \<Rightarrow> reactor \<Rightarrow> (nat \<times> timer_impl \<times> reactor) res" where
  "service_expires_at expiry_time impl R = bind_res (service_cancel impl R) (\<lambda>(count, impl, R).
     Inr (count, impl\<lparr>ti_expiry := expiry_time\<rparr>, R))"

definition service_expires_from_now :: "ptime \<Rightarrow> int \<Rightarrow> timer_impl \<Rightarrow> reactor \<Rightarrow> (nat \<times> timer_impl \<times> reactor) res" where
  "service_expires_from_now now d impl R = bind_res (add_time now d) (\<lambda>t. service_expires_at t impl R)"

definition service_async_wait :: "ptime \<Rightarrow> wait_op \<Rightarrow> timer_impl \<Rightarrow> reactor \<Rightarrow> (timer_impl \<times> reactor) res" where
  "service_async_wait now op impl R =
     (let impl = impl\<lparr>ti_might_have_pending_waits := True\<rparr>
      in bind_res (reactor_schedule_timer now (ti_expiry impl) (ti_timer_data impl) op R) (\<lambda>R. Inr (impl, R)))"

text \<open>\<open>milliseconds(10)\<close> in ticks, and the two lines with which \<open>Run\<close> and \<open>Update\<close> arm the timer.\<close>

definition milliseconds :: "int \<Rightarrow> int" where
  "milliseconds ms = ms * 1000"

definition arm_update_timer :: "ptime \<Rightarrow> wait_op \<Rightarrow> timer_impl \<Rightarrow> reactor \<Rightarrow> (timer_impl \<times> reactor) res" where
  "arm_update_timer now op impl R =
     bind_res (service_expires_from_now now (milliseconds 10) impl R) (\<lambda>(_, impl, R). service_async_wait now op impl R)"

section \<open>The alarm\<close>

text \<open>
  The times that a program meets: a special value, or one within two to the 62 microseconds, which the
  years up to 9999 are. When the \<open>timerfd\<close> gets ready, by the documentation of \<open>timerfd_settime\<close>: after
  the given time, or at once if an absolute time of the monotonic clock has passed.
\<close>

definition clock_ok :: "ptime \<Rightarrow> bool" where
  "clock_ok t \<longleftrightarrow> 0 \<le> t \<and> t < 2 ^ 62"

definition time_ok :: "ptime \<Rightarrow> bool" where
  "time_ok t \<longleftrightarrow> is_special t \<or> clock_ok t"

definition alarm :: "reactor \<Rightarrow> ptime option" where
  "alarm R = map_option (\<lambda>(now, ts).
     if tv_abstime ts then now else now + tv_sec ts * 1000000 + tv_nsec ts div 1000) (rc_timer_fd R)"

text \<open>What the reactor relies on: an intact queue, times in range, and an alarm no later than any expiry.\<close>

definition times_ok :: "timer_queue \<Rightarrow> bool" where
  "times_ok q \<longleftrightarrow> (\<forall>t x os. waiting q t = Some (Some x, os) \<longrightarrow> time_ok x \<and> x \<noteq> pos_infinity)"

definition alarm_ok :: "ptime \<Rightarrow> reactor \<Rightarrow> bool" where
  "alarm_ok now R \<longleftrightarrow> (\<forall>t x os. waiting (rc_queue R) t = Some (Some x, os) \<longrightarrow> (\<exists>a. alarm R = Some a \<and> a \<le> max x now))"

definition reactor_ok :: "ptime \<Rightarrow> reactor \<Rightarrow> bool" where
  "reactor_ok now R \<longleftrightarrow> (\<exists>xs. queue_ok (rc_queue R) xs) \<and> times_ok (rc_queue R) \<and> alarm_ok now R"

lemma expiry_waiting: "queue_ok q xs \<Longrightarrow> expiry q t = Some x \<longleftrightarrow> (\<exists>os. waiting q t = Some (Some x, os))"
  using expiry_None [of q t] queue_ok_waiting [of q xs t] by (cases "t \<in> set xs") (auto simp: queue_ok_def shape_ok_def)

lemma reactor_ok_later: "reactor_ok now R \<Longrightarrow> now \<le> later \<Longrightarrow> reactor_ok later R"
  unfolding reactor_ok_def alarm_ok_def by (meson max.mono order.refl order.trans)

lemma subtract_time_ok:
  assumes "time_ok x" "x \<noteq> pos_infinity" "clock_ok now" "0 \<le> m" "m < 2 ^ 61"
  obtains d where "subtract_time x now = Inr d" "now + to_usec d m \<le> max x now" "0 \<le> to_usec d m"
proof (cases "is_special x")
  case True
  have now: "now \<noteq> pos_infinity" "now \<noteq> neg_infinity" "now \<noteq> not_a_number"
    using assms(3) by (auto simp: clock_ok_def pos_infinity_def neg_infinity_def not_a_number_def)
  consider "x = not_a_number" | "x = neg_infinity" using True assms(2) by (auto simp: is_special_def)
  then show ?thesis
  proof cases
    case 1
    then show ?thesis
      using that [of not_a_number] now True assms(3-5)
      by (simp add: subtract_time_def special_minus_def to_usec_def Let_def clock_ok_def not_a_number_def)
  next
    case 2
    then show ?thesis
      using that [of neg_infinity] now True by (simp add: subtract_time_def special_minus_def to_usec_def neg_infinity_def not_a_number_def pos_infinity_def)
  qed
next
  case False
  then show ?thesis
    using that [of "x - now"] assms
    by (auto simp: time_ok_def clock_ok_def subtract_time_def is_special_def in_int64_def pos_infinity_def neg_infinity_def
        not_a_number_def to_usec_def Let_def)
qed

lemma update_timeout_ok:
  assumes "queue_ok (rc_queue R) xs" "times_ok (rc_queue R)" "clock_ok now"
  obtains fd where "update_timeout now R = Inr (R\<lparr>rc_timer_fd := fd\<rparr>)" "alarm_ok now (R\<lparr>rc_timer_fd := fd\<rparr>)"
proof -
  have "\<exists>usec \<ge> 0. wait_duration_usec now 300000000 (rc_queue R) = Inr usec \<and>
    (\<forall>t x os. waiting (rc_queue R) t = Some (Some x, os) \<longrightarrow> now + usec \<le> max x now)"
  proof (cases "tq_heap (rc_queue R)")
    case Nil
    then show ?thesis
      using expiry_waiting [OF assms(1)] by (intro exI [of _ 300000000]) (simp add: wait_duration_usec_def expiry_def)
  next
    case (Cons e es)
    have ok: "heap_ok (rc_queue R)" using assms(1) by (simp add: queue_ok_def shape_ok_def)
    note first = heap_first [OF ok Cons]
    have "time_ok (he_time e)" "he_time e \<noteq> pos_infinity"
      using assms(2) first(1) expiry_waiting [OF assms(1)] by (auto simp: times_ok_def)
    then obtain d where "subtract_time (he_time e) now = Inr d" "now + to_usec d 300000000 \<le> max (he_time e) now"
      "0 \<le> to_usec d 300000000"
      using subtract_time_ok [of "he_time e" now 300000000] assms(3) by auto
    moreover have "max (he_time e) now \<le> max x now" if "waiting (rc_queue R) t = Some (Some x, os)" for t x os
      using that first(2) expiry_waiting [OF assms(1)] by (intro max.mono) auto
    ultimately show ?thesis
      using Cons by (intro exI [of _ "to_usec d 300000000"]) (auto simp: wait_duration_usec_def intro: order.trans)
  qed
  then obtain usec where u: "0 \<le> usec" "wait_duration_usec now 300000000 (rc_queue R) = Inr usec"
    "\<And>t x os. waiting (rc_queue R) t = Some (Some x, os) \<Longrightarrow> now + usec \<le> max x now" by blast
  let ?ts = "\<lparr>tv_sec = usec div 1000000, tv_nsec = (if usec \<noteq> 0 then (usec mod 1000000) * 1000 else 1), tv_abstime = (usec = 0)\<rparr>"
  have "update_timeout now R = Inr (R\<lparr>rc_timer_fd := Some (now, ?ts)\<rparr>)"
    using u(2) by (simp add: update_timeout_def get_timeout_def)
  moreover have "alarm (R\<lparr>rc_timer_fd := Some (now, ?ts)\<rparr>) = Some (now + usec)"
    using div_mult_mod_eq [of usec 1000000] by (simp add: alarm_def)
  then have "alarm_ok now (R\<lparr>rc_timer_fd := Some (now, ?ts)\<rparr>)" using u(3) by (auto simp: alarm_ok_def)
  ultimately show ?thesis by (rule that)
qed

section \<open>What becomes of an operation\<close>

definition ids :: "op_queue \<Rightarrow> nat multiset" where
  "ids ops = mset (map wo_id ops)"

definition pending :: "(timer \<Rightarrow> (ptime option \<times> op_queue) option) \<Rightarrow> nat multiset" where
  "pending w = (\<Sum>t \<in> dom w. ids (ops_of w t))"

definition accounted :: "reactor \<Rightarrow> nat multiset" where
  "accounted R = ids (rc_op_queue R) + ids (rc_abandoned R) + pending (waiting (rc_queue R))"

lemma ids_simps [simp]: "ids [] = {#}" "ids (a @ b) = ids a + ids b" "ids (op # a) = add_mset (wo_id op) (ids a)" "ids (aborted a) = ids a"
  by (simp_all add: ids_def comp_def)

lemma ids_concat: "distinct ts \<Longrightarrow> ids (concat (map f ts)) = (\<Sum>t \<in> set ts. ids (f t))"
  by (induction ts) simp_all

lemma pending_on: "finite A \<Longrightarrow> dom w \<subseteq> A \<Longrightarrow> pending w = (\<Sum>t \<in> A. ids (ops_of w t))"
  unfolding pending_def by (rule sum.mono_neutral_left) (auto simp: ops_of_def dom_def split: option.splits)

lemma pending_update:
  assumes "finite (dom w)"
  shows "pending (w(t := v)) + ids (ops_of w t) = pending w + ids (case v of None \<Rightarrow> [] | Some (e, os) \<Rightarrow> os)"
proof -
  let ?A = "insert t (dom w)"
  have "pending (w(t := v)) = ids (ops_of (w(t := v)) t) + (\<Sum>u \<in> ?A - {t}. ids (ops_of (w(t := v)) u))"
    using assms by (subst pending_on [of ?A]) (auto simp: sum.remove [of ?A t] split: if_splits)
  also have "(\<Sum>u \<in> ?A - {t}. ids (ops_of (w(t := v)) u)) = (\<Sum>u \<in> ?A - {t}. ids (ops_of w u))"
    by (rule sum.cong) (auto simp: ops_of_def)
  finally have "pending (w(t := v)) = ids (ops_of (w(t := v)) t) + (\<Sum>u \<in> ?A - {t}. ids (ops_of w u))" .
  moreover have "pending w = ids (ops_of w t) + (\<Sum>u \<in> ?A - {t}. ids (ops_of w u))"
    using assms by (subst pending_on [of ?A]) (auto simp: sum.remove [of ?A t])
  moreover have "ops_of (w(t := v)) t = (case v of None \<Rightarrow> [] | Some (e, os) \<Rightarrow> os)" by (simp add: ops_of_def)
  ultimately show ?thesis by (simp add: ac_simps)
qed

lemma pending_without:
  assumes "finite (dom w)" "D \<subseteq> dom w"
  shows "pending w = (\<Sum>t \<in> D. ids (ops_of w t)) + pending (\<lambda>t. if t \<in> D then None else w t)"
proof -
  let ?w = "\<lambda>t. if t \<in> D then None else w t"
  have "pending w = (\<Sum>t \<in> dom w - D. ids (ops_of w t)) + (\<Sum>t \<in> D. ids (ops_of w t))"
    unfolding pending_def by (rule sum.subset_diff [OF assms(2,1)])
  moreover have "dom ?w = dom w - D" by (auto simp: dom_def)
  then have "pending ?w = (\<Sum>t \<in> dom w - D. ids (ops_of w t))"
    unfolding pending_def by (intro sum.cong) (auto simp: ops_of_def)
  ultimately show ?thesis by (simp add: ac_simps)
qed

lemma finite_waiting: "queue_ok q xs \<Longrightarrow> dom (waiting q) = set xs" "queue_ok q xs \<Longrightarrow> finite (dom (waiting q))"
  by (auto simp: waiting_None_iff dom_def)

section \<open>The calls of the reactor\<close>

text \<open>What one call of the reactor does: it stays intact, and the operations \<open>new\<close> come to those it knows.\<close>

definition keeps_reactor :: "ptime \<Rightarrow> nat multiset \<Rightarrow> reactor \<Rightarrow> reactor \<Rightarrow> bool" where
  "keeps_reactor now new R R' \<longleftrightarrow> reactor_ok now R' \<and> accounted R' = accounted R + new \<and>
     length (tq_heap (rc_queue R')) \<le> length (tq_heap (rc_queue R)) + size new"

lemma update_timeout_keeps:
  assumes "queue_ok (rc_queue R) xs" "times_ok (rc_queue R)" "clock_ok now"
  obtains fd where "update_timeout now R = Inr (R\<lparr>rc_timer_fd := fd\<rparr>)" "reactor_ok now (R\<lparr>rc_timer_fd := fd\<rparr>)"
proof -
  obtain fd where "update_timeout now R = Inr (R\<lparr>rc_timer_fd := fd\<rparr>)" "alarm_ok now (R\<lparr>rc_timer_fd := fd\<rparr>)"
    using update_timeout_ok [OF assms] .
  then show ?thesis using that assms by (auto simp: reactor_ok_def)
qed

lemma accounted_fd [simp]: "accounted (R\<lparr>rc_timer_fd := fd\<rparr>) = accounted R"
  by (simp add: accounted_def)

lemma schedule_keeps:
  assumes "reactor_ok now R" "clock_ok now" "time_ok time" "length (tq_heap (rc_queue R)) < heap_max_size"
  obtains R' where "reactor_schedule_timer now time t op R = Inr R'" "keeps_reactor now {#wo_id op#} R R'"
    "rc_shutdown R' = rc_shutdown R" "\<not> rc_shutdown R \<longrightarrow> rc_op_queue R' = rc_op_queue R"
    "\<not> rc_shutdown R \<longrightarrow> waiting (rc_queue R') = (waiting (rc_queue R))(t \<mapsto> enqueued time op (waiting (rc_queue R) t))"
proof (cases "rc_shutdown R")
  case True
  let ?R = "post_immediate_completion op R"
  have "keeps_reactor now {#wo_id op#} R ?R"
    using assms(1) by (simp add: keeps_reactor_def reactor_ok_def alarm_ok_def alarm_def accounted_def post_immediate_completion_def op_push_def)
  then show ?thesis using that [of ?R] True by (simp add: reactor_schedule_timer_def post_immediate_completion_def)
next
  case False
  obtain xs where xs: "queue_ok (rc_queue R) xs" using assms(1) by (auto simp: reactor_ok_def)
  let ?w = "waiting (rc_queue R)"
  obtain first q ys where q: "enqueue_timer time t op (rc_queue R) = Inr (first, q)" "queue_ok q ys"
    "waiting q = ?w(t \<mapsto> enqueued time op (?w t))" "length (tq_heap q) \<le> Suc (length (tq_heap (rc_queue R)))"
    "\<forall>x. \<not> first \<longrightarrow> expiry q t = Some x \<longrightarrow> (\<exists>u y. ?w u \<noteq> None \<and> expiry (rc_queue R) u = Some y \<and> y \<le> x)"
    using enqueue_timer_ex [OF xs assms(4), of time t op] by blast
  let ?R = "R\<lparr>rc_queue := q, rc_outstanding_work := rc_outstanding_work R + 1\<rparr>"
  have times: "times_ok q"
    using assms(1,3) by (auto simp: reactor_ok_def times_ok_def q(3) enqueued_def is_pos_infinity_def split: option.splits if_splits)
  have "pending (waiting q) + ids (ops_of ?w t) = pending ?w + ids (ops_of ?w t) + {#wo_id op#}"
    unfolding q(3) using pending_update [OF finite_waiting(2) [OF xs], of t "Some (enqueued time op (?w t))"]
    by (auto simp: enqueued_def ops_of_def split: option.splits)
  then have acc: "accounted ?R = accounted R + {#wo_id op#}" by (simp add: accounted_def)
  have alarm: "alarm_ok now ?R" if "\<not> first"
    unfolding alarm_ok_def
  proof (intro allI impI)
    fix u x os assume u: "waiting (rc_queue ?R) u = Some (Some x, os)"
    have old: "\<exists>a. alarm R = Some a \<and> a \<le> max y now" if "?w v = Some (Some y, os)" for v y os
      using that assms(1) by (auto simp: reactor_ok_def alarm_ok_def)
    have "\<exists>v y os. ?w v = Some (Some y, os) \<and> y \<le> x"
    proof (cases "u = t")
      case True
      have "expiry q t = Some x" using u True expiry_waiting [OF q(2)] by auto
      then show ?thesis using q(5) that expiry_waiting [OF xs] by blast
    next
      case False
      then show ?thesis using u q(3) by auto
    qed
    then obtain v y os where "?w v = Some (Some y, os)" "y \<le> x" by blast
    then have "\<exists>a. alarm R = Some a \<and> a \<le> max x now" using old by (meson max.mono order.refl order.trans)
    then show "\<exists>a. alarm ?R = Some a \<and> a \<le> max x now" by (simp add: alarm_def)
  qed
  show ?thesis
  proof (cases first)
    case True
    obtain fd where "update_timeout now ?R = Inr (?R\<lparr>rc_timer_fd := fd\<rparr>)" "reactor_ok now (?R\<lparr>rc_timer_fd := fd\<rparr>)"
      using update_timeout_keeps [of ?R ys now] q(2) times assms(2) by auto
    moreover have "accounted (?R\<lparr>rc_timer_fd := fd\<rparr>) = accounted R + {#wo_id op#}" using acc by (simp only: accounted_fd)
    ultimately show ?thesis
      using that [of "?R\<lparr>rc_timer_fd := fd\<rparr>"] False True q(1,3,4) by (simp add: reactor_schedule_timer_def keeps_reactor_def)
  next
    case late: False
    then have "reactor_ok now ?R" using q(2) times alarm by (auto simp: reactor_ok_def)
    then show ?thesis
      using that [of ?R] False late q(1,3,4) acc by (simp add: reactor_schedule_timer_def keeps_reactor_def)
  qed
qed

lemma cancel_keeps:
  assumes "reactor_ok now R"
  obtains R' where "reactor_cancel_timer t m R = Inr (min m (length (ops_of (waiting (rc_queue R)) t)), R')"
    "keeps_reactor now {#} R R'" "rc_shutdown R' = rc_shutdown R"
    "rc_op_queue R' = rc_op_queue R @ aborted (take m (ops_of (waiting (rc_queue R)) t))"
    "waiting (rc_queue R') = (waiting (rc_queue R))(t := case waiting (rc_queue R) t of None \<Rightarrow> None
       | Some (e, os) \<Rightarrow> if length os \<le> m then None else Some (e, drop m os))"
proof -
  obtain xs where xs: "queue_ok (rc_queue R) xs" using assms by (auto simp: reactor_ok_def)
  let ?w = "waiting (rc_queue R)" let ?os = "ops_of (waiting (rc_queue R)) t"
  let ?v = "case ?w t of None \<Rightarrow> None | Some (e, os) \<Rightarrow> if length os \<le> m then None else Some (e, drop m os)"
  obtain q where q: "cancel_timer t [] m (rc_queue R) =
      Inr (case ?w t of None \<Rightarrow> (0, [], rc_queue R) | Some (e, os) \<Rightarrow> (min m (length os), [] @ aborted (take m os), q))"
    "t \<notin> set xs \<Longrightarrow> q = rc_queue R" "length (tq_heap q) \<le> length (tq_heap (rc_queue R))" "\<exists>ys. queue_ok q ys"
    "waiting q = ?w(t := ?v)"
    using cancel_timer_ok [OF xs, of t "[]" m] by blast
  let ?R = "R\<lparr>rc_queue := q, rc_op_queue := rc_op_queue R @ aborted (take m ?os)\<rparr>"
  have "cancel_timer t [] m (rc_queue R) = Inr (min m (length ?os), aborted (take m ?os), q)"
    using q(1,2) waiting_None_iff [OF xs, of t] by (auto simp: ops_of_def split: option.splits)
  then have r: "reactor_cancel_timer t m R = Inr (min m (length ?os), ?R)"
    by (simp add: reactor_cancel_timer_def post_deferred_completions_def op_empty_def op_push_queue_def)
  have "pending (waiting q) + ids ?os = pending ?w + ids (drop m ?os)"
    unfolding q(5) using pending_update [OF finite_waiting(2) [OF xs], of t ?v]
    by (auto simp: ops_of_def split: option.splits)
  moreover have "ids ?os = ids (take m ?os) + ids (drop m ?os)" by (metis append_take_drop_id ids_simps(2))
  ultimately have "pending (waiting q) + ids (take m ?os) = pending ?w" by simp
  then have "accounted ?R = accounted R" by (simp add: accounted_def ac_simps)
  moreover have "times_ok q" using assms by (auto simp: reactor_ok_def times_ok_def q(5) split: option.splits if_splits)
  moreover have "alarm_ok now ?R"
    unfolding alarm_ok_def
  proof (intro allI impI)
    fix u x os assume "waiting (rc_queue ?R) u = Some (Some x, os)"
    then have "\<exists>os. ?w u = Some (Some x, os)" by (auto simp: q(5) split: if_splits option.splits)
    then show "\<exists>a. alarm ?R = Some a \<and> a \<le> max x now" using assms by (auto simp: reactor_ok_def alarm_ok_def alarm_def)
  qed
  ultimately have "keeps_reactor now {#} R ?R" using q(3,4) by (simp add: keeps_reactor_def reactor_ok_def)
  then show ?thesis using that [of ?R] r q(5) by simp
qed

lemma check_timers_keeps:
  assumes "reactor_ok now R" "clock_ok later"
  obtains ts R' where "reactor_check_timers now later R = Some (Inr R')" "keeps_reactor later {#} R R'"
    "rc_shutdown R' = rc_shutdown R" "distinct ts" "set ts = due now (waiting (rc_queue R))"
    "rc_op_queue R' = rc_op_queue R @ concat (map (ops_of (waiting (rc_queue R))) ts)"
    "waiting (rc_queue R') = (\<lambda>t. if t \<in> due now (waiting (rc_queue R)) then None else waiting (rc_queue R) t)"
proof -
  obtain xs where xs: "queue_ok (rc_queue R) xs" using assms by (auto simp: reactor_ok_def)
  let ?w = "waiting (rc_queue R)"
  obtain ts q ys where q: "ready_loop now [] (rc_queue R) = Some (Inr (concat (map (ops_of ?w) ts), q))"
    "distinct ts" "set ts = due now ?w" "waiting q = ?w |` (- due now ?w)" "queue_ok q ys"
    "length (tq_heap q) \<le> length (tq_heap (rc_queue R))"
    using ready_loop_ok [OF xs, of now "[]"] by auto
  have g: "get_ready_timers now [] (rc_queue R) = Some (Inr (concat (map (ops_of ?w) ts), q))"
    using q(1) by (simp add: get_ready_timers_loop)
  let ?R = "R\<lparr>rc_queue := q, rc_op_queue := rc_op_queue R @ concat (map (ops_of ?w) ts)\<rparr>"
  have w: "waiting q = (\<lambda>t. if t \<in> due now ?w then None else ?w t)" by (auto simp: q(4) restrict_map_def)
  then have "times_ok q" using assms(1) by (simp add: reactor_ok_def times_ok_def)
  then obtain fd where r: "update_timeout later ?R = Inr (?R\<lparr>rc_timer_fd := fd\<rparr>)" "reactor_ok later (?R\<lparr>rc_timer_fd := fd\<rparr>)"
    using update_timeout_keeps [of ?R ys later] q(5) assms(2) by auto
  have "pending ?w = ids (concat (map (ops_of ?w) ts)) + pending (waiting q)"
    unfolding w using pending_without [OF finite_waiting(2) [OF xs], of "due now ?w"]
    by (auto simp: ids_concat [OF q(2)] q(3) due_def)
  then have "accounted (?R\<lparr>rc_timer_fd := fd\<rparr>) = accounted R" by (simp add: accounted_def ac_simps)
  then have "keeps_reactor later {#} R (?R\<lparr>rc_timer_fd := fd\<rparr>)" using r(2) q(6) by (simp add: keeps_reactor_def)
  then show ?thesis
    using that [of "?R\<lparr>rc_timer_fd := fd\<rparr>" ts] g r(1) q(2,3) w by (simp add: reactor_check_timers_def)
qed

lemma shutdown_keeps:
  assumes "reactor_ok now R"
  obtains R' where "reactor_shutdown_service R = Some R'" "keeps_reactor now {#} R R'"
proof -
  obtain xs where xs: "queue_ok (rc_queue R) xs" using assms by (auto simp: reactor_ok_def)
  let ?w = "waiting (rc_queue R)"
  obtain q where q: "get_all_timers [] (rc_queue R) = Some ([] @ concat (map (ops_of ?w) xs), q)"
    "queue_ok q []" "waiting q = Map.empty" "tq_heap q = []"
    using get_all_timers_ok [OF xs, of "[]"] .
  have "distinct xs" using xs by (simp add: queue_ok_def shape_ok_def links_ok_def)
  then have "pending ?w = ids (concat (map (ops_of ?w) xs))" by (simp add: ids_concat pending_def finite_waiting(1) [OF xs])
  then show ?thesis
    using that [of "R\<lparr>rc_shutdown := True, rc_queue := q, rc_abandoned := rc_abandoned R @ concat (map (ops_of ?w) xs)\<rparr>"] q
    by (auto simp: reactor_shutdown_service_def keeps_reactor_def reactor_ok_def times_ok_def alarm_ok_def accounted_def pending_def)
qed

section \<open>Runs of the reactor\<close>

datatype reactor_call = Schedule ptime timer wait_op | Cancel timer nat | Check ptime | Shutdown

text \<open>One call at the time \<open>now\<close>; \<open>Check later\<close> reads the clock again.\<close>

fun reactor_do :: "ptime \<Rightarrow> reactor_call \<Rightarrow> reactor \<Rightarrow> reactor res option" where
  "reactor_do now (Schedule time t op) R = Some (reactor_schedule_timer now time t op R)"
| "reactor_do now (Cancel t m) R = Some (bind_res (reactor_cancel_timer t m R) (\<lambda>(_, R). Inr R))"
| "reactor_do now (Check later) R = reactor_check_timers now later R"
| "reactor_do now Shutdown R = map_option Inr (reactor_shutdown_service R)"

fun reactor_run :: "(ptime \<times> reactor_call) list \<Rightarrow> reactor \<Rightarrow> reactor res option" where
  "reactor_run [] R = Some (Inr R)"
| "reactor_run ((now, c) # cs) R =
     (case reactor_do now c R of
        None \<Rightarrow> None
      | Some (Inl e) \<Rightarrow> Some (Inl e)
      | Some (Inr R') \<Rightarrow> reactor_run cs R')"

fun call_end :: "ptime \<times> reactor_call \<Rightarrow> ptime" where
  "call_end (now, Check later) = later"
| "call_end (now, c) = now"

text \<open>A clock that does not run backwards, in range, and times in range.\<close>

fun calls_ok :: "ptime \<Rightarrow> (ptime \<times> reactor_call) list \<Rightarrow> bool" where
  "calls_ok now [] = True"
| "calls_ok now ((n, c) # cs) \<longleftrightarrow> now \<le> n \<and> n \<le> call_end (n, c) \<and> clock_ok n \<and> clock_ok (call_end (n, c)) \<and>
     (case c of Schedule time t op \<Rightarrow> time_ok time | _ \<Rightarrow> True) \<and> calls_ok (call_end (n, c)) cs"

fun scheduled :: "(ptime \<times> reactor_call) list \<Rightarrow> nat multiset" where
  "scheduled [] = {#}"
| "scheduled ((n, c) # cs) = (case c of Schedule time t op \<Rightarrow> {#wo_id op#} | _ \<Rightarrow> {#}) + scheduled cs"

definition last_clock :: "ptime \<Rightarrow> (ptime \<times> reactor_call) list \<Rightarrow> ptime" where
  "last_clock now cs = (if cs = [] then now else call_end (last cs))"

lemma reactor_do_keeps:
  assumes "reactor_ok now R" "calls_ok now ((n, c) # cs)" "length (tq_heap (rc_queue R)) < heap_max_size"
  obtains R' where "reactor_do n c R = Some (Inr R')" "keeps_reactor (call_end (n, c)) (scheduled [(n, c)]) R R'"
proof -
  have n: "reactor_ok n R" "clock_ok n" using assms(1,2) by (auto intro: reactor_ok_later)
  show ?thesis
  proof (cases c)
    case (Schedule time t op)
    then have "time_ok time" using assms(2) by simp
    from schedule_keeps [OF n this assms(3), of t op] obtain R' where
      "reactor_schedule_timer n time t op R = Inr R'" "keeps_reactor n {#wo_id op#} R R'" .
    then show ?thesis using that [of R'] Schedule by simp
  next
    case (Cancel t m)
    from cancel_keeps [OF n(1), of t m] obtain R' where
      "reactor_cancel_timer t m R = Inr (min m (length (ops_of (waiting (rc_queue R)) t)), R')" "keeps_reactor n {#} R R'" .
    then show ?thesis using that [of R'] Cancel by simp
  next
    case (Check later)
    then have "clock_ok later" using assms(2) by simp
    from check_timers_keeps [OF n(1) this] obtain R' where
      "reactor_check_timers n later R = Some (Inr R')" "keeps_reactor later {#} R R'" .
    then show ?thesis using that [of R'] Check by simp
  next
    case Shutdown
    from shutdown_keeps [OF n(1)] obtain R' where "reactor_shutdown_service R = Some R'" "keeps_reactor n {#} R R'" .
    then show ?thesis using that [of R'] Shutdown by simp
  qed
qed

lemma reactor_run_keeps:
  assumes "reactor_ok now R" "calls_ok now cs" "length (tq_heap (rc_queue R)) + length cs \<le> heap_max_size"
  shows "\<exists>R'. reactor_run cs R = Some (Inr R') \<and> reactor_ok (last_clock now cs) R' \<and> accounted R' = accounted R + scheduled cs"
  using assms
proof (induction cs arbitrary: now R)
  case Nil
  then show ?case by (simp add: last_clock_def)
next
  case (Cons nc cs)
  obtain n c where nc: "nc = (n, c)" by (cases nc)
  obtain R' where r: "reactor_do n c R = Some (Inr R')" "keeps_reactor (call_end (n, c)) (scheduled [(n, c)]) R R'"
    using reactor_do_keeps [of now R n c cs] Cons.prems nc by auto
  have "size (scheduled [(n, c)]) \<le> 1" by (cases c) simp_all
  then have "length (tq_heap (rc_queue R')) + length cs \<le> heap_max_size" using r(2) Cons.prems(3) nc by (simp add: keeps_reactor_def)
  moreover have "reactor_ok (call_end (n, c)) R'" "calls_ok (call_end (n, c)) cs" using r(2) Cons.prems(2) nc by (simp_all add: keeps_reactor_def)
  ultimately obtain R'' where "reactor_run cs R' = Some (Inr R'')" "reactor_ok (last_clock (call_end (n, c)) cs) R''"
    "accounted R'' = accounted R' + scheduled cs"
    using Cons.IH by blast
  moreover have "last_clock (call_end (n, c)) cs = last_clock now (nc # cs)" by (simp add: last_clock_def nc)
  ultimately show ?case using r by (simp add: nc keeps_reactor_def ac_simps)
qed

lemma reactor_ok_new: "reactor_ok now reactor_new" "accounted reactor_new = {#}"
proof -
  have "waiting timer_queue_new = (\<lambda>_. None)" by (auto simp: waiting_def timer_queue_new_def per_timer_data_new_def)
  then show "reactor_ok now reactor_new" "accounted reactor_new = {#}"
    using queue_ok_new by (auto simp: reactor_ok_def reactor_new_def times_ok_def alarm_ok_def accounted_def pending_def)
qed

text \<open>
  C32. Whatever is scheduled and cancelled on a reactor, by a clock that does not run backwards: every call
  returns, none leaves the heap or follows a stale pointer, and afterwards the kernel's timer is set no
  later than any expiry for which a timer waits, or than the last call if that expiry has passed, so
  that no timer is forgotten. Each operation that was scheduled is in one place: handed over (once),
  dropped by the shutdown, or waiting.
\<close>

theorem reactor_forgets_no_timer:
  assumes "calls_ok 0 calls" "length calls \<le> heap_max_size"
  shows "\<exists>R. reactor_run calls reactor_new = Some (Inr R) \<and>
    (\<forall>t x ops. waiting (rc_queue R) t = Some (Some x, ops) \<longrightarrow>
       (\<exists>a. alarm R = Some a \<and> a \<le> max x (last_clock 0 calls))) \<and>
    mset (map wo_id (rc_op_queue R)) + mset (map wo_id (rc_abandoned R)) + pending (waiting (rc_queue R)) = scheduled calls"
  using reactor_run_keeps [OF reactor_ok_new(1) assms(1)] assms(2) reactor_ok_new(2)
  by (auto simp: reactor_ok_def alarm_ok_def accounted_def ids_def reactor_new_def timer_queue_new_def)

text \<open>Two timers, the later one first; the first of them is handed over at its time, the second is cancelled.\<close>

definition demo_calls :: "(ptime \<times> reactor_call) list" where
  "demo_calls = [(5, Schedule 90 1 (demo_op 1)), (10, Schedule 40 2 (demo_op 2)), (40, Check 41), (50, Cancel 1 1)]"

theorem reactor_forgets_no_timer_witness:
  "\<exists>R. reactor_run demo_calls reactor_new = Some (Inr R) \<and>
    mset (map wo_id (rc_op_queue R)) + mset (map wo_id (rc_abandoned R)) + pending (waiting (rc_queue R)) = {#1, 2#}"
proof -
  have "calls_ok 0 demo_calls" "length demo_calls \<le> heap_max_size" "scheduled demo_calls = {#1, 2#}"
    by (simp_all add: demo_calls_def demo_op_def clock_ok_def time_ok_def heap_max_size_def)
  then show ?thesis using reactor_forgets_no_timer [of demo_calls] by auto
qed

section \<open>The timer of a network thread\<close>

text \<open>\<open>Update\<close> with the timer that it arms: first the timer, then the sockets.\<close>

definition NetworkThread_Update_timed ::
  "ptime \<Rightarrow> wait_op \<Rightarrow> (sock \<Rightarrow> bool) \<Rightarrow> socks \<Rightarrow> net_thread \<Rightarrow> timer_impl \<Rightarrow> reactor \<Rightarrow>
    ((socks \<times> net_thread) \<times> timer_impl \<times> reactor) res" where
  "NetworkThread_Update_timed now op upd S t impl R =
     (if nt_stopped t then Inr (NetworkThread_Update upd S t, impl, R)
      else bind_res (arm_update_timer now op impl R) (\<lambda>(impl, R). Inr (NetworkThread_Update upd S t, impl, R)))"

lemma expires_from_now_ok:
  assumes "reactor_ok now R" "clock_ok now" "clock_ok (now + milliseconds ms)" "0 \<le> ms"
    and "waiting (rc_queue R) (ti_timer_data impl) \<noteq> None \<longrightarrow> ti_might_have_pending_waits impl"
    and "length (ops_of (waiting (rc_queue R)) (ti_timer_data impl)) \<le> size_max"
  obtains n R' where "service_expires_from_now now (milliseconds ms) impl R =
      Inr (n, impl\<lparr>ti_might_have_pending_waits := False, ti_expiry := now + milliseconds ms\<rparr>, R')"
    "reactor_ok now R'" "rc_shutdown R' = rc_shutdown R" "length (tq_heap (rc_queue R')) \<le> length (tq_heap (rc_queue R))"
    "rc_op_queue R' = rc_op_queue R @ aborted (ops_of (waiting (rc_queue R)) (ti_timer_data impl))"
    "waiting (rc_queue R') = (waiting (rc_queue R))(ti_timer_data impl := None)"
proof -
  let ?t = "ti_timer_data impl" let ?w = "waiting (rc_queue R)"
  have add: "add_time now (milliseconds ms) = Inr (now + milliseconds ms)"
    using assms(2-4) by (simp add: add_time_def is_special_def clock_ok_def milliseconds_def in_int64_def pos_infinity_def
        neg_infinity_def not_a_number_def)
  show ?thesis
  proof (cases "ti_might_have_pending_waits impl")
    case True
    obtain R' where r: "reactor_cancel_timer ?t size_max R = Inr (min size_max (length (ops_of ?w ?t)), R')"
      "keeps_reactor now {#} R R'" "rc_shutdown R' = rc_shutdown R"
      "rc_op_queue R' = rc_op_queue R @ aborted (take size_max (ops_of ?w ?t))"
      "waiting (rc_queue R') = ?w(?t := case ?w ?t of None \<Rightarrow> None
         | Some (e, os) \<Rightarrow> if length os \<le> size_max then None else Some (e, drop size_max os))"
      using cancel_keeps [OF assms(1)] .
    have "(case ?w ?t of None \<Rightarrow> None | Some (e, os) \<Rightarrow> if length os \<le> size_max then None else Some (e, drop size_max os)) = None"
      using assms(6) by (auto simp: ops_of_def split: option.splits)
    then show ?thesis
      using that [of _ R'] True r add assms(6)
      by (simp add: service_expires_from_now_def service_expires_at_def service_cancel_def keeps_reactor_def)
  next
    case False
    then have "?w ?t = None" using assms(5) by blast
    moreover from this have "?w(?t := None) = ?w" by auto
    moreover have "impl\<lparr>ti_might_have_pending_waits := False\<rparr> = impl" using False by simp
    ultimately show ?thesis
      using that [of 0 R] False add assms(1)
      by (simp add: service_expires_from_now_def service_expires_at_def service_cancel_def ops_of_def)
  qed
qed

text \<open>
  C39. The timer of a network thread: an \<open>Update\<close> that does not stop cancels what still waits on the timer,
  whose operations are handed over as aborted, and leaves exactly one new operation, for ten milliseconds
  later; the kernel's timer is set no later. That operation is handed over by the first check of the
  timers at or after that time, and by none before; no other timer is touched.
\<close>

theorem update_runs_every_ten_milliseconds:
  assumes "reactor_ok now R" "\<not> rc_shutdown R" "clock_ok now" "clock_ok (now + 10000)"
    and "length (tq_heap (rc_queue R)) < heap_max_size" "\<not> nt_stopped t"
    and "waiting (rc_queue R) (ti_timer_data impl) \<noteq> None \<longrightarrow> ti_might_have_pending_waits impl"
    and "length (ops_of (waiting (rc_queue R)) (ti_timer_data impl)) \<le> size_max"
  shows "\<exists>impl' R'. NetworkThread_Update_timed now op upd S t impl R = Inr (NetworkThread_Update upd S t, impl', R') \<and>
    waiting (rc_queue R') = (waiting (rc_queue R))(ti_timer_data impl \<mapsto> (Some (now + 10000), [op])) \<and>
    rc_op_queue R' = rc_op_queue R @ aborted (ops_of (waiting (rc_queue R)) (ti_timer_data impl)) \<and>
    (\<exists>a. alarm R' = Some a \<and> a \<le> now + 10000) \<and>
    (\<forall>check later. now \<le> check \<and> clock_ok later \<longrightarrow>
      (\<exists>R''. reactor_check_timers check later R' = Some (Inr R'') \<and>
        (if now + 10000 \<le> check
         then waiting (rc_queue R'') (ti_timer_data impl) = None \<and> op \<in> set (drop (length (rc_op_queue R')) (rc_op_queue R''))
         else waiting (rc_queue R'') (ti_timer_data impl) = Some (Some (now + 10000), [op]))))"
proof -
  let ?i = "ti_timer_data impl" let ?w = "waiting (rc_queue R)"
  have ms: "milliseconds 10 = 10000" by (simp add: milliseconds_def)
  obtain n R1 where r1: "service_expires_from_now now 10000 impl R =
      Inr (n, impl\<lparr>ti_might_have_pending_waits := False, ti_expiry := now + 10000\<rparr>, R1)"
    "reactor_ok now R1" "rc_shutdown R1 = rc_shutdown R" "length (tq_heap (rc_queue R1)) \<le> length (tq_heap (rc_queue R))"
    "rc_op_queue R1 = rc_op_queue R @ aborted (ops_of ?w ?i)" "waiting (rc_queue R1) = ?w(?i := None)"
    using expires_from_now_ok [of now R 10 impl] assms unfolding ms by auto
  have t: "time_ok (now + 10000)" "\<not> is_pos_infinity (now + 10000)"
    using assms(4) by (simp_all add: time_ok_def is_pos_infinity_def clock_ok_def pos_infinity_def)
  have room: "length (tq_heap (rc_queue R1)) < heap_max_size" using r1(4) assms(5) by simp
  obtain R2 where r2: "reactor_schedule_timer now (now + 10000) ?i op R1 = Inr R2" "keeps_reactor now {#wo_id op#} R1 R2"
    "rc_shutdown R2 = rc_shutdown R1" "\<not> rc_shutdown R1 \<longrightarrow> rc_op_queue R2 = rc_op_queue R1"
    "\<not> rc_shutdown R1 \<longrightarrow> waiting (rc_queue R2) =
      (waiting (rc_queue R1))(?i \<mapsto> enqueued (now + 10000) op (waiting (rc_queue R1) ?i))"
    using schedule_keeps [OF r1(2) assms(3) t(1) room, of ?i op] .
  have w: "waiting (rc_queue R2) = ?w(?i \<mapsto> (Some (now + 10000), [op]))"
    using r2(5) assms(2) r1(3,6) t(2) by (simp add: enqueued_def)
  have ok: "reactor_ok now R2" using r2(2) by (simp add: keeps_reactor_def)
  have a: "\<exists>a. alarm R2 = Some a \<and> a \<le> now + 10000"
    using ok w by (fastforce simp: reactor_ok_def alarm_ok_def)
  have "NetworkThread_Update_timed now op upd S t impl R = Inr (NetworkThread_Update upd S t,
      impl\<lparr>ti_might_have_pending_waits := True, ti_expiry := now + 10000\<rparr>, R2)"
    using r1(1) r2(1) assms(6) by (simp add: NetworkThread_Update_timed_def arm_update_timer_def ms service_async_wait_def)
  moreover have "\<exists>R''. reactor_check_timers check later R2 = Some (Inr R'') \<and>
      (if now + 10000 \<le> check
       then waiting (rc_queue R'') ?i = None \<and> op \<in> set (drop (length (rc_op_queue R2)) (rc_op_queue R''))
       else waiting (rc_queue R'') ?i = Some (Some (now + 10000), [op]))" if c: "now \<le> check" "clock_ok later" for check later
  proof -
    obtain ts R3 where r3: "reactor_check_timers check later R2 = Some (Inr R3)" "set ts = due check (waiting (rc_queue R2))"
      "rc_op_queue R3 = rc_op_queue R2 @ concat (map (ops_of (waiting (rc_queue R2))) ts)"
      "waiting (rc_queue R3) = (\<lambda>t. if t \<in> due check (waiting (rc_queue R2)) then None else waiting (rc_queue R2) t)"
      using check_timers_keeps [OF reactor_ok_later [OF ok c(1)] c(2)] .
    have "?i \<in> due check (waiting (rc_queue R2)) \<longleftrightarrow> now + 10000 \<le> check" by (simp add: due_def w)
    then show ?thesis using r3 by (auto simp: w ops_of_def)
  qed
  ultimately show ?thesis using w a r1(3,5) r2(4) assms(2) by auto
qed

theorem update_runs_every_ten_milliseconds_witness:
  "\<exists>impl' R'. NetworkThread_Update_timed 100 (demo_op 1) (\<lambda>_. True) (\<lambda>_. Socket_init True) NetworkThread_init (service_construct 0) reactor_new =
      Inr (NetworkThread_Update (\<lambda>_. True) (\<lambda>_. Socket_init True) NetworkThread_init, impl', R') \<and>
    waiting (rc_queue R') = [0 \<mapsto> (Some 10100, [demo_op 1])] \<and>
    (\<exists>R''. reactor_check_timers 10100 10101 R' = Some (Inr R'') \<and> demo_op 1 \<in> set (rc_op_queue R''))"
proof -
  have w: "waiting (rc_queue reactor_new) = Map.empty"
    by (auto simp: waiting_def reactor_new_def timer_queue_new_def per_timer_data_new_def)
  have h: "length (tq_heap (rc_queue reactor_new)) < heap_max_size" "\<not> rc_shutdown reactor_new" "rc_op_queue reactor_new = []"
    by (simp_all add: reactor_new_def timer_queue_new_def heap_max_size_def)
  have c: "clock_ok 100" "clock_ok (100 + 10000)" by (simp_all add: clock_ok_def)
  have i: "ti_timer_data (service_construct 0) = 0" "\<not> nt_stopped NetworkThread_init"
    by (simp_all add: service_construct_def NetworkThread_init_def)
  have o: "ops_of Map.empty 0 = []" by (simp add: ops_of_def)
  obtain impl' R' where r: "NetworkThread_Update_timed 100 (demo_op 1) (\<lambda>_. True) (\<lambda>_. Socket_init True) NetworkThread_init (service_construct 0) reactor_new =
      Inr (NetworkThread_Update (\<lambda>_. True) (\<lambda>_. Socket_init True) NetworkThread_init, impl', R')"
    "waiting (rc_queue R') = [0 \<mapsto> (Some (100 + 10000), [demo_op 1])]" "rc_op_queue R' = [] @ aborted []"
    "\<forall>check later. 100 \<le> check \<and> clock_ok later \<longrightarrow> (\<exists>R''. reactor_check_timers check later R' = Some (Inr R'') \<and>
        (if 100 + 10000 \<le> check
         then waiting (rc_queue R'') 0 = None \<and> demo_op 1 \<in> set (drop (length (rc_op_queue R')) (rc_op_queue R''))
         else waiting (rc_queue R'') 0 = Some (Some (100 + 10000), [demo_op 1])))"
    using update_runs_every_ten_milliseconds [OF reactor_ok_new(1) h(2) c h(1) i(2), of "service_construct 0" "demo_op 1" "\<lambda>_. True" "\<lambda>_. Socket_init True"]
    unfolding w i(1) h(3) o by auto
  have "\<exists>R''. reactor_check_timers 10100 10101 R' = Some (Inr R'') \<and> demo_op 1 \<in> set (rc_op_queue R'')"
    using r(4) [rule_format, of 10100 10101] r(3) by (auto simp: clock_ok_def)
  moreover have "waiting (rc_queue R') = [0 \<mapsto> (Some 10100, [demo_op 1])]" using r(2) by simp
  ultimately show ?thesis using r(1) by blast
qed

end
