(* ===== verification/Spec2Isabelle.thy ===== *)
theory Spec2Isabelle
  imports Game_System Aoi_Flow Game_Log Auth_Server Chat_System Old_Session Echo_Server Thread_Sample Wire_Flow Timer_Service
begin

text \<open>
  GameService is a game server in C++ on boost::asio and protobuf. This development models its own
  code, and of its libraries the wire format of protobuf and the timers of asio, and proves what its
  parts do.

  The program. \<open>main\<close> (Main.cpp) loads the world (World.cpp): the table of protocol messages
  (Protocol.cpp), the assets (Asset.cpp), the scenes (Scene.h) and the inhabitants (Hoster.cpp). It
  then starts the network (Socket.h, NetThread.h, AsyncAcceptor.h) and runs the loop of the world,
  which moves the inhabitants. A client's session (WorldSession.cpp) hands each packet to the player
  (Player.cpp), an entity (Entity.cpp) that is loaded from and saved to a data base (RedisManager.h).
  Entities that enter, leave or move in a scene (Scene.cpp) send messages to those near by through a
  priority queue (PriorityQueue.h) that a thread of its own empties (MessageDispatcher.cpp). The
  authentication server (AuthServer/, and an older one in AuthServer.cpp) is a program of its own,
  built on a copy of the network layer (NetWork/). Sample/ holds a chat, an echo server and a
  service with a pool of threads.

  The theories, and what they model.
  \<^item> Base: bytes, the range of \<open>int32_t\<close> and \<open>int64_t\<close>, the result type \<open>'a res\<close> of a call that can throw
    or run into undefined behaviour, the collections of rules, and the interface \<open>first_wins\<close> of a
    registry that keeps the first entry (\<open>std::unordered_map::emplace\<close>). Float32: \<open>float\<close> with its rounding,
    as far as the code computes with it.
  \<^item> Proto, Proto_Messages: the messages of Asset/P_Asset.proto, Asset/P_Protocol.proto and P_Server.proto
    that the code reads or writes, an unset optional field being \<open>None\<close>, and their getters.
  \<^item> Wire_Varint, Wire_Stream, Wire_Format: protobuf 2.6.0 in ThirdParty/, as far as the server needs it:
    variable-length integers, the coded streams over an array, and messages interpreted by their
    descriptors, with the parser, the sizes, the serialiser, the test of the required fields and \<open>MergeFrom\<close>.
    Wire_Safe: the parser returns on any bytes. Wire_Encode: the wire format as its documentation has
    it, which the serialiser refines. Wire_Roundtrip, Wire_Parse: what the parser makes of such bytes.
    Wire_Type: what it makes of any others. Its interface is the locale \<open>field_parser\<close>.
  \<^item> Wire_Schema, Wire_Messages, Wire_Codec: the message files as descriptors, the records of Proto and
    Proto_Messages as messages on the wire, and the codec they give. Wire_Session: the session and the
    saved player with that codec.
  \<^item> Common_Util, Game_Timer, Game_Log: CommonUtil.h, Timer.h, Log.h and Log.cpp.
  \<^item> Priority_Queue: PriorityQueue.h, with the interface \<open>prio_queue\<close>.
  \<^item> Scene_Grid: the index of a scene by its two axes (Scene.h, Scene.cpp), with the interface
    \<open>axis_index\<close>, and its abstraction to a map from entity to cell (\<open>grid_repr\<close>).
  \<^item> Registry: Protocol.cpp, Collocation.cpp, Asset.cpp. Redis_Client: RedisManager.h.
  \<^item> Net_Socket: Socket.h, NetThread.h, AsyncAcceptor.h, with the interface \<open>managed_socket\<close>. Net_Work:
    the copies in NetWork/. \<open>AsyncSend\<close> keeps a pointer into a string of its caller, not the bytes, so a socket
    knows of each write outstanding whether the kernel took it whole at once.
  \<^item> Game_World: the objects on the heap and the singletons (\<open>'d world\<close>): EntityManager, SceneManager,
    the queue of the dispatcher. Entity_Ops: the class Entity. Item_Model: Item/. Player_Ops,
    Hoster_Ops: Player.cpp, Hoster.cpp. Dispatcher: the thread of MessageDispatcher.cpp.
  \<^item> World_Session: WorldSession.cpp. World_Loop: World.cpp and the loop of Main.cpp. Game_Main: \<open>main\<close>.
    Old_Session: Session.h and Session.cpp at the top.
  \<^item> Outcome: a small calculus, \<open>post A P m\<close>, for a call whose result satisfies \<open>P\<close> and that fails only
    as \<open>A\<close> allows. World_Inv: the invariant \<open>world_ok\<close> of the heap and of every singleton, its failures
    (\<open>known_failure\<close>) and what each operation of a scene and of an entity keeps of it. World_Safe: the
    same for the owners of an object, the player, the session, the inhabitants and the dispatcher.
  \<^item> Game_System: the running server. Its threads meet in one step relation (\<open>system_step\<close>): the loop of
    the world, the network threads, the acceptor, the dispatcher and the writes that complete take turns, a handler
    at a time. A session is destroyed at the end of the step that takes away the last list, pending read or player
    that held it (\<open>release_sessions\<close>).
    Aoi_Flow: a message from the scene, through the queue and the dispatcher, to the socket of a client.
    Wire_Flow: the same with the codec of protobuf, down to the bytes of the packets.
  \<^item> Timer_Queue: the timer queue of asio in ThirdParty/, with its binary heap, its linked list and the
    operations of each timer. Timer_Heap: the order of the heap and the places of the timers. Timer_List:
    the list. Timer_Refine: the invariant (\<open>queue_ok\<close>), the abstraction to a map from timer to expiry and
    operations (\<open>waiting\<close>), and what each operation does to it. Timer_Service: the reactor and the timer
    service that use the queue, with the interface \<open>timer_store\<close>, and the timer of a NetworkThread.
  \<^item> Auth_Server: AuthServer/ and the older AuthServer.h and AuthServer.cpp.
  \<^item> Chat_Message, Chat_Room: Sample/chat_message.hpp, chat_server.cpp, chat_client.cpp, with the
    interface \<open>fifo_writer\<close>. Chat_System: the two programs, and one room with its clients.
    Echo_Server: Sample/server.cpp. Thread_Sample: Sample/muthasio.cpp.

  How the code is read. An operation of the code is one definition, named after it
  (\<open>Scene_UpdatePosition\<close> is \<open>Scene::UpdatePosition\<close>). Each one runs as a whole: the code guards its
  containers by mutexes, and its flags and counters are atomic; a step relation (\<open>net_step\<close>) or a list
  of events gives the interleavings. An object is named by a number; a \<open>shared_ptr\<close> is that number
  with a count of owners (\<open>w_refs\<close>), so that the last \<open>release\<close> runs the destructor. A call that C++
  leaves undefined (a null pointer, an index out of range, signed overflow, the conversion of a large
  \<open>float\<close>, an exception out of a destructor, a mutex locked twice by its owner) is the value
  \<open>Inl (UB _)\<close>, an exception \<open>Inl (Thrown _)\<close>. Integers are \<open>int\<close> with their wrap or their range written out.
  What the program prints is left out.

  What is a parameter. The codec of protobuf (\<open>codec\<close>; \<open>protobuf_codec\<close> is the instance with
  the laws that the theorems assume), the data base (\<open>redis\<close>), the order in which a
  hash set is iterated (\<open>en_ex\<close>, \<open>en_ez\<close>, \<open>en_order\<close>), the draws of the random generator, the clock,
  the descriptors and the asset files are arguments of the definitions that use them. A law of one of
  them that a theorem needs is a hypothesis of it, and its witness gives a function with that law.
  asio, but for its timers, is the facts that an operation was started and how it completed. What the
  kernel does with a \<open>timerfd\<close> is read off the last call that set it (\<open>alarm\<close>).

  What the lemmas show. The scene index refines a map from entity to cell. Its query gives, in any scene, only
  entities of cells within sight on both axes; which of them depends on the order of iteration, and what entering and leaving a
  scene send is stated relative to what the query gives. The server, from its start and whatever the
  clients send, fails only in a listed way; in each state that it reaches every name points to an
  object of the right class, the owners of an object are exactly those that can be counted, and an
  open session waits for at most one read. What holds a session keeps it alive, but the handler of a write does
  not hold it; the failures at the end of a session are shown to occur. An entity that enters is told to the clients near by. The
  queue is a priority queue. The registries keep the first entry and hold what was declared; a handler
  is found for the class of message that it reads. A network thread counts its connections until its
  \<open>Run\<close> returns. The loop of the world keeps its period, if it wakes up late as well. What a player saves is what it loads, if
  its bytes have no NUL. The parser of protobuf returns on any input of at most 64 MB, gives a well-formed
  message or fails, reads back what the serialiser wrote, and reads two messages in a row as their merge,
  which is what becomes of two packets that arrive together. The streams of the chat come out as they went in, in order, from one client to the others, and each
  writer has one write outstanding at most. The loop of
  the dispatcher over the due messages ends. The timer queue keeps its heap and its list, hands over the
  timers that are due in the order of their time, and the reactor never sets its alarm too late. A round of the dispatcher, a walk of an inhabitant, a
  packet of a client and \<open>main\<close> have the stated results on every branch. Some theorems state behaviour
  that the comments of the code do not promise: the first message of the queue is lost, a moved entity
  stays in its old cell, a closed session is never removed, and so on; each one has its own text.

  Bounds. The loops over the fields of a message and over the values of a packed field
  (\<open>message_loop\<close>, \<open>packed_values\<close>) have fuel, one more than the bytes in the buffer: each turn takes a
  byte at least, and \<open>ParseFromArray_returns\<close> shows that it is enough. The recursion of the parser is on the
  levels that are left of the hundred the library allows. The parser has no theorem above 64 MB, its
  limit on the input. The loops of the timer queue that empty it
  (\<open>ready_loop\<close>, \<open>all_loop\<close>) are \<open>partial_function\<close>s, as they need not end in a damaged queue; they
  return in an intact one. No other definition has fuel. Recursions are structural, or on the length of the input
  (\<open>server_receive\<close>, \<open>client_receive\<close>) or on an index of the heap (\<open>up_heap\<close>, \<open>down_heap\<close>),
  with termination proofs. The loops
  that never end (\<open>Dispatcher\<close>, \<open>WorldUpdateLoop\<close>) are run over a list of clock readings, one for each
  iteration; with each reading of \<open>WorldUpdateLoop_run\<close> comes the time by which \<open>sleep_for\<close> sleeps too long.

  What is not modelled. The other library code and the generated files; of the wire format, streams of
  more than one block, extensions, message sets and the check of UTF-8; of asio, the descriptors, the
  reactor without a \<open>timerfd\<close>, a second timer queue and the blocking wait; LockedQueue.h, which does not
  compile (it pushes to a member that \<open>std::queue\<close> has not) and is not used; the functions that
  Session.cpp calls and that no longer exist (they are the parameters of Old_Session); what two
  threads do in the middle of a handler, as a step of \<open>system_step\<close> is a whole one; Sample/Base.cpp,
  which only prints; the end of the network threads within \<open>system_step\<close>, as \<open>main\<close> never stops them;
  BehaviorTree.h and behaviac/, which only set two options of a library; the
  formatting of the log line; \<open>Lock\<close> and \<open>UnLock\<close> of the queue, which nothing calls; the weak ordering
  of elements of equal priority, which are served first in, first out here; the order of iteration of
  the set of inhabitants, which is that of loading here.
\<close>

end
